(* ===== verification/Prelude.thy ===== *)
theory Prelude
imports Main
  "HOL-Library.List_Lexorder" "HOL-Library.Char_ord" "HOL-Library.Product_Lexorder"
  "HOL-Library.AList" "HOL-Library.Multiset"
begin

text \<open>
  The vocabulary every component shares: the exception classes of the Python code and the result
  type of a call that may raise, Python's dictionaries (association lists that keep insertion
  order), negative slices, the text predicates of the constructors (\<open>str.strip\<close>, identifier and hash
  patterns), and timestamps that are either aware or naive.  The lemmas here are collected in
  \<open>res_simps\<close> (results) and \<open>dict_simps\<close> (dictionaries), which the component proofs pass to the
  simplifier.
\<close>

declare split_paired_All [simp del] split_paired_Ex [simp del]

named_theorems res_simps "results of calls that may raise"
named_theorems dict_simps "association lists as insertion-ordered dictionaries"


section \<open>Exceptions as values\<close>

text \<open>The exception classes the modelled code raises and dispatches on.  The text of a message is
  kept only where the code itself uses it (the reason of \<open>LoadHalted\<close>).\<close>

datatype exn =
    ValueError | TypeError | RuntimeError | LookupError | PermissionError
  | LoadHalted string | CallbackError | ArtifactMismatch
  | StaleLease | ReceiptMismatch | IdempotencyConflict | OperationNotFound | OperationStateConflict
  | FoundationError | StorageError | InterruptedOperation | ManualReviewRequired
  | CursorError | ProjectionNotFound | RebuildNotPermitted | ArithmeticError
  | WorkspaceError | GovernanceError | ApprovalError | StructuralError | PlanningError

type_synonym 'a res = "exn + 'a"

definition checkr :: "bool \<Rightarrow> exn \<Rightarrow> unit res" where
  "checkr ok e = (if ok then Inr () else Inl e)"

definition bindr :: "'a res \<Rightarrow> ('a \<Rightarrow> 'b res) \<Rightarrow> 'b res" where
  "bindr m f = (case m of Inl e \<Rightarrow> Inl e | Inr x \<Rightarrow> f x)"

fun mapr :: "('a \<Rightarrow> 'b res) \<Rightarrow> 'a list \<Rightarrow> 'b list res" where
  "mapr f [] = Inr []"
| "mapr f (x # xs) = bindr (f x) (\<lambda>y. bindr (mapr f xs) (\<lambda>ys. Inr (y # ys)))"

text \<open>A \<open>for\<close> loop whose body may raise.\<close>

fun foldr_res :: "('s \<Rightarrow> 'a \<Rightarrow> 's res) \<Rightarrow> 's \<Rightarrow> 'a list \<Rightarrow> 's res" where
  "foldr_res f s [] = Inr s"
| "foldr_res f s (x # xs) = bindr (f s x) (\<lambda>s'. foldr_res f s' xs)"

lemma checkr_Inr [res_simps]: "checkr ok e = Inr u \<longleftrightarrow> ok"
  by (simp add: checkr_def)

lemma checkr_Inl [res_simps]: "checkr ok e = Inl e' \<longleftrightarrow> \<not> ok \<and> e' = e"
  by (auto simp: checkr_def)

lemma bindr_Inr [res_simps]: "bindr m f = Inr y \<longleftrightarrow> (\<exists>x. m = Inr x \<and> f x = Inr y)"
  by (auto simp: bindr_def split: sum.splits)

lemma bindr_Inl [res_simps]:
  "bindr m f = Inl e \<longleftrightarrow> m = Inl e \<or> (\<exists>x. m = Inr x \<and> f x = Inl e)"
  by (auto simp: bindr_def split: sum.splits)

lemma if_Inr [res_simps]: "(if P then m else Inl e) = Inr y \<longleftrightarrow> P \<and> m = Inr y"
  by simp

lemma bindr_simps [simp]: "bindr (Inr x) f = f x" "bindr (Inl e) f = Inl e"
  by (simp_all add: bindr_def)

lemma bindr_checkr [simp]:
  "bindr (checkr ok e) f = (if ok then f () else Inl e)"
  by (simp add: checkr_def)

lemma mapr_Inr: "mapr f xs = Inr ys \<longleftrightarrow> list_all2 (\<lambda>x y. f x = Inr y) xs ys"
proof (induction xs arbitrary: ys)
  case Nil
  then show ?case by (auto simp: list_all2_Nil)
next
  case (Cons x xs)
  then show ?case by (auto simp: res_simps list_all2_Cons1)
qed

lemma mapr_one_error:
  assumes "\<And>x. x \<in> set xs \<Longrightarrow> f x = (if P x then Inr (g x) else Inl e)"
  shows "mapr f xs = (if list_all P xs then Inr (map g xs) else Inl e)"
  using assms by (induction xs) auto

lemma mapr_total: "(\<And>x. x \<in> set xs \<Longrightarrow> f x = Inr (g x)) \<Longrightarrow> mapr f xs = Inr (map g xs)"
  by (induction xs) auto

lemma mapr_map: "mapr f (map g xs) = mapr (\<lambda>x. f (g x)) xs"
  by (induction xs) simp_all

lemma foldr_res_append:
  "foldr_res f s (xs @ ys) = bindr (foldr_res f s xs) (\<lambda>s'. foldr_res f s' ys)"
proof (induction xs arbitrary: s)
  case Nil
  then show ?case by simp
next
  case (Cons x xs)
  then show ?case by (cases "f s x") simp_all
qed

lemma foldr_res_invariant:
  assumes "foldr_res f s xs = Inr s'" and "I s"
    and "\<And>s x t. I s \<Longrightarrow> x \<in> set xs \<Longrightarrow> f s x = Inr t \<Longrightarrow> I t"
  shows "I s'"
  using assms
proof (induction xs arbitrary: s)
  case Nil
  then show ?case by simp
next
  case (Cons x xs)
  from Cons.prems(1) obtain t where t: "f s x = Inr t" "foldr_res f t xs = Inr s'"
    by (auto simp: res_simps)
  show ?case
    by (rule Cons.IH[OF t(2)]) (use Cons.prems t in \<open>auto\<close>)
qed


section \<open>Runs of operations on one state\<close>

text \<open>A client that performs operations one after another; an operation that raises leaves the
  stored state as it was, because every transition of the code returns a new frozen value.\<close>

fun run_ops :: "('op \<Rightarrow> 's \<Rightarrow> 's res) \<Rightarrow> 'op list \<Rightarrow> 's \<Rightarrow> 's" where
  "run_ops step [] s = s"
| "run_ops step (a # as) s =
    run_ops step as (case step a s of Inl _ \<Rightarrow> s | Inr s' \<Rightarrow> s')"

locale lifecycle =
  fixes step :: "'op \<Rightarrow> 's \<Rightarrow> 's res"
    and inv :: "'s \<Rightarrow> bool"
  assumes step_inv: "inv s \<Longrightarrow> step a s = Inr s' \<Longrightarrow> inv s'"
begin

lemma run_inv: "inv s \<Longrightarrow> inv (run_ops step as s)"
proof (induction as arbitrary: s)
  case Nil
  then show ?case by simp
next
  case (Cons a as)
  then show ?case by (auto split: sum.splits dest: step_inv)
qed

end

text \<open>A lifecycle with a set of states that are never left.\<close>

locale absorbing_lifecycle = lifecycle step inv
  for step :: "'op \<Rightarrow> 's \<Rightarrow> 's res" and inv :: "'s \<Rightarrow> bool" +
  fixes closed :: "'s \<Rightarrow> bool"
  assumes step_closed: "inv s \<Longrightarrow> closed s \<Longrightarrow> step a s = Inr s' \<Longrightarrow> closed s'"
begin

lemma run_closed: "inv s \<Longrightarrow> closed s \<Longrightarrow> closed (run_ops step as s)"
proof (induction as arbitrary: s)
  case Nil
  then show ?case by simp
next
  case (Cons a as)
  then show ?case by (auto split: sum.splits dest: step_inv step_closed)
qed

end

text \<open>A lifecycle with a measure that no operation decreases (a version, a fencing token).\<close>

locale monotone_lifecycle = lifecycle step inv
  for step :: "'op \<Rightarrow> 's \<Rightarrow> 's res" and inv :: "'s \<Rightarrow> bool" +
  fixes rank :: "'s \<Rightarrow> 'r::preorder"
  assumes step_rank: "inv s \<Longrightarrow> step a s = Inr s' \<Longrightarrow> rank s \<le> rank s'"
begin

lemma run_rank: "inv s \<Longrightarrow> rank s \<le> rank (run_ops step as s)"
proof (induction as arbitrary: s)
  case Nil
  then show ?case by simp
next
  case (Cons a as)
  then show ?case by (auto split: sum.splits dest: step_inv step_rank intro: order_trans)
qed

end

text \<open>A lifecycle whose states only evolve along a preorder.\<close>

locale evolving_lifecycle = lifecycle step inv
  for step :: "'op \<Rightarrow> 's \<Rightarrow> 's res" and inv :: "'s \<Rightarrow> bool" +
  fixes earlier :: "'s \<Rightarrow> 's \<Rightarrow> bool"
  assumes earlier_refl: "earlier s s"
    and earlier_trans: "earlier s t \<Longrightarrow> earlier t u \<Longrightarrow> earlier s u"
    and step_earlier: "inv s \<Longrightarrow> step a s = Inr s' \<Longrightarrow> earlier s s'"
begin

lemma run_earlier: "inv s \<Longrightarrow> earlier s (run_ops step as s)"
proof (induction as arbitrary: s)
  case Nil
  then show ?case by (simp add: earlier_refl)
next
  case (Cons a as)
  then show ?case by (auto split: sum.splits dest: step_inv step_earlier intro: earlier_trans)
qed

end

lemma run_ops_append: "run_ops f (as @ bs) s = run_ops f bs (run_ops f as s)"
  by (induction as arbitrary: s) (auto split: sum.splits)


section \<open>Dictionaries in insertion order\<close>

definition dict_get :: "('k \<times> 'v) list \<Rightarrow> 'k \<Rightarrow> 'v \<Rightarrow> 'v" where
  "dict_get d k v = (case map_of d k of None \<Rightarrow> v | Some x \<Rightarrow> x)"

definition dict_set :: "('k \<times> 'v) list \<Rightarrow> 'k \<Rightarrow> 'v \<Rightarrow> ('k \<times> 'v) list" where
  "dict_set d k v = AList.update k v d"

text \<open>\<open>{key x: value x for x in xs}\<close>.\<close>

definition dict_of :: "('a \<Rightarrow> 'k) \<Rightarrow> ('a \<Rightarrow> 'v) \<Rightarrow> 'a list \<Rightarrow> ('k \<times> 'v) list" where
  "dict_of key val xs = fold (\<lambda>x d. dict_set d (key x) (val x)) xs []"

text \<open>\<open>d.setdefault(k, set()).add(x)\<close> and \<open>d.setdefault(k, []).append(x)\<close>.\<close>

definition dict_add :: "('k \<times> 'v list) list \<Rightarrow> 'k \<Rightarrow> 'v \<Rightarrow> ('k \<times> 'v list) list" where
  "dict_add d k x = dict_set d k (List.insert x (dict_get d k []))"

definition dict_append :: "('k \<times> 'v list) list \<Rightarrow> 'k \<Rightarrow> 'v \<Rightarrow> ('k \<times> 'v list) list" where
  "dict_append d k x = dict_set d k (dict_get d k [] @ [x])"

text \<open>The relation a dictionary of lists stands for.\<close>

definition dict_rel :: "('k \<times> 'v list) list \<Rightarrow> ('k \<times> 'v) set" where
  "dict_rel d = {(x, y). y \<in> set (dict_get d x [])}"

text \<open>\<open>sorted(set(xs))\<close>.\<close>

definition sorted_set :: "'a::linorder list \<Rightarrow> 'a list" where
  "sorted_set xs = sort (remdups xs)"

lemma map_of_dict_set [dict_simps]: "map_of (dict_set d k v) = (map_of d)(k \<mapsto> v)"
  by (simp add: dict_set_def update_conv')

lemma dict_get_set [dict_simps]:
  "dict_get (dict_set d k v) k' w = (if k' = k then v else dict_get d k' w)"
  by (simp add: dict_get_def map_of_dict_set)

lemma dict_get_absent [simp]: "k \<notin> fst ` set d \<Longrightarrow> dict_get d k v = v"
  by (simp add: dict_get_def flip: map_of_eq_None_iff)

lemma dict_get_append: "dict_get (dict_append d k x) k' []
    = (if k' = k then dict_get d k [] @ [x] else dict_get d k' [])"
  by (simp add: dict_append_def dict_get_set)

lemma dict_get_fold_append:
  "dict_get (fold (\<lambda>e d. dict_append d (f e) (g e)) es d) k []
     = dict_get d k [] @ map g (filter (\<lambda>e. f e = k) es)"
  by (induction es arbitrary: d) (auto simp: dict_get_append)

lemma dict_get_add: "set (dict_get (dict_add d k x) k' [])
    = (if k' = k then insert x (set (dict_get d k [])) else set (dict_get d k' []))"
  by (simp add: dict_add_def dict_get_set)

lemma dict_get_map [simp]:
  "dict_get (map (\<lambda>v. (v, f v)) vs) k w = (if k \<in> set vs then f k else w)"
  by (simp add: dict_get_def map_of_map_restrict restrict_map_def)

lemma dict_rel_iff: "(x, y) \<in> dict_rel d \<longleftrightarrow> y \<in> set (dict_get d x [])"
  by (simp add: dict_rel_def)

lemma dict_rel_domain: "(x, y) \<in> dict_rel d \<Longrightarrow> x \<in> fst ` set d"
  by (rule ccontr) (simp add: dict_rel_iff)

lemma finite_dict_rel [simp]: "finite (dict_rel d)"
proof (rule finite_subset)
  show "dict_rel d \<subseteq> (\<Union>x\<in>fst ` set d. {x} \<times> set (dict_get d x []))"
    using dict_rel_domain by (fastforce simp: dict_rel_iff)
qed simp

lemma distinct_dict_set [dict_simps]:
  "distinct (map fst d) \<Longrightarrow> distinct (map fst (dict_set d k v))"
  by (simp add: dict_set_def distinct_update)

lemma keys_dict_set [dict_simps]: "fst ` set (dict_set d k v) = insert k (fst ` set d)"
  by (simp add: dict_set_def dom_update flip: dom_map_of_conv_image_fst)
     (simp add: update_conv' dom_map_of_conv_image_fst)

text \<open>A dictionary over the items of a list holds the last item of every key.\<close>

lemma dict_of_value: "map_of (dict_of key (\<lambda>r. r) rs) k = Some r \<Longrightarrow> r \<in> set rs \<and> key r = k"
proof -
  have "map_of (fold (\<lambda>x d. dict_set d (key x) x) rs d) k = Some r \<Longrightarrow> map_of d k = Some r \<or> r \<in> set rs \<and> key r = k" for d
  proof (induction rs arbitrary: d)
    case (Cons x rs)
    then have "map_of (dict_set d (key x) x) k = Some r \<or> r \<in> set rs \<and> key r = k" by simp
    then show ?case by (auto simp: map_of_dict_set split: if_splits)
  qed simp
  then show "map_of (dict_of key (\<lambda>r. r) rs) k = Some r \<Longrightarrow> r \<in> set rs \<and> key r = k"
    unfolding dict_of_def by fastforce
qed

lemma dict_of_entry:
  assumes "x \<in> set xs"
  obtains y where "(key x, y) \<in> set (dict_of key (\<lambda>d. d) xs)" "key y = key x" "y \<in> set xs"
proof -
  have "map_of (fold (\<lambda>x d. dict_set d (key x) x) xs d) k = Some y \<Longrightarrow>
      map_of d k = Some y \<or> (key y = k \<and> y \<in> set xs)" for d k y
  proof (induction xs arbitrary: d)
    case (Cons x xs)
    then have "map_of (dict_set d (key x) x) k = Some y \<or> (key y = k \<and> y \<in> set xs)" by simp
    then show ?case by (auto simp: map_of_dict_set split: if_splits)
  qed simp
  moreover have "fst ` set (fold (\<lambda>x d. dict_set d (key x) x) xs d) = fst ` set d \<union> key ` set xs" for d
    by (induction xs arbitrary: d) (auto simp: keys_dict_set)
  then have "key x \<in> fst ` set (dict_of key (\<lambda>d. d) xs)" using assms by (simp add: dict_of_def)
  then obtain y where y: "map_of (dict_of key (\<lambda>d. d) xs) (key x) = Some y" by (metis map_of_eq_None_iff not_None_eq)
  ultimately have "key y = key x \<and> y \<in> set xs" unfolding dict_of_def by fastforce
  with y have "map_of (dict_of key (\<lambda>d. d) xs) (key x) = Some y" "key y = key x" "y \<in> set xs" by simp_all
  then show thesis using that by (blast dest: map_of_SomeD)
qed

text \<open>Every entry of the first dictionary is still there in the second, related by \<open>R\<close>.\<close>

definition dict_grows :: "('v \<Rightarrow> 'v \<Rightarrow> bool) \<Rightarrow> ('k \<times> 'v) list \<Rightarrow> ('k \<times> 'v) list \<Rightarrow> bool" where
  "dict_grows R d d' = (\<forall>k x. map_of d k = Some x \<longrightarrow> (\<exists>y. map_of d' k = Some y \<and> R x y))"

lemma dict_growsD: "dict_grows R d d' \<Longrightarrow> map_of d k = Some x \<Longrightarrow> \<exists>y. map_of d' k = Some y \<and> R x y"
  by (simp add: dict_grows_def)

lemma dict_grows_refl: "(\<And>x. R x x) \<Longrightarrow> dict_grows R d d"
  by (simp add: dict_grows_def)

lemma dict_grows_trans:
  assumes "dict_grows R a b" "dict_grows R b c" "\<And>x y z. R x y \<Longrightarrow> R y z \<Longrightarrow> R x z"
  shows "dict_grows R a c"
  unfolding dict_grows_def by (meson assms dict_growsD)

lemma dict_grows_set:
  assumes "\<And>x. map_of d k = Some x \<Longrightarrow> R x v" "\<And>x. R x x"
  shows "dict_grows R d (dict_set d k v)"
  using assms by (simp add: dict_grows_def map_of_dict_set)

lemma find_SomeD: "List.find P xs = Some x \<Longrightarrow> x \<in> set xs \<and> P x"
  by (induction xs) (auto split: if_splits)

lemma sort_key_map: "sort_key f (map g xs) = map g (sort_key (\<lambda>x. f (g x)) xs)"
proof -
  have "insort_key f (g x) (map g ys) = map g (insort_key (\<lambda>x. f (g x)) x ys)" for x ys
    by (induction ys) auto
  then show ?thesis by (induction xs) simp_all
qed

lemma sorted_set_simps [simp]:
  "set (sorted_set xs) = set xs" "distinct (sorted_set xs)" "sorted (sorted_set xs)"
  by (simp_all add: sorted_set_def)

lemma strict_sorted_set: "sorted_wrt (<) (sorted_set xs)"
  by (simp add: strict_sorted_iff)

lemma sorted_set_eq_iff: "sorted_set xs = sorted_set ys \<longleftrightarrow> set xs = set ys"
  by (metis sorted_set_simps sorted_distinct_set_unique)


section \<open>Slices, text and time\<close>

text \<open>\<open>xs[-n:]\<close>: the last \<open>n\<close> elements for a positive \<open>n\<close>, everything for zero.\<close>

definition last_n :: "int \<Rightarrow> 'a list \<Rightarrow> 'a list" where
  "last_n n xs = (if n > 0 then drop (length xs - nat n) xs else drop (nat (- n)) xs)"

lemma length_last_n: "n > 0 \<Longrightarrow> length (last_n n xs) = min (length xs) (nat n)"
  by (simp add: last_n_def)

lemma length_last_n_le: "n > 0 \<Longrightarrow> int (length (last_n n xs)) \<le> n"
  by (auto simp: length_last_n min_def)

lemma last_n_append:
  assumes "n > 0"
  shows "last_n n (last_n n xs @ ys) = last_n n (xs @ ys)"
proof (cases "length xs \<le> nat n")
  case True
  then show ?thesis using assms by (simp add: last_n_def)
next
  case False
  then show ?thesis using assms by (simp add: last_n_def add.commute)
qed

lemma last_n_short: "n > 0 \<Longrightarrow> length xs \<le> nat n \<Longrightarrow> last_n n xs = xs"
  by (simp add: last_n_def)

definition is_upper :: "char \<Rightarrow> bool" where
  "is_upper c = (CHR ''A'' \<le> c \<and> c \<le> CHR ''Z'')"

definition is_lower :: "char \<Rightarrow> bool" where
  "is_lower c = (CHR ''a'' \<le> c \<and> c \<le> CHR ''z'')"

definition is_digit :: "char \<Rightarrow> bool" where
  "is_digit c = (CHR ''0'' \<le> c \<and> c \<le> CHR ''9'')"

text \<open>\<open>[A-Za-z_][A-Za-z0-9_.]{0,127}\<close>, matched in full.\<close>

definition technical_name :: "string \<Rightarrow> bool" where
  "technical_name s = (case s of [] \<Rightarrow> False
    | c # cs \<Rightarrow> (is_upper c \<or> is_lower c \<or> c = CHR ''_'') \<and> length cs \<le> 127
        \<and> list_all (\<lambda>d. is_upper d \<or> is_lower d \<or> is_digit d \<or> d = CHR ''_'' \<or> d = CHR ''.'') cs)"

text \<open>The white space that \<open>str.strip\<close> removes, for the characters of code below 256.\<close>

definition is_space :: "char \<Rightarrow> bool" where
  "is_space c = (let n = of_char c :: nat in
    9 \<le> n \<and> n \<le> 13 \<or> 28 \<le> n \<and> n \<le> 32 \<or> n = 133 \<or> n = 160)"

definition strip :: "string \<Rightarrow> string" where
  "strip s = rev (dropWhile is_space (rev (dropWhile is_space s)))"

definition blank :: "string \<Rightarrow> bool" where
  "blank s = (strip s = [])"

definition hex_digit :: "char \<Rightarrow> bool" where
  "hex_digit c = (is_digit c \<or> CHR ''a'' \<le> c \<and> c \<le> CHR ''f'')"

text \<open>\<open>sha256:[a-f0-9]{64}\<close>, matched in full.\<close>

definition sha256_text :: "string \<Rightarrow> bool" where
  "sha256_text s = (take 7 s = ''sha256:'' \<and> length s = 71 \<and> list_all hex_digit (drop 7 s))"

lemma blank_iff: "blank s \<longleftrightarrow> list_all is_space s"
proof
  assume "blank s"
  then have "list_all is_space (dropWhile is_space s)"
    by (auto simp: blank_def strip_def list_all_iff)
  then have "dropWhile is_space s = []"
    using hd_dropWhile[of is_space s] by (cases "dropWhile is_space s") auto
  then show "list_all is_space s"
    by (simp add: list_all_iff dropWhile_eq_Nil_conv)
next
  assume "list_all is_space s"
  then show "blank s"
    by (auto simp: blank_def strip_def list_all_iff dest: set_dropWhileD)
qed

text \<open>What \<open>int(digest, 16)\<close> accepts: white space around an optional sign, an optional \<open>0x\<close>, and
  hexadecimal digits of either case with single underscores between them.\<close>

definition hex_letter :: "char \<Rightarrow> bool" where
  "hex_letter c = (is_digit c \<or> CHR ''a'' \<le> c \<and> c \<le> CHR ''f'' \<or> CHR ''A'' \<le> c \<and> c \<le> CHR ''F'')"

fun hex_run :: "bool \<Rightarrow> string \<Rightarrow> bool" where
  "hex_run digit_before [] = digit_before"
| "hex_run digit_before (c # cs) =
    (if hex_letter c then hex_run True cs else c = CHR ''_'' \<and> digit_before \<and> hex_run False cs)"

fun drop_sign :: "string \<Rightarrow> string" where
  "drop_sign (c # cs) = (if c = CHR ''+'' \<or> c = CHR ''-'' then cs else c # cs)"
| "drop_sign [] = []"

definition int16_ok :: "string \<Rightarrow> bool" where
  "int16_ok s = (let t = drop_sign (strip s) in
    if take 2 t = ''0x'' \<or> take 2 t = ''0X'' then drop 2 t \<noteq> [] \<and> hex_run True (drop 2 t)
    else hex_run False t)"

text \<open>A timestamp in microseconds; a naive one has no time zone and no instant.\<close>

datatype datetime = Aware int | Naive int

fun at_time :: "datetime \<Rightarrow> int" where
  "at_time (Aware t) = t"
| "at_time (Naive t) = t"

fun aware :: "datetime \<Rightarrow> bool" where
  "aware (Aware _) = True"
| "aware (Naive _) = False"

end
