(* ===== verification/Load_Control.thy ===== *)
theory Load_Control
imports Prelude
begin

text \<open>
  The durable load policy (\<open>domain/execution/load_control.py\<close>): its failure windows, the settling of
  transport receipts, the pause, stop and continue transitions, and the diagnostic of a rejected
  write (\<open>domain/execution/write_diagnostics.py\<close>) that decides whether a rejection may be isolated.
  The lemmas show that the stored windows are the sliding window and the streak of the whole result
  history, when exactly a load pauses, and which states no operation leaves.
\<close>



section \<open>Write diagnostics\<close>

datatype write_failure_code =
    REQUIRED_VALUE | RELATED_RECORD | ACCESS_DENIED | CONSTRAINT
  | COMPANY_MISMATCH | VALIDATION | REJECTED | UNKNOWN

datatype write_error_type = ACCESS | MISSING | USER | VALIDATION_ERROR

record write_diagnostic =
  wd_code :: write_failure_code
  wd_model :: string
  wd_method :: string
  wd_fields :: "string list"
  wd_row_from :: "int option"
  wd_row_to :: "int option"
  wd_batch_size :: int
  wd_message_count :: int
  wd_message_fingerprint :: string
  wd_http_status :: "int option"
  wd_error_type :: "write_error_type option"

definition write_diagnostic_ok :: "write_diagnostic \<Rightarrow> bool" where
  "write_diagnostic_ok d =
    (technical_name (wd_model d)
     \<and> wd_method d \<in> {''load'', ''create'', ''write'', ''search_read'', ''completion''}
     \<and> 1 \<le> wd_batch_size d \<and> wd_batch_size d \<le> 1000
     \<and> 0 \<le> wd_message_count d \<and> wd_message_count d \<le> 1000000
     \<and> (case wd_http_status d of None \<Rightarrow> True | Some h \<Rightarrow> 100 \<le> h \<and> h \<le> 599)
     \<and> length (wd_fields d) \<le> 200
     \<and> list_all technical_name (wd_fields d)
     \<and> (wd_message_fingerprint d = [] \<or> sha256_text (wd_message_fingerprint d))
     \<and> (wd_row_from d = None \<longleftrightarrow> wd_row_to d = None)
     \<and> (case (wd_row_from d, wd_row_to d) of
          (Some a, Some b) \<Rightarrow> 0 \<le> a \<and> a \<le> b \<and> b < wd_batch_size d
        | (Some _, None) \<Rightarrow> False
        | (None, _) \<Rightarrow> True))"

text \<open>\<open>OdooWriteDiagnostic(...)\<close>: the constructor sorts the field names before it validates.\<close>

definition mk_write_diagnostic :: "write_diagnostic \<Rightarrow> write_diagnostic res" where
  "mk_write_diagnostic d = (let d' = d\<lparr>wd_fields := sorted_set (wd_fields d)\<rparr>
     in bindr (checkr (write_diagnostic_ok d') ValueError) (\<lambda>_. Inr d'))"

text \<open>\<open>OdooWriteRejected\<close> and \<open>OdooWriteOutcomeUnknown\<close> with their optional diagnostic.\<close>

datatype write_error =
    WriteRejected "write_diagnostic option"
  | WriteOutcomeUnknown "write_diagnostic option"

fun can_set_aside :: "write_diagnostic option \<Rightarrow> bool" where
  "can_set_aside None = False"
| "can_set_aside (Some d) = (wd_code d \<in>
    {REQUIRED_VALUE, RELATED_RECORD, CONSTRAINT, COMPANY_MISMATCH, VALIDATION})"


section \<open>Failure windows and the load control\<close>

datatype rejection_policy = STOP | CONTINUE

datatype load_control_state = RUNNING | PAUSED | STOP_REQUESTED | STOPPED | FINISHED

type_synonym window_key = "string \<times> string"

record failure_window =
  fw_model :: string
  fw_operation :: string
  fw_consecutive :: int
  fw_recent :: "bool list"

definition fw_key :: "failure_window \<Rightarrow> window_key" where
  "fw_key w = (fw_model w, fw_operation w)"

definition failure_window_ok :: "failure_window \<Rightarrow> bool" where
  "failure_window_ok w =
    (technical_name (fw_model w)
     \<and> fw_operation w \<in> {''CREATE'', ''UPDATE'', ''COMPLETION''}
     \<and> 0 \<le> fw_consecutive w \<and> fw_consecutive w \<le> 1000000000
     \<and> length (fw_recent w) \<le> 100)"

definition mk_failure_window :: "failure_window \<Rightarrow> failure_window res" where
  "mk_failure_window w = bindr (checkr (failure_window_ok w) ValueError) (\<lambda>_. Inr w)"

record load_control =
  lc_policy :: rejection_policy
  lc_state :: load_control_state
  lc_reason :: string
  lc_consecutive_limit :: int
  lc_window_size :: int
  lc_minimum_results :: int
  lc_rejection_percent :: int
  lc_isolation_limit :: int
  lc_isolation_calls :: int
  lc_windows :: "failure_window list"
  lc_contract_version :: int

definition default_load_control :: load_control where
  "default_load_control = \<lparr>lc_policy = STOP, lc_state = RUNNING, lc_reason = [],
    lc_consecutive_limit = 10, lc_window_size = 50, lc_minimum_results = 20,
    lc_rejection_percent = 20, lc_isolation_limit = 25, lc_isolation_calls = 0,
    lc_windows = [], lc_contract_version = 1\<rparr>"

definition load_control_ok :: "load_control \<Rightarrow> bool" where
  "load_control_ok c =
    (lc_contract_version c = 1
     \<and> 1 \<le> lc_consecutive_limit c \<and> lc_consecutive_limit c \<le> 100
     \<and> 1 \<le> lc_minimum_results c \<and> lc_minimum_results c \<le> lc_window_size c
     \<and> lc_window_size c \<le> 100
     \<and> 1 \<le> lc_rejection_percent c \<and> lc_rejection_percent c \<le> 100
     \<and> 1 \<le> lc_isolation_limit c \<and> lc_isolation_limit c \<le> 100
     \<and> 0 \<le> lc_isolation_calls c \<and> lc_isolation_calls c \<le> lc_isolation_limit c
     \<and> length (lc_windows c) \<le> 1000
     \<and> distinct (map fw_key (lc_windows c))
     \<and> list_all (\<lambda>w. int (length (fw_recent w)) \<le> lc_window_size c \<and> 0 \<le> fw_consecutive w)
         (lc_windows c)
     \<and> lc_reason c \<in> {[], ''USER_STOP'', ''CONSECUTIVE_REJECTIONS'', ''REJECTION_RATE'',
         ''ISOLATION_BUDGET''})"

definition mk_load_control :: "load_control \<Rightarrow> load_control res" where
  "mk_load_control c = bindr (checkr (load_control_ok c) ValueError) (\<lambda>_. Inr c)"

text \<open>The value of a state, as the message of \<open>LoadHalted\<close> prints it.\<close>

fun state_value :: "load_control_state \<Rightarrow> string" where
  "state_value RUNNING = ''RUNNING''"
| "state_value PAUSED = ''PAUSED''"
| "state_value STOP_REQUESTED = ''STOP_REQUESTED''"
| "state_value STOPPED = ''STOPPED''"
| "state_value FINISHED = ''FINISHED''"

definition require_running :: "load_control \<Rightarrow> unit res" where
  "require_running c = checkr (lc_state c = RUNNING)
     (LoadHalted (if lc_reason c \<noteq> [] then lc_reason c else state_value (lc_state c)))"


section \<open>Settling a receipt\<close>

text \<open>One result: the model, the operation and whether the row was rejected.\<close>

type_synonym settled = "string \<times> string \<times> bool"

fun settled_key :: "settled \<Rightarrow> window_key" where
  "settled_key (m, op, _) = (m, op)"

fun settled_rejected :: "settled \<Rightarrow> bool" where
  "settled_rejected (_, _, r) = r"

definition empty_window :: "window_key \<Rightarrow> failure_window" where
  "empty_window k = \<lparr>fw_model = fst k, fw_operation = snd k, fw_consecutive = 0, fw_recent = []\<rparr>"

type_synonym windows = "(window_key \<times> failure_window) list"

definition push_result :: "int \<Rightarrow> bool \<Rightarrow> failure_window \<Rightarrow> failure_window" where
  "push_result limit rejected previous = previous\<lparr>
     fw_consecutive := (if rejected then fw_consecutive previous + 1 else 0),
     fw_recent := last_n limit (fw_recent previous @ [rejected])\<rparr>"

definition settle_one :: "int \<Rightarrow> windows \<Rightarrow> settled \<Rightarrow> windows res" where
  "settle_one limit ws r = (let k = settled_key r in
     bindr (mk_failure_window (empty_window k)) (\<lambda>fresh.
       bindr (mk_failure_window (push_result limit (settled_rejected r) (dict_get ws k fresh)))
         (\<lambda>w. Inr (dict_set ws k w))))"

text \<open>The scan of the changed windows in key order; the first one over a limit gives the reason.\<close>

definition over_streak :: "load_control \<Rightarrow> failure_window \<Rightarrow> bool" where
  "over_streak c w = (fw_consecutive w \<ge> lc_consecutive_limit c)"

definition over_rate :: "load_control \<Rightarrow> failure_window \<Rightarrow> bool" where
  "over_rate c w =
    (int (length (fw_recent w)) \<ge> lc_minimum_results c
     \<and> int (length (filter id (fw_recent w))) * 100
         \<ge> lc_rejection_percent c * int (length (fw_recent w)))"

fun frontier_reason :: "load_control \<Rightarrow> (window_key \<Rightarrow> failure_window) \<Rightarrow> window_key list \<Rightarrow> string" where
  "frontier_reason c win [] = []"
| "frontier_reason c win (k # ks) =
    (if over_streak c (win k) then ''CONSECUTIVE_REJECTIONS''
     else if over_rate c (win k) then ''REJECTION_RATE''
     else frontier_reason c win ks)"

definition pause_reason :: "load_control \<Rightarrow> windows \<Rightarrow> settled list \<Rightarrow> string" where
  "pause_reason c ws results =
    (if lc_policy c = CONTINUE \<and> lc_state c = RUNNING then
       (let reason = frontier_reason c (\<lambda>k. dict_get ws k (empty_window k))
                       (sorted_set (map settled_key results)) in
        if reason = [] \<and> list_all settled_rejected results
           \<and> lc_isolation_calls c \<ge> lc_isolation_limit c
        then ''ISOLATION_BUDGET'' else reason)
     else [])"

text \<open>\<open>tuple(windows[k] for k in sorted(windows))\<close>.\<close>

definition windows_in_order :: "windows \<Rightarrow> failure_window list" where
  "windows_in_order ws = map (\<lambda>k. dict_get ws k (empty_window k)) (sorted_set (map fst ws))"

definition settle_many :: "settled list \<Rightarrow> load_control \<Rightarrow> load_control res" where
  "settle_many results c =
    (if lc_state c \<notin> {RUNNING, PAUSED} then Inr c else
     bindr (foldr_res (settle_one (lc_window_size c))
              (dict_of fw_key (\<lambda>w. w) (lc_windows c)) results) (\<lambda>ws.
       let reason = pause_reason c ws results;
           accepted = \<not> list_all settled_rejected results in
       mk_load_control (c\<lparr>
         lc_windows := windows_in_order ws,
         lc_isolation_calls := (if accepted then 0 else lc_isolation_calls c),
         lc_state := (if reason \<noteq> [] then PAUSED else lc_state c),
         lc_reason := (if reason \<noteq> [] then reason else lc_reason c)\<rparr>)))"

definition settle :: "string \<Rightarrow> string \<Rightarrow> bool \<Rightarrow> load_control \<Rightarrow> load_control res" where
  "settle model operation rejected c = settle_many [(model, operation, rejected)] c"

definition isolate :: "load_control \<Rightarrow> load_control res" where
  "isolate c = bindr (require_running c) (\<lambda>_.
     bindr (checkr (lc_isolation_calls c < lc_isolation_limit c) (LoadHalted ''ISOLATION_BUDGET''))
       (\<lambda>_. mk_load_control (c\<lparr>lc_isolation_calls := lc_isolation_calls c + 1\<rparr>)))"

definition request_stop :: "load_control \<Rightarrow> load_control res" where
  "request_stop c =
    (if lc_state c \<in> {STOPPED, FINISHED} then Inr c
     else mk_load_control (c\<lparr>lc_state := STOP_REQUESTED, lc_reason := ''USER_STOP''\<rparr>))"

definition continue_next_group :: "load_control \<Rightarrow> load_control res" where
  "continue_next_group c = bindr (checkr (lc_state c = PAUSED) ValueError) (\<lambda>_.
     mk_load_control (c\<lparr>lc_state := RUNNING, lc_reason := [], lc_isolation_calls := 0,
       lc_windows := []\<rparr>))"

text \<open>The transition that the journal applies when it closes a run
  (\<open>adapters/duckdb/execution_repository.py\<close>, \<open>finish_run\<close>).\<close>

definition close_control :: "load_control \<Rightarrow> load_control res" where
  "close_control c = mk_load_control
     (c\<lparr>lc_state := (if lc_state c = STOP_REQUESTED then STOPPED else FINISHED)\<rparr>)"

datatype control_op =
    Settle "settled list" | Isolate | RequestStop | ContinueNextGroup | CloseRun

fun control_step :: "control_op \<Rightarrow> load_control \<Rightarrow> load_control res" where
  "control_step (Settle results) c = settle_many results c"
| "control_step Isolate c = isolate c"
| "control_step RequestStop c = request_stop c"
| "control_step ContinueNextGroup c = continue_next_group c"
| "control_step CloseRun c = close_control c"


section \<open>The stored windows are views of the whole history\<close>

text \<open>The abstract view: for each key the list of all its results since the last reset, of which
  the window stores the trailing streak of rejections and the last results.\<close>

definition window_at :: "load_control \<Rightarrow> window_key \<Rightarrow> failure_window" where
  "window_at c k = dict_get (dict_of fw_key (\<lambda>w. w) (lc_windows c)) k (empty_window k)"

definition streak :: "bool list \<Rightarrow> int" where
  "streak h = int (length (takeWhile id (rev h)))"

definition summary :: "int \<Rightarrow> window_key \<Rightarrow> bool list \<Rightarrow> failure_window" where
  "summary n k h = \<lparr>fw_model = fst k, fw_operation = snd k, fw_consecutive = streak h,
     fw_recent = last_n n h\<rparr>"

definition tracks :: "load_control \<Rightarrow> (window_key \<Rightarrow> bool list) \<Rightarrow> bool" where
  "tracks c h = (\<forall>k. window_at c k = summary (lc_window_size c) k (h k))"

definition results_for :: "settled list \<Rightarrow> window_key \<Rightarrow> bool list" where
  "results_for results k = map settled_rejected (filter (\<lambda>r. settled_key r = k) results)"

lemma streak_snoc: "streak (h @ [b]) = (if b then streak h + 1 else 0)"
  by (simp add: streak_def)

lemma streak_nonneg [simp]: "0 \<le> streak h"
  by (simp add: streak_def)

lemma streak_le: "streak h \<le> int (length h)"
  by (metis length_rev length_takeWhile_le nat_int_comparison(3) streak_def)

lemma map_of_dict_of_step:
  "map_of (fold (\<lambda>x d. dict_set d (key x) (val x)) xs d) k
     = (case map_of (map (\<lambda>x. (key x, val x)) (rev xs)) k of None \<Rightarrow> map_of d k | Some v \<Rightarrow> Some v)"
  by (induction xs arbitrary: d) (auto simp: map_of_dict_set map_add_def split: option.splits)

lemma map_of_dict_of:
  "map_of (dict_of key val xs) k = map_of (rev (map (\<lambda>x. (key x, val x)) xs)) k"
  by (simp add: dict_of_def map_of_dict_of_step rev_map split: option.splits)

lemma distinct_keys_fold_set:
  "distinct (map fst d) \<Longrightarrow> distinct (map fst (fold (\<lambda>x d. dict_set d (key x) (val x)) xs d))"
  by (induction xs arbitrary: d) (auto simp: distinct_dict_set)

lemma keys_dict_of: "fst ` set (dict_of key val xs) = key ` set xs"
proof -
  have "fst ` set (fold (\<lambda>x d. dict_set d (key x) (val x)) xs d) = fst ` set d \<union> key ` set xs" for d
    by (induction xs arbitrary: d) (auto simp: keys_dict_set)
  then show ?thesis by (simp add: dict_of_def)
qed

lemma map_of_rev_distinct:
  assumes "distinct (map fst xs)"
  shows "map_of (rev xs) = map_of xs"
proof -
  have "map_of (rev xs) k = Some v \<longleftrightarrow> map_of xs k = Some v" for k v
    using assms by (simp add: map_of_eq_Some_iff rev_map[symmetric])
  then show ?thesis by (intro ext) (metis option.exhaust)
qed

lemma map_of_windows:
  assumes "distinct (map fw_key ws)"
  shows "map_of (dict_of fw_key (\<lambda>w. w) ws) k = map_of (map (\<lambda>w. (fw_key w, w)) ws) k"
proof -
  have "distinct (map fst (map (\<lambda>w. (fw_key w, w)) ws))"
    using assms by (simp add: comp_def)
  then show ?thesis by (simp add: map_of_dict_of map_of_rev_distinct)
qed

text \<open>The windows carry their own keys.\<close>

definition keyed :: "windows \<Rightarrow> bool" where
  "keyed ws = (\<forall>k w. map_of ws k = Some w \<longrightarrow> fw_key w = k)"

lemma keyed_dict_of: "keyed (dict_of fw_key (\<lambda>w. w) ws)"
  by (auto simp: keyed_def map_of_dict_of dest!: map_of_SomeD)

lemma fw_key_empty [simp]: "fw_key (empty_window k) = k"
  by (simp add: empty_window_def fw_key_def)

lemma fw_key_get: "keyed ws \<Longrightarrow> fw_key (dict_get ws k (empty_window k)) = k"
  by (cases "map_of ws k") (simp_all add: keyed_def dict_get_def)

lemma map_fw_key_windows: "keyed ws \<Longrightarrow> map fw_key (windows_in_order ws) = sorted_set (map fst ws)"
  by (simp add: windows_in_order_def comp_def fw_key_get)

lemma get_windows_in_order:
  assumes "keyed ws"
  shows "dict_get (dict_of fw_key (\<lambda>w. w) (windows_in_order ws)) k (empty_window k)
    = dict_get ws k (empty_window k)"
proof -
  let ?f = "\<lambda>k. dict_get ws k (empty_window k)"
  have "map_of (dict_of fw_key (\<lambda>w. w) (windows_in_order ws)) k
      = map_of (map (\<lambda>k. (k, ?f k)) (sorted_set (map fst ws))) k"
    using assms
    by (subst map_of_windows) (simp_all add: map_fw_key_windows, simp add: windows_in_order_def comp_def fw_key_get)
  also have "\<dots> = (if k \<in> fst ` set ws then Some (?f k) else None)"
    by (simp add: map_of_map_restrict restrict_map_def)
  also have "\<dots> = map_option (\<lambda>_. ?f k) (map_of ws k)"
    by (cases "map_of ws k") (auto simp: map_of_eq_None_iff dest: map_of_SomeD intro: rev_image_eqI)
  finally show ?thesis
    by (cases "map_of ws k") (simp_all add: dict_get_def)
qed

definition windows_track :: "int \<Rightarrow> windows \<Rightarrow> (window_key \<Rightarrow> bool list) \<Rightarrow> bool" where
  "windows_track n ws h = (keyed ws \<and> (\<forall>k. dict_get ws k (empty_window k) = summary n k (h k)))"

lemma keyed_set: "keyed ws \<Longrightarrow> fw_key w = k \<Longrightarrow> keyed (dict_set ws k w)"
  by (auto simp: keyed_def map_of_dict_set)

lemma summary_snoc:
  assumes "n > 0"
  shows "push_result n b (summary n k h) = summary n k (h @ [b])"
  using assms by (simp add: push_result_def summary_def streak_snoc last_n_append)

lemma fw_key_summary [simp]: "fw_key (summary n k h) = k"
  by (simp add: summary_def fw_key_def)

lemma settle_one_track:
  assumes "n > 0" "windows_track n ws h" "settle_one n ws r = Inr ws'"
  shows "windows_track n ws' (h(settled_key r := h (settled_key r) @ [settled_rejected r]))"
proof -
  let ?k = "settled_key r"
  have "dict_get ws ?k (empty_window ?k) = summary n ?k (h ?k)" and "keyed ws"
    using assms(2) by (auto simp: windows_track_def)
  then have "ws' = dict_set ws ?k (summary n ?k (h ?k @ [settled_rejected r]))"
    using assms(1,3) by (simp add: settle_one_def mk_failure_window_def res_simps Let_def summary_snoc
        split: if_splits)
  then show ?thesis
    using assms(2) by (simp add: windows_track_def keyed_set dict_get_set)
qed

lemma settle_fold_track:
  assumes "n > 0"
  shows "windows_track n ws h \<Longrightarrow> foldr_res (settle_one n) ws rs = Inr ws' \<Longrightarrow>
    windows_track n ws' (\<lambda>k. h k @ results_for rs k)"
proof (induction rs arbitrary: ws h)
  case Nil
  then show ?case by (simp add: results_for_def)
next
  case (Cons r rs)
  then obtain t where t: "settle_one n ws r = Inr t" "foldr_res (settle_one n) t rs = Inr ws'"
    by (auto simp: res_simps)
  let ?h = "h(settled_key r := h (settled_key r) @ [settled_rejected r])"
  have "(\<lambda>k. ?h k @ results_for rs k) = (\<lambda>k. h k @ results_for (r # rs) k)"
    by (auto simp: results_for_def)
  with Cons.IH[OF settle_one_track[OF assms Cons.prems(1) t(1)] t(2)] show ?case by simp
qed

lemma settle_one_defined:
  assumes "0 < n" "n \<le> 100" "failure_window_ok (empty_window (settled_key r))"
    and "windows_track n ws h" "streak (h (settled_key r)) < 1000000000"
  shows "\<exists>ws'. settle_one n ws r = Inr ws'"
proof -
  let ?k = "settled_key r"
  have "dict_get ws ?k (empty_window ?k) = summary n ?k (h ?k)"
    using assms(4) by (simp add: windows_track_def)
  moreover have "failure_window_ok (summary n ?k (h ?k @ [settled_rejected r]))"
    using assms by (auto simp: failure_window_ok_def summary_def streak_snoc empty_window_def
        length_last_n)
  ultimately show ?thesis
    using assms(1,3) by (simp add: settle_one_def mk_failure_window_def Let_def summary_snoc)
qed

lemma settle_fold_defined:
  assumes "0 < n" "n \<le> 100"
  shows "windows_track n ws h \<Longrightarrow>
    \<forall>r\<in>set rs. failure_window_ok (empty_window (settled_key r))
      \<and> streak (h (settled_key r)) + int (length rs) \<le> 1000000000 \<Longrightarrow>
    \<exists>ws'. foldr_res (settle_one n) ws rs = Inr ws'"
proof (induction rs arbitrary: ws h)
  case Nil
  then show ?case by simp
next
  case (Cons r rs)
  have "failure_window_ok (empty_window (settled_key r))" "streak (h (settled_key r)) < 1000000000"
    using Cons.prems(2) by auto
  then obtain t where t: "settle_one n ws r = Inr t"
    using settle_one_defined assms Cons.prems(1) by blast
  let ?h = "h(settled_key r := h (settled_key r) @ [settled_rejected r])"
  have "windows_track n t ?h"
    by (rule settle_one_track[OF assms(1) Cons.prems(1) t])
  moreover have "int (length rs) \<le> 1000000000"
    using Cons.prems(2) streak_nonneg[of "h (settled_key r)"] by (force simp del: streak_nonneg)
  then have "\<forall>q\<in>set rs. failure_window_ok (empty_window (settled_key q))
      \<and> streak (?h (settled_key q)) + int (length rs) \<le> 1000000000"
    using Cons.prems(2) by (auto simp: streak_snoc)
  ultimately obtain ws' where "foldr_res (settle_one n) t rs = Inr ws'"
    using Cons.IH by blast
  with t show ?case by simp
qed

lemma settle_one_keys:
  "settle_one n ws r = Inr ws' \<Longrightarrow> fst ` set ws' = insert (settled_key r) (fst ` set ws)"
proof -
  assume "settle_one n ws r = Inr ws'"
  then obtain w where "ws' = dict_set ws (settled_key r) w"
    by (auto simp: settle_one_def res_simps Let_def)
  then show ?thesis by (simp only: keys_dict_set)
qed

lemma settle_fold_keys:
  "foldr_res (settle_one n) ws rs = Inr ws' \<Longrightarrow>
    fst ` set ws' = settled_key ` set rs \<union> fst ` set ws"
proof (induction rs arbitrary: ws)
  case Nil
  then show ?case by simp
next
  case (Cons r rs)
  then obtain t where t: "settle_one n ws r = Inr t" "foldr_res (settle_one n) t rs = Inr ws'"
    by (auto simp: res_simps)
  show ?case unfolding Cons.IH[OF t(2)] settle_one_keys[OF t(1)] by simp
qed

lemma windows_track_of_control:
  "windows_track (lc_window_size c) (dict_of fw_key (\<lambda>w. w) (lc_windows c)) h \<longleftrightarrow> tracks c h"
  by (simp add: windows_track_def keyed_dict_of tracks_def window_at_def)

lemma load_control_ok_bounds:
  "load_control_ok c \<Longrightarrow> 0 < lc_window_size c" "load_control_ok c \<Longrightarrow> lc_window_size c \<le> 100"
  by (simp_all add: load_control_ok_def)

lemma mk_load_control_Inr [res_simps]:
  "mk_load_control c = Inr c' \<longleftrightarrow> load_control_ok c \<and> c' = c"
  by (auto simp: mk_load_control_def)

lemma settle_many_result:
  assumes "lc_state c \<in> {RUNNING, PAUSED}" "settle_many rs c = Inr c'"
  obtains ws where
    "foldr_res (settle_one (lc_window_size c)) (dict_of fw_key (\<lambda>w. w) (lc_windows c)) rs = Inr ws"
    "c' = c\<lparr>lc_windows := windows_in_order ws,
       lc_isolation_calls := (if \<not> list_all settled_rejected rs then 0 else lc_isolation_calls c),
       lc_state := (if pause_reason c ws rs \<noteq> [] then PAUSED else lc_state c),
       lc_reason := (if pause_reason c ws rs \<noteq> [] then pause_reason c ws rs else lc_reason c)\<rparr>"
    "load_control_ok c'"
  using assms by (auto simp: settle_many_def res_simps Let_def)

lemma frontier_reason_nonempty:
  "frontier_reason c win ks \<noteq> [] \<longleftrightarrow> (\<exists>k\<in>set ks. over_streak c (win k) \<or> over_rate c (win k))"
  by (induction ks) auto

lemma frontier_reason_values:
  "frontier_reason c win ks \<in> {[], ''CONSECUTIVE_REJECTIONS'', ''REJECTION_RATE''}"
  by (induction ks) auto

lemma pause_reason_values:
  "pause_reason c ws rs \<in> {[], ''CONSECUTIVE_REJECTIONS'', ''REJECTION_RATE'', ''ISOLATION_BUDGET''}"
  using frontier_reason_values[of c "\<lambda>k. dict_get ws k (empty_window k)"
      "sorted_set (map settled_key rs)"]
  by (auto simp: pause_reason_def Let_def)

lemma pause_reason_nonempty:
  "pause_reason c ws rs \<noteq> [] \<longleftrightarrow> lc_policy c = CONTINUE \<and> lc_state c = RUNNING \<and>
    ((\<exists>r\<in>set rs. over_streak c (dict_get ws (settled_key r) (empty_window (settled_key r)))
        \<or> over_rate c (dict_get ws (settled_key r) (empty_window (settled_key r))))
     \<or> list_all settled_rejected rs \<and> lc_isolation_limit c \<le> lc_isolation_calls c)"
proof -
  let ?win = "\<lambda>k. dict_get ws k (empty_window k)"
  let ?ks = "sorted_set (map settled_key rs)"
  have "pause_reason c ws rs \<noteq> [] \<longleftrightarrow> lc_policy c = CONTINUE \<and> lc_state c = RUNNING \<and>
    (frontier_reason c ?win ?ks \<noteq> []
     \<or> list_all settled_rejected rs \<and> lc_isolation_limit c \<le> lc_isolation_calls c)"
    by (auto simp: pause_reason_def Let_def)
  also have "(frontier_reason c ?win ?ks \<noteq> []) =
      (\<exists>r\<in>set rs. over_streak c (?win (settled_key r)) \<or> over_rate c (?win (settled_key r)))"
    unfolding frontier_reason_nonempty by simp
  finally show ?thesis .
qed

lemma settle_many_windows:
  assumes "load_control_ok c" "lc_state c \<in> {RUNNING, PAUSED}" "tracks c h"
    and "settle_many rs c = Inr c'"
  obtains ws where
    "windows_track (lc_window_size c) ws (\<lambda>k. h k @ results_for rs k)"
    "lc_windows c' = windows_in_order ws" "lc_window_size c' = lc_window_size c"
    "lc_state c' = (if pause_reason c ws rs \<noteq> [] then PAUSED else lc_state c)"
    "load_control_ok c'"
proof (rule settle_many_result[OF assms(2,4)])
  fix ws
  assume ws: "foldr_res (settle_one (lc_window_size c)) (dict_of fw_key (\<lambda>w. w) (lc_windows c)) rs
      = Inr ws"
    and c': "c' = c\<lparr>lc_windows := windows_in_order ws,
       lc_isolation_calls := (if \<not> list_all settled_rejected rs then 0 else lc_isolation_calls c),
       lc_state := (if pause_reason c ws rs \<noteq> [] then PAUSED else lc_state c),
       lc_reason := (if pause_reason c ws rs \<noteq> [] then pause_reason c ws rs else lc_reason c)\<rparr>"
    and ok: "load_control_ok c'"
  have "windows_track (lc_window_size c) ws (\<lambda>k. h k @ results_for rs k)"
    by (rule settle_fold_track[OF load_control_ok_bounds(1)[OF assms(1)] _ ws])
      (simp add: windows_track_of_control assms(3))
  then show thesis
    by (rule that) (use ok in \<open>simp_all add: c'\<close>)
qed

lemma tracks_windows_in_order:
  assumes "lc_windows c' = windows_in_order ws" "windows_track (lc_window_size c') ws h"
  shows "tracks c' h"
  using assms by (simp add: tracks_def window_at_def windows_track_def get_windows_in_order)

lemma windows_of_ok:
  assumes "windows_track n ws h" "0 < n"
  shows "distinct (map fw_key (windows_in_order ws))"
    and "list_all (\<lambda>w. int (length (fw_recent w)) \<le> n \<and> 0 \<le> fw_consecutive w)
      (windows_in_order ws)"
    and "length (windows_in_order ws) = card (fst ` set ws)"
proof -
  have "keyed ws" "\<forall>k. dict_get ws k (empty_window k) = summary n k (h k)"
    using assms(1) by (simp_all add: windows_track_def)
  then show "distinct (map fw_key (windows_in_order ws))"
    and "list_all (\<lambda>w. int (length (fw_recent w)) \<le> n \<and> 0 \<le> fw_consecutive w)
      (windows_in_order ws)"
    using assms(2)
    by (simp add: map_fw_key_windows, simp add: windows_in_order_def list_all_iff summary_def
        length_last_n_le)
  show "length (windows_in_order ws) = card (fst ` set ws)"
    by (simp add: windows_in_order_def sorted_set_def length_remdups_card_conv)
qed

definition accepted_in :: "settled list \<Rightarrow> bool" where
  "accepted_in rs = (\<not> list_all settled_rejected rs)"

text \<open>When a receipt pauses a load, in terms of the history \<open>h\<close> of all results.\<close>

definition must_pause :: "load_control \<Rightarrow> (window_key \<Rightarrow> bool list) \<Rightarrow> settled list \<Rightarrow> bool" where
  "must_pause c h rs =
    ((\<exists>r\<in>set rs. let g = h (settled_key r); recent = last_n (lc_window_size c) g in
        streak g \<ge> lc_consecutive_limit c
        \<or> int (length recent) \<ge> lc_minimum_results c
          \<and> int (length (filter id recent)) * 100
              \<ge> lc_rejection_percent c * int (length recent))
     \<or> \<not> accepted_in rs \<and> lc_isolation_calls c \<ge> lc_isolation_limit c)"

lemma pause_reason_must_pause:
  assumes "windows_track (lc_window_size c) ws h"
  shows "pause_reason c ws rs \<noteq> [] \<longleftrightarrow>
    lc_policy c = CONTINUE \<and> lc_state c = RUNNING \<and> must_pause c h rs"
proof -
  have "dict_get ws k (empty_window k) = summary (lc_window_size c) k (h k)" for k
    using assms by (simp add: windows_track_def)
  then show ?thesis
    by (simp add: pause_reason_nonempty must_pause_def Let_def over_streak_def over_rate_def
        summary_def accepted_in_def)
qed

text \<open>A load for the witnesses: the continue policy and ten rejected creates in a row.\<close>

definition example_control :: load_control where
  "example_control = default_load_control\<lparr>lc_policy := CONTINUE\<rparr>"

definition example_receipt :: "settled list" where
  "example_receipt = replicate 10 (''res.partner'', ''CREATE'', True)"

definition example_settled :: load_control where
  "example_settled = (case settle_many example_receipt example_control of Inr c \<Rightarrow> c
     | Inl _ \<Rightarrow> example_control)"

lemma example_settle: "settle_many example_receipt example_control = Inr example_settled"
proof -
  have "\<not> isl (settle_many example_receipt example_control)" by code_simp
  then show ?thesis by (auto simp: example_settled_def split: sum.splits)
qed

lemma tracks_empty:
  assumes "lc_windows c = []"
  shows "tracks c (\<lambda>_. [])"
  using assms by (simp add: tracks_def window_at_def dict_of_def summary_def empty_window_def streak_def
      last_n_def)

lemma example_control_facts:
  "load_control_ok example_control" "lc_policy example_control = CONTINUE"
  "lc_state example_control = RUNNING" "tracks example_control (\<lambda>_. [])"
  by (code_simp, code_simp, code_simp, simp add: tracks_empty example_control_def default_load_control_def)

text \<open>C3: settling a receipt is a faithful sliding-window summary.  If the stored windows of a
  control are the trailing streak and the last \<open>window_size\<close> results of a history \<open>h\<close>, then after
  \<open>settle_many\<close> they are those of the history extended by the receipt, for every model and
  operation.\<close>

theorem settle_many_refines_history:
  assumes "load_control_ok c" "lc_state c \<in> {RUNNING, PAUSED}" "tracks c h"
    and "settle_many rs c = Inr c'"
  shows "load_control_ok c' \<and> tracks c' (\<lambda>k. h k @ results_for rs k)"
  by (rule settle_many_windows[OF assms]) (simp add: tracks_windows_in_order)

theorem settle_many_refines_history_witness:
  "load_control_ok example_settled \<and>
   tracks example_settled (\<lambda>k. [] @ results_for example_receipt k)"
  by (rule settle_many_refines_history[OF example_control_facts(1) _ example_control_facts(4)
        example_settle]) (simp add: example_control_facts)

text \<open>C4: the pause decision.  A running load under the continue policy is paused by a receipt
  exactly when, over the whole history, some model and operation the receipt names has a streak of
  rejections at the limit or a rejection rate of its last results at the limit, or the receipt
  accepts nothing with the isolation budget used up; otherwise it keeps running.\<close>

theorem settle_many_pauses_iff:
  assumes "load_control_ok c" "lc_policy c = CONTINUE" "lc_state c = RUNNING" "tracks c h"
    and "settle_many rs c = Inr c'"
  shows "lc_state c' = (if must_pause c (\<lambda>k. h k @ results_for rs k) rs then PAUSED else RUNNING)"
  by (rule settle_many_windows[OF assms(1) _ assms(4,5)])
    (use assms(2,3) in \<open>simp_all add: pause_reason_must_pause\<close>)

theorem settle_many_pauses_iff_witness: "lc_state example_settled = PAUSED"
proof -
  have "must_pause example_control (\<lambda>k. [] @ results_for example_receipt k) example_receipt"
    by code_simp
  then show ?thesis
    using settle_many_pauses_iff[OF example_control_facts example_settle] by simp
qed

text \<open>settling never fails on the receipts the executor produces: known operations of valid
  models, streaks far from the counter bound and at most a thousand distinct keys.\<close>

theorem settle_many_defined:
  assumes "load_control_ok c" "tracks c h"
    and "\<forall>r\<in>set rs. failure_window_ok (empty_window (settled_key r))
      \<and> streak (h (settled_key r)) + int (length rs) \<le> 1000000000"
    and "card (settled_key ` set rs \<union> fw_key ` set (lc_windows c)) \<le> 1000"
  shows "\<exists>c'. settle_many rs c = Inr c'"
proof (cases "lc_state c \<in> {RUNNING, PAUSED}")
  case False
  then show ?thesis by (simp add: settle_many_def)
next
  case True
  let ?n = "lc_window_size c" and ?d = "dict_of fw_key (\<lambda>w. w) (lc_windows c)"
  note n = load_control_ok_bounds[OF assms(1)]
  have start: "windows_track ?n ?d h"
    using assms(2) by (simp add: windows_track_of_control)
  obtain ws where ws: "foldr_res (settle_one ?n) ?d rs = Inr ws"
    using settle_fold_defined[OF n start assms(3)] by blast
  have track: "windows_track ?n ws (\<lambda>k. h k @ results_for rs k)"
    by (rule settle_fold_track[OF n(1) start ws])
  have "card (fst ` set ws) \<le> 1000"
    unfolding settle_fold_keys[OF ws] keys_dict_of using assms(4) by simp
  with windows_of_ok[OF track n(1)] assms(1) True pause_reason_values[of c ws rs] ws
  show ?thesis
    by (auto simp: settle_many_def mk_load_control_def load_control_ok_def Let_def)
qed

theorem settle_many_defined_witness: "\<exists>c'. settle_many example_receipt example_control = Inr c'"
proof (rule settle_many_defined[OF example_control_facts(1,4)])
  have "failure_window_ok (empty_window (''res.partner'', ''CREATE''))" by code_simp
  then show "\<forall>r\<in>set example_receipt. failure_window_ok (empty_window (settled_key r))
      \<and> streak [] + int (length example_receipt) \<le> 1000000000"
    by (simp add: example_receipt_def streak_def)
  show "card (settled_key ` set example_receipt \<union> fw_key ` set (lc_windows example_control)) \<le> 1000"
    by (simp add: example_receipt_def example_control_def default_load_control_def)
qed


section \<open>The lifecycle of a control\<close>

lemma control_step_ok: "load_control_ok c \<Longrightarrow> control_step a c = Inr c' \<Longrightarrow> load_control_ok c'"
  by (cases a) (auto simp: settle_many_def isolate_def request_stop_def continue_next_group_def
      close_control_def res_simps Let_def split: if_splits)

definition stop_decided :: "load_control \<Rightarrow> bool" where
  "stop_decided c = (lc_state c \<in> {STOP_REQUESTED, STOPPED, FINISHED})"

lemma control_step_stop:
  "stop_decided c \<Longrightarrow> control_step a c = Inr c' \<Longrightarrow> stop_decided c'"
  by (cases a) (auto simp: stop_decided_def settle_many_def isolate_def request_stop_def
      require_running_def continue_next_group_def close_control_def res_simps Let_def split: if_splits)

lemma control_step_limit:
  "control_step a c = Inr c' \<Longrightarrow> lc_isolation_limit c' = lc_isolation_limit c"
  by (cases a) (auto simp: settle_many_def isolate_def request_stop_def continue_next_group_def
      close_control_def res_simps Let_def split: if_splits)

interpretation control: absorbing_lifecycle control_step load_control_ok stop_decided
  by unfold_locales (auto dest: control_step_ok control_step_stop)

text \<open>C5: every control that any sequence of receipts, isolations, stops, continuations and closings
  reaches from a valid control is a valid control.  Once such a control has a stop requested or is
  stopped or finished, every control that any further sequence reaches is still valid and
  \<open>require_running\<close> refuses it: nothing makes the load run again.\<close>

theorem stop_is_final:
  assumes "load_control_ok c"
  shows "load_control_ok (run_ops control_step as c)
    \<and> (lc_state (run_ops control_step as c) \<in> {STOP_REQUESTED, STOPPED, FINISHED} \<longrightarrow>
        lc_state (run_ops control_step (as @ bs) c) \<in> {STOP_REQUESTED, STOPPED, FINISHED}
      \<and> (\<exists>reason. require_running (run_ops control_step (as @ bs) c) = Inl (LoadHalted reason)))"
proof -
  have ok: "load_control_ok (run_ops control_step as c)" by (rule control.run_inv[OF assms])
  have "stop_decided (run_ops control_step (as @ bs) c)" if "stop_decided (run_ops control_step as c)"
    unfolding run_ops_append by (rule control.run_closed[OF ok that])
  then show ?thesis using ok by (auto simp: stop_decided_def require_running_def res_simps)
qed

theorem stop_is_final_witness:
  "load_control_ok (run_ops control_step [Settle example_receipt, RequestStop] example_control)
  \<and> (\<exists>reason. require_running (run_ops control_step [Settle example_receipt, RequestStop, ContinueNextGroup, Isolate]
      example_control) = Inl (LoadHalted reason))"
proof -
  have "lc_state (run_ops control_step [Settle example_receipt, RequestStop] example_control) = STOP_REQUESTED"
    by code_simp
  then show ?thesis
    using stop_is_final[OF example_control_facts(1), of "[Settle example_receipt, RequestStop]" "[ContinueNextGroup, Isolate]"]
    by simp
qed

text \<open>The isolations of a run that succeed, up to the first operation that resets the budget.\<close>

fun isolations :: "control_op list \<Rightarrow> load_control \<Rightarrow> nat" where
  "isolations [] c = 0"
| "isolations (a # as) c = (case control_step a c of Inl _ \<Rightarrow> isolations as c
    | Inr c' \<Rightarrow> (if a = Isolate then 1 else 0) + isolations as c')"

fun resets_budget :: "control_op \<Rightarrow> bool" where
  "resets_budget (Settle rs) = accepted_in rs"
| "resets_budget ContinueNextGroup = True"
| "resets_budget _ = False"

lemma isolation_step:
  assumes "\<not> resets_budget a" "control_step a c = Inr c'"
  shows "lc_isolation_calls c' = lc_isolation_calls c + (if a = Isolate then 1 else 0)"
  using assms by (cases a) (auto simp: accepted_in_def settle_many_def isolate_def request_stop_def
      close_control_def res_simps Let_def split: if_splits)

lemma isolations_calls:
  "list_all (\<lambda>a. \<not> resets_budget a) as \<Longrightarrow>
    lc_isolation_calls (run_ops control_step as c) = lc_isolation_calls c + int (isolations as c)"
proof (induction as arbitrary: c)
  case Nil
  then show ?case by simp
next
  case (Cons a as)
  show ?case
  proof (cases "control_step a c")
    case (Inl e)
    then show ?thesis using Cons by simp
  next
    case (Inr c')
    then show ?thesis using Cons isolation_step[OF _ Inr] by simp
  qed
qed

lemma run_limit: "lc_isolation_limit (run_ops control_step as c) = lc_isolation_limit c"
  by (induction as arbitrary: c) (auto split: sum.splits simp: control_step_limit)

text \<open>C6: the isolation budget bounds the extra calls.  Between two accepted rows (or approved
  continuations) at most \<open>isolation_limit\<close> bisecting calls are granted, whatever else happens.\<close>

theorem isolation_budget:
  assumes "load_control_ok c" "list_all (\<lambda>a. \<not> resets_budget a) as"
  shows "lc_isolation_calls c + int (isolations as c) \<le> lc_isolation_limit c"
  using control.run_inv[OF assms(1), of as]
  by (simp add: isolations_calls[OF assms(2), symmetric] load_control_ok_def run_limit)

theorem isolation_budget_witness:
  "isolations (replicate 30 Isolate) example_control \<le> 25"
proof -
  have "list_all (\<lambda>a. \<not> resets_budget a) (replicate 30 Isolate)" by (simp add: list_all_iff)
  from isolation_budget[OF example_control_facts(1) this] show ?thesis
    by (simp add: example_control_def default_load_control_def)
qed

end
