(* ===== verification/Load_Transport.thy ===== *)
theory Load_Transport
imports Load_Control "HOL-Library.Sublist"
begin

text \<open>
  The transport of one prepared create group (\<open>application/workspace/execution/load_transport.py\<close>):
  the bisection of known rolled-back rejections and the set of consumers a failed row takes with it.
  The executor, the journal callbacks and the consumer of the generator are parameters of the model;
  the log of executor calls is kept beside the results so that the lemmas can say that no row is
  sent again once its call may have written.
\<close>


section \<open>Rows\<close>

record field_intent =
  fi_field :: string
  fi_dependency_row_ids :: "string list"

record execution_row =
  er_row_id :: string
  er_proposed_external_id :: string
  er_fields :: "field_intent list"


section \<open>Consumers of a failed row\<close>

record dependent_completions =
  dc_consumers :: "(string \<times> string list) list"
  dc_blocked :: "string list"

definition consumer_edges :: "execution_row list \<Rightarrow> (string \<times> string) list" where
  "consumer_edges rows = concat (map (\<lambda>row. concat (map (\<lambda>intent.
     map (\<lambda>parent. (parent, er_row_id row)) (fi_dependency_row_ids intent)) (er_fields row))) rows)"

definition consumers_of :: "execution_row list \<Rightarrow> (string \<times> string list) list" where
  "consumers_of rows = fold (\<lambda>(parent, row_id) d. dict_add d parent row_id) (consumer_edges rows) []"

text \<open>The loop of \<open>reject\<close>: the last pending row is taken, its consumers are appended.\<close>

function reject_loop :: "(string \<times> string list) list \<Rightarrow> string list \<Rightarrow> string list \<Rightarrow> string list" where
  "reject_loop consumers pending blocked =
    (if pending = [] then blocked
     else let current = last pending; pending = butlast pending in
       if current \<in> set blocked then reject_loop consumers pending blocked
       else reject_loop consumers (pending @ dict_get consumers current []) (current # blocked))"
  by pat_completeness auto

termination
proof (relation "measures [\<lambda>(c, p, b). card (fst ` set c - set b), \<lambda>(c, p, b). length p]")
  fix c :: "(string \<times> string list) list" and p b :: "string list" and x q
  assume p: "p \<noteq> []" and x: "x = last p" and q: "q = butlast p" and nb: "x \<notin> set b"
  show "((c, q @ dict_get c x [], x # b), (c, p, b)) \<in>
    measures [\<lambda>(c, p, b). card (fst ` set c - set b), \<lambda>(c, p, b). length p]"
  proof (cases "x \<in> fst ` set c")
    case True
    have "card (fst ` set c - set (x # b)) < card (fst ` set c - set b)"
      by (rule psubset_card_mono) (use True nb in auto)
    then show ?thesis by simp
  next
    case False
    then have "dict_get c x [] = []" by simp
    moreover have "fst ` set c - set (x # b) = fst ` set c - set b" using False by auto
    ultimately show ?thesis using p by (simp add: q)
  qed
qed auto

declare reject_loop.simps [simp del]

definition reject :: "string \<Rightarrow> dependent_completions \<Rightarrow> dependent_completions" where
  "reject row_id d = d\<lparr>dc_blocked := reject_loop (dc_consumers d) [row_id] (dc_blocked d)\<rparr>"

definition blocks :: "dependent_completions \<Rightarrow> string \<Rightarrow> bool" where
  "blocks d row_id = (row_id \<in> set (dc_blocked d))"

definition mk_dependent_completions :: "execution_row list \<Rightarrow> string list \<Rightarrow> dependent_completions" where
  "mk_dependent_completions rows failed =
    fold reject failed \<lparr>dc_consumers = consumers_of rows, dc_blocked = []\<rparr>"


section \<open>Bisecting a rejected batch\<close>

type_synonym row_values = "(string \<times> string) list"

record prepared_create =
  pc_row :: execution_row
  pc_values :: row_values

datatype call_outcome = Receipts "int list" | Refused write_error | Crashed exn

record transport_result =
  tr_prepared :: "prepared_create list"
  tr_identifiers :: "int list"
  tr_error :: "write_error option"

text \<open>The parties of the generator: \<open>begin\<close>, \<open>rolled_back\<close> and the body of the consuming loop act on
  a state and may raise; the two executor operations answer with receipts or an error.\<close>

record 's transport_parties =
  tp_begin :: "execution_row list \<Rightarrow> 's \<Rightarrow> 's \<times> exn option"
  tp_rolled_back :: "execution_row list \<Rightarrow> write_diagnostic option \<Rightarrow> 's \<Rightarrow> 's \<times> exn option"
  tp_consume :: "transport_result \<Rightarrow> 's \<Rightarrow> 's \<times> exn option"
  tp_load_rows :: "string \<Rightarrow> row_values list \<Rightarrow> string list \<Rightarrow> 's \<Rightarrow> 's \<times> call_outcome"
  tp_create_rows :: "string \<Rightarrow> row_values list \<Rightarrow> 's \<Rightarrow> 's \<times> call_outcome"

record 's transport_run =
  run_calls :: "(prepared_create list \<times> call_outcome) list"
  run_results :: "transport_result list"
  run_state :: 's
  run_raised :: "exn option"

definition add_call :: "prepared_create list \<times> call_outcome \<Rightarrow> 's transport_run \<Rightarrow> 's transport_run" where
  "add_call call r = r\<lparr>run_calls := call # run_calls r\<rparr>"

definition add_result :: "transport_result \<Rightarrow> 's transport_run \<Rightarrow> 's transport_run" where
  "add_result x r = r\<lparr>run_results := x # run_results r\<rparr>"

definition finished :: "'s \<Rightarrow> exn option \<Rightarrow> 's transport_run" where
  "finished s e = \<lparr>run_calls = [], run_results = [], run_state = s, run_raised = e\<rparr>"

definition send :: "'s transport_parties \<Rightarrow> string \<Rightarrow> bool \<Rightarrow> prepared_create list \<Rightarrow> 's
    \<Rightarrow> 's \<times> call_outcome" where
  "send P model import_create grp s =
    (if import_create
     then tp_load_rows P model (map pc_values grp)
            (map (\<lambda>p. er_proposed_external_id (pc_row p)) grp) s
     else tp_create_rows P model (map pc_values grp) s)"

definition group_weight :: "'a list \<Rightarrow> nat" where
  "group_weight g = (if length g \<le> 1 then 1 else 2 * length g - 1)"

lemma group_weight_pos: "0 < group_weight g"
  by (simp add: group_weight_def)

lemma group_weight_split:
  assumes "1 < length g"
  shows "group_weight (take (length g div 2) g) + group_weight (drop (length g div 2) g) < group_weight g"
  using assms by (auto simp: group_weight_def min_def)

text \<open>What the generator yields for a group, when a rejected group is split instead, and after
  which outcome the generator returns.\<close>

fun result_of :: "prepared_create list \<Rightarrow> call_outcome \<Rightarrow> transport_result" where
  "result_of grp (Receipts ids) =
     \<lparr>tr_prepared = grp, tr_identifiers = ids, tr_error = None\<rparr>"
| "result_of grp (Refused e) =
     \<lparr>tr_prepared = grp, tr_identifiers = [], tr_error = Some e\<rparr>"
| "result_of grp (Crashed _) =
     \<lparr>tr_prepared = grp, tr_identifiers = [], tr_error = None\<rparr>"

fun rejection :: "call_outcome \<Rightarrow> write_diagnostic option" where
  "rejection (Refused (WriteRejected d)) = d"
| "rejection _ = None"

definition isolates :: "bool \<Rightarrow> call_outcome \<Rightarrow> 'a list \<Rightarrow> bool" where
  "isolates continuation outcome grp =
     (continuation \<and> can_set_aside (rejection outcome) \<and> length grp > 1)"

fun returns_after :: "bool \<Rightarrow> call_outcome \<Rightarrow> bool" where
  "returns_after continuation (Receipts _) = False"
| "returns_after continuation (Refused (WriteOutcomeUnknown _)) = True"
| "returns_after continuation (Refused (WriteRejected d)) = (\<not> continuation \<or> \<not> can_set_aside d)"
| "returns_after continuation (Crashed _) = True"

function transport_loop :: "'s transport_parties \<Rightarrow> string \<Rightarrow> bool \<Rightarrow> bool
    \<Rightarrow> prepared_create list list \<Rightarrow> 's \<Rightarrow> 's transport_run" where
  "transport_loop P model import_create continuation [] s = finished s None"
| "transport_loop P model import_create continuation (grp # pending) s =
    (let (s1, refused) = tp_begin P (map pc_row grp) s in
     if refused \<noteq> None then finished s1 refused else
     let (s2, outcome) = send P model import_create grp s1 in
     add_call (grp, outcome)
      (case outcome of Crashed e \<Rightarrow> finished s2 (Some e) | _ \<Rightarrow>
       if isolates continuation outcome grp then
         let (s3, failed) = tp_rolled_back P (map pc_row grp) (rejection outcome) s2;
             middle = length grp div 2 in
         if failed \<noteq> None then finished s3 failed
         else transport_loop P model import_create continuation
                (take middle grp # drop middle grp # pending) s3
       else
         let x = result_of grp outcome; (s3, failed) = tp_consume P x s2 in
         add_result x
           (if failed \<noteq> None then finished s3 failed
            else if returns_after continuation outcome then finished s3 None
            else transport_loop P model import_create continuation pending s3)))"
  by pat_completeness auto

termination
  by (relation "measure (\<lambda>(P, m, i, c, pending, s). sum_list (map group_weight pending))")
    (auto simp: group_weight_def isolates_def)

declare transport_loop.simps(2) [simp del]

definition create_transport_results :: "'s transport_parties \<Rightarrow> string \<Rightarrow> bool \<Rightarrow> bool
    \<Rightarrow> prepared_create list \<Rightarrow> 's \<Rightarrow> 's transport_run" where
  "create_transport_results P model import_create continuation prepared s =
    transport_loop P model import_create continuation [prepared] s"


section \<open>The runs of the generator as a step relation\<close>

text \<open>\<open>bisects continuation pending calls results raised\<close>: what any parties can observe of a run.\<close>

fun crashed :: "call_outcome \<Rightarrow> bool" where
  "crashed (Crashed _) = True"
| "crashed _ = False"

inductive bisects :: "bool \<Rightarrow> prepared_create list list \<Rightarrow> (prepared_create list \<times> call_outcome) list
    \<Rightarrow> transport_result list \<Rightarrow> exn option \<Rightarrow> bool" for c where
  exhausted: "bisects c [] [] [] None"
| not_begun: "bisects c (g # p) [] [] (Some e)"
| call_raised: "bisects c (g # p) [(g, Crashed e)] [] (Some e)"
| roll_back_raised: "\<not> crashed out \<Longrightarrow> isolates c out g \<Longrightarrow> bisects c (g # p) [(g, out)] [] (Some e)"
| isolated: "\<not> crashed out \<Longrightarrow> isolates c out g \<Longrightarrow>
    bisects c (take (length g div 2) g # drop (length g div 2) g # p) calls rs e \<Longrightarrow>
    bisects c (g # p) ((g, out) # calls) rs e"
| consumer_raised: "\<not> crashed out \<Longrightarrow> \<not> isolates c out g \<Longrightarrow>
    bisects c (g # p) [(g, out)] [result_of g out] (Some e)"
| returned: "\<not> crashed out \<Longrightarrow> \<not> isolates c out g \<Longrightarrow> returns_after c out \<Longrightarrow>
    bisects c (g # p) [(g, out)] [result_of g out] None"
| yielded: "\<not> crashed out \<Longrightarrow> \<not> isolates c out g \<Longrightarrow> \<not> returns_after c out \<Longrightarrow>
    bisects c p calls rs e \<Longrightarrow> bisects c (g # p) ((g, out) # calls) (result_of g out # rs) e"

inductive_cases bisects_NilE: "bisects c [] calls rs e"
inductive_cases bisects_ConsE: "bisects c (g # p) calls rs e"

lemma run_simps [simp]:
  "run_calls (add_call x r) = x # run_calls r" "run_results (add_call x r) = run_results r"
  "run_raised (add_call x r) = run_raised r" "run_state (add_call x r) = run_state r"
  "run_calls (add_result y r) = run_calls r" "run_results (add_result y r) = y # run_results r"
  "run_raised (add_result y r) = run_raised r" "run_state (add_result y r) = run_state r"
  "run_calls (finished s e) = []" "run_results (finished s e) = []"
  "run_raised (finished s e) = e" "run_state (finished s e) = s"
  by (simp_all add: add_call_def add_result_def finished_def)

lemma transport_loop_settled:
  assumes "tp_begin P (map pc_row g) s = (s1, None)" "send P m i g s1 = (s2, out)" "\<not> crashed out"
    and "tp_rolled_back P (map pc_row g) (rejection out) s2 = (s3, e3)"
    and "tp_consume P (result_of g out) s2 = (s4, e4)"
  shows "transport_loop P m i c (g # p) s = add_call (g, out)
    (if isolates c out g then
       if e3 \<noteq> None then finished s3 e3
       else transport_loop P m i c (take (length g div 2) g # drop (length g div 2) g # p) s3
     else add_result (result_of g out)
       (if e4 \<noteq> None then finished s4 e4
        else if returns_after c out then finished s4 None else transport_loop P m i c p s4))"
  using assms by (cases out) (simp_all add: transport_loop.simps(2) Let_def)

lemma transport_loop_weight:
  "sum_list (map group_weight pending) < n \<Longrightarrow>
   bisects c pending (run_calls (transport_loop P m i c pending s))
     (run_results (transport_loop P m i c pending s)) (run_raised (transport_loop P m i c pending s))"
proof (induction n arbitrary: pending s)
  case 0
  then show ?case by simp
next
  case (Suc n)
  show ?case
  proof (cases pending)
    case Nil
    then show ?thesis by (simp add: exhausted)
  next
    case (Cons g p)
    obtain s1 e1 where 1: "tp_begin P (map pc_row g) s = (s1, e1)" by fastforce
    obtain s2 out where 2: "send P m i g s1 = (s2, out)" by fastforce
    obtain s3 e3 where 3: "tp_rolled_back P (map pc_row g) (rejection out) s2 = (s3, e3)" by fastforce
    obtain s4 e4 where 4: "tp_consume P (result_of g out) s2 = (s4, e4)" by fastforce
    have w: "sum_list (map group_weight p) < n"
      using Suc.prems Cons group_weight_pos[of g] by simp
    have w': "sum_list (map group_weight (take (length g div 2) g # drop (length g div 2) g # p)) < n"
      if "isolates c out g"
      using that Suc.prems Cons group_weight_split[of g] by (simp add: isolates_def)
    show ?thesis
    proof (cases "e1 = None \<and> \<not> crashed out")
      case False
      then show ?thesis using 1 2 Cons by (cases e1; cases out)
          (auto simp: transport_loop.simps(2) intro: not_begun call_raised)
    next
      case True
      note eq = transport_loop_settled[OF 1[unfolded conjunct1[OF True]] 2 conjunct2[OF True] 3 4, of c p]
      show ?thesis unfolding Cons eq
        using True Suc.IH[OF w] Suc.IH[OF w'] by (cases e3; cases e4)
          (auto intro: roll_back_raised isolated consumer_raised returned yielded)
    qed
  qed
qed

lemmas transport_loop_bisects = transport_loop_weight[OF lessI]

lemma create_transport_bisects:
  "bisects c [prepared] (run_calls (create_transport_results P m i c prepared s))
     (run_results (create_transport_results P m i c prepared s))
     (run_raised (create_transport_results P m i c prepared s))"
  unfolding create_transport_results_def by (rule transport_loop_bisects)

definition results_rows :: "transport_result list \<Rightarrow> prepared_create list" where
  "results_rows rs = concat (map tr_prepared rs)"

lemma tr_prepared_result [simp]: "tr_prepared (result_of g out) = g"
  by (cases out) simp_all

lemma take_drop_concat [simp]: "take n g @ drop n g @ xs = g @ xs"
  by (metis append.assoc append_take_drop_id)

lemma bisects_prefix:
  "bisects c pending calls rs e \<Longrightarrow> prefix (results_rows rs) (concat pending)"
  by (induction rule: bisects.induct) (auto simp: results_rows_def)

text \<open>The outcome after which the generator gives up the rest of its work.\<close>

definition gives_up :: "bool \<Rightarrow> transport_result \<Rightarrow> bool" where
  "gives_up continuation x = (case tr_error x of None \<Rightarrow> False
     | Some (WriteOutcomeUnknown _) \<Rightarrow> True
     | Some (WriteRejected d) \<Rightarrow> \<not> continuation \<or> \<not> can_set_aside d)"

lemma gives_up_result: "\<not> crashed out \<Longrightarrow> gives_up c (result_of g out) = returns_after c out"
  by (cases "(c, out)" rule: returns_after.cases) (simp_all add: gives_up_def)

lemma bisects_complete:
  "bisects c pending calls rs e \<Longrightarrow> e = None \<Longrightarrow> list_all (\<lambda>x. \<not> gives_up c x) rs \<Longrightarrow>
    results_rows rs = concat pending"
  by (induction rule: bisects.induct) (auto simp: results_rows_def gives_up_result)

lemma bisects_gives_up_last:
  "bisects c pending calls rs e \<Longrightarrow> list_all (\<lambda>x. \<not> gives_up c x) (butlast rs)"
  by (induction rule: bisects.induct) (auto simp: gives_up_result)

lemma bisects_single:
  "bisects c pending calls rs e \<Longrightarrow> c \<Longrightarrow> x \<in> set rs \<Longrightarrow> tr_error x = Some (WriteRejected d) \<Longrightarrow>
    can_set_aside d \<Longrightarrow> length (tr_prepared x) \<le> 1"
proof (induction rule: bisects.induct)
  case (consumer_raised out g p e)
  then show ?case by (cases out) (auto simp: isolates_def)
next
  case (returned out g p)
  then show ?case by (cases out) (auto simp: isolates_def)
next
  case (yielded out g p calls rs e)
  then show ?case by (cases out) (auto simp: isolates_def)
qed auto

text \<open>A call that may have written: everything but a definitive rejection, which Odoo rolls back.\<close>

fun may_have_written :: "call_outcome \<Rightarrow> bool" where
  "may_have_written (Refused (WriteRejected _)) = False"
| "may_have_written _ = True"

definition written_rows :: "(prepared_create list \<times> call_outcome) list \<Rightarrow> prepared_create list" where
  "written_rows calls = concat (map fst (filter (may_have_written \<circ> snd) calls))"

lemma isolates_not_written: "isolates c out g \<Longrightarrow> \<not> may_have_written out"
  by (cases out rule: may_have_written.cases) (auto simp: isolates_def)

lemma bisects_written_once:
  "bisects c pending calls rs e \<Longrightarrow> subseq (written_rows calls) (concat pending)"
proof (induction rule: bisects.induct)
  case (yielded out g p calls rs e)
  then have "subseq (g @ written_rows calls) (g @ concat p)" "subseq (written_rows calls) (g @ concat p)"
    by (auto intro: list_emb_append_mono list_emb_append2 simp: written_rows_def)
  then show ?case by (simp add: written_rows_def)
qed (auto simp: written_rows_def dest: isolates_not_written)

lemma bisects_calls:
  "bisects c pending calls rs e \<Longrightarrow> length calls \<le> sum_list (map group_weight pending)"
proof (induction rule: bisects.induct)
  case (isolated out g p calls rs e)
  then show ?case using group_weight_split[of g] by (simp add: isolates_def)
qed (auto simp: group_weight_def)


section \<open>The blocked set is the reachability closure\<close>

lemma set_last_butlast: "p \<noteq> [] \<Longrightarrow> set p = insert (last p) (set (butlast p))"
  by (metis append_butlast_last_id list.simps(15) rotate1.simps(2) set_rotate1)

lemma reject_loop_result:
  defines "E c \<equiv> dict_rel c"
  shows "set b \<union> set p \<subseteq> set (reject_loop c p b)"
    and "set (reject_loop c p b) \<subseteq> set b \<union> (E c)\<^sup>* `` set p"
    and "\<forall>x\<in>set (reject_loop c p b) - set b. E c `` {x} \<subseteq> set (reject_loop c p b)"
proof (induction c p b rule: reject_loop.induct)
  case (1 c p b)
  let ?x = "last p" and ?q = "butlast p"
  let ?n = "?q @ dict_get c ?x []"
  have succ: "set (dict_get c ?x []) = E c `` {?x}"
    by (auto simp: E_def dict_rel_def)
  consider "p = []" | "p \<noteq> []" "?x \<in> set b" | "p \<noteq> []" "?x \<notin> set b" by blast
  then have "set b \<union> set p \<subseteq> set (reject_loop c p b)
    \<and> set (reject_loop c p b) \<subseteq> set b \<union> (E c)\<^sup>* `` set p
    \<and> (\<forall>x\<in>set (reject_loop c p b) - set b. E c `` {x} \<subseteq> set (reject_loop c p b))"
  proof cases
    case 1
    then show ?thesis by (simp add: reject_loop.simps)
  next
    case 2
    have "set p = insert ?x (set ?q)" by (rule set_last_butlast[OF 2(1)])
    moreover have "reject_loop c p b = reject_loop c ?q b"
      using 2 by (subst reject_loop.simps) (simp add: Let_def)
    ultimately show ?thesis using "1.IH"(1-3)[OF 2(1) refl refl 2(2)] 2(2) by auto
  next
    case 3
    have p: "set p = insert ?x (set ?q)" by (rule set_last_butlast[OF 3(1)])
    have eq: "reject_loop c p b = reject_loop c ?n (?x # b)"
      using 3 by (subst reject_loop.simps) (simp add: Let_def)
    note IH = "1.IH"(4-6)[OF 3(1) refl refl 3(2)]
    have "(E c)\<^sup>* `` set ?n \<subseteq> (E c)\<^sup>* `` set p"
      using p succ by (auto intro: converse_rtrancl_into_rtrancl)
    moreover have "E c `` {?x} \<subseteq> set (reject_loop c ?n (?x # b))"
      using IH(1) succ by auto
    moreover have "?x \<in> (E c)\<^sup>* `` set p" using p by auto
    ultimately have "set (reject_loop c ?n (?x # b)) \<subseteq> set b \<union> (E c)\<^sup>* `` set p"
      using IH(2) by (simp only: list.set) blast
    then show ?thesis unfolding eq using IH p succ by auto
  qed
  then show "set b \<union> set p \<subseteq> set (reject_loop c p b)"
    and "set (reject_loop c p b) \<subseteq> set b \<union> (E c)\<^sup>* `` set p"
    and "\<forall>x\<in>set (reject_loop c p b) - set b. E c `` {x} \<subseteq> set (reject_loop c p b)"
    by blast+
qed

definition closed_blocked :: "dependent_completions \<Rightarrow> bool" where
  "closed_blocked d = (dict_rel (dc_consumers d) `` set (dc_blocked d) \<subseteq> set (dc_blocked d))"

lemma reject_consumers [simp]: "dc_consumers (reject x d) = dc_consumers d"
  by (simp add: reject_def)

lemma reject_blocked:
  assumes "closed_blocked d"
  shows "set (dc_blocked (reject x d))
      = set (dc_blocked d) \<union> (dict_rel (dc_consumers d))\<^sup>* `` {x}"
proof -
  let ?E = "dict_rel (dc_consumers d)" and ?b = "dc_blocked d"
  let ?r = "reject_loop (dc_consumers d) [x] ?b"
  note res = reject_loop_result[where b = ?b and p = "[x]" and c = "dc_consumers d"]
  have "?E `` set ?r \<subseteq> set ?r"
    using res(1,3) assms unfolding closed_blocked_def by blast
  then have "?E\<^sup>* `` set ?r = set ?r" by (simp add: Image_closed_trancl)
  then have "?E\<^sup>* `` {x} \<subseteq> set ?r" using res(1) by auto
  then show ?thesis using res(1,2) by (auto simp: reject_def)
qed

lemma closed_reject:
  assumes "closed_blocked d"
  shows "closed_blocked (reject x d)"
  using assms unfolding closed_blocked_def reject_consumers reject_blocked[OF assms]
  by (auto intro: rtrancl_into_rtrancl)

lemma fold_reject:
  "closed_blocked d \<Longrightarrow> closed_blocked (fold reject failed d) \<and>
    dc_consumers (fold reject failed d) = dc_consumers d \<and>
    set (dc_blocked (fold reject failed d))
      = set (dc_blocked d) \<union> (dict_rel (dc_consumers d))\<^sup>* `` set failed"
proof (induction failed arbitrary: d)
  case Nil
  then show ?case by simp
next
  case (Cons x failed)
  from Cons.IH[OF closed_reject[OF Cons.prems, of x]] show ?case
    using reject_blocked[OF Cons.prems, of x] by auto
qed

text \<open>\<open>(parent, row)\<close>: a frozen incoming edge of the rows.\<close>

definition depends_rel :: "execution_row list \<Rightarrow> (string \<times> string) set" where
  "depends_rel rows = {(parent, row_id). \<exists>row\<in>set rows. \<exists>intent\<in>set (er_fields row).
     parent \<in> set (fi_dependency_row_ids intent) \<and> row_id = er_row_id row}"

lemma depends_rel_of: "dict_rel (consumers_of rows) = depends_rel rows"
proof -
  have *: "set (dict_get (fold (\<lambda>(p, r) d. dict_add d p r) es d) x [])
      = set (dict_get d x []) \<union> {y. (x, y) \<in> set es}" for es d x
    by (induction es arbitrary: d) (auto simp: dict_get_add split: if_splits)
  have "dict_rel (consumers_of rows) = set (consumer_edges rows)"
    by (simp add: dict_rel_def consumers_of_def *)
  also have "\<dots> = depends_rel rows"
    by (auto simp: consumer_edges_def depends_rel_def)
  finally show ?thesis .
qed

lemma mk_dependent_completions_result:
  "closed_blocked (mk_dependent_completions rows failed)
   \<and> dc_consumers (mk_dependent_completions rows failed) = consumers_of rows
   \<and> set (dc_blocked (mk_dependent_completions rows failed)) = (depends_rel rows)\<^sup>* `` set failed"
proof -
  let ?d = "\<lparr>dc_consumers = consumers_of rows, dc_blocked = []\<rparr>"
  have "closed_blocked ?d" by (simp add: closed_blocked_def)
  from fold_reject[OF this, of failed] show ?thesis
    by (simp add: mk_dependent_completions_def depends_rel_of)
qed


section \<open>Properties\<close>

text \<open>A small executor for the witnesses: it accepts one row at a time, and rejects the row
  \<open>''bad''\<close> and every larger batch with a constraint message.\<close>

definition example_diagnostic :: write_diagnostic where
  "example_diagnostic = \<lparr>wd_code = CONSTRAINT, wd_model = ''res.partner'', wd_method = ''create'',
     wd_fields = [], wd_row_from = None, wd_row_to = None, wd_batch_size = 1,
     wd_message_count = 0, wd_message_fingerprint = [], wd_http_status = None, wd_error_type = None\<rparr>"

definition example_parties :: "unit transport_parties" where
  "example_parties = \<lparr>tp_begin = (\<lambda>_ s. (s, None)), tp_rolled_back = (\<lambda>_ _ s. (s, None)),
     tp_consume = (\<lambda>_ s. (s, None)), tp_load_rows = (\<lambda>_ _ _ s. (s, Crashed RuntimeError)),
     tp_create_rows = (\<lambda>_ vs s. (s, if length vs = 1 \<and> vs \<noteq> [[(''name'', ''bad'')]] then Receipts [7]
        else Refused (WriteRejected (Some example_diagnostic))))\<rparr>"

definition example_row :: "string \<Rightarrow> string \<Rightarrow> prepared_create" where
  "example_row i v = \<lparr>pc_row = \<lparr>er_row_id = i, er_proposed_external_id = i, er_fields = []\<rparr>,
     pc_values = [(''name'', v)]\<rparr>"

definition example_batch :: "prepared_create list" where
  "example_batch = [example_row ''a'' ''x'', example_row ''b'' ''bad'', example_row ''c'' ''y'']"

definition example_run :: "unit transport_run" where
  "example_run = create_transport_results example_parties ''res.partner'' False True example_batch ()"

lemma example_run_eval:
  "run_raised example_run = None" "list_all (\<lambda>x. \<not> gives_up True x) (run_results example_run)"
  "length (run_calls example_run) = 5"
  "map tr_identifiers (run_results example_run) = [[7], [], [7]]"
  by code_simp+

text \<open>C7: nothing is lost and nothing is reordered.  The rows of the yielded results are, in order,
  the rows handed in: always a prefix of them, and all of them when the generator ends by itself
  without a result that gives up (an unknown outcome, or a rejection that may not be set aside).\<close>

theorem transport_reports_every_row:
  "prefix (results_rows (run_results (create_transport_results P m i c prepared s))) prepared
   \<and> (run_raised (create_transport_results P m i c prepared s) = None
      \<and> list_all (\<lambda>x. \<not> gives_up c x) (run_results (create_transport_results P m i c prepared s))
      \<longrightarrow> results_rows (run_results (create_transport_results P m i c prepared s)) = prepared)"
  using bisects_prefix[OF create_transport_bisects[of c prepared P m i s]]
    bisects_complete[OF create_transport_bisects[of c prepared P m i s]] by simp

theorem transport_reports_every_row_witness:
  "results_rows (run_results example_run) = example_batch"
  using transport_reports_every_row[of example_parties "''res.partner''" False True example_batch "()"]
    example_run_eval by (simp add: example_run_def)

text \<open>C8: at most one write per row.  Whatever the executor answers, the rows of the calls that may
  have written (accepted, uncertain or broken off; a definitive rejection is rolled back) form a
  subsequence of the rows handed in: no row is sent again once a call with it may have written, and
  after an unknown outcome or a final rejection nothing more is yielded.\<close>

theorem transport_writes_once:
  "subseq (written_rows (run_calls (create_transport_results P m i c prepared s))) prepared
   \<and> list_all (\<lambda>x. \<not> gives_up c x) (butlast (run_results (create_transport_results P m i c prepared s)))"
  using bisects_written_once[OF create_transport_bisects[of c prepared P m i s]]
    bisects_gives_up_last[OF create_transport_bisects[of c prepared P m i s]] by simp

text \<open>C9: bisection isolates the faulty record with a bounded number of calls.  Under the continue
  policy a rejection that may be set aside is only ever reported for a single row, and a group of
  \<open>n\<close> rows costs at most \<open>2n - 1\<close> executor calls (one for an empty group).\<close>

theorem transport_isolates:
  "length (run_calls (create_transport_results P m i c prepared s)) \<le> max 1 (2 * length prepared - 1)
   \<and> (c \<longrightarrow> (\<forall>x\<in>set (run_results (create_transport_results P m i c prepared s)). \<forall>d.
        tr_error x = Some (WriteRejected d) \<and> can_set_aside d \<longrightarrow> length (tr_prepared x) \<le> 1))"
  using bisects_calls[OF create_transport_bisects[of c prepared P m i s]]
    bisects_single[OF create_transport_bisects[of c prepared P m i s]]
  by (auto simp: group_weight_def split: if_splits)

theorem transport_isolates_witness:
  "length (run_calls example_run) \<le> 5 \<and> length (tr_prepared (run_results example_run ! 1)) \<le> 1"
proof -
  have "tr_error (run_results example_run ! 1) = Some (WriteRejected (Some example_diagnostic))"
    "can_set_aside (Some example_diagnostic)" "length (run_results example_run) = 3"
    by code_simp+
  then show ?thesis
    using transport_isolates[of example_parties "''res.partner''" False True example_batch "()"]
    by (simp add: example_run_def example_batch_def)
qed

text \<open>C10: a failed row takes exactly its transitive consumers with it.  A row is blocked if and only
  if a failed row reaches it along the frozen incoming edges, cycles included, and a later failure
  adds exactly what that row reaches.\<close>

theorem dependent_completions_closure:
  "(blocks (mk_dependent_completions rows failed) row_id \<longleftrightarrow>
     (\<exists>f\<in>set failed. (f, row_id) \<in> (depends_rel rows)\<^sup>*))
   \<and> (blocks (reject late (mk_dependent_completions rows failed)) row_id \<longleftrightarrow>
     (\<exists>f\<in>set failed \<union> {late}. (f, row_id) \<in> (depends_rel rows)\<^sup>*))"
  using mk_dependent_completions_result[of rows failed]
  by (auto simp: blocks_def reject_blocked depends_rel_of)

end
