(* ===== verification/Graph_Order.thy ===== *)
theory Graph_Order
imports Prelude
begin

text \<open>
  Kahn's loop, as the scheduler runs it twice (\<open>_unresolved_nodes\<close> and
  \<open>_topological_order_with_levels\<close> of \<open>domain/execution/dependency_scheduler.py\<close>): a heap of rows without
  open dependencies, counters that fall as rows leave the heap, and a payload the second pass uses
  for levels.  The invariant shows which rows leave the loop, and in which order, for any graph.
\<close>


section \<open>The loop\<close>

record ('a, 'p) kahn_state =
  ks_indegree :: "'a \<Rightarrow> int"
  ks_ready :: "(int \<times> 'a) list"
  ks_done :: "'a list"
  ks_extra :: 'p

text \<open>One owner of a row that left the heap: its counter falls, and at zero it enters the heap.\<close>

definition release :: "('a::linorder \<Rightarrow> int) \<Rightarrow> ('a \<Rightarrow> 'p \<Rightarrow> 'p) \<Rightarrow> 'a \<Rightarrow> ('a, 'p) kahn_state
    \<Rightarrow> ('a, 'p) kahn_state" where
  "release rank pass v s = (let n = ks_indegree s v - 1 in
     s\<lparr>ks_indegree := (ks_indegree s)(v := n), ks_extra := pass v (ks_extra s),
       ks_ready := (if n = 0 then insort (rank v, v) (ks_ready s) else ks_ready s)\<rparr>)"

definition arranged :: "bool \<Rightarrow> ('a \<Rightarrow> int) \<Rightarrow> 'a list \<Rightarrow> 'a list" where
  "arranged by_rank rank vs = (if by_rank then sort_key rank vs else vs)"

definition kahn_step :: "bool \<Rightarrow> ('a::linorder \<Rightarrow> int) \<Rightarrow> ('a \<Rightarrow> 'p \<Rightarrow> 'p) \<Rightarrow> ('a \<Rightarrow> 'a \<Rightarrow> 'p \<Rightarrow> 'p)
    \<Rightarrow> ('a \<times> 'a list) list \<Rightarrow> ('a, 'p) kahn_state \<Rightarrow> ('a, 'p) kahn_state" where
  "kahn_step by_rank rank visit pass following s = (let v = snd (hd (ks_ready s)) in
     fold (release rank (pass v)) (arranged by_rank rank (dict_get following v []))
       (s\<lparr>ks_ready := tl (ks_ready s), ks_done := ks_done s @ [v], ks_extra := visit v (ks_extra s)\<rparr>))"

text \<open>How far the loop still can go: rows in the heap and rows with open dependencies.\<close>

definition owners_of :: "('a \<times> 'a list) list \<Rightarrow> 'a set" where
  "owners_of following = (\<Union>(_, vs)\<in>set following. set vs)"

definition kahn_work :: "('a \<times> 'a list) list \<Rightarrow> ('a, 'p) kahn_state \<Rightarrow> nat" where
  "kahn_work following s
    = length (ks_ready s) + card {v \<in> owners_of following. ks_indegree s v > 0}"

lemma finite_owners [simp]: "finite (owners_of following)"
  by (auto simp: owners_of_def)

lemma followers_owners: "set (dict_get following v []) \<subseteq> owners_of following"
proof (cases "map_of following v")
  case None
  then show ?thesis by (simp add: dict_get_def)
next
  case (Some vs)
  then show ?thesis by (auto simp: dict_get_def owners_of_def dest!: map_of_SomeD)
qed

lemma set_arranged [simp]: "set (arranged by_rank rank vs) = set vs"
  by (simp add: arranged_def)

lemma count_arranged [simp]: "count_list (arranged by_rank rank vs) v = count_list vs v"
proof -
  have "count_list (sort_key rank vs) v = count (mset (sort_key rank vs)) v"
    by (simp only: count_mset)
  then show ?thesis by (simp add: arranged_def count_mset)
qed

lemma release_work:
  assumes "v \<in> owners_of following"
  shows "kahn_work following (release rank pass v s) \<le> kahn_work following s"
proof -
  let ?n = "ks_indegree s v - 1"
  let ?A = "{w \<in> owners_of following. ks_indegree s w > 0}"
  let ?B = "{w \<in> owners_of following. ((ks_indegree s)(v := ?n)) w > 0}"
  show ?thesis
  proof (cases "?n = 0")
    case True
    then have "?B = ?A - {v}" "v \<in> ?A" using assms by auto
    moreover have "finite ?A" by simp
    ultimately have "card ?A = Suc (card ?B)"
      by (simp only: card_Suc_Diff1)
    then show ?thesis using True by (simp add: kahn_work_def release_def)
  next
    case False
    have "card ?B \<le> card ?A" by (rule card_mono) (auto split: if_splits)
    then show ?thesis using False by (simp add: kahn_work_def release_def)
  qed
qed

lemma fold_release_work:
  "set vs \<subseteq> owners_of following \<Longrightarrow>
    kahn_work following (fold (release rank pass) vs s) \<le> kahn_work following s"
proof (induction vs arbitrary: s)
  case (Cons v vs)
  then show ?case
    using order_trans[OF Cons.IH release_work[of v following rank pass s]] by simp
qed simp

lemma kahn_step_work:
  assumes "ks_ready s \<noteq> []"
  shows "kahn_work following (kahn_step by_rank rank visit pass following s) < kahn_work following s"
proof -
  let ?v = "snd (hd (ks_ready s))"
  let ?s = "s\<lparr>ks_ready := tl (ks_ready s), ks_done := ks_done s @ [?v],
    ks_extra := visit ?v (ks_extra s)\<rparr>"
  have "kahn_work following (kahn_step by_rank rank visit pass following s) \<le> kahn_work following ?s"
    unfolding kahn_step_def Let_def by (rule fold_release_work) (simp add: followers_owners)
  also have "\<dots> < kahn_work following s" using assms by (simp add: kahn_work_def)
  finally show ?thesis .
qed

function kahn_loop :: "bool \<Rightarrow> ('a::linorder \<Rightarrow> int) \<Rightarrow> ('a \<Rightarrow> 'p \<Rightarrow> 'p) \<Rightarrow> ('a \<Rightarrow> 'a \<Rightarrow> 'p \<Rightarrow> 'p)
    \<Rightarrow> ('a \<times> 'a list) list \<Rightarrow> ('a, 'p) kahn_state \<Rightarrow> ('a, 'p) kahn_state" where
  "kahn_loop by_rank rank visit pass following s =
    (if ks_ready s = [] then s
     else kahn_loop by_rank rank visit pass following
            (kahn_step by_rank rank visit pass following s))"
  by pat_completeness auto

termination
  by (relation "measure (\<lambda>(b, r, vi, pa, following, s). kahn_work following s)")
    (auto simp: kahn_step_work)

declare kahn_loop.simps [simp del]

lemma kahn_loop_induct [consumes 1, case_names step]:
  assumes "I s"
    and "\<And>s. I s \<Longrightarrow> ks_ready s \<noteq> [] \<Longrightarrow> I (kahn_step by_rank rank visit pass following s)"
  shows "I (kahn_loop by_rank rank visit pass following s)
    \<and> ks_ready (kahn_loop by_rank rank visit pass following s) = []"
  using assms
proof (induction by_rank rank visit pass following s rule: kahn_loop.induct)
  case (1 by_rank rank visit pass following s)
  show ?case
  proof (cases "ks_ready s = []")
    case True
    then show ?thesis using "1.prems"(1) by (simp add: kahn_loop.simps)
  next
    case False
    have eq: "kahn_loop by_rank rank visit pass following s
        = kahn_loop by_rank rank visit pass following (kahn_step by_rank rank visit pass following s)"
      using False by (subst kahn_loop.simps) simp
    show ?thesis unfolding eq
      by (rule "1.IH"[OF False "1.prems"(2)[OF "1.prems"(1) False] "1.prems"(2)])
  qed
qed


section \<open>What one step does\<close>

lemma fold_release_indegree:
  "ks_indegree (fold (release rank pass) vs s) v = ks_indegree s v - int (count_list vs v)"
  by (induction vs arbitrary: s) (simp_all add: release_def Let_def)

lemma fold_release_done [simp]: "ks_done (fold (release rank pass) vs s) = ks_done s"
  by (induction vs arbitrary: s) (simp_all add: release_def Let_def)

lemma fold_release_extra: "ks_extra (fold (release rank pass) vs s) = fold pass vs (ks_extra s)"
  by (induction vs arbitrary: s) (simp_all add: release_def Let_def)

text \<open>The heap gains exactly the owners whose counter reaches zero, each once.\<close>

lemma fold_release_ready:
  assumes "\<forall>v. int (count_list vs v) \<le> ks_indegree s v \<or> v \<notin> set vs"
  shows "mset (ks_ready (fold (release rank pass) vs s)) = mset (ks_ready s)
     + mset (map (\<lambda>v. (rank v, v)) (filter (\<lambda>v. ks_indegree s v = int (count_list vs v)) (remdups vs)))"
  using assms
proof (induction vs arbitrary: s)
  case Nil
  then show ?case by simp
next
  case (Cons w vs)
  let ?s = "release rank pass w s"
  have ind: "ks_indegree ?s v = ks_indegree s v - (if v = w then 1 else 0)" for v
    by (simp add: release_def Let_def)
  have cnt: "int (count_list vs v) \<le> ks_indegree ?s v \<or> v \<notin> set vs" for v
    using Cons.prems[rule_format, of v] by (auto simp: ind split: if_splits)
  have keep: "filter (\<lambda>v. ks_indegree ?s v = int (count_list vs v)) (remdups vs)
      = filter (\<lambda>v. ks_indegree s v = int (count_list (w # vs) v)) (remdups vs)"
    by (rule filter_cong) (auto simp: ind)
  have "mset (ks_ready (fold (release rank pass) vs ?s)) = mset (ks_ready ?s)
     + mset (map (\<lambda>v. (rank v, v)) (filter (\<lambda>v. ks_indegree s v = int (count_list (w # vs) v))
         (remdups vs)))"
    using Cons.IH[of ?s] cnt unfolding keep by blast
  moreover have "mset (ks_ready ?s) = mset (ks_ready s)
      + (if ks_indegree s w = 1 then {#(rank w, w)#} else {#})"
    by (simp add: release_def Let_def)
  moreover have "w \<in> set vs \<Longrightarrow> ks_indegree s w \<noteq> 1"
    using Cons.prems[rule_format, of w] count_list_0_iff[of vs w] by auto
  moreover have "w \<notin> set vs \<Longrightarrow> count_list vs w = 0" by simp
  ultimately show ?case by (cases "w \<in> set vs") auto
qed


section \<open>The invariant\<close>

text \<open>\<open>precedes E xs\<close>: every element of \<open>xs\<close> has its predecessors before it.\<close>

definition precedes :: "('a \<times> 'a) set \<Rightarrow> 'a list \<Rightarrow> bool" where
  "precedes E xs = (\<forall>i<length xs. \<forall>u. (u, xs ! i) \<in> E \<longrightarrow> u \<in> set (take i xs))"

definition open_edges :: "('a \<times> 'a list) list \<Rightarrow> 'a set \<Rightarrow> 'a \<Rightarrow> int" where
  "open_edges following us v = (\<Sum>u\<in>us. int (count_list (dict_get following u []) v))"

definition kahn_inv :: "'a set \<Rightarrow> ('a::linorder \<times> 'a list) list \<Rightarrow> ('a \<Rightarrow> int)
    \<Rightarrow> ('a, 'p) kahn_state \<Rightarrow> bool" where
  "kahn_inv N following rank s =
    (finite N \<and> dict_rel following \<subseteq> N \<times> N \<and> distinct (ks_done s) \<and> set (ks_done s) \<subseteq> N
     \<and> (\<forall>v\<in>N. ks_indegree s v = open_edges following (N - set (ks_done s)) v)
     \<and> distinct (ks_ready s)
     \<and> set (ks_ready s) = (\<lambda>v. (rank v, v)) ` {v \<in> N - set (ks_done s). ks_indegree s v = 0}
     \<and> precedes (dict_rel following) (ks_done s))"

lemma precedes_Nil [simp]: "precedes E []"
  by (simp add: precedes_def)

lemma precedes_snoc: "precedes E (xs @ [x]) \<longleftrightarrow> precedes E xs \<and> (\<forall>u. (u, x) \<in> E \<longrightarrow> u \<in> set xs)"
  by (auto simp: precedes_def less_Suc_eq nth_append)

lemma precedes_closed:
  assumes "precedes E xs" "(u, v) \<in> E" "v \<in> set xs"
  shows "u \<in> set xs"
proof -
  obtain i where "i < length xs" "xs ! i = v" using assms(3) by (auto simp: in_set_conv_nth)
  then have "u \<in> set (take i xs)" using assms(1,2) by (auto simp: precedes_def)
  then show ?thesis by (rule in_set_takeD)
qed

lemma open_edges_zero_iff:
  assumes "finite us"
  shows "open_edges following us v = 0 \<longleftrightarrow> (\<forall>u\<in>us. (u, v) \<notin> dict_rel following)"
  using assms by (simp add: open_edges_def sum_nonneg_eq_0_iff dict_rel_iff count_list_0_iff)

lemma open_edges_nonneg: "0 \<le> open_edges following us v"
  by (simp add: open_edges_def sum_nonneg)

lemma open_edges_remove:
  assumes "finite us" "u \<in> us"
  shows "open_edges following us v
    = int (count_list (dict_get following u []) v) + open_edges following (us - {u}) v"
  using assms by (simp add: open_edges_def sum.remove)

text \<open>The row that leaves the heap.\<close>

lemma kahn_inv_head:
  assumes "kahn_inv N following rank s" "ks_ready s \<noteq> []" "v = snd (hd (ks_ready s))"
  shows "v \<in> N" "v \<notin> set (ks_done s)" "ks_indegree s v = 0" "hd (ks_ready s) = (rank v, v)"
    and "\<And>u. (u, v) \<in> dict_rel following \<Longrightarrow> u \<in> set (ks_done s)"
    and "\<And>w. (v, w) \<in> dict_rel following \<Longrightarrow> w \<in> N \<and> w \<notin> set (ks_done s) \<and> w \<noteq> v"
proof -
  have "hd (ks_ready s) \<in> set (ks_ready s)" using assms(2) by simp
  then show v: "v \<in> N" "v \<notin> set (ks_done s)" "ks_indegree s v = 0" "hd (ks_ready s) = (rank v, v)"
    using assms(1,3) by (auto simp: kahn_inv_def)
  have "open_edges following (N - set (ks_done s)) v = 0" "finite N"
    using v assms(1) by (auto simp: kahn_inv_def)
  then show pred: "u \<in> set (ks_done s)" if "(u, v) \<in> dict_rel following" for u
    using that assms(1) by (auto simp: open_edges_zero_iff kahn_inv_def)
  show "w \<in> N \<and> w \<notin> set (ks_done s) \<and> w \<noteq> v" if "(v, w) \<in> dict_rel following" for w
    using that v(2) pred[of v] precedes_closed[OF _ that] assms(1) by (auto simp: kahn_inv_def)
qed

lemma kahn_step_inv:
  assumes inv: "kahn_inv N following rank s" and ready: "ks_ready s \<noteq> []"
  shows "kahn_inv N following rank (kahn_step by_rank rank visit pass following s)"
proof -
  define v where "v = snd (hd (ks_ready s))"
  define vs where "vs = dict_get following v []"
  define t where "t = kahn_step by_rank rank visit pass following s"
  let ?R = "N - set (ks_done s)"
  note head = kahn_inv_head[OF inv ready v_def]
  have fin: "finite N" and E: "dict_rel following \<subseteq> N \<times> N"
    and ind: "\<forall>w\<in>N. ks_indegree s w = open_edges following ?R w"
    using inv by (auto simp: kahn_inv_def)
  have in_vs: "w \<in> set vs \<longleftrightarrow> (v, w) \<in> dict_rel following" for w
    by (simp add: vs_def dict_rel_iff)
  have dn: "ks_done t = ks_done s @ [v]"
    by (simp add: t_def kahn_step_def v_def Let_def)
  have split: "open_edges following ?R w
      = int (count_list vs w) + open_edges following (N - set (ks_done t)) w" for w
  proof -
    have "?R - {v} = N - set (ks_done t)" by (auto simp: dn)
    then show ?thesis
      using open_edges_remove[of ?R v following w] fin head(1,2) by (simp add: vs_def)
  qed
  have ind': "ks_indegree t w = ks_indegree s w - int (count_list vs w)" for w
    by (simp add: t_def kahn_step_def Let_def fold_release_indegree vs_def v_def)
  then have indegree: "\<forall>w\<in>N. ks_indegree t w = open_edges following (N - set (ks_done t)) w"
    using ind split by simp
  have room: "\<forall>w. int (count_list vs w) \<le> ks_indegree s w \<or> w \<notin> set vs"
  proof (intro allI, case_tac "w \<in> set vs")
    fix w assume "w \<in> set vs"
    then have "w \<in> N" using in_vs E by auto
    then show "int (count_list vs w) \<le> ks_indegree s w \<or> w \<notin> set vs"
      using ind split[of w] open_edges_nonneg[of following "N - set (ks_done t)" w] by simp
  qed simp
  let ?new = "map (\<lambda>w. (rank w, w)) (filter (\<lambda>w. ks_indegree s w = int (count_list vs w))
      (remdups (arranged by_rank rank vs)))"
  have mset: "mset (ks_ready t) = mset (tl (ks_ready s) @ ?new)"
    unfolding t_def kahn_step_def Let_def
    by (subst fold_release_ready) (use room in \<open>simp_all add: vs_def v_def\<close>)
  have zero: "{w \<in> N - set (ks_done t). ks_indegree t w = 0}
      = {w \<in> ?R. ks_indegree s w = 0} - {v} \<union> {w \<in> set vs. ks_indegree s w = int (count_list vs w)}"
    (is "?Z = ?Z1 \<union> ?Z2")
  proof (intro set_eqI iffI)
    fix w assume "w \<in> ?Z"
    then show "w \<in> ?Z1 \<union> ?Z2"
      by (cases "w \<in> set vs") (auto simp: ind' dn)
  next
    fix w assume "w \<in> ?Z1 \<union> ?Z2"
    then show "w \<in> ?Z"
    proof
      assume w: "w \<in> ?Z1"
      then have "w \<notin> set vs" using room count_list_0_iff[of vs w] by force
      then show ?thesis using w by (auto simp: ind' dn)
    next
      assume w: "w \<in> ?Z2"
      then show ?thesis using head(6)[of w] in_vs by (auto simp: ind' dn)
    qed
  qed
  have set: "set (ks_ready s) = (\<lambda>w. (rank w, w)) ` {w \<in> ?R. ks_indegree s w = 0}"
    and dist: "distinct (ks_ready s)" using inv by (auto simp: kahn_inv_def)
  have "set (tl (ks_ready s)) = set (ks_ready s) - {hd (ks_ready s)}"
    using dist ready by (cases "ks_ready s") auto
  then have tl: "set (tl (ks_ready s)) = (\<lambda>w. (rank w, w)) ` ?Z1"
    using head(4) set by auto
  have "distinct (tl (ks_ready s) @ ?new)"
  proof -
    have "distinct (tl (ks_ready s))" using dist by (rule distinct_tl)
    moreover have "distinct ?new" by (simp add: distinct_map inj_on_def)
    moreover have "set (tl (ks_ready s)) \<inter> set ?new = {}"
      unfolding tl using room count_list_0_iff[of vs] by fastforce
    ultimately show ?thesis by simp
  qed
  then have "distinct (ks_ready t)" using mset by (metis mset_eq_imp_distinct_iff)
  moreover have "set (ks_ready t) = (\<lambda>w. (rank w, w)) ` ?Z"
  proof -
    have "set (ks_ready t) = set (tl (ks_ready s)) \<union> set ?new"
      using mset_eq_setD[OF mset] by simp
    then show ?thesis unfolding zero tl by auto
  qed
  moreover have "precedes (dict_rel following) (ks_done t)"
    unfolding dn precedes_snoc using inv head(5) by (simp add: kahn_inv_def)
  ultimately show ?thesis
    using fin E indegree head(1,2) inv unfolding t_def[symmetric]
    by (simp add: kahn_inv_def dn)
qed


section \<open>The start of the loop and its result\<close>

text \<open>The two dictionaries and the heap, built from the edges as pairs of dependency and owner.\<close>

definition following_of :: "'a list \<Rightarrow> ('a \<times> 'a) list \<Rightarrow> ('a \<times> 'a list) list" where
  "following_of nodes es = fold (\<lambda>e d. dict_append d (fst e) (snd e)) es (map (\<lambda>v. (v, [])) nodes)"

definition indegree_of :: "('a \<times> 'a) list \<Rightarrow> 'a \<Rightarrow> int" where
  "indegree_of es = fold (\<lambda>e n. n(snd e := n (snd e) + 1)) es (\<lambda>_. 0)"

definition ready_of :: "('a::linorder \<Rightarrow> int) \<Rightarrow> 'a list \<Rightarrow> ('a \<Rightarrow> int) \<Rightarrow> (int \<times> 'a) list" where
  "ready_of rank nodes indegree
    = fold (\<lambda>v h. if indegree v = 0 then insort (rank v, v) h else h) nodes []"

definition kahn_start :: "('a::linorder \<Rightarrow> int) \<Rightarrow> 'a list \<Rightarrow> ('a \<times> 'a) list \<Rightarrow> 'p \<Rightarrow> ('a, 'p) kahn_state"
where
  "kahn_start rank nodes es extra = \<lparr>ks_indegree = indegree_of es,
     ks_ready = ready_of rank nodes (indegree_of es), ks_done = [], ks_extra = extra\<rparr>"

lemma get_following_of: "dict_get (following_of nodes es) u [] = map snd (filter (\<lambda>e. fst e = u) es)"
  by (simp add: following_of_def dict_get_fold_append)

lemma dict_rel_following_of [simp]: "dict_rel (following_of nodes es) = set es"
  by (force simp: dict_rel_def get_following_of)

lemma indegree_of: "indegree_of es v = int (count_list (map snd es) v)"
proof -
  have "fold (\<lambda>e n. n(snd e := n (snd e) + 1)) es n v = n v + int (count_list (map snd es) v)" for n
    by (induction es arbitrary: n) auto
  then show ?thesis by (simp add: indegree_of_def)
qed

lemma open_edges_start:
  assumes "finite N" "fst ` set es \<subseteq> N"
  shows "open_edges (following_of nodes es) N v = int (count_list (map snd es) v)"
  using assms(2)
proof (induction es)
  case Nil
  then show ?case by (simp add: open_edges_def get_following_of)
next
  case (Cons e es)
  have "open_edges (following_of nodes (e # es)) N v
      = (\<Sum>u\<in>N. int (count_list (dict_get (following_of nodes es) u []) v)
          + (if fst e = u then if snd e = v then 1 else 0 else 0))"
    unfolding open_edges_def by (rule sum.cong) (simp_all add: get_following_of)
  also have "\<dots> = open_edges (following_of nodes es) N v + (if snd e = v then 1 else 0)"
    using assms(1) Cons.prems by (simp add: sum.distrib open_edges_def)
  finally show ?case using Cons by simp
qed

lemma mset_ready_of:
  "mset (ready_of rank nodes ind) = mset (map (\<lambda>v. (rank v, v)) (filter (\<lambda>v. ind v = 0) nodes))"
proof -
  have "mset (fold (\<lambda>v h. if ind v = 0 then insort (rank v, v) h else h) nodes h)
      = mset h + mset (map (\<lambda>v. (rank v, v)) (filter (\<lambda>v. ind v = 0) nodes))" for h
    by (induction nodes arbitrary: h) auto
  then show ?thesis by (simp add: ready_of_def)
qed

lemma kahn_start_inv:
  assumes "distinct nodes" "set es \<subseteq> set nodes \<times> set nodes"
  shows "kahn_inv (set nodes) (following_of nodes es) rank (kahn_start rank nodes es extra)"
proof -
  let ?rs = "map (\<lambda>v. (rank v, v)) (filter (\<lambda>v. indegree_of es v = 0) nodes)"
  have "distinct ?rs" using assms(1) by (simp add: distinct_map inj_on_def)
  then have "distinct (ready_of rank nodes (indegree_of es))"
    by (simp only: mset_eq_imp_distinct_iff[OF mset_ready_of])
  moreover have "set (ready_of rank nodes (indegree_of es)) = set ?rs"
    by (rule mset_eq_setD[OF mset_ready_of])
  moreover have "indegree_of es v = open_edges (following_of nodes es) (set nodes) v" for v
    using assms(2) by (subst open_edges_start) (auto simp: indegree_of)
  ultimately show ?thesis
    unfolding kahn_inv_def kahn_start_def using assms(2) by (intro conjI; simp)
qed

text \<open>A row on a cycle never leaves the loop, and of an acyclic graph every row does.\<close>

lemma precedes_trancl:
  assumes "precedes E xs" "(u, v) \<in> E\<^sup>+" "j < length xs" "xs ! j = v"
  shows "\<exists>i<j. xs ! i = u"
  using assms(2-4)
proof (induction arbitrary: j rule: trancl_induct)
  case (base v)
  then have "u \<in> set (take j xs)" using assms(1) by (auto simp: precedes_def)
  then show ?case using base(2) by (auto simp: in_set_conv_nth)
next
  case (step v w)
  then have "v \<in> set (take j xs)" using assms(1) by (auto simp: precedes_def)
  then obtain k where "k < j" "xs ! k = v" using step.prems by (auto simp: in_set_conv_nth)
  moreover from this obtain i where "i < k" "xs ! i = u" using step.IH[of k] step.prems by auto
  ultimately show ?case by (auto intro: less_trans)
qed

lemma precedes_no_cycle:
  assumes "precedes E xs" "distinct xs" "v \<in> set xs"
  shows "(v, v) \<notin> E\<^sup>+"
proof
  assume "(v, v) \<in> E\<^sup>+"
  moreover obtain j where "j < length xs" "xs ! j = v" using assms(3) by (auto simp: in_set_conv_nth)
  ultimately obtain i where "i < j" "xs ! i = v" "j < length xs" "xs ! j = v"
    using precedes_trancl[OF assms(1)] by blast
  then show False using nth_eq_iff_index_eq[OF assms(2), of i j] by simp
qed

lemma kahn_result:
  assumes "distinct nodes" "set es \<subseteq> set nodes \<times> set nodes"
    and "s = kahn_loop by_rank rank visit pass (following_of nodes es) (kahn_start rank nodes es extra)"
  shows "distinct (ks_done s)" "set (ks_done s) \<subseteq> set nodes" "precedes (set es) (ks_done s)"
    and "\<And>v. v \<in> set nodes \<Longrightarrow> ks_indegree s v > 0 \<longleftrightarrow> v \<notin> set (ks_done s)"
    and "\<And>v. v \<in> set nodes \<Longrightarrow> v \<notin> set (ks_done s) \<Longrightarrow>
      \<exists>u\<in>set nodes. u \<notin> set (ks_done s) \<and> (u, v) \<in> set es"
proof -
  have "kahn_inv (set nodes) (following_of nodes es) rank s \<and> ks_ready s = []"
    unfolding assms(3)
    by (rule kahn_loop_induct) (intro kahn_start_inv assms(1,2) kahn_step_inv; assumption)+
  then have inv: "kahn_inv (set nodes) (following_of nodes es) rank s" and "ks_ready s = []" by auto
  then have busy: "ks_indegree s v \<noteq> 0" if "v \<in> set nodes" "v \<notin> set (ks_done s)" for v
    using that by (auto simp: kahn_inv_def)
  show "distinct (ks_done s)" "set (ks_done s) \<subseteq> set nodes" "precedes (set es) (ks_done s)"
    using inv by (auto simp: kahn_inv_def)
  have ind: "ks_indegree s v = open_edges (following_of nodes es) (set nodes - set (ks_done s)) v"
    if "v \<in> set nodes" for v using that inv by (auto simp: kahn_inv_def)
  show "\<exists>u\<in>set nodes. u \<notin> set (ks_done s) \<and> (u, v) \<in> set es"
    if "v \<in> set nodes" "v \<notin> set (ks_done s)" for v
    using busy[OF that] ind[OF that(1)] by (auto simp: open_edges_zero_iff)
  show "ks_indegree s v > 0 \<longleftrightarrow> v \<notin> set (ks_done s)" if v: "v \<in> set nodes" for v
  proof (cases "v \<in> set (ks_done s)")
    case True
    then have "ks_indegree s v = 0"
      unfolding ind[OF v] using inv precedes_closed[OF _ _ True, of "set es"]
      by (auto simp: open_edges_zero_iff kahn_inv_def)
    then show ?thesis using True by simp
  next
    case False
    then show ?thesis using busy[OF v] open_edges_nonneg[of "following_of nodes es"] ind[OF v]
      by (metis less_le)
  qed
qed

lemma kahn_acyclic:
  assumes "distinct nodes" "set es \<subseteq> set nodes \<times> set nodes" "acyclic (set es)"
    and "s = kahn_loop by_rank rank visit pass (following_of nodes es) (kahn_start rank nodes es extra)"
  shows "set (ks_done s) = set nodes"
proof (rule ccontr)
  note res = kahn_result[OF assms(1,2,4)]
  assume "set (ks_done s) \<noteq> set nodes"
  then obtain v where "v \<in> set nodes - set (ks_done s)" using res(2) by auto
  moreover have "wf (set es)" by (rule finite_acyclic_wf[OF _ assms(3)]) simp
  ultimately obtain z where z: "z \<in> set nodes - set (ks_done s)"
    "\<And>y. (y, z) \<in> set es \<Longrightarrow> y \<notin> set nodes - set (ks_done s)"
    by (meson wfE_min)
  then show False using res(5)[of z] by auto
qed

end
