(* ===== verification/Components.thy ===== *)
theory Components
imports Prelude
begin

text \<open>
  Strongly connected components by two iterative depth-first passes (\<open>_strong_components\<close> of
  \<open>domain/execution/dependency_scheduler.py\<close>): the first pass with an explicit stack of expanded and
  unexpanded rows yields a finish order, the second collects, latest finish first, what reaches a row
  among the rows not yet assigned.  The order the first pass promises is the locale \<open>finish_order\<close>;
  the second pass is proved correct from it.
\<close>


section \<open>The two passes\<close>

fun entry_weight :: "'a \<times> bool \<Rightarrow> nat" where
  "entry_weight (_, expanded) = (if expanded then 1 else 2)"

text \<open>First pass: the top of the stack is the head of the list.\<close>

function dfs_loop :: "('a \<times> 'a list) list \<Rightarrow> ('a \<times> bool) list \<Rightarrow> 'a list \<Rightarrow> 'a list \<Rightarrow> 'a list \<times> 'a list"
where
  "dfs_loop following [] visited finish = (visited, finish)"
| "dfs_loop following ((v, True) # stack) visited finish
     = dfs_loop following stack visited (finish @ [v])"
| "dfs_loop following ((v, False) # stack) visited finish =
    (if v \<in> set visited then dfs_loop following stack visited finish
     else dfs_loop following
       (map (\<lambda>w. (w, False)) (filter (\<lambda>w. w \<notin> set (v # visited)) (dict_get following v []))
          @ (v, True) # stack)
       (v # visited) finish)"
  by pat_completeness auto

termination
proof (relation "measures [\<lambda>(f, st, vis, fin). card (fst ` set f - set vis),
    \<lambda>(f, st, vis, fin). sum_list (map entry_weight st)]")
  fix f :: "('a \<times> 'a list) list" and v :: 'a and st vis and fin :: "'a list"
  assume v: "v \<notin> set vis"
  show "((f, map (\<lambda>w. (w, False)) (filter (\<lambda>w. w \<notin> set (v # vis)) (dict_get f v [])) @ (v, True) # st,
      v # vis, fin), (f, (v, False) # st, vis, fin)) \<in> measures
    [\<lambda>(f, st, vis, fin). card (fst ` set f - set vis),
     \<lambda>(f, st, vis, fin). sum_list (map entry_weight st)]"
  proof (cases "v \<in> fst ` set f")
    case True
    have "card (fst ` set f - set (v # vis)) < card (fst ` set f - set vis)"
      by (rule psubset_card_mono) (use True v in auto)
    then show ?thesis by simp
  next
    case False
    then have "fst ` set f - set (v # vis) = fst ` set f - set vis" by auto
    then show ?thesis using False by simp
  qed
qed auto

definition dfs_finish :: "('a \<times> 'a list) list \<Rightarrow> 'a list \<Rightarrow> 'a list" where
  "dfs_finish following nodes = snd (fold (\<lambda>start (visited, finish).
     if start \<in> set visited then (visited, finish)
     else dfs_loop following [(start, False)] visited finish) nodes ([], []))"

text \<open>Second pass: what is not yet assigned is assigned when it is pushed.\<close>

definition push_unassigned :: "'a list \<Rightarrow> 'a list \<times> 'a list \<Rightarrow> 'a list \<times> 'a list" where
  "push_unassigned vs = fold (\<lambda>v (assigned, stack).
     if v \<in> set assigned then (assigned, stack) else (v # assigned, v # stack)) vs"

lemma push_unassigned_result:
  assumes "push_unassigned vs (assigned, stack) = (assigned', stack')"
  obtains new where "assigned' = new @ assigned" "stack' = new @ stack" "distinct new"
    "set new = set vs - set assigned"
proof -
  have "\<exists>new. push_unassigned vs (a, s) = (new @ a, new @ s) \<and> distinct new
      \<and> set new = set vs - set a" for a s
  proof (induction vs arbitrary: a s)
    case Nil
    then show ?case by (simp add: push_unassigned_def)
  next
    case (Cons v vs)
    show ?case
    proof (cases "v \<in> set a")
      case True
      then show ?thesis using Cons.IH[of a s] by (auto simp: push_unassigned_def)
    next
      case False
      obtain new where "push_unassigned vs (v # a, v # s) = (new @ v # a, new @ v # s)"
        "distinct new" "set new = set vs - set (v # a)" using Cons.IH by blast
      then show ?thesis using False
        by (intro exI[of _ "new @ [v]"]) (auto simp: push_unassigned_def)
    qed
  qed
  then show thesis using that assms by (metis prod.inject)
qed

definition values_of :: "('k \<times> 'v list) list \<Rightarrow> 'v set" where
  "values_of d = (\<Union>(_, vs)\<in>set d. set vs)"

lemma get_values: "set (dict_get d v []) \<subseteq> values_of d"
proof (cases "map_of d v")
  case None
  then show ?thesis by (simp add: dict_get_def)
next
  case (Some vs)
  then show ?thesis by (auto simp: dict_get_def values_of_def dest!: map_of_SomeD)
qed

lemma finite_values [simp]: "finite (values_of d)"
  by (auto simp: values_of_def)

function collect :: "('a \<times> 'a list) list \<Rightarrow> 'a list \<Rightarrow> 'a list \<Rightarrow> 'a list \<Rightarrow> 'a list \<times> 'a list" where
  "collect rev_of [] assigned members = (assigned, members)"
| "collect rev_of (v # stack) assigned members =
    (let (assigned', stack') = push_unassigned (rev (dict_get rev_of v [])) (assigned, stack)
     in collect rev_of stack' assigned' (v # members))"
  by pat_completeness auto

termination
proof (relation "measure (\<lambda>(r, stack, assigned, m). card (values_of r - set assigned) + length stack)")
  fix r :: "('a \<times> 'a list) list" and v :: 'a and stack assigned m :: "'a list" and p a' s'
  assume "p = push_unassigned (rev (dict_get r v [])) (assigned, stack)" "(a', s') = p"
  then obtain new where new: "a' = new @ assigned" "s' = new @ stack" "distinct new"
    "set new = set (dict_get r v []) - set assigned"
    using push_unassigned_result by (metis set_rev)
  have "set new \<subseteq> values_of r - set assigned" using new(4) get_values[of r v] by blast
  then have "card (values_of r - set assigned - set new) = card (values_of r - set assigned) - length new"
    and "length new \<le> card (values_of r - set assigned)"
    using new(3) by (simp_all add: card_Diff_subset distinct_card[symmetric] card_mono)
  moreover have "values_of r - set a' = values_of r - set assigned - set new" using new(1) by auto
  ultimately show "((r, s', a', v # m), (r, v # stack, assigned, m)) \<in>
    measure (\<lambda>(r, stack, assigned, m). card (values_of r - set assigned) + length stack)"
    using new(2) by simp
qed auto

definition collect_all :: "('a \<times> 'a list) list \<Rightarrow> 'a list \<Rightarrow> 'a list list" where
  "collect_all rev_of order = snd (fold (\<lambda>start (assigned, found).
     if start \<in> set assigned then (assigned, found)
     else (let (assigned', members) = collect rev_of [start] (start # assigned) []
           in (assigned', found @ [members]))) order ([], []))"

text \<open>\<open>reverse\<close>: the owners' dependencies, each list sorted by rank.\<close>

definition reverse_of :: "('a \<Rightarrow> int) \<Rightarrow> 'a list \<Rightarrow> ('a \<times> 'a list) list \<Rightarrow> ('a \<times> 'a list) list" where
  "reverse_of rank nodes following = map (\<lambda>(v, vs). (v, sort_key rank vs))
     (fold (\<lambda>(dependency, owners) r. fold (\<lambda>owner r. dict_append r owner dependency) owners r)
        following (map (\<lambda>v. (v, [])) nodes))"

definition kosaraju :: "('a \<Rightarrow> int) \<Rightarrow> 'a list \<Rightarrow> ('a \<times> 'a list) list \<Rightarrow> 'a list list" where
  "kosaraju rank nodes following = sort_key (\<lambda>members. Min (rank ` set members))
     (collect_all (reverse_of rank nodes following) (rev (dfs_finish following nodes)))"


section \<open>What a finish order promises\<close>

text \<open>\<open>w\<close> is finished no later than \<open>u\<close>.\<close>

definition finished_by :: "'a list \<Rightarrow> 'a \<Rightarrow> 'a \<Rightarrow> bool" where
  "finished_by finish w u = (\<exists>xs ys. finish = xs @ u # ys \<and> w \<in> insert u (set xs))"

text \<open>Rows that reach each other.\<close>

definition mutual :: "('a \<times> 'a) set \<Rightarrow> 'a \<Rightarrow> 'a \<Rightarrow> bool" where
  "mutual E u v = ((u, v) \<in> E\<^sup>* \<and> (v, u) \<in> E\<^sup>*)"

locale finish_order =
  fixes E :: "('a \<times> 'a) set" and finish :: "'a list"
  assumes distinct_finish: "distinct finish"
    and edges_finish: "E \<subseteq> set finish \<times> set finish"
    and latest: "u \<in> set finish \<Longrightarrow> (u, w) \<in> E\<^sup>* \<Longrightarrow> \<exists>u'. mutual E u u' \<and> finished_by finish w u'"

lemma finished_by_append: "finished_by finish w u \<Longrightarrow> finished_by (finish @ [v]) w u"
  by (fastforce simp: finished_by_def)

lemma finished_by_last: "w \<in> set (finish @ [v]) \<Longrightarrow> finished_by (finish @ [v]) w v"
  by (fastforce simp: finished_by_def)

lemma mutual_refl [simp]: "mutual E u u"
  by (simp add: mutual_def)

lemma mutual_sym: "mutual E u v \<Longrightarrow> mutual E v u"
  by (simp add: mutual_def)

lemma mutual_trans: "mutual E u v \<Longrightarrow> mutual E v w \<Longrightarrow> mutual E u w"
  by (auto simp: mutual_def intro: rtrancl_trans)


section \<open>The invariant of the first pass\<close>

text \<open>The expanded rows of the stack are the open ones.  A finished row has its successors visited;
  an open row has its successors visited or pending above it, and reaches everything above it.\<close>

definition open_rows :: "('a \<times> bool) list \<Rightarrow> 'a set" where
  "open_rows stack = {v. (v, True) \<in> set stack}"

definition stack_ok :: "('a \<times> 'a) set \<Rightarrow> 'a set \<Rightarrow> ('a \<times> bool) list \<Rightarrow> bool" where
  "stack_ok E visited stack = (\<forall>upper v below. stack = upper @ (v, True) # below \<longrightarrow>
     (\<forall>w. (v, w) \<in> E \<longrightarrow> w \<in> visited \<or> (w, False) \<in> set upper)
     \<and> (\<forall>(x, b)\<in>set upper. (v, x) \<in> E\<^sup>*))"

text \<open>Paths whose steps leave finished rows only.\<close>

definition through :: "('a \<times> 'a) set \<Rightarrow> 'a set \<Rightarrow> ('a \<times> 'a) set" where
  "through E B = (E \<inter> B \<times> UNIV)\<^sup>*"

definition dfs_inv :: "('a \<times> 'a) set \<Rightarrow> ('a \<times> bool) list \<Rightarrow> 'a list \<Rightarrow> 'a list \<Rightarrow> bool" where
  "dfs_inv E stack visited finish =
    (distinct finish \<and> set finish \<subseteq> set visited
     \<and> distinct (map fst (filter snd stack))
     \<and> open_rows stack = set visited - set finish
     \<and> (\<forall>u\<in>set finish. E `` {u} \<subseteq> set visited)
     \<and> stack_ok E (set visited) stack
     \<and> (\<forall>u\<in>set finish. \<forall>g\<in>open_rows stack. (u, g) \<in> through E (set finish) \<longrightarrow> (g, u) \<in> E\<^sup>*)
     \<and> (\<forall>u\<in>set finish. \<forall>w. (u, w) \<in> E\<^sup>* \<longrightarrow>
          (\<exists>u'\<in>set finish. mutual E u u' \<and> finished_by finish w u')
          \<or> (\<exists>g\<in>open_rows stack. mutual E u g)))"

lemma open_rows_simps [simp]:
  "open_rows [] = {}"
  "open_rows ((v, False) # stack) = open_rows stack"
  "open_rows ((v, True) # stack) = insert v (open_rows stack)"
  "open_rows (map (\<lambda>w. (w, False)) ws @ stack) = open_rows stack"
  by (auto simp: open_rows_def)

lemma open_rows_filter: "open_rows stack = set (map fst (filter snd stack))"
  by (force simp: open_rows_def)

lemma stack_ok_above:
  assumes "stack_ok E V (pre @ stack)" "stack = upper @ (u, True) # below"
  shows "(u, w) \<in> E \<Longrightarrow> w \<in> V \<or> (w, False) \<in> set (pre @ upper)"
    and "(x, b) \<in> set (pre @ upper) \<Longrightarrow> (u, x) \<in> E\<^sup>*"
  using assms(1)[unfolded stack_ok_def, rule_format, of "pre @ upper" u below] assms(2) by auto

lemma stack_ok_Cons_False:
  assumes "stack_ok E V ((x, False) # stack)" "x \<in> V"
  shows "stack_ok E V stack"
proof -
  have ok: "stack_ok E V ([(x, False)] @ stack)" using assms(1) by simp
  show ?thesis unfolding stack_ok_def
  proof (intro allI impI conjI ballI)
    fix upper v below w
    assume "stack = upper @ (v, True) # below" "(v, w) \<in> E"
    from stack_ok_above(1)[OF ok this] assms(2) show "w \<in> V \<or> (w, False) \<in> set upper" by auto
  next
    fix upper v below xb
    assume "stack = upper @ (v, True) # below" "xb \<in> set upper"
    from stack_ok_above(2)[OF ok this(1)] this(2) show "case xb of (x, b) \<Rightarrow> (v, x) \<in> E\<^sup>*" by auto
  qed
qed

lemma stack_ok_Cons: "stack_ok E V ((v, True) # stack) \<Longrightarrow> stack_ok E V stack"
  unfolding stack_ok_def
proof (intro allI impI)
  fix upper u below
  assume *: "\<forall>upper u below. (v, True) # stack = upper @ (u, True) # below \<longrightarrow>
      (\<forall>w. (u, w) \<in> E \<longrightarrow> w \<in> V \<or> (w, False) \<in> set upper) \<and> (\<forall>(x, b)\<in>set upper. (u, x) \<in> E\<^sup>*)"
    and "stack = upper @ (u, True) # below"
  then show "(\<forall>w. (u, w) \<in> E \<longrightarrow> w \<in> V \<or> (w, False) \<in> set upper) \<and> (\<forall>(x, b)\<in>set upper. (u, x) \<in> E\<^sup>*)"
    using *[rule_format, of "(v, True) # upper" u below] by auto
qed

lemma stack_ok_head:
  assumes "stack_ok E V ((x, b) # stack)" "g \<in> open_rows stack"
  shows "(g, x) \<in> E\<^sup>*"
proof -
  obtain upper below where "stack = upper @ (g, True) # below"
    using assms(2) by (auto simp: open_rows_def in_set_conv_decomp)
  then show ?thesis using assms(1)[unfolded stack_ok_def, rule_format, of "(x, b) # upper" g below]
    by simp
qed

lemma stack_ok_push:
  assumes ok: "stack_ok E V ((v, False) # stack)"
    and new: "\<And>w. w \<in> set ws \<Longrightarrow> (v, w) \<in> E" "\<And>w. (v, w) \<in> E \<Longrightarrow> w \<in> insert v V \<or> w \<in> set ws"
  shows "stack_ok E (insert v V) (map (\<lambda>w. (w, False)) ws @ (v, True) # stack)"
  unfolding stack_ok_def
proof (intro allI impI)
  fix upper u below
  assume eq: "map (\<lambda>w. (w, False)) ws @ (v, True) # stack = upper @ (u, True) # below"
  let ?ms = "map (\<lambda>w. (w, False)) ws"
  show "(\<forall>w. (u, w) \<in> E \<longrightarrow> w \<in> insert v V \<or> (w, False) \<in> set upper) \<and> (\<forall>(x, b)\<in>set upper. (u, x) \<in> E\<^sup>*)"
  proof (cases "length upper \<le> length ws")
    case True
    have "(u, True) = (?ms @ (v, True) # stack) ! length upper" unfolding eq by simp
    then have "length upper = length ws" "u = v"
      using True by (auto simp: nth_append split: if_splits)
    then have "upper = ?ms" using eq by (metis append_eq_append_conv length_map)
    then show ?thesis using new \<open>u = v\<close> by (auto intro!: r_into_rtrancl)
  next
    case False
    then obtain mid where mid: "upper = ?ms @ (v, True) # mid" "stack = mid @ (u, True) # below"
      using eq by (auto simp: append_eq_append_conv2 Cons_eq_append_conv append_eq_Cons_conv
          dest: arg_cong[where f = length])
    then have "(\<forall>w. (u, w) \<in> E \<longrightarrow> w \<in> V \<or> (w, False) \<in> set ((v, False) # mid))"
      and up: "\<forall>(x, b)\<in>set ((v, False) # mid). (u, x) \<in> E\<^sup>*"
      using ok[unfolded stack_ok_def, rule_format, of "(v, False) # mid" u below] by auto
    moreover have "(u, w) \<in> E\<^sup>*" if "w \<in> set ws" for w
      using up new(1)[OF that] by (auto intro: rtrancl_into_rtrancl)
    ultimately show ?thesis using mid(1) by auto
  qed
qed

text \<open>A finished row that reaches a row leaves the finished rows through an open one.\<close>

lemma through_mono: "(u, w) \<in> through E B \<Longrightarrow> (u, w) \<in> E\<^sup>*"
  unfolding through_def by (rule rtrancl_mono[THEN subsetD, rotated]) auto

lemma through_insert:
  assumes "(u, g) \<in> through E (insert t B)"
  shows "(u, g) \<in> through E B \<or> (u, t) \<in> through E B"
  using assms unfolding through_def
proof (induction rule: rtrancl_induct)
  case base
  then show ?case by simp
next
  case (step y z)
  show ?case
  proof (cases "(u, t) \<in> (E \<inter> B \<times> UNIV)\<^sup>*")
    case False
    with step have "(u, y) \<in> (E \<inter> B \<times> UNIV)\<^sup>*" "y \<noteq> t" by auto
    then show ?thesis using step.hyps(2) by (auto intro: rtrancl_into_rtrancl)
  qed simp
qed

lemma leaves_finished:
  assumes "\<forall>u\<in>B. E `` {u} \<subseteq> B \<union> G" "u \<in> B" "(u, w) \<in> E\<^sup>*"
  shows "w \<in> B \<and> (u, w) \<in> through E B \<or> (\<exists>g\<in>G. (u, g) \<in> through E B)"
  using assms(3)
proof (induction rule: rtrancl_induct)
  case base
  then show ?case using assms(2) by (simp add: through_def)
next
  case (step y z)
  then show ?case
  proof (cases "y \<in> B \<and> (u, y) \<in> through E B")
    case True
    then have "(u, z) \<in> through E B" "z \<in> B \<union> G"
      using step.hyps(2) assms(1) by (auto simp: through_def intro: rtrancl_into_rtrancl)
    then show ?thesis by auto
  qed simp
qed


section \<open>The steps of the first pass\<close>

lemma dfs_inv_skip:
  assumes "dfs_inv E ((v, False) # stack) visited finish" "v \<in> set visited"
  shows "dfs_inv E stack visited finish"
  using assms stack_ok_Cons_False[of E "set visited" v stack]
  unfolding dfs_inv_def open_rows_simps filter.simps snd_conv if_False by blast

lemma dfs_inv_expand:
  assumes inv: "dfs_inv (dict_rel f) ((v, False) # stack) visited finish" and new: "v \<notin> set visited"
    and ws: "ws = filter (\<lambda>w. w \<notin> set (v # visited)) (dict_get f v [])"
  shows "dfs_inv (dict_rel f) (map (\<lambda>w. (w, False)) ws @ (v, True) # stack) (v # visited) finish"
proof -
  let ?E = "dict_rel f" and ?stack = "map (\<lambda>w. (w, False)) ws @ (v, True) # stack"
  have closed: "\<forall>u\<in>set finish. ?E `` {u} \<subseteq> set visited" and fin: "set finish \<subseteq> set visited"
    and open_eq: "open_rows stack = set visited - set finish"
    using inv by (auto simp: dfs_inv_def)
  have rows: "open_rows ?stack = insert v (open_rows stack)" by simp
  have filt: "map fst (filter snd ?stack) = v # map fst (filter snd stack)"
    by (simp add: comp_def)
  have unreached: "(u, v) \<notin> through ?E (set finish)" if "u \<in> set finish" for u
  proof
    assume "(u, v) \<in> through ?E (set finish)"
    then show False using that closed fin new unfolding through_def
      by (cases rule: rtranclE) auto
  qed
  have ok: "stack_ok ?E (set (v # visited)) ?stack"
    unfolding list.set by (rule stack_ok_push) (use inv in \<open>auto simp: ws dfs_inv_def dict_rel_iff\<close>)
  have dist: "distinct finish" "distinct (map fst (filter snd ?stack))"
    using inv new open_eq unfolding filt by (auto simp: dfs_inv_def open_rows_filter)
  have orows: "open_rows ?stack = set (v # visited) - set finish"
    unfolding rows using open_eq new fin by auto
  have reach_back: "\<forall>u\<in>set finish. \<forall>g\<in>open_rows ?stack. (u, g) \<in> through ?E (set finish) \<longrightarrow> (g, u) \<in> ?E\<^sup>*"
    using inv unreached unfolding rows by (auto simp: dfs_inv_def)
  have late: "\<forall>u\<in>set finish. \<forall>w. (u, w) \<in> ?E\<^sup>* \<longrightarrow>
      (\<exists>u'\<in>set finish. mutual ?E u u' \<and> finished_by finish w u')
      \<or> (\<exists>g\<in>open_rows ?stack. mutual ?E u g)"
    using inv unfolding rows dfs_inv_def open_rows_simps by blast
  show ?thesis unfolding dfs_inv_def
    by (intro conjI dist ok orows reach_back late) (use closed fin in auto)
qed

lemma dfs_inv_finish:
  assumes inv: "dfs_inv E ((v, True) # stack) visited finish"
  shows "dfs_inv E stack visited (finish @ [v])"
proof -
  let ?B = "set finish" and ?G = "open_rows stack"
  have dist: "v \<notin> ?G" and ok: "stack_ok E (set visited) ((v, True) # stack)"
    and rows: "insert v ?G = set visited - ?B" and B: "?B \<subseteq> set visited"
    using inv by (auto simp: dfs_inv_def open_rows_filter)
  have up: "(g, v) \<in> E\<^sup>*" if "g \<in> ?G" for g
    using stack_ok_head[OF ok that] .
  have closed: "\<forall>u\<in>insert v ?B. E `` {u} \<subseteq> set visited"
    using ok[unfolded stack_ok_def, rule_format, of "[]" v stack] inv by (auto simp: dfs_inv_def)
  have reach_back: "(g, u) \<in> E\<^sup>*" if u: "u \<in> insert v ?B" and g: "g \<in> ?G" and ug: "(u, g) \<in> through E (insert v ?B)" for u g
  proof (cases "u = v")
    case False
    then consider "(u, g) \<in> through E ?B" | "(u, v) \<in> through E ?B"
      using through_insert[OF ug] by blast
    then show ?thesis
      using inv u g False up[OF g] by cases (auto simp: dfs_inv_def intro: rtrancl_trans)
  qed (simp add: up g)
  have all: "set visited = insert v ?B \<union> ?G" using rows B by auto
  have late: "(\<exists>u'\<in>insert v ?B. mutual E u u' \<and> finished_by (finish @ [v]) w u') \<or> (\<exists>g\<in>?G. mutual E u g)"
    if u: "u \<in> insert v ?B" and uw: "(u, w) \<in> E\<^sup>*" for u w
  proof -
    have "\<forall>u\<in>insert v ?B. E `` {u} \<subseteq> insert v ?B \<union> ?G" using closed unfolding all .
    from leaves_finished[OF this u uw] have leave: "w \<in> insert v ?B \<or> (\<exists>g\<in>?G. mutual E u g)"
    proof (elim disjE bexE)
      fix g assume g: "g \<in> ?G" "(u, g) \<in> through E (insert v ?B)"
      then have "mutual E u g" unfolding mutual_def using reach_back[OF u g] through_mono[OF g(2)] by simp
      then show ?thesis using g(1) by blast
    qed simp
    show ?thesis
    proof (cases "\<exists>g\<in>?G. mutual E u g")
      case False
      then have w: "w \<in> set (finish @ [v])" using leave by auto
      have "mutual E u v \<or> (\<exists>u'\<in>?B. mutual E u u' \<and> finished_by finish w u')"
      proof (cases "u = v")
        case False
        then have "(\<exists>u'\<in>?B. mutual E u u' \<and> finished_by finish w u')
            \<or> (\<exists>g\<in>insert v ?G. mutual E u g)"
          using inv uw u unfolding dfs_inv_def open_rows_simps by blast
        then show ?thesis using \<open>\<not> (\<exists>g\<in>?G. mutual E u g)\<close> by blast
      qed simp
      then show ?thesis
      proof (elim disjE bexE conjE)
        assume "mutual E u v"
        then show ?thesis using finished_by_last[OF w] by blast
      next
        fix u' assume "u' \<in> ?B" "mutual E u u'" "finished_by finish w u'"
        then show ?thesis using finished_by_append[of finish w u' v] by blast
      qed
    qed simp
  qed
  have "v \<notin> ?B" using rows by auto
  then show ?thesis
    using inv dist closed stack_ok_Cons[OF ok] reach_back late rows
    unfolding dfs_inv_def by (simp add: open_rows_filter[symmetric]) blast
qed

lemma dfs_loop_inv:
  assumes "dfs_inv (dict_rel f) stack visited finish" "dfs_loop f stack visited finish = (vis, fin)"
  shows "dfs_inv (dict_rel f) [] vis fin \<and> set visited \<subseteq> set vis \<and> fst ` set stack \<subseteq> set vis
    \<and> set vis \<subseteq> set visited \<union> fst ` set stack \<union> snd ` dict_rel f"
  using assms
proof (induction f stack visited finish rule: dfs_loop.induct)
  case (1 f visited finish)
  then show ?case by simp
next
  case (2 f v stack visited finish)
  have "v \<in> set visited" using "2.prems"(1) by (auto simp: dfs_inv_def)
  then show ?case using "2.IH"[OF dfs_inv_finish[OF "2.prems"(1)]] "2.prems"(2) by auto
next
  case (3 f v stack visited finish)
  show ?case
  proof (cases "v \<in> set visited")
    case True
    then show ?thesis using "3.IH"(1)[OF True dfs_inv_skip[OF "3.prems"(1) True]] "3.prems"(2) by auto
  next
    case False
    let ?stack = "map (\<lambda>w. (w, False)) (filter (\<lambda>w. w \<notin> set (v # visited)) (dict_get f v []))
        @ (v, True) # stack"
    have "fst ` set ?stack \<subseteq> snd ` dict_rel f \<union> insert v (fst ` set stack)"
      "insert v (fst ` set stack) \<subseteq> fst ` set ?stack"
      by (force simp: dict_rel_def)+
    moreover have "dfs_inv (dict_rel f) [] vis fin \<and> set (v # visited) \<subseteq> set vis
        \<and> fst ` set ?stack \<subseteq> set vis \<and> set vis \<subseteq> set (v # visited) \<union> fst ` set ?stack \<union> snd ` dict_rel f"
      using "3.IH"(2)[OF False dfs_inv_expand[OF "3.prems"(1) False refl]] "3.prems"(2) False by simp
    moreover obtain S where S: "fst ` set ?stack = S" by simp
    ultimately have "dfs_inv (dict_rel f) [] vis fin \<and> set (v # visited) \<subseteq> set vis
        \<and> insert v (fst ` set stack) \<subseteq> set vis
        \<and> set vis \<subseteq> set (v # visited) \<union> insert v (fst ` set stack) \<union> snd ` dict_rel f"
      unfolding S by blast
    then show ?thesis by auto
  qed
qed


section \<open>The first pass yields a finish order\<close>

lemma dfs_inv_start: "dfs_inv E [] visited finish \<Longrightarrow> dfs_inv E [(start, False)] visited finish"
  by (auto simp: dfs_inv_def stack_ok_def Cons_eq_append_conv)

lemma dfs_finish_fold:
  assumes "dfs_inv (dict_rel f) [] visited finish"
    and "fold (\<lambda>start (visited, finish). if start \<in> set visited then (visited, finish)
      else dfs_loop f [(start, False)] visited finish) nodes (visited, finish) = (vis, fin)"
  shows "dfs_inv (dict_rel f) [] vis fin \<and> set visited \<union> set nodes \<subseteq> set vis
    \<and> set vis \<subseteq> set visited \<union> set nodes \<union> snd ` dict_rel f"
  using assms
proof (induction nodes arbitrary: visited finish)
  case Nil
  then show ?case by simp
next
  case (Cons start nodes)
  show ?case
  proof (cases "start \<in> set visited")
    case True
    then show ?thesis using Cons.IH[OF Cons.prems(1)] Cons.prems(2) by auto
  next
    case False
    obtain v1 f1 where 1: "dfs_loop f [(start, False)] visited finish = (v1, f1)" by fastforce
    have "dfs_inv (dict_rel f) [] v1 f1 \<and> set visited \<subseteq> set v1 \<and> start \<in> set v1
        \<and> set v1 \<subseteq> set visited \<union> {start} \<union> snd ` dict_rel f"
      using dfs_loop_inv[OF dfs_inv_start[OF Cons.prems(1)] 1] by simp
    moreover from this have "dfs_inv (dict_rel f) [] vis fin \<and> set v1 \<union> set nodes \<subseteq> set vis
        \<and> set vis \<subseteq> set v1 \<union> set nodes \<union> snd ` dict_rel f"
      by (intro Cons.IH) (use Cons.prems(2) False 1 in simp_all)
    ultimately show ?thesis unfolding list.set by blast
  qed
qed

lemma dfs_finish_order:
  assumes "dict_rel f \<subseteq> set nodes \<times> set nodes"
  shows "finish_order (dict_rel f) (dfs_finish f nodes)" and "set (dfs_finish f nodes) = set nodes"
proof -
  obtain vis fin where fold: "fold (\<lambda>start (visited, finish). if start \<in> set visited
      then (visited, finish) else dfs_loop f [(start, False)] visited finish) nodes ([], []) = (vis, fin)"
    by fastforce
  have "dfs_inv (dict_rel f) [] [] []" by (simp add: dfs_inv_def stack_ok_def)
  from dfs_finish_fold[OF this fold]
  have inv: "dfs_inv (dict_rel f) [] vis fin" and vis: "set vis = set nodes"
    using assms by (fastforce simp del: dict_rel_def)+
  have fin: "dfs_finish f nodes = fin" by (simp add: dfs_finish_def fold)
  have eq: "set fin = set nodes" using inv vis by (auto simp: dfs_inv_def)
  then show "set (dfs_finish f nodes) = set nodes" by (simp add: fin)
  show "finish_order (dict_rel f) (dfs_finish f nodes)"
    unfolding fin
  proof
    show "distinct fin" using inv by (simp add: dfs_inv_def)
    show "dict_rel f \<subseteq> set fin \<times> set fin" using assms by (simp add: eq)
    show "\<exists>u'. mutual (dict_rel f) u u' \<and> finished_by fin w u'"
      if "u \<in> set fin" "(u, w) \<in> (dict_rel f)\<^sup>*" for u w
      using inv that unfolding dfs_inv_def open_rows_simps by blast
  qed
qed


section \<open>The second pass collects the components\<close>

definition avoiding :: "('a \<times> 'a) set \<Rightarrow> 'a set \<Rightarrow> ('a \<times> 'a) set" where
  "avoiding E A = (E \<inter> (- A) \<times> (- A))\<^sup>*"

definition collect_inv :: "('a \<times> 'a) set \<Rightarrow> 'a set \<Rightarrow> 'a \<Rightarrow> 'a list \<Rightarrow> 'a list \<Rightarrow> 'a list \<Rightarrow> bool" where
  "collect_inv E A s stack assigned members =
    (set assigned = A \<union> set members \<union> set stack \<and> distinct (members @ stack)
     \<and> A \<inter> set (members @ stack) = {} \<and> s \<in> set (members @ stack)
     \<and> (\<forall>m\<in>set members. \<forall>d. (d, m) \<in> E \<longrightarrow> d \<in> set assigned)
     \<and> (\<forall>x\<in>set (members @ stack). (x, s) \<in> avoiding E A))"

lemma collect_result:
  assumes "collect_inv E A s stack assigned members" "E\<inverse> = dict_rel r"
    and "collect r stack assigned members = (assigned', members')"
  shows "set assigned' = A \<union> set members'" "distinct members'" "A \<inter> set members' = {}"
    and "set members' = {x. (x, s) \<in> avoiding E A}"
proof -
  have inv: "collect_inv E A s [] assigned' members'"
    using assms
  proof (induction r stack assigned members rule: collect.induct)
    case (1 r assigned members)
    then show ?case by simp
  next
    case (2 r v stack assigned members)
    obtain a' st' where push: "push_unassigned (rev (dict_get r v [])) (assigned, stack) = (a', st')"
      by fastforce
    then obtain new where new: "a' = new @ assigned" "st' = new @ stack" "distinct new"
      "set new = set (dict_get r v []) - set assigned"
      using push_unassigned_result by (metis set_rev)
    have pred: "d \<in> set (dict_get r v []) \<longleftrightarrow> (d, v) \<in> E" for d
      using "2.prems"(2) by (metis converse_iff dict_rel_iff)
    have "(d, s) \<in> avoiding E A" if "d \<in> set new" for d
    proof -
      have "(v, s) \<in> avoiding E A" "v \<notin> A" "d \<notin> A" "(d, v) \<in> E"
        using that "2.prems"(1) new(4) pred by (auto simp: collect_inv_def)
      then show ?thesis unfolding avoiding_def by (auto intro: converse_rtrancl_into_rtrancl)
    qed
    then have "collect_inv E A s st' a' (v # members)"
      using "2.prems"(1) new pred unfolding collect_inv_def by auto
    then show ?case
      using "2.IH"[OF push[symmetric] refl] "2.prems"(2,3) push by simp
  qed
  then show "set assigned' = A \<union> set members'" "distinct members'" "A \<inter> set members' = {}"
    by (auto simp: collect_inv_def)
  have "x \<in> set members'" if "(x, s) \<in> avoiding E A" for x
    using that unfolding avoiding_def
    by (induction rule: converse_rtrancl_induct) (use inv in \<open>auto simp: collect_inv_def\<close>)
  then show "set members' = {x. (x, s) \<in> avoiding E A}"
    using inv by (auto simp: collect_inv_def)
qed

text \<open>A component is the set of the rows that reach a row and are reached by it.\<close>

definition component_of :: "('a \<times> 'a) set \<Rightarrow> 'a \<Rightarrow> 'a set" where
  "component_of E s = {x. mutual E s x}"

definition components_ok :: "('a \<times> 'a) set \<Rightarrow> 'a list \<Rightarrow> 'a list list \<Rightarrow> bool" where
  "components_ok E assigned found = (distinct (concat found) \<and> set (concat found) = set assigned
     \<and> (\<forall>m\<in>set found. \<exists>s\<in>set m. set m = component_of E s))"

lemma components_closed:
  assumes "components_ok E assigned found" "x \<in> set assigned" "mutual E x y"
  shows "y \<in> set assigned"
proof -
  obtain m where m: "m \<in> set found" "x \<in> set m"
    using assms(1,2) unfolding components_ok_def set_concat by blast
  then obtain s where "set m = component_of E s" using assms(1) by (auto simp: components_ok_def)
  then have "y \<in> set m" using m(2) assms(3) mutual_trans[of E s x y] by (simp add: component_of_def)
  then show ?thesis using m(1) assms(1) by (auto simp: components_ok_def)
qed

locale reversed_finish_order = finish_order E finish
  for E :: "('a \<times> 'a) set" and finish :: "'a list" +
  fixes rev_of :: "('a \<times> 'a list) list"
  assumes reversed: "E\<inverse> = dict_rel rev_of"
begin

lemma mutual_finish: "mutual E x y \<Longrightarrow> x \<in> set finish \<Longrightarrow> y \<in> set finish"
  using edges_finish by (auto simp: mutual_def elim: rtranclE)

text \<open>The component of the latest row not yet assigned is what reaches it among such rows.\<close>

lemma avoiding_component:
  assumes ok: "components_ok E assigned found" and split: "rev finish = pre @ s # rest"
    and pre: "set pre \<subseteq> set assigned" and s: "s \<notin> set assigned"
  shows "{x. (x, s) \<in> avoiding E (set assigned)} = component_of E s"
proof (intro set_eqI iffI)
  let ?A = "set assigned"
  have sf: "s \<in> set finish" using split by (metis in_set_conv_decomp set_rev)
  fix x
  assume "x \<in> {x. (x, s) \<in> avoiding E ?A}"
  then have path: "(x, s) \<in> avoiding E ?A" by simp
  then have xs: "(x, s) \<in> E\<^sup>*"
    unfolding avoiding_def by (rule rtrancl_mono[THEN subsetD, rotated]) auto
  have x: "x \<notin> ?A" using path s unfolding avoiding_def by (cases rule: converse_rtranclE) auto
  have "x \<in> set finish"
    using xs sf edges_finish by (cases rule: converse_rtranclE) auto
  then obtain x' where x': "mutual E x x'" "finished_by finish s x'"
    using latest xs by blast
  then have new: "x' \<notin> ?A" using x components_closed[OF ok _ mutual_sym] by blast
  have fin: "finish = rev rest @ s # rev pre"
    using split by (metis append_Cons append_Nil append_assoc rev_append rev_rev_ident rev.simps(2))
  obtain as bs where ab: "finish = as @ x' # bs" "s \<in> insert x' (set as)"
    using x'(2) by (auto simp: finished_by_def)
  have "s = x'"
  proof (rule ccontr)
    assume "s \<noteq> x'"
    then obtain cs ds where as: "as = cs @ s # ds" using ab(2) by (auto simp: in_set_conv_decomp)
    have "rev rest @ s # rev pre = cs @ s # (ds @ x' # bs)" using fin ab(1) as by simp
    then have "rev pre = ds @ x' # bs"
      using distinct_finish[unfolded fin] by (subst (asm) append_Cons_eq_iff) auto
    then have "x' \<in> set pre" by (metis in_set_conv_decomp set_rev)
    then show False using pre new by blast
  qed
  then show "x \<in> component_of E s" using x'(1) by (simp add: component_of_def mutual_sym)
next
  let ?A = "set assigned"
  fix x
  assume "x \<in> component_of E s"
  then have m: "(x, s) \<in> E\<^sup>*" "(s, x) \<in> E\<^sup>*" by (auto simp: component_of_def mutual_def)
  have "(s, x) \<in> E\<^sup>* \<Longrightarrow> (x, s) \<in> avoiding E ?A"
    using m(1)
  proof (induction rule: converse_rtrancl_induct)
    case base
    then show ?case by (simp add: avoiding_def)
  next
    case (step y z)
    have sz: "(s, z) \<in> E\<^sup>*" using step.prems step.hyps(1) by (rule rtrancl_into_rtrancl)
    have "mutual E s z" "mutual E s y"
      using sz step.hyps step.prems by (auto simp: mutual_def intro: converse_rtrancl_into_rtrancl)
    then have "y \<notin> ?A" "z \<notin> ?A" using s components_closed[OF ok _ mutual_sym] by blast+
    then show ?case
      using step.IH[OF sz] step.hyps(1) unfolding avoiding_def
      by (auto intro: converse_rtrancl_into_rtrancl)
  qed
  then show "x \<in> {x. (x, s) \<in> avoiding E ?A}" using m(2) by simp
qed

lemma collect_fold:
  assumes "rev finish = pre @ rest" "components_ok E assigned found"
    and "set pre \<subseteq> set assigned" "set assigned \<subseteq> set finish"
    and "fold (\<lambda>start (assigned, found). if start \<in> set assigned then (assigned, found)
      else (let (assigned', members) = collect rev_of [start] (start # assigned) []
            in (assigned', found @ [members]))) rest (assigned, found) = (assigned', found')"
  shows "components_ok E assigned' found' \<and> set assigned' = set finish"
  using assms
proof (induction rest arbitrary: pre assigned found)
  case Nil
  have "set finish = set pre" using Nil.prems(1) by (metis append_Nil2 set_rev)
  then show ?case using Nil.prems by auto
next
  case (Cons s rest)
  show ?case
  proof (cases "s \<in> set assigned")
    case True
    then show ?thesis
      using Cons.IH[of "pre @ [s]" assigned found] Cons.prems by simp
  next
    case False
    obtain a m where c: "collect rev_of [s] (s # assigned) [] = (a, m)" by fastforce
    have "collect_inv E (set assigned) s [s] (s # assigned) []"
      using False by (auto simp: collect_inv_def avoiding_def)
    note res = collect_result[OF this reversed c]
    have comp: "set m = component_of E s"
      using res(4) avoiding_component[OF Cons.prems(2,1,3) False] by simp
    then have "components_ok E a (found @ [m])"
      using res(1-3) Cons.prems(2) by (auto simp: components_ok_def component_of_def)
    moreover have "s \<in> set a" using comp res(1) by (auto simp: component_of_def)
    moreover have "s \<in> set finish" using Cons.prems(1) by (metis in_set_conv_decomp set_rev)
    then have "set a \<subseteq> set finish"
      using res(1) comp Cons.prems(4) mutual_finish by (auto simp: component_of_def)
    ultimately show ?thesis
      using Cons.IH[of "pre @ [s]" a "found @ [m]"] Cons.prems False c res(1) by auto
  qed
qed

lemma collect_components:
  "\<exists>assigned. components_ok E assigned (collect_all rev_of (rev finish)) \<and> set assigned = set finish"
proof -
  obtain a found where fold: "fold (\<lambda>start (assigned, found). if start \<in> set assigned
      then (assigned, found) else (let (assigned', members) = collect rev_of [start] (start # assigned) []
            in (assigned', found @ [members]))) (rev finish) ([], []) = (a, found)" by fastforce
  have "components_ok E a found \<and> set a = set finish"
    by (rule collect_fold[OF _ _ _ _ fold, of "[]"]) (simp_all add: components_ok_def)
  moreover have "collect_all rev_of (rev finish) = found" by (simp add: collect_all_def fold)
  ultimately show ?thesis by auto
qed

end


section \<open>The components of the modelled graph\<close>

text \<open>\<open>following\<close>: the owners of a row among the allowed rows, in rank order.\<close>

definition following_within :: "('a \<Rightarrow> int) \<Rightarrow> 'a list \<Rightarrow> ('a \<Rightarrow> 'a list) \<Rightarrow> ('a \<times> 'a list) list" where
  "following_within rank nodes owners
    = map (\<lambda>v. (v, sort_key rank (filter (\<lambda>w. w \<in> set nodes) (owners v)))) nodes"

lemma dict_rel_within:
  "(v, w) \<in> dict_rel (following_within rank nodes owners)
    \<longleftrightarrow> v \<in> set nodes \<and> w \<in> set nodes \<and> w \<in> set (owners v)"
  by (auto simp: dict_rel_iff following_within_def)

lemma get_reverse_fold:
  "set (dict_get (fold (\<lambda>(dependency, owners) r. fold (\<lambda>owner r. dict_append r owner dependency) owners r)
      f r) w []) = set (dict_get r w []) \<union> {v. \<exists>ws. (v, ws) \<in> set f \<and> w \<in> set ws}"
proof (induction f arbitrary: r)
  case Nil
  then show ?case by simp
next
  case (Cons e f)
  obtain v ws where e: "e = (v, ws)" by fastforce
  have "set (dict_get (fold (\<lambda>owner r. dict_append r owner v) ws r) w [])
      = set (dict_get r w []) \<union> (if w \<in> set ws then {v} else {})"
    using dict_get_fold_append[of "\<lambda>x. x" "\<lambda>_. v" ws r w] by (auto simp: filter_empty_conv)
  then show ?case using Cons.IH[of "fold (\<lambda>owner r. dict_append r owner v) ws r"]
    by (auto simp: e)
qed

lemma dict_rel_reverse_of:
  "dict_rel (reverse_of rank nodes (following_within rank nodes owners))
    = (dict_rel (following_within rank nodes owners))\<inverse>"
proof -
  let ?f = "following_within rank nodes owners"
  have sorted: "set (dict_get (map (\<lambda>(v, vs). (v, sort_key rank vs)) d) w []) = set (dict_get d w [])" for d w
    by (simp add: dict_get_def map_of_map split: option.split)
  have "(w, v) \<in> dict_rel (reverse_of rank nodes ?f) \<longleftrightarrow> (\<exists>ws. (v, ws) \<in> set ?f \<and> w \<in> set ws)" for v w
    unfolding dict_rel_iff reverse_of_def sorted get_reverse_fold by simp
  moreover have "(\<exists>ws. (v, ws) \<in> set ?f \<and> w \<in> set ws) \<longleftrightarrow> (v, w) \<in> dict_rel ?f" for v w
    unfolding dict_rel_within by (auto simp: following_within_def)
  ultimately show ?thesis by (auto simp: converse_unfold)
qed

lemma within_square: "dict_rel (following_within rank nodes owners) \<subseteq> set nodes \<times> set nodes"
  using dict_rel_within by fastforce

interpretation dfs: reversed_finish_order
  "dict_rel (following_within rank nodes owners)"
  "dfs_finish (following_within rank nodes owners) nodes"
  "reverse_of rank nodes (following_within rank nodes owners)" for rank nodes owners
proof (rule reversed_finish_order.intro[OF dfs_finish_order(1)[OF within_square]])
  show "reversed_finish_order_axioms (dict_rel (following_within rank nodes owners))
      (reverse_of rank nodes (following_within rank nodes owners))"
    by unfold_locales (simp add: dict_rel_reverse_of)
qed

lemma kosaraju_components:
  fixes rank nodes owners
  defines "E \<equiv> dict_rel (following_within rank nodes owners)"
    and "comps \<equiv> kosaraju rank nodes (following_within rank nodes owners)"
  shows "distinct (concat comps)" "set (concat comps) = set nodes"
    and "m \<in> set comps \<Longrightarrow> m \<noteq> []"
    and "m \<in> set comps \<Longrightarrow> x \<in> set m \<Longrightarrow> set m = component_of E x"
proof -
  let ?found = "collect_all (reverse_of rank nodes (following_within rank nodes owners))
      (rev (dfs_finish (following_within rank nodes owners) nodes))"
  obtain a where ok: "components_ok E a ?found" and a: "set a = set nodes"
    using dfs.collect_components dfs_finish_order(2)[OF within_square] unfolding E_def by metis
  have perm: "mset comps = mset ?found" by (simp add: comps_def kosaraju_def)
  then have same: "set comps = set ?found" by (rule mset_eq_setD)
  have "mset (concat comps) = mset (concat ?found)"
    using perm by (metis mset_concat mset_map sum_mset_sum_list)
  then show "distinct (concat comps)" "set (concat comps) = set nodes"
    using ok a mset_eq_imp_distinct_iff mset_eq_setD unfolding components_ok_def by metis+
  show "m \<noteq> []" if "m \<in> set comps"
    using that ok same unfolding components_ok_def by fastforce
  show "set m = component_of E x" if m: "m \<in> set comps" "x \<in> set m"
  proof -
    obtain s where s: "set m = component_of E s" using m(1) ok same by (auto simp: components_ok_def)
    then have "mutual E s x" using m(2) by (simp add: component_of_def)
    then show ?thesis unfolding s component_of_def using mutual_trans mutual_sym by fast
  qed
qed

end
