(* ===== verification/Dependency_Scheduler.thy ===== *)
theory Dependency_Scheduler
imports Graph_Order Components
begin

text \<open>
  The row scheduler (\<open>domain/execution/dependency_scheduler.py\<close>): validation of the graph, the cyclic
  residue of a Kahn pass, its strongly connected components, the deferrable edges cut inside a
  component, the blockers and what they take with them, and the leveled order of the usable rows.
\<close>


section \<open>Data\<close>

record dependency_node =
  dn_row_id :: string
  dn_rank :: int

record dependency_edge =
  de_dependency :: string
  de_owner :: string
  de_field :: string
  de_strength :: string

record schedule_blocker =
  sb_row_id :: string
  sb_code :: string
  sb_field :: string
  sb_dependency :: string

record dependency_schedule =
  ds_ordered :: "string list"
  ds_components :: "string list list"
  ds_deferred :: "dependency_edge list"
  ds_blockers :: "schedule_blocker list"

record component_page =
  cp_component :: int
  cp_page :: int
  cp_rows :: "string list"


section \<open>Pages of a component\<close>

definition max_component_page_rows :: int where
  "max_component_page_rows = 500"

text \<open>\<open>for page_sequence, start in enumerate(range(0, len(rows), max_rows))\<close>.\<close>

function pages_of :: "int \<Rightarrow> nat \<Rightarrow> int \<Rightarrow> string list \<Rightarrow> component_page list" where
  "pages_of component max_rows page rows =
    (if rows = [] \<or> max_rows = 0 then []
     else \<lparr>cp_component = component, cp_page = page, cp_rows = take max_rows rows\<rparr>
       # pages_of component max_rows (page + 1) (drop max_rows rows))"
  by pat_completeness auto
termination by (relation "measure (\<lambda>(c, m, p, rows). length rows)") auto

declare pages_of.simps [simp del]

text \<open>The generator: the pages yielded before it ended, and whether it ended by raising.\<close>

fun component_pages_from :: "int \<Rightarrow> nat \<Rightarrow> (int \<times> string list) list \<Rightarrow> component_page list \<times> exn option" where
  "component_pages_from expected max_rows [] = ([], None)"
| "component_pages_from expected max_rows ((component, rows) # rest) =
    (if component \<noteq> expected \<or> rows = [] then ([], Some ValueError)
     else let (pages, e) = component_pages_from (expected + 1) max_rows rest
          in (pages_of component max_rows 0 rows @ pages, e))"

definition dependency_component_pages :: "int \<Rightarrow> (int \<times> string list) list
    \<Rightarrow> component_page list \<times> exn option" where
  "dependency_component_pages max_rows components =
    (if max_rows \<le> 0 then ([], Some ValueError)
     else component_pages_from 0 (nat max_rows) components)"


section \<open>Graph passes\<close>

type_synonym rank = "string \<Rightarrow> int"

definition edge_pair :: "dependency_edge \<Rightarrow> string \<times> string" where
  "edge_pair e = (de_dependency e, de_owner e)"

definition adjacency :: "string list \<Rightarrow> dependency_edge list \<Rightarrow> (string \<times> dependency_edge list) list" where
  "adjacency nodes edges
    = fold (\<lambda>e d. dict_append d (de_dependency e) e) edges (map (\<lambda>v. (v, [])) nodes)"

definition strong_components :: "string list \<Rightarrow> (string \<times> dependency_edge list) list \<Rightarrow> rank
    \<Rightarrow> string list list" where
  "strong_components nodes adj rank = (let node_tuple = sort_key rank nodes in
     kosaraju rank node_tuple
       (following_within rank node_tuple (\<lambda>v. map de_owner (dict_get adj v []))))"

definition unresolved_nodes :: "string list \<Rightarrow> dependency_edge list \<Rightarrow> rank \<Rightarrow> string list" where
  "unresolved_nodes nodes edges rank =
    (let es = map edge_pair edges;
         s = kahn_loop False rank (\<lambda>_ p. p) (\<lambda>_ _ p. p) (following_of nodes es)
               (kahn_start rank nodes es ())
     in filter (\<lambda>v. ks_indegree s v > 0) (sort_key rank nodes))"

text \<open>The payload of the second pass: the levels and \<open>current_level\<close>.\<close>

type_synonym leveling = "(string \<Rightarrow> int) \<times> int"

fun visit_level :: "string \<Rightarrow> leveling \<Rightarrow> leveling" where
  "visit_level v (levels, current)
    = (levels(v := max (levels v) current), max (levels v) current)"

fun pass_level :: "string \<Rightarrow> string \<Rightarrow> leveling \<Rightarrow> leveling" where
  "pass_level v owner (levels, current)
    = (levels(owner := max (levels owner) (levels v + 1)), current)"

definition topological_order_with_levels :: "string list \<Rightarrow> dependency_edge list \<Rightarrow> rank
    \<Rightarrow> (string list \<times> (string \<Rightarrow> int)) res" where
  "topological_order_with_levels nodes edges rank =
    (let es = map edge_pair (filter (\<lambda>e. de_dependency e \<in> set nodes \<and> de_owner e \<in> set nodes) edges);
         s = kahn_loop True rank visit_level pass_level (following_of nodes es)
               (kahn_start rank nodes es (\<lambda>_. 0, 0))
     in bindr (checkr (length (ks_done s) = length nodes) ValueError)
          (\<lambda>_. Inr (ks_done s, fst (ks_extra s))))"

definition topological_order :: "string list \<Rightarrow> dependency_edge list \<Rightarrow> rank \<Rightarrow> string list res" where
  "topological_order nodes edges rank
    = bindr (topological_order_with_levels nodes edges rank) (\<lambda>(ordered, _). Inr ordered)"

definition edge_key :: "rank \<Rightarrow> dependency_edge \<Rightarrow> int \<times> int \<times> string \<times> string" where
  "edge_key rank e = (rank (de_owner e), rank (de_dependency e), de_field e, de_strength e)"

definition blocker_key :: "rank \<Rightarrow> schedule_blocker \<Rightarrow> int \<times> string \<times> string \<times> string" where
  "blocker_key rank b = (rank (sb_row_id b), sb_code b, sb_field b, sb_dependency b)"


section \<open>Scheduling\<close>

definition index_of :: "'a list \<Rightarrow> 'a \<Rightarrow> nat" where
  "index_of xs x = length (takeWhile (\<lambda>y. y \<noteq> x) xs)"

definition self_edge :: "dependency_edge \<Rightarrow> bool" where
  "self_edge e = (de_dependency e = de_owner e)"

text \<open>The body of the loop over the components: the rows on hard cycles and the edges to defer.\<close>

definition component_cut :: "rank \<Rightarrow> dependency_edge list \<Rightarrow> string list
    \<Rightarrow> (string list \<times> dependency_edge list) res" where
  "component_cut rank edges component =
    (let internal = filter (\<lambda>e. de_dependency e \<in> set component \<and> de_owner e \<in> set component) edges in
     if \<not> (length component > 1 \<or> list_ex self_edge internal) then Inr ([], [])
     else
       let hard_internal = filter (\<lambda>e. de_strength e = ''hard'') internal;
           hard_cycles = filter (\<lambda>candidate. length candidate > 1
               \<or> list_ex (\<lambda>e. self_edge e \<and> de_dependency e \<in> set candidate) hard_internal)
             (strong_components component (adjacency component hard_internal) rank)
       in if hard_cycles \<noteq> [] then Inr (concat hard_cycles, [])
          else bindr (topological_order component hard_internal rank) (\<lambda>hard_order.
            Inr ([], filter (\<lambda>e. de_strength e = ''deferrable''
                \<and> index_of hard_order (de_dependency e) \<ge> index_of hard_order (de_owner e)) internal)))"

text \<open>\<open>blocker_by_row\<close>: the caller's blockers, then the rows on hard cycles.\<close>

type_synonym blocked = "(string \<times> schedule_blocker) list"

definition setdefault :: "('k \<times> 'v) list \<Rightarrow> 'k \<Rightarrow> 'v \<Rightarrow> ('k \<times> 'v) list" where
  "setdefault d k v = (if k \<in> fst ` set d then d else dict_set d k v)"

definition given_blockers :: "string list \<Rightarrow> rank \<Rightarrow> schedule_blocker list \<Rightarrow> blocked res" where
  "given_blockers ids rank blockers = foldr_res (\<lambda>d b.
     bindr (checkr (sb_row_id b \<in> set ids) ValueError) (\<lambda>_. Inr (setdefault d (sb_row_id b) b)))
     [] (sort_key (blocker_key rank) blockers)"

definition hard_blocker :: "string \<Rightarrow> schedule_blocker" where
  "hard_blocker v = \<lparr>sb_row_id = v, sb_code = ''HARD_DEPENDENCY_CYCLE'', sb_field = [],
     sb_dependency = []\<rparr>"

definition cycle_blockers :: "rank \<Rightarrow> string list \<Rightarrow> blocked \<Rightarrow> blocked" where
  "cycle_blockers rank rows d
    = fold (\<lambda>v d. setdefault d v (hard_blocker v)) (sort_key rank (remdups rows)) d"

text \<open>One row of the blocking queue: its owners that are not blocked yet, and the queue they join.\<close>

definition block_owners :: "string \<Rightarrow> dependency_edge list \<Rightarrow> blocked \<times> string list
    \<Rightarrow> blocked \<times> string list" where
  "block_owners v es = fold (\<lambda>e (d, queue).
     if de_owner e \<in> fst ` set d then (d, queue)
     else (dict_set d (de_owner e) \<lparr>sb_row_id = de_owner e, sb_code = ''BLOCKED_DEPENDENCY'',
             sb_field = de_field e, sb_dependency = v\<rparr>, queue @ [de_owner e])) es"

lemma block_owners_result:
  assumes "block_owners v es (d, queue) = (d', queue')"
  obtains new where "queue' = queue @ new" "distinct new" "set new = de_owner ` set es - fst ` set d"
    "fst ` set d' = fst ` set d \<union> set new"
proof -
  have "\<exists>d'' new. block_owners v es (d, queue) = (d'', queue @ new) \<and> distinct new
      \<and> set new = de_owner ` set es - fst ` set d \<and> fst ` set d'' = fst ` set d \<union> set new" for d queue
  proof (induction es arbitrary: d queue)
    case Nil
    then show ?case by (simp add: block_owners_def)
  next
    case (Cons e es)
    show ?case
    proof (cases "de_owner e \<in> fst ` set d")
      case True
      then show ?thesis using Cons.IH[of d queue] by (auto simp: block_owners_def)
    next
      case False
      let ?d = "dict_set d (de_owner e) \<lparr>sb_row_id = de_owner e, sb_code = ''BLOCKED_DEPENDENCY'',
             sb_field = de_field e, sb_dependency = v\<rparr>"
      obtain d'' new where "block_owners v es (?d, queue @ [de_owner e]) = (d'', (queue @ [de_owner e]) @ new)"
        "distinct new" "set new = de_owner ` set es - fst ` set ?d" "fst ` set d'' = fst ` set ?d \<union> set new"
        using Cons.IH[of ?d "queue @ [de_owner e]"] by blast
      then show ?thesis using False
        by (intro exI[of _ d''] exI[of _ "de_owner e # new"]) (auto simp: block_owners_def keys_dict_set)
    qed
  qed
  then show thesis using that assms by (metis prod.inject)
qed

function block_loop :: "(string \<times> dependency_edge list) list \<Rightarrow> string list \<Rightarrow> blocked \<Rightarrow> blocked" where
  "block_loop adj [] d = d"
| "block_loop adj (v # queue) d =
    (let (d', queue') = block_owners v (dict_get adj v []) (d, queue) in block_loop adj queue' d')"
  by pat_completeness auto

termination
proof (relation "measure (\<lambda>(adj, queue, d). card (de_owner ` values_of adj - fst ` set d) + length queue)")
  fix adj v queue d p d' queue'
  assume "p = block_owners v (dict_get adj v []) (d, queue)" "(d', queue') = p"
  then obtain new where new: "queue' = queue @ new" "distinct new"
    "set new = de_owner ` set (dict_get adj v []) - fst ` set d" "fst ` set d' = fst ` set d \<union> set new"
    using block_owners_result by metis
  have sub: "set new \<subseteq> de_owner ` values_of adj - fst ` set d" using new(3) get_values[of adj v] by blast
  have "card (de_owner ` values_of adj - fst ` set d - set new)
      = card (de_owner ` values_of adj - fst ` set d) - length new"
    and "length new \<le> card (de_owner ` values_of adj - fst ` set d)"
    using sub new(2) by (simp_all add: card_Diff_subset distinct_card[symmetric] card_mono)
  moreover have "de_owner ` values_of adj - fst ` set d' = de_owner ` values_of adj - fst ` set d - set new"
    using new(4) by auto
  ultimately show "((adj, queue', d'), adj, v # queue, d) \<in>
    measure (\<lambda>(adj, queue, d). card (de_owner ` values_of adj - fst ` set d) + length queue)"
    using new(1) by simp
qed simp

definition group_levels :: "(string \<Rightarrow> int) \<Rightarrow> string list \<Rightarrow> string list list" where
  "group_levels levels ordered = (let by_level = fold (\<lambda>v d. dict_append d (levels v) v) ordered [] in
     map (\<lambda>l. dict_get by_level l []) (sort (map fst by_level)))"

text \<open>The usable rows, the edges that are kept, their leveled order and the result.\<close>

definition final_schedule :: "string list \<Rightarrow> rank \<Rightarrow> dependency_edge list \<Rightarrow> dependency_edge list
    \<Rightarrow> blocked \<Rightarrow> dependency_schedule res" where
  "final_schedule ids rank edges deferred blocker_by_row =
    (let usable = filter (\<lambda>v. v \<notin> fst ` set blocker_by_row) (sort_key rank ids);
         deferred' = filter (\<lambda>e. de_dependency e \<in> set usable \<and> de_owner e \<in> set usable) deferred;
         retained = filter (\<lambda>e. e \<notin> set deferred' \<and> de_dependency e \<in> set usable
                       \<and> de_owner e \<in> set usable) edges
     in bindr (topological_order_with_levels usable retained rank) (\<lambda>(ordered, levels).
       Inr \<lparr>ds_ordered = ordered, ds_components = group_levels levels ordered,
         ds_deferred = sort_key (edge_key rank) (remdups deferred'),
         ds_blockers = sort_key (blocker_key rank) (map snd blocker_by_row)\<rparr>))"

definition rank_of :: "dependency_node list \<Rightarrow> rank" where
  "rank_of nodes v = (case map_of (map (\<lambda>n. (dn_row_id n, dn_rank n)) nodes) v of
     None \<Rightarrow> - 1 | Some r \<Rightarrow> r)"

text \<open>\<open>edge_tuple\<close>: the distinct edges in the order of their key.\<close>

definition edges_in_order :: "rank \<Rightarrow> dependency_edge list \<Rightarrow> dependency_edge list" where
  "edges_in_order rank edges = sort_key
     (\<lambda>e. (rank (de_dependency e), rank (de_owner e), de_field e, de_strength e)) (remdups edges)"

definition schedule_dependencies :: "dependency_node list \<Rightarrow> dependency_edge list \<Rightarrow> schedule_blocker list
    \<Rightarrow> dependency_schedule res" where
  "schedule_dependencies nodes edges blockers =
    (let ids = map dn_row_id nodes; rank = rank_of nodes; edge_tuple = edges_in_order rank edges in
     bindr (checkr (distinct ids) ValueError) (\<lambda>_.
     bindr (checkr (distinct (map dn_rank nodes)) ValueError) (\<lambda>_.
     bindr (checkr (list_all (\<lambda>e. de_dependency e \<in> set ids \<and> de_owner e \<in> set ids) edge_tuple) ValueError)
       (\<lambda>_.
     bindr (checkr (list_all (\<lambda>e. de_strength e \<in> {''hard'', ''deferrable''}) edge_tuple) ValueError) (\<lambda>_.
     let adj = adjacency ids edge_tuple; unresolved = unresolved_nodes ids edge_tuple rank in
     bindr (mapr (component_cut rank edge_tuple) (strong_components unresolved adj rank)) (\<lambda>cuts.
     bindr (given_blockers ids rank blockers) (\<lambda>given.
     let initial = cycle_blockers rank (concat (map fst cuts)) given;
         blocker_by_row = block_loop adj (sort_key rank (map fst initial)) initial
     in final_schedule ids rank edge_tuple (concat (map snd cuts)) blocker_by_row)))))))"

end
