(* ===== verification/Schedule_Correctness.thy ===== *)
theory Schedule_Correctness
imports Dependency_Scheduler
begin

text \<open>
  Correctness of the row scheduler of Dependency_Scheduler: the residue and the components contain
  every cycle, a component without a hard cycle can be cut, blocking is the reachability closure of
  its causes, and therefore the order of the usable rows always exists.
\<close>


section \<open>Cycles stay inside a component\<close>

lemma mutual_inside:
  assumes "(x, y) \<in> R\<^sup>*" "(y, x) \<in> R\<^sup>*"
  shows "(x, y) \<in> (R \<inter> component_of R x \<times> component_of R x)\<^sup>*"
  using assms
proof (induction rule: rtrancl_induct)
  case base
  then show ?case by simp
next
  case (step y z)
  have yx: "(y, x) \<in> R\<^sup>*" using step.hyps(2) step.prems by (rule converse_rtrancl_into_rtrancl)
  have xz: "(x, z) \<in> R\<^sup>*" using step.hyps by (rule rtrancl_into_rtrancl)
  have "y \<in> component_of R x" "z \<in> component_of R x"
    using yx xz step by (auto simp: component_of_def mutual_def)
  then show ?case using step.IH[OF yx] step.hyps(2) by (auto intro: rtrancl_into_rtrancl)
qed

lemma cycle_inside:
  assumes "(x, x) \<in> R\<^sup>+"
  shows "(x, x) \<in> (R \<inter> component_of R x \<times> component_of R x)\<^sup>+"
proof -
  obtain y where y: "(x, y) \<in> R\<^sup>*" "(y, x) \<in> R" using assms by (meson tranclD2)
  then have "(y, x) \<in> R\<^sup>*" by auto
  then have "(x, y) \<in> (R \<inter> component_of R x \<times> component_of R x)\<^sup>*"
    using y(1) by (rule mutual_inside[rotated])
  moreover have "y \<in> component_of R x" "x \<in> component_of R x"
    using y \<open>(y, x) \<in> R\<^sup>*\<close> by (auto simp: component_of_def mutual_def)
  ultimately show ?thesis using y(2) by (auto intro: rtrancl_into_trancl1)
qed

lemma mutual_on_cycle: "mutual R x y \<Longrightarrow> x \<noteq> y \<Longrightarrow> (x, x) \<in> R\<^sup>+"
  by (auto simp: mutual_def dest!: rtranclD intro: trancl_trans)

lemma cycle_mutual: "(x, x) \<in> (R \<inter> S)\<^sup>+ \<Longrightarrow> (x, x) \<in> R\<^sup>+"
  by (rule trancl_mono) auto

text \<open>An injective rank along every edge rules cycles out.\<close>

lemma acyclic_position:
  assumes "\<And>x y. (x, y) \<in> R \<Longrightarrow> (f x :: nat) < f y"
  shows "acyclic R"
proof -
  have "f x < f y" if "(x, y) \<in> R\<^sup>+" for x y
    using that by (induction rule: trancl_induct) (auto dest: assms)
  then show ?thesis by (auto simp: acyclic_def)
qed


section \<open>The edges of a graph as a relation\<close>

definition edge_rel :: "dependency_edge list \<Rightarrow> (string \<times> string) set" where
  "edge_rel edges = edge_pair ` set edges"

definition hard_rel :: "dependency_edge list \<Rightarrow> (string \<times> string) set" where
  "hard_rel edges = edge_pair ` {e \<in> set edges. de_strength e = ''hard''}"

lemma edge_rel_iff: "(a, b) \<in> edge_rel edges \<longleftrightarrow> (\<exists>e\<in>set edges. de_dependency e = a \<and> de_owner e = b)"
  by (auto simp: edge_rel_def edge_pair_def)

lemma hard_rel_iff: "(a, b) \<in> hard_rel edges \<longleftrightarrow>
    (\<exists>e\<in>set edges. de_strength e = ''hard'' \<and> de_dependency e = a \<and> de_owner e = b)"
  by (auto simp: hard_rel_def edge_pair_def image_iff)

lemma hard_subset: "hard_rel edges \<subseteq> edge_rel edges"
  by (auto simp: hard_rel_def edge_rel_def)

lemma finite_edge_rel [simp]: "finite (edge_rel edges)"
  by (simp add: edge_rel_def)

lemma get_adjacency: "dict_get (adjacency nodes edges) v [] = filter (\<lambda>e. de_dependency e = v) edges"
  by (simp add: adjacency_def dict_get_fold_append)

text \<open>The components of a set of rows, for the relation between them.\<close>

definition inner_rel :: "dependency_edge list \<Rightarrow> string set \<Rightarrow> (string \<times> string) set" where
  "inner_rel edges N = edge_rel edges \<inter> N \<times> N"

lemma strong_components_result:
  assumes "m \<in> set (strong_components nodes (adjacency all edges) rank)"
  shows "m \<noteq> []" "set m \<subseteq> set nodes" "x \<in> set m \<Longrightarrow> set m = component_of (inner_rel edges (set nodes)) x"
proof -
  have E: "dict_rel (following_within rank (sort_key rank nodes)
      (\<lambda>v. map de_owner (dict_get (adjacency all edges) v []))) = inner_rel edges (set nodes)"
    by (auto simp: dict_rel_within inner_rel_def edge_rel_iff get_adjacency)
  note res = kosaraju_components[where nodes = "sort_key rank nodes" and rank = rank
      and owners = "\<lambda>v. map de_owner (dict_get (adjacency all edges) v [])", unfolded E]
  have m: "m \<in> set (kosaraju rank (sort_key rank nodes) (following_within rank (sort_key rank nodes)
      (\<lambda>v. map de_owner (dict_get (adjacency all edges) v []))))"
    using assms by (simp add: strong_components_def Let_def)
  show "m \<noteq> []" by (rule res(3)[OF m])
  show "set m \<subseteq> set nodes" using res(2) m by auto
  show "x \<in> set m \<Longrightarrow> set m = component_of (inner_rel edges (set nodes)) x" by (rule res(4)[OF m])
qed

lemma strong_components_cover:
  "set (concat (strong_components nodes (adjacency all edges) rank)) = set nodes"
  "distinct (concat (strong_components nodes (adjacency all edges) rank))"
  using kosaraju_components(1,2)[where nodes = "sort_key rank nodes" and rank = rank
      and owners = "\<lambda>v. map de_owner (dict_get (adjacency all edges) v [])"]
  by (simp_all add: strong_components_def Let_def)


section \<open>The residue contains every cycle\<close>

lemma unresolved_result:
  assumes "distinct ids" "edge_rel edges \<subseteq> set ids \<times> set ids"
  shows "set (unresolved_nodes ids edges rank) \<subseteq> set ids" "distinct (unresolved_nodes ids edges rank)"
    and "(x, x) \<in> (edge_rel edges)\<^sup>+ \<Longrightarrow> x \<in> set (unresolved_nodes ids edges rank)"
proof -
  let ?es = "map edge_pair edges"
  let ?s = "kahn_loop False rank (\<lambda>_ p. p) (\<lambda>_ _ p. p) (following_of ids ?es) (kahn_start rank ids ?es ())"
  have E: "set ?es = edge_rel edges" by (simp add: edge_rel_def)
  note res = kahn_result[where es = ?es and by_rank = False and rank = rank and visit = "\<lambda>_ p. p"
      and pass = "\<lambda>_ _ p. p" and extra = "()", OF assms(1) _ refl, unfolded E]
  show "set (unresolved_nodes ids edges rank) \<subseteq> set ids" "distinct (unresolved_nodes ids edges rank)"
    using assms(1) by (auto simp: unresolved_nodes_def Let_def)
  assume cyc: "(x, x) \<in> (edge_rel edges)\<^sup>+"
  then have x: "x \<in> set ids" using assms(2) by (auto dest: tranclD)
  have "x \<notin> set (ks_done ?s)"
    using precedes_no_cycle[OF res(3,1)] cyc assms(2) by blast
  then show "x \<in> set (unresolved_nodes ids edges rank)"
    using res(4)[OF assms(2) x] x by (simp add: unresolved_nodes_def Let_def)
qed

text \<open>Rows on a common cycle of the graph reach each other inside the residue.\<close>

lemma mutual_residue:
  assumes "\<And>x. (x, x) \<in> (edge_rel edges)\<^sup>+ \<Longrightarrow> x \<in> U" "mutual (edge_rel edges) x y" "x \<noteq> y"
  shows "mutual (inner_rel edges U) x y"
proof -
  let ?E = "edge_rel edges"
  have inside: "(a, b) \<in> (inner_rel edges U)\<^sup>*" if ab: "mutual ?E a b" "a \<noteq> b" for a b
  proof -
    have "component_of ?E a \<subseteq> U"
    proof
      fix z assume "z \<in> component_of ?E a"
      then have za: "mutual ?E z a" by (simp add: component_of_def mutual_sym)
      show "z \<in> U"
      proof (cases "z = a")
        case True
        then show ?thesis using mutual_on_cycle[OF ab] assms(1) by simp
      next
        case False
        then show ?thesis using mutual_on_cycle[OF za] assms(1) by simp
      qed
    qed
    then have "?E \<inter> component_of ?E a \<times> component_of ?E a \<subseteq> inner_rel edges U"
      by (auto simp: inner_rel_def)
    then show ?thesis
      using mutual_inside[of a b ?E] ab(1) rtrancl_mono unfolding mutual_def by blast
  qed
  show ?thesis using inside[OF assms(2,3)] inside[OF mutual_sym[OF assms(2)]] assms(3)
    by (auto simp: mutual_def)
qed


section \<open>The leveled order\<close>

lemma fold_pass_level:
  "v \<notin> set ws \<Longrightarrow> fold (pass_level v) ws (levels, current)
    = ((\<lambda>w. if w \<in> set ws then max (levels w) (levels v + 1) else levels w), current)"
proof (induction ws arbitrary: levels)
  case Nil
  then show ?case by simp
next
  case (Cons w ws)
  then show ?case by (auto simp: fun_eq_iff max_def)
qed

definition level_inv :: "(string \<times> string) set \<Rightarrow> (string, leveling) kahn_state \<Rightarrow> bool" where
  "level_inv E s = (\<exists>levels current. ks_extra s = (levels, current)
     \<and> (\<forall>v\<in>set (ks_done s). levels v \<le> current)
     \<and> sorted (map levels (ks_done s))
     \<and> (\<forall>u v. (u, v) \<in> E \<and> u \<in> set (ks_done s) \<longrightarrow> levels u < levels v))"

lemma level_step:
  assumes inv: "kahn_inv N following rank s" and ready: "ks_ready s \<noteq> []"
    and lev: "level_inv (dict_rel following) s"
  shows "level_inv (dict_rel following) (kahn_step True rank visit_level pass_level following s)"
proof -
  define v where "v = snd (hd (ks_ready s))"
  note head = kahn_inv_head[OF inv ready v_def]
  let ?E = "dict_rel following" and ?ws = "arranged True rank (dict_get following v [])"
  obtain levels current where ex: "ks_extra s = (levels, current)"
    and le: "\<forall>v\<in>set (ks_done s). levels v \<le> current" and so: "sorted (map levels (ks_done s))"
    and inc: "\<And>u w. (u, w) \<in> ?E \<Longrightarrow> u \<in> set (ks_done s) \<Longrightarrow> levels u < levels w"
    using lev by (auto simp: level_inv_def)
  have ws: "w \<in> set ?ws \<longleftrightarrow> (v, w) \<in> ?E" for w by (simp add: dict_rel_iff)
  have "v \<notin> set ?ws" using head(6)[of v] ws by auto
  let ?l = "max (levels v) current"
  define L where "L = (\<lambda>w. if w \<in> set ?ws then max (levels w) (?l + 1) else (levels(v := ?l)) w)"
  have "ks_extra (kahn_step True rank visit_level pass_level following s) = (L, ?l)"
    unfolding L_def using \<open>v \<notin> set ?ws\<close> ex
    by (auto simp: kahn_step_def Let_def fold_release_extra v_def[symmetric] fold_pass_level fun_eq_iff
        simp del: set_arranged)
  moreover have "ks_done (kahn_step True rank visit_level pass_level following s) = ks_done s @ [v]"
    by (simp add: kahn_step_def Let_def v_def)
  moreover have old: "L w = levels w" if "w \<in> set (ks_done s)" for w
    using that head(2) head(6)[of w] ws by (auto simp: L_def)
  moreover have Lv: "L v = ?l" using \<open>v \<notin> set ?ws\<close> by (simp add: L_def del: set_arranged)
  moreover have "L u < L w" if "(u, w) \<in> ?E" "u \<in> set (ks_done s @ [v])" for u w
  proof (cases "u = v")
    case True
    then show ?thesis using that(1) ws \<open>v \<notin> set ?ws\<close> by (auto simp: L_def simp del: set_arranged)
  next
    case False
    then have "levels u < levels w" "u \<in> set (ks_done s)" using that inc by auto
    moreover have "levels w \<le> L w" by (auto simp: L_def)
    ultimately show ?thesis using old[of u] by linarith
  qed
  moreover have "sorted (map L (ks_done s @ [v]))"
  proof -
    have "sorted (map L (ks_done s)) = sorted (map levels (ks_done s))" using old by (simp cong: map_cong)
    moreover have "\<forall>x\<in>set (ks_done s). L x \<le> ?l" using old le by fastforce
    ultimately show ?thesis using so Lv by (simp add: sorted_append)
  qed
  ultimately show ?thesis
    unfolding level_inv_def using le by (intro exI[of _ L] exI[of _ ?l]) fastforce
qed

lemma topological_result:
  assumes "distinct nodes" "acyclic (inner_rel edges (set nodes))"
  obtains ordered levels where "topological_order_with_levels nodes edges rank = Inr (ordered, levels)"
    "distinct ordered" "set ordered = set nodes" "precedes (inner_rel edges (set nodes)) ordered"
    "sorted (map levels ordered)"
    "\<And>u v. (u, v) \<in> inner_rel edges (set nodes) \<Longrightarrow> levels u < levels v"
proof -
  let ?es = "map edge_pair (filter (\<lambda>e. de_dependency e \<in> set nodes \<and> de_owner e \<in> set nodes) edges)"
  let ?start = "kahn_start rank nodes ?es (\<lambda>_. 0, 0)"
  let ?s = "kahn_loop True rank visit_level pass_level (following_of nodes ?es) ?start"
  have E: "set ?es = inner_rel edges (set nodes)"
    by (auto simp: inner_rel_def edge_rel_def edge_pair_def)
  have sq: "set ?es \<subseteq> set nodes \<times> set nodes" unfolding E by (auto simp: inner_rel_def)
  note res = kahn_result[where by_rank = True and rank = rank and visit = visit_level
      and pass = pass_level and extra = "(\<lambda>_. 0, 0)", OF assms(1) sq refl]
  have all: "set (ks_done ?s) = set nodes"
    by (rule kahn_acyclic[OF assms(1) sq _ refl]) (simp only: E assms(2))
  have "(kahn_inv (set nodes) (following_of nodes ?es) rank ?s \<and> level_inv (set ?es) ?s)
      \<and> ks_ready ?s = []"
  proof (rule kahn_loop_induct)
    show "kahn_inv (set nodes) (following_of nodes ?es) rank ?start \<and> level_inv (set ?es) ?start"
      using kahn_start_inv[OF assms(1) sq] by (simp add: level_inv_def kahn_start_def)
  next
    fix s :: "(string, leveling) kahn_state"
    assume "kahn_inv (set nodes) (following_of nodes ?es) rank s \<and> level_inv (set ?es) s"
      "ks_ready s \<noteq> []"
    then show "kahn_inv (set nodes) (following_of nodes ?es) rank
          (kahn_step True rank visit_level pass_level (following_of nodes ?es) s)
        \<and> level_inv (set ?es) (kahn_step True rank visit_level pass_level (following_of nodes ?es) s)"
      using kahn_step_inv[of "set nodes" "following_of nodes ?es" rank s] level_step[of "set nodes" "following_of nodes ?es" rank s] by simp
  qed
  then obtain levels current where lev: "ks_extra ?s = (levels, current)"
    "sorted (map levels (ks_done ?s))"
    "\<And>u v. (u, v) \<in> set ?es \<Longrightarrow> u \<in> set (ks_done ?s) \<Longrightarrow> levels u < levels v"
    unfolding level_inv_def by blast
  have "length (ks_done ?s) = length nodes"
    using distinct_card[OF res(1)] distinct_card[OF assms(1)] all by simp
  then have "topological_order_with_levels nodes edges rank = Inr (ks_done ?s, levels)"
    by (simp add: topological_order_with_levels_def Let_def lev(1))
  then show thesis
  proof (rule that)
    show "precedes (inner_rel edges (set nodes)) (ks_done ?s)" using res(3) unfolding E .
    show "levels u < levels v" if "(u, v) \<in> inner_rel edges (set nodes)" for u v
      using lev(3)[of u v, unfolded E all] that by (auto simp: inner_rel_def)
  qed (use res(1) lev(2) all in simp_all)
qed

lemma precedes_index:
  assumes "precedes E xs" "distinct xs" "(u, v) \<in> E" "v \<in> set xs"
  shows "index_of xs u < index_of xs v"
proof -
  obtain j where j: "j < length xs" "xs ! j = v" using assms(4) by (auto simp: in_set_conv_nth)
  have "u \<in> set (take j xs)" using assms(1,3) j by (auto simp: precedes_def)
  then obtain i where i: "i < j" "xs ! i = u" using j by (auto simp: in_set_conv_nth)
  have idx: "index_of xs (xs ! k) = k" if "k < length xs" for k
    using that assms(2) unfolding index_of_def
    by (intro arg_cong[where f = length, OF takeWhile_eq_take_P_nth, THEN trans])
      (auto simp: nth_eq_iff_index_eq)
  show ?thesis using idx[of i] idx[of j] i j by auto
qed


section \<open>Cutting one component\<close>

lemma hard_cycles_result:
  fixes rank component hard
  assumes "\<forall>e\<in>set hard. de_dependency e \<in> set component \<and> de_owner e \<in> set component"
  defines "cycles \<equiv> filter (\<lambda>candidate. length candidate > 1
       \<or> list_ex (\<lambda>e. self_edge e \<and> de_dependency e \<in> set candidate) hard)
     (strong_components component (adjacency component hard) rank)"
  shows "set (concat cycles) = {v. (v, v) \<in> (edge_rel hard)\<^sup>+}"
proof (intro set_eqI iffI)
  let ?R = "edge_rel hard" and ?C = "strong_components component (adjacency component hard) rank"
  have R: "inner_rel hard (set component) = ?R" and sq: "?R \<subseteq> set component \<times> set component"
    using assms(1) by (auto simp: inner_rel_def edge_rel_def edge_pair_def)
  fix v
  {
    assume "v \<in> set (concat cycles)"
    then obtain m where m: "m \<in> set ?C" "v \<in> set m"
      "length m > 1 \<or> (\<exists>e\<in>set hard. self_edge e \<and> de_dependency e \<in> set m)"
      by (auto simp: cycles_def list_ex_iff)
    have comp: "set m = component_of ?R v" using strong_components_result(3)[OF m(1,2)] R by simp
    have "distinct m"
      using strong_components_cover(2)[of component component hard rank] m(1)
      by (simp add: distinct_concat_iff)
    show "v \<in> {v. (v, v) \<in> ?R\<^sup>+}"
    proof (cases "\<exists>w\<in>set m. w \<noteq> v")
      case True
      then obtain w where "w \<in> component_of ?R v" "v \<noteq> w" using comp by auto
      then show ?thesis using mutual_on_cycle[of ?R v w] by (simp add: component_of_def)
    next
      case False
      then have one: "set m = {v}" using m(2) by blast
      have "length m = 1" using distinct_card[OF \<open>distinct m\<close>] unfolding one by simp
      then obtain e where "e \<in> set hard" "self_edge e" "de_dependency e = v"
        using m(3) unfolding one by auto
      then have "(v, v) \<in> ?R" by (auto simp: edge_rel_iff self_edge_def)
      then show ?thesis by auto
    qed
  next
    assume "v \<in> {v. (v, v) \<in> ?R\<^sup>+}"
    then have cyc: "(v, v) \<in> ?R\<^sup>+" by simp
    then have "v \<in> set component" using sq by (auto dest: tranclD)
    then obtain m where m: "m \<in> set ?C" "v \<in> set m"
      using strong_components_cover(1)[of component component hard rank] by auto
    have comp: "set m = component_of ?R v" using strong_components_result(3)[OF m] R by simp
    have "length m > 1 \<or> (\<exists>e\<in>set hard. self_edge e \<and> de_dependency e \<in> set m)"
    proof (cases "length m > 1")
      case False
      then have "m = [v]" using m(2) by (cases m) auto
      then have "(v, v) \<in> (?R \<inter> {v} \<times> {v})\<^sup>+" using cycle_inside[OF cyc] comp by simp
      then have "(v, v) \<in> ?R" by (auto dest: tranclD)
      then obtain e where "e \<in> set hard" "de_dependency e = v" "de_owner e = v"
        by (auto simp: edge_rel_iff)
      then show ?thesis using \<open>m = [v]\<close> by (intro disjI2 bexI[of _ e]) (simp_all add: self_edge_def)
    qed simp
    then show "v \<in> set (concat cycles)" using m by (auto simp: cycles_def list_ex_iff)
  }
qed

lemma acyclic_iff_no_cycle: "acyclic R \<longleftrightarrow> {v. (v, v) \<in> R\<^sup>+} = {}"
  by (auto simp: acyclic_def)

definition inside :: "dependency_edge list \<Rightarrow> string list \<Rightarrow> dependency_edge list" where
  "inside edges component
    = filter (\<lambda>e. de_dependency e \<in> set component \<and> de_owner e \<in> set component) edges"

lemma hard_inside: "edge_rel (filter (\<lambda>e. de_strength e = ''hard'') (inside edges c))
    = hard_rel edges \<inter> set c \<times> set c"
  by (auto simp: inside_def edge_rel_def hard_rel_def edge_pair_def)

lemma component_cut_result:
  assumes "distinct c"
    and strength: "\<forall>e\<in>set edges. de_strength e = ''hard'' \<or> de_strength e = ''deferrable''"
  obtains hs ds where "component_cut rank edges c = Inr (hs, ds)"
    "set hs = {v. (v, v) \<in> (hard_rel edges \<inter> set c \<times> set c)\<^sup>+}"
    "hs \<noteq> [] \<Longrightarrow> ds = []"
    "\<And>e. e \<in> set ds \<Longrightarrow> e \<in> set (inside edges c) \<and> de_strength e = ''deferrable''"
    "hs = [] \<Longrightarrow> \<exists>pos :: string \<Rightarrow> nat. \<forall>e\<in>set (inside edges c) - set ds.
       pos (de_dependency e) < pos (de_owner e)"
proof -
  let ?I = "inside edges c"
  let ?H = "filter (\<lambda>e. de_strength e = ''hard'') ?I"
  define cycles where "cycles = filter (\<lambda>candidate. length candidate > 1
      \<or> list_ex (\<lambda>e. self_edge e \<and> de_dependency e \<in> set candidate) ?H)
    (strong_components c (adjacency c ?H) rank)"
  have cyc: "set (concat cycles) = {v. (v, v) \<in> (hard_rel edges \<inter> set c \<times> set c)\<^sup>+}"
    unfolding hard_inside[symmetric] cycles_def by (rule hard_cycles_result) (simp add: inside_def)
  show thesis
  proof (cases "length c > 1 \<or> list_ex self_edge ?I")
    case False
    have "?I = []"
      using False by (cases c) (auto simp: inside_def list_ex_iff self_edge_def filter_empty_conv)
    then have "hard_rel edges \<inter> set c \<times> set c = {}" using hard_inside[of edges c] by (simp add: edge_rel_def)
    moreover have "component_cut rank edges c = Inr ([], [])"
      using False by (simp add: component_cut_def inside_def[symmetric])
    ultimately show thesis using that[of "[]" "[]"] \<open>?I = []\<close> by simp
  next
    case True
    show thesis
    proof (cases "cycles = []")
      case False
      then have "component_cut rank edges c = Inr (concat cycles, [])"
        using True unfolding component_cut_def inside_def[symmetric] Let_def cycles_def by simp
      moreover have "concat cycles \<noteq> []"
      proof -
        have "hd cycles \<in> set cycles" by (rule hd_in_set[OF False])
        then obtain m where m: "m \<in> set cycles" by blast
        then have "m \<noteq> []" using strong_components_result(1)[of m c c ?H rank] by (simp add: cycles_def)
        then show ?thesis using m unfolding concat_eq_Nil_conv by blast
      qed
      ultimately show thesis by (intro that[OF _ cyc]) (simp_all only: empty_iff list.set(1) simp_thms, simp)
    next
      case empty: True
      then have "acyclic (inner_rel ?H (set c))"
        using cyc hard_inside[of edges c] by (simp add: acyclic_iff_no_cycle inner_rel_def Int_absorb1)
      then obtain order levels where top: "topological_order_with_levels c ?H rank = Inr (order, levels)"
        "distinct order" "set order = set c" "precedes (inner_rel ?H (set c)) order"
        using topological_result[OF assms(1)] by metis
      let ?D = "filter (\<lambda>e. de_strength e = ''deferrable''
        \<and> index_of order (de_dependency e) \<ge> index_of order (de_owner e)) ?I"
      have "component_cut rank edges c = Inr ([], ?D)"
        using True empty top(1) unfolding component_cut_def inside_def[symmetric] Let_def cycles_def
        by (simp add: topological_order_def)
      moreover have "index_of order (de_dependency e) < index_of order (de_owner e)"
        if e: "e \<in> set ?I - set ?D" for e
      proof (cases "de_strength e = ''hard''")
        case True
        then have "(de_dependency e, de_owner e) \<in> inner_rel ?H (set c)"
          using e by (auto simp: inner_rel_def edge_rel_iff inside_def)
        then show ?thesis
          using precedes_index[OF top(4,2)] top(3) e by (auto simp: inside_def)
      next
        case False
        then show ?thesis using e strength by (auto simp: inside_def)
      qed
      ultimately show thesis
        by (intro that[of "[]" ?D]) (use cyc empty in \<open>simp_all, blast?\<close>)
    qed
  qed
qed

lemma component_cut_facts:
  assumes "distinct c" "\<forall>e\<in>set edges. de_strength e = ''hard'' \<or> de_strength e = ''deferrable''"
    and cut: "component_cut rank edges c = Inr (hs, ds)"
  shows "set hs = {v. (v, v) \<in> (hard_rel edges \<inter> set c \<times> set c)\<^sup>+}"
    and "e \<in> set ds \<Longrightarrow> e \<in> set (inside edges c) \<and> de_strength e = ''deferrable''"
    and "hs = [] \<Longrightarrow> \<exists>pos :: string \<Rightarrow> nat. \<forall>e\<in>set (inside edges c) - set ds.
       pos (de_dependency e) < pos (de_owner e)"
  by (rule component_cut_result[OF assms(1,2), where rank = rank], simp add: cut)+


section \<open>Cutting all components\<close>

lemma mapr_defined:
  assumes "\<And>x. x \<in> set xs \<Longrightarrow> \<exists>y. f x = Inr y"
  shows "\<exists>ys. mapr f xs = Inr ys \<and> (\<forall>y. y \<in> set ys \<longleftrightarrow> (\<exists>x\<in>set xs. f x = Inr y))"
  using assms
proof (induction xs)
  case Nil
  then show ?case by simp
next
  case (Cons x xs)
  then obtain ys where ys: "mapr f xs = Inr ys" "\<forall>y. y \<in> set ys \<longleftrightarrow> (\<exists>x\<in>set xs. f x = Inr y)"
    by (meson list.set_intros(2))
  obtain y where "f x = Inr y" using Cons.prems[of x] by auto
  with ys show ?case by (intro exI[of _ "y # ys"]) auto
qed

lemma cuts_result:
  fixes rank ids edges
  defines "E \<equiv> edge_rel edges" and "U \<equiv> unresolved_nodes ids edges rank"
  assumes "distinct ids" "edge_rel edges \<subseteq> set ids \<times> set ids"
    and strength: "\<forall>e\<in>set edges. de_strength e = ''hard'' \<or> de_strength e = ''deferrable''"
  obtains cuts where
    "mapr (component_cut rank edges) (strong_components U (adjacency ids edges) rank) = Inr cuts"
    "set (concat (map fst cuts)) = {v. (v, v) \<in> (hard_rel edges)\<^sup>+}"
    "\<forall>e\<in>set (concat (map snd cuts)).
       e \<in> set edges \<and> de_strength e = ''deferrable'' \<and> (de_owner e, de_dependency e) \<in> E\<^sup>*"
    "\<forall>x. (x, x) \<in> E\<^sup>+ \<longrightarrow> (\<exists>v. mutual E v x \<and> (v, v) \<in> (hard_rel edges)\<^sup>+)
       \<or> (\<exists>pos :: string \<Rightarrow> nat. \<forall>e\<in>set edges - set (concat (map snd cuts)).
            mutual E x (de_dependency e) \<and> mutual E x (de_owner e)
            \<longrightarrow> pos (de_dependency e) < pos (de_owner e))"
proof -
  let ?C = "strong_components U (adjacency ids edges) rank"
  let ?F = "inner_rel edges (set U)"
  note residue = unresolved_result[OF assms(3,4), where rank = rank, folded U_def E_def]
  have sub: "?F \<subseteq> E" by (auto simp: inner_rel_def E_def)
  have comp: "set c = component_of ?F x" if "c \<in> set ?C" "x \<in> set c" for c x
    by (rule strong_components_result(3)[OF that])
  have cU: "set c \<subseteq> set U" "distinct c" if "c \<in> set ?C" for c
    using that strong_components_cover(2)[of U ids edges rank] strong_components_result(2)[OF that]
    by (auto simp: distinct_concat_iff)
  have whole: "set c = component_of E x" if c: "c \<in> set ?C" "x \<in> set c" for c x
  proof -
    have "mutual E x y \<Longrightarrow> x \<noteq> y \<Longrightarrow> mutual ?F x y" for y
      unfolding E_def by (rule mutual_residue) (use residue(3) in \<open>auto simp: E_def\<close>)
    moreover have "mutual ?F x y \<Longrightarrow> mutual E x y" for y
      unfolding mutual_def using rtrancl_mono[OF sub] by blast
    ultimately have "mutual ?F x y \<longleftrightarrow> mutual E x y" for y by (cases "x = y") auto
    then show ?thesis unfolding comp[OF c] component_of_def by (rule Collect_cong)
  qed
  have ex: "\<exists>y. component_cut rank edges c = Inr y" if "c \<in> set ?C" for c
    by (rule component_cut_result[OF cU(2)[OF that] strength, where rank = rank]) blast
  obtain cuts where cuts: "mapr (component_cut rank edges) ?C = Inr cuts"
    "\<forall>y. y \<in> set cuts \<longleftrightarrow> (\<exists>c\<in>set ?C. component_cut rank edges c = Inr y)"
    using mapr_defined[of ?C "component_cut rank edges", OF ex] by blast
  let ?D = "concat (map snd cuts)"
  have hard_in: "(v, v) \<in> (hard_rel edges \<inter> set c \<times> set c)\<^sup>+"
    if "(v, v) \<in> (hard_rel edges)\<^sup>+" "c \<in> set ?C" "v \<in> set c" for v c
  proof -
    have "component_of (hard_rel edges) v \<subseteq> set c"
      unfolding whole[OF that(2,3)] component_of_def mutual_def E_def
      using rtrancl_mono[OF hard_subset[of edges]] by blast
    then have "hard_rel edges \<inter> component_of (hard_rel edges) v \<times> component_of (hard_rel edges) v
        \<subseteq> hard_rel edges \<inter> set c \<times> set c" by auto
    then show ?thesis using trancl_mono[OF cycle_inside[OF that(1)]] by blast
  qed
  have some_comp: "\<exists>c\<in>set ?C. v \<in> set c" if "(v, v) \<in> E\<^sup>+" for v
    using residue(3)[OF that] strong_components_cover(1)[of U ids edges rank] by auto
  have hard_E: "(v, v) \<in> E\<^sup>+" if "(v, v) \<in> (hard_rel edges)\<^sup>+" for v
    using trancl_mono[OF that hard_subset] by (simp add: E_def)
  show thesis
  proof (rule that[OF cuts(1)])
    show "set (concat (map fst cuts)) = {v. (v, v) \<in> (hard_rel edges)\<^sup>+}"
    proof (intro set_eqI iffI)
      fix v assume "v \<in> set (concat (map fst cuts))"
      then obtain hs ds c where c: "c \<in> set ?C" "component_cut rank edges c = Inr (hs, ds)" "v \<in> set hs"
        using cuts(2) by fastforce
      have "v \<in> {v. (v, v) \<in> (hard_rel edges \<inter> set c \<times> set c)\<^sup>+}"
        using component_cut_facts(1)[OF cU(2)[OF c(1)] strength c(2)] c(3) by simp
      then show "v \<in> {v. (v, v) \<in> (hard_rel edges)\<^sup>+}" using cycle_mutual by auto
    next
      fix v assume v: "v \<in> {v. (v, v) \<in> (hard_rel edges)\<^sup>+}"
      then obtain c where c: "c \<in> set ?C" "v \<in> set c" using some_comp hard_E by blast
      obtain hs ds where cut: "component_cut rank edges c = Inr (hs, ds)"
        using ex[OF c(1)] by fastforce
      have "v \<in> set hs"
        using hard_in[OF _ c] v component_cut_facts(1)[OF cU(2)[OF c(1)] strength cut] by simp
      moreover have "(hs, ds) \<in> set cuts" using cuts(2) c(1) cut by blast
      ultimately show "v \<in> set (concat (map fst cuts))" by force
    qed
  next
    show "\<forall>e\<in>set ?D. e \<in> set edges \<and> de_strength e = ''deferrable''
        \<and> (de_owner e, de_dependency e) \<in> E\<^sup>*"
    proof
    fix e assume "e \<in> set ?D"
    then obtain hs ds c where c: "c \<in> set ?C" "component_cut rank edges c = Inr (hs, ds)" "e \<in> set ds"
      using cuts(2) by fastforce
    then have e: "e \<in> set (inside edges c) \<and> de_strength e = ''deferrable''"
      using component_cut_facts(2)[OF cU(2)[OF c(1)] strength c(2)] by blast
    then have "de_dependency e \<in> set c" "de_owner e \<in> set c" by (auto simp: inside_def)
    then have "mutual E (de_owner e) (de_dependency e)"
      using whole[OF c(1), of "de_owner e"] by (simp add: component_of_def)
    then show "e \<in> set edges \<and> de_strength e = ''deferrable'' \<and> (de_owner e, de_dependency e) \<in> E\<^sup>*"
      using e by (simp add: inside_def mutual_def)
    qed
  next
    show "\<forall>x. (x, x) \<in> E\<^sup>+ \<longrightarrow> (\<exists>v. mutual E v x \<and> (v, v) \<in> (hard_rel edges)\<^sup>+)
       \<or> (\<exists>pos :: string \<Rightarrow> nat. \<forall>e\<in>set edges - set ?D.
            mutual E x (de_dependency e) \<and> mutual E x (de_owner e)
            \<longrightarrow> pos (de_dependency e) < pos (de_owner e))"
    proof (intro allI impI)
    fix x assume "(x, x) \<in> E\<^sup>+"
    then obtain c where c: "c \<in> set ?C" "x \<in> set c" using some_comp by blast
    obtain hs ds where cut: "component_cut rank edges c = Inr (hs, ds)"
      using ex[OF c(1)] by fastforce
    note facts = component_cut_facts[OF cU(2)[OF c(1)] strength cut]
    have "(hs, ds) \<in> set cuts" using cuts(2) c(1) cut by blast
    then have ds: "set ds \<subseteq> set ?D" by force
    show "(\<exists>v. mutual E v x \<and> (v, v) \<in> (hard_rel edges)\<^sup>+)
       \<or> (\<exists>pos :: string \<Rightarrow> nat. \<forall>e\<in>set edges - set ?D.
            mutual E x (de_dependency e) \<and> mutual E x (de_owner e)
            \<longrightarrow> pos (de_dependency e) < pos (de_owner e))"
    proof (cases hs)
      case Nil
      then obtain pos :: "string \<Rightarrow> nat" where "\<forall>e\<in>set (inside edges c) - set ds.
         pos (de_dependency e) < pos (de_owner e)" using facts(3) by blast
      then show ?thesis using ds whole[OF c]
        by (intro disjI2 exI[of _ pos]) (auto simp: inside_def component_of_def)
    next
      case (Cons v hs')
      then have cyc: "(v, v) \<in> (hard_rel edges \<inter> set c \<times> set c)\<^sup>+" using facts(1) by auto
      then have "v \<in> set c" by (auto dest: tranclD)
      then have "mutual E v x" using whole[OF c] by (simp add: component_of_def mutual_sym)
      then show ?thesis using cycle_mutual[OF cyc] by blast
    qed
    qed
  qed
qed


section \<open>Blocking\<close>

definition own_keys :: "blocked \<Rightarrow> bool" where
  "own_keys d = (distinct (map fst d) \<and> (\<forall>(v, b)\<in>set d. sb_row_id b = v))"

lemma own_keys_map:
  assumes "own_keys d"
  shows "map (\<lambda>x. sb_row_id (snd x)) d = map fst d"
  using assms by (auto simp: own_keys_def)

lemma own_keys_set:
  assumes "own_keys d" "sb_row_id b = v"
  shows "own_keys (dict_set d v b)"
proof -
  have "map_of (dict_set d v b) k = Some c \<Longrightarrow> sb_row_id c = k" for k c
    using assms by (auto simp: map_of_dict_set own_keys_def dest: map_of_SomeD split: if_splits)
  moreover have "distinct (map fst (dict_set d v b))"
    using assms by (simp add: own_keys_def distinct_dict_set)
  ultimately show ?thesis unfolding own_keys_def using map_of_is_SomeI by fastforce
qed

lemma own_keys_setdefault: "own_keys d \<Longrightarrow> sb_row_id b = v \<Longrightarrow> own_keys (setdefault d v b)"
  by (simp add: setdefault_def own_keys_set)

lemma keys_setdefault: "fst ` set (setdefault d v b) = insert v (fst ` set d)"
  by (auto simp: setdefault_def keys_dict_set)

lemma given_blockers_result:
  assumes "\<forall>b\<in>set blockers. sb_row_id b \<in> set ids"
  obtains d where "given_blockers ids rank blockers = Inr d" "own_keys d"
    "fst ` set d = sb_row_id ` set blockers"
proof -
  let ?step = "\<lambda>d b. bindr (checkr (sb_row_id b \<in> set ids) ValueError) (\<lambda>_. Inr (setdefault d (sb_row_id b) b))"
  have "\<forall>b\<in>set bs. sb_row_id b \<in> set ids \<Longrightarrow> own_keys d \<Longrightarrow>
      \<exists>d'. foldr_res ?step d bs = Inr d' \<and> own_keys d' \<and> fst ` set d' = fst ` set d \<union> sb_row_id ` set bs"
    for bs d
  proof (induction bs arbitrary: d)
    case Nil
    then show ?case by simp
  next
    case (Cons b bs)
    have "own_keys (setdefault d (sb_row_id b) b)" using Cons.prems(2) by (simp add: own_keys_setdefault)
    from Cons.IH[OF _ this] Cons.prems(1) show ?case by (auto simp: keys_setdefault)
  qed
  from this[of "sort_key (blocker_key rank) blockers" "[]"] assms
  show thesis using that by (auto simp: given_blockers_def own_keys_def)
qed

lemma cycle_blockers_result:
  assumes "own_keys d"
  shows "own_keys (cycle_blockers rank rows d)"
    "fst ` set (cycle_blockers rank rows d) = fst ` set d \<union> set rows"
proof -
  have "own_keys d \<Longrightarrow> own_keys (fold (\<lambda>v d. setdefault d v (hard_blocker v)) vs d)
      \<and> fst ` set (fold (\<lambda>v d. setdefault d v (hard_blocker v)) vs d) = fst ` set d \<union> set vs" for vs d
    by (induction vs arbitrary: d) (auto simp: keys_setdefault own_keys_setdefault hard_blocker_def)
  from this[of d "sort_key rank (remdups rows)"] assms
  show "own_keys (cycle_blockers rank rows d)"
    "fst ` set (cycle_blockers rank rows d) = fst ` set d \<union> set rows"
    by (simp_all add: cycle_blockers_def)
qed

lemma block_owners_own_keys:
  "own_keys d \<Longrightarrow> block_owners v es (d, q) = (d', q') \<Longrightarrow> own_keys d'"
  unfolding block_owners_def
proof (induction es arbitrary: d q)
  case (Cons e es)
  show ?case
  proof (cases "de_owner e \<in> fst ` set d")
    case False
    let ?b = "\<lparr>sb_row_id = de_owner e, sb_code = ''BLOCKED_DEPENDENCY'', sb_field = de_field e,
      sb_dependency = v\<rparr>"
    have "own_keys (dict_set d (de_owner e) ?b)" by (rule own_keys_set[OF Cons.prems(1)]) simp
    then show ?thesis by (rule Cons.IH[of _ "q @ [de_owner e]"]) (use Cons.prems(2) False in simp)
  qed (use Cons in simp)
qed simp

definition owner_rel :: "(string \<times> dependency_edge list) list \<Rightarrow> (string \<times> string) set" where
  "owner_rel adj = {(v, w). \<exists>e\<in>set (dict_get adj v []). de_owner e = w}"

lemma block_loop_result:
  assumes "own_keys d" "set queue \<subseteq> fst ` set d"
    and "\<forall>x\<in>fst ` set d - set queue. owner_rel adj `` {x} \<subseteq> fst ` set d"
  shows "own_keys (block_loop adj queue d) \<and> fst ` set d \<subseteq> fst ` set (block_loop adj queue d)
    \<and> fst ` set (block_loop adj queue d) \<subseteq> (owner_rel adj)\<^sup>* `` (fst ` set d)
    \<and> owner_rel adj `` (fst ` set (block_loop adj queue d)) \<subseteq> fst ` set (block_loop adj queue d)"
  using assms
proof (induction adj queue d rule: block_loop.induct)
  case (1 adj d)
  then show ?case by auto
next
  case (2 adj v queue d)
  obtain d' queue' where step: "block_owners v (dict_get adj v []) (d, queue) = (d', queue')" by fastforce
  obtain new where new: "queue' = queue @ new" "distinct new"
    "set new = de_owner ` set (dict_get adj v []) - fst ` set d" "fst ` set d' = fst ` set d \<union> set new"
    using block_owners_result[OF step] .
  have succ: "de_owner ` set (dict_get adj v []) = owner_rel adj `` {v}" by (auto simp: owner_rel_def)
  have v: "v \<in> fst ` set d" using "2.prems"(2) by simp
  have IH: "own_keys (block_loop adj queue' d') \<and> fst ` set d' \<subseteq> fst ` set (block_loop adj queue' d')
    \<and> fst ` set (block_loop adj queue' d') \<subseteq> (owner_rel adj)\<^sup>* `` (fst ` set d')
    \<and> owner_rel adj `` (fst ` set (block_loop adj queue' d')) \<subseteq> fst ` set (block_loop adj queue' d')"
  proof (rule "2.IH"[OF step[symmetric] refl])
    show "own_keys d'" by (rule block_owners_own_keys[OF "2.prems"(1) step])
    show "set queue' \<subseteq> fst ` set d'" using "2.prems"(2) new by auto
    show "\<forall>x\<in>fst ` set d' - set queue'. owner_rel adj `` {x} \<subseteq> fst ` set d'"
    proof
      fix x assume x: "x \<in> fst ` set d' - set queue'"
      show "owner_rel adj `` {x} \<subseteq> fst ` set d'"
      proof (cases "x = v")
        case True
        then show ?thesis using new(3,4) succ by auto
      next
        case False
        then have "x \<in> fst ` set d - set (v # queue)" using x new(1,4) by auto
        then show ?thesis using "2.prems"(3) new(4) by blast
      qed
    qed
  qed
  have sub: "(owner_rel adj)\<^sup>* `` (fst ` set d') \<subseteq> (owner_rel adj)\<^sup>* `` (fst ` set d)"
    unfolding new(4) using new(3) succ v by (auto intro: converse_rtrancl_into_rtrancl)
  have "fst ` set (block_loop adj queue' d') \<subseteq> (owner_rel adj)\<^sup>* `` (fst ` set d)"
    by (rule order_trans[OF _ sub]) (use IH in simp)
  moreover have "fst ` set d \<subseteq> fst ` set (block_loop adj queue' d')"
    using IH unfolding new(4) by simp
  ultimately show ?case using IH step by simp
qed

lemma block_loop_closure:
  assumes "own_keys d"
  shows "own_keys (block_loop adj (sort_key rank (map fst d)) d)"
    "fst ` set (block_loop adj (sort_key rank (map fst d)) d) = (owner_rel adj)\<^sup>* `` (fst ` set d)"
proof -
  let ?r = "block_loop adj (sort_key rank (map fst d)) d"
  have res: "own_keys ?r \<and> fst ` set d \<subseteq> fst ` set ?r
    \<and> fst ` set ?r \<subseteq> (owner_rel adj)\<^sup>* `` (fst ` set d) \<and> owner_rel adj `` (fst ` set ?r) \<subseteq> fst ` set ?r"
    by (rule block_loop_result) (use assms in auto)
  then show "own_keys ?r" by simp
  have closed: "(owner_rel adj)\<^sup>* `` (fst ` set ?r) = fst ` set ?r"
    using res by (simp add: Image_closed_trancl)
  have "(owner_rel adj)\<^sup>* `` (fst ` set d) \<subseteq> (owner_rel adj)\<^sup>* `` (fst ` set ?r)"
    using res by (intro Image_mono) simp_all
  then show "fst ` set ?r = (owner_rel adj)\<^sup>* `` (fst ` set d)"
    unfolding closed using res by (intro equalityI) simp_all
qed


section \<open>Grouping by level\<close>

lemma concat_by_key:
  "sorted (map f xs) \<Longrightarrow> sorted_wrt (<) ks \<Longrightarrow> f ` set xs \<subseteq> set ks \<Longrightarrow>
    concat (map (\<lambda>k. filter (\<lambda>x. f x = k) xs) ks) = (xs :: 'a list)" for f :: "'a \<Rightarrow> int"
proof (induction ks arbitrary: xs)
  case Nil
  then show ?case by simp
next
  case (Cons k ks)
  have low: "\<forall>x\<in>set xs. k \<le> f x"
  proof
    fix x assume "x \<in> set xs"
    then have "f x \<in> set (k # ks)" using Cons.prems(3) by blast
    then show "k \<le> f x" using Cons.prems(2) by auto
  qed
  have split: "filter (\<lambda>x. f x = k) xs @ filter (\<lambda>x. f x \<noteq> k) xs = xs"
    using Cons.prems(1) low
  proof (induction xs)
    case (Cons x xs)
    show ?case
    proof (cases "f x = k")
      case False
      then have "\<forall>y\<in>set xs. f y \<noteq> k" using Cons.prems by force
      then show ?thesis using False by (simp add: filter_id_conv filter_empty_conv)
    qed (use Cons in auto)
  qed simp
  let ?ys = "filter (\<lambda>x. f x \<noteq> k) xs"
  have tail: "concat (map (\<lambda>l. filter (\<lambda>x. f x = l) ?ys) ks) = ?ys"
    by (rule Cons.IH) (use Cons.prems in \<open>auto simp: sorted_filter\<close>)
  have eq: "map (\<lambda>l. filter (\<lambda>x. f x = l) ?ys) ks = map (\<lambda>l. filter (\<lambda>x. f x = l) xs) ks"
    using Cons.prems(2) by (auto intro!: filter_cong)
  show ?case unfolding list.map concat.simps eq[symmetric] tail by (rule split)
qed

lemma group_levels_result:
  assumes "sorted (map levels ordered)"
  shows "concat (group_levels levels ordered) = ordered"
    and "u \<in> set ordered \<Longrightarrow> v \<in> set ordered \<Longrightarrow> levels u < levels v \<Longrightarrow>
      \<exists>i j. i < j \<and> j < length (group_levels levels ordered)
        \<and> u \<in> set (group_levels levels ordered ! i) \<and> v \<in> set (group_levels levels ordered ! j)"
proof -
  define by_level where "by_level = fold (\<lambda>v d. dict_append d (levels v) v) ordered []"
  have keys: "distinct (map fst by_level) \<and> fst ` set by_level = levels ` set ordered"
  proof -
    have "distinct (map fst d) \<Longrightarrow> distinct (map fst (fold (\<lambda>v d. dict_append d (levels v) v) vs d))
        \<and> fst ` set (fold (\<lambda>v d. dict_append d (levels v) v) vs d) = fst ` set d \<union> levels ` set vs" for vs d
      by (induction vs arbitrary: d) (auto simp: dict_append_def distinct_dict_set keys_dict_set)
    then show ?thesis by (simp add: by_level_def)
  qed
  let ?ks = "sort (map fst by_level)"
  have ks: "sorted_wrt (<) ?ks" "set ?ks = levels ` set ordered"
    using keys by (simp_all add: strict_sorted_iff)
  have groups: "group_levels levels ordered = map (\<lambda>l. filter (\<lambda>v. levels v = l) ordered) ?ks"
    by (simp add: group_levels_def by_level_def[symmetric])
      (simp add: by_level_def dict_get_fold_append[of levels "\<lambda>v. v", simplified])
  show "concat (group_levels levels ordered) = ordered"
    unfolding groups by (rule concat_by_key[OF assms ks(1)]) (simp only: ks(2))
  assume uv: "u \<in> set ordered" "v \<in> set ordered" "levels u < levels v"
  then obtain i j where ij: "i < length ?ks" "?ks ! i = levels u" "j < length ?ks" "?ks ! j = levels v"
    using ks(2) by (metis imageI in_set_conv_nth)
  have "i < j"
  proof (rule ccontr)
    assume "\<not> i < j"
    then have "?ks ! j \<le> ?ks ! i" using sorted_nth_mono[OF sorted_sort, of j i "map fst by_level"] ij(1) by simp
    then show False using ij uv(3) by simp
  qed
  then show "\<exists>i j. i < j \<and> j < length (group_levels levels ordered)
        \<and> u \<in> set (group_levels levels ordered ! i) \<and> v \<in> set (group_levels levels ordered ! j)"
    using ij uv by (intro exI[of _ i] exI[of _ j]) (simp add: groups)
qed


section \<open>The schedule\<close>

definition valid_graph :: "dependency_node list \<Rightarrow> dependency_edge list \<Rightarrow> schedule_blocker list \<Rightarrow> bool" where
  "valid_graph nodes edges blockers =
    (distinct (map dn_row_id nodes) \<and> distinct (map dn_rank nodes)
     \<and> list_all (\<lambda>e. de_dependency e \<in> set (map dn_row_id nodes) \<and> de_owner e \<in> set (map dn_row_id nodes)
         \<and> de_strength e \<in> {''hard'', ''deferrable''}) edges
     \<and> list_all (\<lambda>b. sb_row_id b \<in> set (map dn_row_id nodes)) blockers)"

text \<open>The rows that cannot be scheduled: what the given blockers and the hard cycles reach.\<close>

definition blocked_rows :: "dependency_edge list \<Rightarrow> schedule_blocker list \<Rightarrow> string set" where
  "blocked_rows edges blockers = (edge_rel edges)\<^sup>* ``
     (sb_row_id ` set blockers \<union> {v. (v, v) \<in> (hard_rel edges)\<^sup>+})"

text \<open>\<open>earlier xs u v\<close>: \<open>u\<close> stands before \<open>v\<close>; \<open>earlier_group gs u v\<close>: in an earlier group.\<close>

definition earlier :: "'a list \<Rightarrow> 'a \<Rightarrow> 'a \<Rightarrow> bool" where
  "earlier xs u v = (\<exists>i j. i < j \<and> j < length xs \<and> xs ! i = u \<and> xs ! j = v)"

definition earlier_group :: "'a list list \<Rightarrow> 'a \<Rightarrow> 'a \<Rightarrow> bool" where
  "earlier_group gs u v = (\<exists>i j. i < j \<and> j < length gs \<and> u \<in> set (gs ! i) \<and> v \<in> set (gs ! j))"

lemma owner_rel_adjacency: "owner_rel (adjacency ids edges) = edge_rel edges"
  by (auto simp: owner_rel_def get_adjacency edge_rel_iff)

lemma precedes_earlier:
  assumes "precedes E xs" "(u, v) \<in> E" "v \<in> set xs"
  shows "earlier xs u v"
proof -
  obtain j where j: "j < length xs" "xs ! j = v" using assms(3) by (auto simp: in_set_conv_nth)
  have "u \<in> set (take j xs)" using assms(1,2) j by (auto simp: precedes_def)
  then obtain i where "i < j" "xs ! i = u" using j by (auto simp: in_set_conv_nth)
  then show ?thesis using j by (auto simp: earlier_def)
qed

text \<open>The edges that are kept between usable rows have no cycle.\<close>

lemma retained_acyclic:
  assumes cuts: "\<forall>x. (x, x) \<in> (edge_rel edges)\<^sup>+ \<longrightarrow>
      (\<exists>v. mutual (edge_rel edges) v x \<and> (v, v) \<in> (hard_rel edges)\<^sup>+)
      \<or> (\<exists>pos :: string \<Rightarrow> nat. \<forall>e\<in>set edges - D. mutual (edge_rel edges) x (de_dependency e)
            \<and> mutual (edge_rel edges) x (de_owner e) \<longrightarrow> pos (de_dependency e) < pos (de_owner e))"
    and free: "\<And>v. v \<in> N \<Longrightarrow> v \<notin> blocked_rows edges blockers"
    and keep: "set kept \<subseteq> {e \<in> set edges. e \<notin> D \<and> de_dependency e \<in> N \<and> de_owner e \<in> N}"
  shows "acyclic (edge_rel kept)"
proof (rule ccontr)
  let ?E = "edge_rel edges" and ?K = "edge_rel kept"
  have KE: "?K \<subseteq> ?E" using keep by (auto simp: edge_rel_def)
  assume "\<not> acyclic ?K"
  then obtain x where cyc: "(x, x) \<in> ?K\<^sup>+" by (auto simp: acyclic_def)
  then obtain y where "(x, y) \<in> ?K" by (meson tranclD)
  then have xN: "x \<in> N" using keep by (auto simp: edge_rel_iff)
  have "(x, x) \<in> ?E\<^sup>+" using trancl_mono[OF cyc KE] .
  moreover have "\<not> (\<exists>v. mutual ?E v x \<and> (v, v) \<in> (hard_rel edges)\<^sup>+)"
    using free[OF xN] by (auto simp: blocked_rows_def mutual_def)
  ultimately obtain pos :: "string \<Rightarrow> nat" where
    pos: "\<And>e. e \<in> set edges - D \<Longrightarrow> mutual ?E x (de_dependency e) \<Longrightarrow> mutual ?E x (de_owner e) \<Longrightarrow>
      pos (de_dependency e) < pos (de_owner e)"
    using cuts by blast
  let ?C = "component_of ?K x"
  have "acyclic (?K \<inter> ?C \<times> ?C)"
  proof (rule acyclic_position[of _ pos])
    fix a b assume "(a, b) \<in> ?K \<inter> ?C \<times> ?C"
    then obtain e where e: "e \<in> set kept" "de_dependency e = a" "de_owner e = b"
      and m: "mutual ?K x a" "mutual ?K x b"
      by (auto simp: edge_rel_iff component_of_def)
    have "mutual ?E x a" "mutual ?E x b"
      using m rtrancl_mono[OF KE] unfolding mutual_def by blast+
    then show "pos a < pos b" using pos[of e] e keep by auto
  qed
  then show False using cycle_inside[OF cyc] by (auto simp: acyclic_def)
qed

lemma schedule_result:
  assumes "valid_graph nodes edges blockers"
  obtains s where "schedule_dependencies nodes edges blockers = Inr s"
    "distinct (ds_ordered s)"
    "set (ds_ordered s) = set (map dn_row_id nodes) - blocked_rows edges blockers"
    "distinct (map sb_row_id (ds_blockers s))"
    "set (map sb_row_id (ds_blockers s)) = blocked_rows edges blockers"
    "\<And>e. e \<in> set (ds_deferred s) \<Longrightarrow> e \<in> set edges \<and> de_strength e = ''deferrable''
       \<and> de_dependency e \<in> set (ds_ordered s) \<and> de_owner e \<in> set (ds_ordered s)
       \<and> (de_owner e, de_dependency e) \<in> (edge_rel edges)\<^sup>*"
    "\<And>e. e \<in> set edges \<Longrightarrow> e \<notin> set (ds_deferred s) \<Longrightarrow> de_owner e \<in> set (ds_ordered s) \<Longrightarrow>
       earlier (ds_ordered s) (de_dependency e) (de_owner e)
       \<and> earlier_group (ds_components s) (de_dependency e) (de_owner e)"
    "concat (ds_components s) = ds_ordered s"
proof -
  let ?ids = "map dn_row_id nodes" and ?rank = "rank_of nodes"
  let ?edges = "edges_in_order ?rank edges"
  have same: "set ?edges = set edges" by (simp add: edges_in_order_def)
  then have rels: "edge_rel ?edges = edge_rel edges" "hard_rel ?edges = hard_rel edges"
    by (simp_all add: edge_rel_def hard_rel_def)
  have ids: "distinct ?ids" and ranks: "distinct (map dn_rank nodes)"
    and known: "\<forall>e\<in>set edges. de_dependency e \<in> set ?ids \<and> de_owner e \<in> set ?ids
         \<and> de_strength e \<in> {''hard'', ''deferrable''}"
    and bl: "\<forall>b\<in>set blockers. sb_row_id b \<in> set ?ids"
    using assms unfolding valid_graph_def list_all_iff by blast+
  have sq: "edge_rel ?edges \<subseteq> set ?ids \<times> set ?ids"
    unfolding rels(1) using known by (auto simp: edge_rel_def edge_pair_def)
  have strength: "\<forall>e\<in>set ?edges. de_strength e = ''hard'' \<or> de_strength e = ''deferrable''"
    using known same by auto
  define C where "C = strong_components (unresolved_nodes ?ids ?edges ?rank) (adjacency ?ids ?edges) ?rank"
  obtain cuts where cuts: "mapr (component_cut ?rank ?edges) C = Inr cuts"
    "set (concat (map fst cuts)) = {v. (v, v) \<in> (hard_rel edges)\<^sup>+}"
    "\<forall>e\<in>set (concat (map snd cuts)).
       e \<in> set edges \<and> de_strength e = ''deferrable'' \<and> (de_owner e, de_dependency e) \<in> (edge_rel edges)\<^sup>*"
    "\<forall>x. (x, x) \<in> (edge_rel edges)\<^sup>+ \<longrightarrow> (\<exists>v. mutual (edge_rel edges) v x \<and> (v, v) \<in> (hard_rel edges)\<^sup>+)
       \<or> (\<exists>pos :: string \<Rightarrow> nat. \<forall>e\<in>set edges - set (concat (map snd cuts)).
            mutual (edge_rel edges) x (de_dependency e) \<and> mutual (edge_rel edges) x (de_owner e)
            \<longrightarrow> pos (de_dependency e) < pos (de_owner e))"
    by (rule cuts_result[OF ids sq strength, where rank = ?rank, unfolded rels same, folded C_def])
  obtain given where given: "given_blockers ?ids ?rank blockers = Inr given" "own_keys given"
    "fst ` set given = sb_row_id ` set blockers"
    by (rule given_blockers_result[OF bl])
  define initial where "initial = cycle_blockers ?rank (concat (map fst cuts)) given"
  have initial: "own_keys initial" "fst ` set initial
      = sb_row_id ` set blockers \<union> {v. (v, v) \<in> (hard_rel edges)\<^sup>+}"
    using cycle_blockers_result[OF given(2)] by (simp_all only: initial_def given(3) cuts(2))
  define blocked where "blocked = block_loop (adjacency ?ids ?edges) (sort_key ?rank (map fst initial)) initial"
  have blocked: "own_keys blocked" "fst ` set blocked = blocked_rows edges blockers"
    unfolding blocked_def block_loop_closure(2)[OF initial(1)] owner_rel_adjacency rels initial(2)
      blocked_rows_def by (rule block_loop_closure(1)[OF initial(1)], rule refl)
  define N where "N = filter (\<lambda>v. v \<notin> fst ` set blocked) (sort_key ?rank ?ids)"
  have N: "distinct N" "set N = set ?ids - blocked_rows edges blockers"
    using ids by (auto simp: N_def blocked(2))
  define D where "D = filter (\<lambda>e. de_dependency e \<in> set N \<and> de_owner e \<in> set N) (concat (map snd cuts))"
  define kept where "kept = filter (\<lambda>e. e \<notin> set D \<and> de_dependency e \<in> set N \<and> de_owner e \<in> set N) ?edges"
  have "acyclic (edge_rel kept)"
  proof (rule retained_acyclic[where N = "set N" and blockers = blockers, OF cuts(4)])
    show "set kept \<subseteq> {e \<in> set edges. e \<notin> set (concat (map snd cuts))
        \<and> de_dependency e \<in> set N \<and> de_owner e \<in> set N}"
      unfolding kept_def D_def by (auto simp: same)
  qed (use N in auto)
  moreover have K: "inner_rel kept (set N) = edge_rel kept"
    by (auto simp: inner_rel_def edge_rel_def edge_pair_def kept_def)
  ultimately have "acyclic (inner_rel kept (set N))" by simp
  then obtain ordered levels where top: "topological_order_with_levels N kept ?rank = Inr (ordered, levels)"
    "distinct ordered" "set ordered = set N" "precedes (edge_rel kept) ordered" "sorted (map levels ordered)"
    "\<And>u v. (u, v) \<in> edge_rel kept \<Longrightarrow> levels u < levels v"
    using topological_result[OF N(1), of kept ?rank] unfolding K by blast
  define s where "s = \<lparr>ds_ordered = ordered, ds_components = group_levels levels ordered,
     ds_deferred = sort_key (edge_key ?rank) (remdups D),
     ds_blockers = sort_key (blocker_key ?rank) (map snd blocked)\<rparr>"
  have final: "final_schedule ?ids ?rank ?edges (concat (map snd cuts)) blocked = Inr s"
    unfolding final_schedule_def Let_def N_def[symmetric] D_def[symmetric] kept_def[symmetric]
    using top(1) by (simp add: s_def)
  have checks: "list_all (\<lambda>e. de_dependency e \<in> set ?ids \<and> de_owner e \<in> set ?ids) ?edges"
    "list_all (\<lambda>e. de_strength e \<in> {''hard'', ''deferrable''}) ?edges"
    unfolding list_all_iff same using known by auto
  have run: "schedule_dependencies nodes edges blockers = Inr s"
    unfolding schedule_dependencies_def Let_def bindr_checkr if_P[OF ids] if_P[OF ranks]
      if_P[OF checks(1)] if_P[OF checks(2)] C_def[symmetric] cuts(1) given(1) bindr_simps
      initial_def[symmetric] blocked_def[symmetric] by (rule final)
  have rows: "map (\<lambda>x. sb_row_id (snd x)) blocked = map fst blocked" by (rule own_keys_map[OF blocked(1)])
  have "mset (map sb_row_id (ds_blockers s)) = mset (map fst blocked)"
    by (simp add: s_def rows[symmetric] multiset.map_comp comp_def)
  note perm = this
  have bs: "distinct (map sb_row_id (ds_blockers s))" "set (map sb_row_id (ds_blockers s)) = fst ` set blocked"
    using blocked(1) mset_eq_imp_distinct_iff[OF perm] mset_eq_setD[OF perm]
    by (simp_all add: own_keys_def)
  note groups = group_levels_result[OF top(5)]
  show thesis
  proof (rule that[OF run])
    show "distinct (ds_ordered s)"
      "set (ds_ordered s) = set (map dn_row_id nodes) - blocked_rows edges blockers"
      "concat (ds_components s) = ds_ordered s"
      using top(2,3) N(2) groups(1) by (simp_all add: s_def)
    show "distinct (map sb_row_id (ds_blockers s))"
      "set (map sb_row_id (ds_blockers s)) = blocked_rows edges blockers"
      using bs blocked(2) by simp_all
    show "e \<in> set edges \<and> de_strength e = ''deferrable''
       \<and> de_dependency e \<in> set (ds_ordered s) \<and> de_owner e \<in> set (ds_ordered s)
       \<and> (de_owner e, de_dependency e) \<in> (edge_rel edges)\<^sup>*" if "e \<in> set (ds_deferred s)" for e
      using that cuts(3)[rule_format, of e] by (auto simp: s_def top(3) D_def)
    show "earlier (ds_ordered s) (de_dependency e) (de_owner e)
       \<and> earlier_group (ds_components s) (de_dependency e) (de_owner e)"
      if e: "e \<in> set edges" "e \<notin> set (ds_deferred s)" "de_owner e \<in> set (ds_ordered s)" for e
    proof -
      have owner: "de_owner e \<in> set N" using e(3) top(3) by (simp add: s_def)
      have "de_dependency e \<notin> blocked_rows edges blockers"
      proof
        assume "de_dependency e \<in> blocked_rows edges blockers"
        moreover have "(de_dependency e, de_owner e) \<in> edge_rel edges" using e(1) by (auto simp: edge_rel_iff)
        ultimately have "de_owner e \<in> blocked_rows edges blockers"
          unfolding blocked_rows_def by (auto intro: rtrancl_into_rtrancl)
        then show False using owner N(2) by simp
      qed
      then have "e \<in> set kept"
        using e(1,2) owner known N(2) same by (auto simp: kept_def s_def)
      then have edge: "(de_dependency e, de_owner e) \<in> edge_rel kept" by (auto simp: edge_rel_iff)
      then have "de_dependency e \<in> set ordered"
        using top(3) \<open>e \<in> set kept\<close> by (simp add: kept_def)
      then show ?thesis
        using precedes_earlier[OF top(4) edge] groups(2)[OF _ _ top(6)[OF edge]] owner top(3)
        by (simp add: s_def earlier_group_def)
    qed
  qed
qed


section \<open>Properties\<close>

lemma given_blockers_unknown:
  assumes "\<not> (\<forall>b\<in>set blockers. sb_row_id b \<in> set ids)"
  shows "given_blockers ids rank blockers = Inl ValueError"
proof -
  have *: "\<not> (\<forall>b\<in>set bs. sb_row_id b \<in> set ids) \<Longrightarrow>
      foldr_res (\<lambda>d b. bindr (checkr (sb_row_id b \<in> set ids) ValueError)
        (\<lambda>_. Inr (setdefault d (sb_row_id b) b))) d bs = Inl ValueError" for bs d
    by (induction bs arbitrary: d) auto
  show ?thesis unfolding given_blockers_def by (rule *) (simp add: assms[simplified])
qed

lemma schedule_invalid:
  assumes "\<not> valid_graph nodes edges blockers"
  shows "schedule_dependencies nodes edges blockers = Inl ValueError"
proof (cases "valid_graph nodes edges []")
  case False
  have "set (edges_in_order rank edges) = set edges" for rank by (simp add: edges_in_order_def)
  then show ?thesis
    using False by (auto simp: schedule_dependencies_def valid_graph_def Let_def list_all_iff)
next
  case True
  let ?ids = "map dn_row_id nodes" and ?rank = "rank_of nodes"
  let ?edges = "edges_in_order ?rank edges"
  have same: "set ?edges = set edges" by (simp add: edges_in_order_def)
  have ids: "distinct ?ids" "distinct (map dn_rank nodes)"
    and sq: "edge_rel ?edges \<subseteq> set ?ids \<times> set ?ids"
    and strength: "\<forall>e\<in>set ?edges. de_strength e = ''hard'' \<or> de_strength e = ''deferrable''"
    using True same by (auto simp: valid_graph_def list_all_iff edge_rel_def edge_pair_def)
  obtain cuts where "mapr (component_cut ?rank ?edges)
      (strong_components (unresolved_nodes ?ids ?edges ?rank) (adjacency ?ids ?edges) ?rank) = Inr cuts"
    by (rule cuts_result[OF ids(1) sq strength, where rank = ?rank])
  moreover have "given_blockers ?ids ?rank blockers = Inl ValueError"
    by (rule given_blockers_unknown) (use True assms in \<open>auto simp: valid_graph_def list_all_iff\<close>)
  ultimately show ?thesis
    using True same by (auto simp: schedule_dependencies_def valid_graph_def Let_def list_all_iff)
qed

text \<open>C1: the scheduler is total and its partition exact.  A malformed graph (duplicate rows or
  ranks, unknown edge ends or blockers, an unknown strength) raises \<open>ValueError\<close>; every other graph
  yields a schedule (the code's \<open>cyclic\<close> error cannot occur) that orders each unblocked row once and
  reports each blocked row once, where the blocked rows are exactly those that a given blocker or a
  cycle of hard edges reaches.\<close>

theorem schedule_partition:
  "if valid_graph nodes edges blockers
   then \<exists>s. schedule_dependencies nodes edges blockers = Inr s
     \<and> distinct (ds_ordered s)
     \<and> set (ds_ordered s) = set (map dn_row_id nodes) - blocked_rows edges blockers
     \<and> distinct (map sb_row_id (ds_blockers s))
     \<and> set (map sb_row_id (ds_blockers s)) = blocked_rows edges blockers
     \<and> concat (ds_components s) = ds_ordered s
   else schedule_dependencies nodes edges blockers = Inl ValueError"
proof (cases "valid_graph nodes edges blockers")
  case True
  from schedule_result[OF this] show ?thesis using True by metis
next
  case False
  then show ?thesis by (simp add: schedule_invalid)
qed

text \<open>A graph for the witnesses: a cycle with an optional edge, and a hard cycle that takes a row
  with it.\<close>

definition example_nodes :: "dependency_node list" where
  "example_nodes = [\<lparr>dn_row_id = ''a'', dn_rank = 0\<rparr>, \<lparr>dn_row_id = ''b'', dn_rank = 1\<rparr>,
     \<lparr>dn_row_id = ''c'', dn_rank = 2\<rparr>, \<lparr>dn_row_id = ''d'', dn_rank = 3\<rparr>]"

definition example_edge :: "string \<Rightarrow> string \<Rightarrow> string \<Rightarrow> dependency_edge" where
  "example_edge u v w = \<lparr>de_dependency = u, de_owner = v, de_field = ''f'', de_strength = w\<rparr>"

definition example_edges :: "dependency_edge list" where
  "example_edges = [example_edge ''a'' ''b'' ''deferrable'', example_edge ''b'' ''a'' ''hard'',
     example_edge ''c'' ''c'' ''hard'', example_edge ''c'' ''d'' ''deferrable'']"

definition example_schedule :: dependency_schedule where
  "example_schedule = \<lparr>ds_ordered = [''b'', ''a''], ds_components = [[''b''], [''a'']],
     ds_deferred = [example_edge ''a'' ''b'' ''deferrable''],
     ds_blockers = [\<lparr>sb_row_id = ''c'', sb_code = ''HARD_DEPENDENCY_CYCLE'', sb_field = [],
         sb_dependency = []\<rparr>, \<lparr>sb_row_id = ''d'', sb_code = ''BLOCKED_DEPENDENCY'',
         sb_field = ''f'', sb_dependency = ''c''\<rparr>]\<rparr>"

lemma example_schedule_run: "schedule_dependencies example_nodes example_edges [] = Inr example_schedule"
  by code_simp

lemma example_valid: "valid_graph example_nodes example_edges []"
  by code_simp

theorem schedule_partition_witness:
  "\<exists>s. schedule_dependencies example_nodes example_edges [] = Inr s
     \<and> set (map sb_row_id (ds_blockers s)) = blocked_rows example_edges []"
  using schedule_partition[of example_nodes example_edges "[]"] example_valid by auto

text \<open>C2: the order respects every edge that is not deferred.  If a scheduled row is the owner of an
  edge that was not deferred, the row it depends on is scheduled as well, stands earlier in the
  order, and belongs to a strictly earlier component (level).\<close>

theorem schedule_respects_edges:
  assumes "schedule_dependencies nodes edges blockers = Inr s"
    and "e \<in> set edges" "e \<notin> set (ds_deferred s)" "de_owner e \<in> set (ds_ordered s)"
  shows "earlier (ds_ordered s) (de_dependency e) (de_owner e)
    \<and> earlier_group (ds_components s) (de_dependency e) (de_owner e)"
proof -
  have "valid_graph nodes edges blockers" using schedule_invalid assms(1) by force
  then show ?thesis by (rule schedule_result) (use assms in simp)
qed

theorem schedule_respects_edges_witness:
  "earlier (ds_ordered example_schedule) ''b'' ''a'' \<and> earlier_group (ds_components example_schedule) ''b'' ''a''"
proof -
  let ?e = "example_edge ''b'' ''a'' ''hard''"
  have "?e \<in> set example_edges" "?e \<notin> set (ds_deferred example_schedule)"
    "de_owner ?e \<in> set (ds_ordered example_schedule)"
    by (simp_all add: example_edges_def example_schedule_def example_edge_def)
  from schedule_respects_edges[OF example_schedule_run this] show ?thesis
    by (simp add: example_edge_def)
qed

text \<open>only optional edges on cycles are cut.  A deferred edge is deferrable, joins two scheduled
  rows, and its owner reaches the row it depends on, so the edge lies on a cycle of the graph.\<close>

theorem schedule_defers_cycle_edges:
  assumes "schedule_dependencies nodes edges blockers = Inr s" "e \<in> set (ds_deferred s)"
  shows "e \<in> set edges \<and> de_strength e = ''deferrable''
    \<and> de_dependency e \<in> set (ds_ordered s) \<and> de_owner e \<in> set (ds_ordered s)
    \<and> (de_owner e, de_dependency e) \<in> (edge_rel edges)\<^sup>*"
proof -
  have "valid_graph nodes edges blockers" using schedule_invalid assms(1) by force
  then show ?thesis by (rule schedule_result) (use assms in simp)
qed

theorem schedule_defers_cycle_edges_witness: "(''b'', ''a'') \<in> (edge_rel example_edges)\<^sup>*"
proof -
  have "example_edge ''a'' ''b'' ''deferrable'' \<in> set (ds_deferred example_schedule)"
    by (simp add: example_schedule_def)
  from schedule_defers_cycle_edges[OF example_schedule_run this] show ?thesis
    by (simp add: example_edge_def)
qed

end
