(* ===== verification/Effects.thy ===== *)
theory Effects
imports Prelude
begin

text \<open>
  Code that calls stores and services: a call may raise after it has already changed the state, so a
  program maps a state to a result and the state it leaves behind.  \<open>keeps\<close> is the contract the
  components state about such programs: from a state that satisfies an invariant, whatever the
  outcome, the invariant holds again and the state has only evolved along a preorder.
\<close>

named_theorems keeps_intros "programs that keep an invariant and evolve along a preorder"

type_synonym ('a, 's) prog = "'s \<Rightarrow> 'a res \<times> 's"

definition return :: "'a \<Rightarrow> ('a, 's) prog" where
  "return x s = (Inr x, s)"

definition raise :: "exn \<Rightarrow> ('a, 's) prog" where
  "raise e s = (Inl e, s)"

definition seq :: "('a, 's) prog \<Rightarrow> ('a \<Rightarrow> ('b, 's) prog) \<Rightarrow> ('b, 's) prog" where
  "seq m f s = (case m s of (Inl e, t) \<Rightarrow> (Inl e, t) | (Inr x, t) \<Rightarrow> f x t)"

definition from_res :: "'a res \<Rightarrow> ('a, 's) prog" where
  "from_res r s = (r, s)"

text \<open>\<open>try: m except e: h\<close> for one exception class.\<close>

definition on_error :: "exn \<Rightarrow> ('a, 's) prog \<Rightarrow> ('a, 's) prog \<Rightarrow> ('a, 's) prog" where
  "on_error e m h s = (case m s of (Inl e', t) \<Rightarrow> if e' = e then h t else (Inl e', t) | (Inr x, t) \<Rightarrow> (Inr x, t))"

text \<open>\<open>for x in xs: f x\<close>.\<close>

fun each :: "('a \<Rightarrow> (unit, 's) prog) \<Rightarrow> 'a list \<Rightarrow> (unit, 's) prog" where
  "each f [] = return ()"
| "each f (x # xs) = seq (f x) (\<lambda>_. each f xs)"

definition keeps :: "('s \<Rightarrow> bool) \<Rightarrow> ('s \<Rightarrow> 's \<Rightarrow> bool) \<Rightarrow> ('a, 's) prog \<Rightarrow> bool" where
  "keeps ok le m = (\<forall>s r t. ok s \<longrightarrow> m s = (r, t) \<longrightarrow> ok t \<and> le s t)"

lemma keepsD: "keeps ok le m \<Longrightarrow> ok s \<Longrightarrow> m s = (r, t) \<Longrightarrow> ok t \<and> le s t"
  by (simp add: keeps_def)

lemma seq_Inr: "seq m f s = (Inr y, t) \<longleftrightarrow> (\<exists>x u. m s = (Inr x, u) \<and> f x u = (Inr y, t))"
  by (auto simp: seq_def split: prod.splits sum.splits)

lemma seq_Inl: "seq m f s = (Inl e, t) \<longleftrightarrow> m s = (Inl e, t) \<or> (\<exists>x u. m s = (Inr x, u) \<and> f x u = (Inl e, t))"
  by (auto simp: seq_def split: prod.splits sum.splits)

lemma on_error_Inr: "on_error e m h s = (Inr y, t) \<longleftrightarrow>
    m s = (Inr y, t) \<or> (\<exists>u. m s = (Inl e, u) \<and> h u = (Inr y, t))"
  by (auto simp: on_error_def split: prod.splits sum.splits)

lemma on_error_Inl: "on_error e m h s = (Inl e', t) \<longleftrightarrow>
    e' \<noteq> e \<and> m s = (Inl e', t) \<or> (\<exists>u. m s = (Inl e, u) \<and> h u = (Inl e', t))"
  by (auto simp: on_error_def split: prod.splits sum.splits)

lemma return_simps [simp]: "return x s = (Inr x, s)" "raise e s = (Inl e, s)" "from_res r s = (r, s)"
  by (simp_all add: return_def raise_def from_res_def)

lemmas prog_results = seq_Inr seq_Inl on_error_Inr on_error_Inl

text \<open>The preorder along which programs evolve, and the composition of what they keep.\<close>

locale evolution =
  fixes le :: "'s \<Rightarrow> 's \<Rightarrow> bool"
  assumes le_refl: "le s s"
    and le_trans: "le s t \<Longrightarrow> le t u \<Longrightarrow> le s u"
begin

lemma keeps_return: "keeps ok le (return x)"
  by (simp add: keeps_def le_refl)

lemma keeps_raise: "keeps ok le (raise e)"
  by (simp add: keeps_def le_refl)

lemma keeps_from_res: "keeps ok le (from_res r)"
  by (simp add: keeps_def le_refl)

lemma keeps_seq:
  assumes m: "keeps ok le m" and f: "\<And>x. keeps ok le (f x)"
  shows "keeps ok le (seq m f)"
  unfolding keeps_def
proof (intro allI impI)
  fix s r t
  assume s: "ok s" and run: "seq m f s = (r, t)"
  obtain x u where x: "m s = (x, u)" by fastforce
  then have u: "ok u" "le s u" using keepsD[OF m s] by blast+
  show "ok t \<and> le s t"
  proof (cases x)
    case (Inl e)
    then show ?thesis using x run u by (simp add: seq_def)
  next
    case (Inr y)
    then have "f y u = (r, t)" using x run by (simp add: seq_def)
    then show ?thesis using keepsD[OF f u(1)] u(2) le_trans by blast
  qed
qed

lemma keeps_on_error:
  assumes m: "keeps ok le m" and h: "keeps ok le h"
  shows "keeps ok le (on_error e m h)"
  unfolding keeps_def
proof (intro allI impI)
  fix s r t
  assume s: "ok s" and run: "on_error e m h s = (r, t)"
  obtain x u where x: "m s = (x, u)" by fastforce
  then have u: "ok u" "le s u" using keepsD[OF m s] by blast+
  have "h u = (r, t) \<or> u = t" using x run by (auto simp: on_error_def split: sum.splits if_splits)
  then show "ok t \<and> le s t" using keepsD[OF h u(1)] u le_trans by blast
qed

lemma keeps_each: "(\<And>x. keeps ok le (f x)) \<Longrightarrow> keeps ok le (each f xs)"
  by (induction xs) (auto intro: keeps_seq keeps_return)

lemma keeps_if: "keeps ok le m \<Longrightarrow> keeps ok le n \<Longrightarrow> keeps ok le (if b then m else n)"
  by simp

lemmas keeps_rules = keeps_return keeps_raise keeps_from_res keeps_seq keeps_on_error keeps_each keeps_if

end

end
