(* ===== verification/Coordination.thy ===== *)
theory Coordination
imports Prelude
begin

text \<open>
  The portable coordination contracts (\<open>domain/shared/coordination.py\<close>): artifact, operation and lease
  values with their constructors' checks, the receipts that bind a data-plane result to its operation
  and a projection to its receipt, the snapshot of an operation, and the optimistic edit values.
  The digest of a receipt (SHA-256 over canonical JSON) is a parameter.
\<close>


section \<open>Checks the constructors share\<close>

definition required_text :: "nat \<Rightarrow> string \<Rightarrow> string res" where
  "required_text maximum v = (let cleaned = strip v in
     bindr (checkr (cleaned \<noteq> []) ValueError) (\<lambda>_.
     bindr (checkr (length cleaned \<le> maximum) ValueError) (\<lambda>_. Inr cleaned)))"

text \<open>\<open>_sha256_hash\<close>: the prefix, 64 characters, and \<open>int(digest, 16)\<close> succeeds.\<close>

definition sha256_hash :: "string \<Rightarrow> bool" where
  "sha256_hash v = (take 7 v = ''sha256:'' \<and> length (drop 7 v) = 64 \<and> int16_ok (drop 7 v))"

lemma required_text_Inr [res_simps]:
  "required_text m v = Inr c \<longleftrightarrow> c = strip v \<and> strip v \<noteq> [] \<and> length (strip v) \<le> m"
  by (auto simp: required_text_def Let_def)

lemma required_text_Inl: "required_text m v = Inl e \<Longrightarrow> e = ValueError"
  by (auto simp: required_text_def Let_def split: if_splits)


section \<open>Artifacts\<close>

record artifact_identity =
  ai_artifact_id :: string
  ai_owner_kind :: string
  ai_owner_id :: string
  ai_artifact_kind :: string
  ai_storage_key :: string
  ai_sha256 :: string
  ai_size_bytes :: int
  ai_media_type :: string

text \<open>The segments of a path between its slashes.\<close>

fun path_segments :: "string \<Rightarrow> string list" where
  "path_segments [] = [[]]"
| "path_segments (c # cs) = (if c = CHR ''/'' then [] # path_segments cs
     else case path_segments cs of [] \<Rightarrow> [[c]] | s # ss \<Rightarrow> (c # s) # ss)"

definition contained_key :: "string \<Rightarrow> bool" where
  "contained_key key = (take 1 key \<noteq> ''/'' \<and> ''..'' \<notin> set (path_segments key)
     \<and> CHR 0x5C \<notin> set key)"

definition mk_artifact_identity :: "artifact_identity \<Rightarrow> artifact_identity res" where
  "mk_artifact_identity a =
     bindr (required_text 500 (ai_artifact_id a)) (\<lambda>artifact_id.
     bindr (required_text 500 (ai_owner_kind a)) (\<lambda>owner_kind.
     bindr (required_text 500 (ai_owner_id a)) (\<lambda>owner_id.
     bindr (required_text 500 (ai_artifact_kind a)) (\<lambda>artifact_kind.
     bindr (required_text 500 (ai_storage_key a)) (\<lambda>storage_key.
     bindr (required_text 500 (ai_media_type a)) (\<lambda>media_type.
     bindr (checkr (contained_key storage_key) ValueError) (\<lambda>_.
     bindr (checkr (sha256_hash (ai_sha256 a)) ValueError) (\<lambda>_.
     bindr (checkr (0 \<le> ai_size_bytes a) ValueError) (\<lambda>_.
     Inr (a\<lparr>ai_artifact_id := artifact_id, ai_owner_kind := owner_kind, ai_owner_id := owner_id,
       ai_artifact_kind := artifact_kind, ai_storage_key := storage_key,
       ai_media_type := media_type\<rparr>))))))))))"


section \<open>Operations\<close>

record actor_identity =
  actor_issuer :: string
  actor_subject_id :: string
  actor_display_name :: string

definition mk_actor_identity :: "actor_identity \<Rightarrow> actor_identity res" where
  "mk_actor_identity a =
     bindr (required_text 500 (actor_issuer a)) (\<lambda>issuer.
     bindr (required_text 500 (actor_subject_id a)) (\<lambda>subject_id.
     bindr (required_text 200 (actor_display_name a)) (\<lambda>display_name.
     Inr (a\<lparr>actor_issuer := issuer, actor_subject_id := subject_id, actor_display_name := display_name\<rparr>))))"

record operation_request =
  or_operation_id :: string
  or_organization_id :: string
  or_project_id :: string
  or_operation_kind :: string
  or_idempotency_key :: string
  or_semantic_input_hash :: string
  or_authorization_receipt_id :: string
  or_requested_by :: actor_identity
  or_requested_at :: datetime

definition mk_operation_request :: "operation_request \<Rightarrow> operation_request res" where
  "mk_operation_request r =
     bindr (required_text 300 (or_operation_id r)) (\<lambda>operation_id.
     bindr (required_text 300 (or_project_id r)) (\<lambda>project_id.
     bindr (required_text 300 (or_operation_kind r)) (\<lambda>operation_kind.
     bindr (required_text 300 (or_idempotency_key r)) (\<lambda>idempotency_key.
     bindr (required_text 300 (or_authorization_receipt_id r)) (\<lambda>authorization_receipt_id.
     bindr (checkr (sha256_hash (or_semantic_input_hash r)) ValueError) (\<lambda>_.
     bindr (checkr (aware (or_requested_at r)) ValueError) (\<lambda>_.
     Inr (r\<lparr>or_operation_id := operation_id, or_project_id := project_id,
       or_operation_kind := operation_kind, or_idempotency_key := idempotency_key,
       or_authorization_receipt_id := authorization_receipt_id\<rparr>))))))))"

text \<open>A request built with its actor, as every caller and every decoder does.\<close>

definition build_request :: "operation_request \<Rightarrow> operation_request res" where
  "build_request r = bindr (mk_actor_identity (or_requested_by r)) (\<lambda>actor.
     mk_operation_request (r\<lparr>or_requested_by := actor\<rparr>))"

definition idempotency_scope :: "operation_request \<Rightarrow> string \<times> string" where
  "idempotency_scope r = (or_organization_id r, or_idempotency_key r)"

definition require_same_idempotent_request :: "operation_request \<Rightarrow> operation_request \<Rightarrow> unit res" where
  "require_same_idempotent_request r other =
     bindr (checkr (idempotency_scope r = idempotency_scope other) IdempotencyConflict) (\<lambda>_.
     checkr (or_project_id r = or_project_id other \<and> or_operation_kind r = or_operation_kind other
       \<and> or_semantic_input_hash r = or_semantic_input_hash other) IdempotencyConflict)"


section \<open>Leases\<close>

record workspace_lease =
  wl_lease_id :: string
  wl_organization_id :: string
  wl_project_id :: string
  wl_workspace_id :: string
  wl_holder_attempt_id :: string
  wl_fencing_token :: int
  wl_acquired_at :: datetime
  wl_heartbeat_at :: datetime
  wl_expires_at :: datetime
  wl_version :: int
  wl_released_at :: "datetime option"

definition lease_times_ok :: "workspace_lease \<Rightarrow> bool" where
  "lease_times_ok l =
    (aware (wl_acquired_at l) \<and> aware (wl_heartbeat_at l) \<and> aware (wl_expires_at l)
     \<and> 1 \<le> wl_fencing_token l \<and> 1 \<le> wl_version l
     \<and> at_time (wl_acquired_at l) \<le> at_time (wl_heartbeat_at l)
     \<and> at_time (wl_heartbeat_at l) < at_time (wl_expires_at l)
     \<and> (case wl_released_at l of None \<Rightarrow> True
         | Some t \<Rightarrow> aware t \<and> at_time (wl_heartbeat_at l) \<le> at_time t))"

definition mk_workspace_lease :: "workspace_lease \<Rightarrow> workspace_lease res" where
  "mk_workspace_lease l =
     bindr (required_text 200 (wl_lease_id l)) (\<lambda>lease_id.
     bindr (required_text 200 (wl_project_id l)) (\<lambda>project_id.
     bindr (required_text 200 (wl_workspace_id l)) (\<lambda>workspace_id.
     bindr (required_text 200 (wl_holder_attempt_id l)) (\<lambda>holder_attempt_id.
     bindr (checkr (lease_times_ok l) ValueError) (\<lambda>_.
     Inr (l\<lparr>wl_lease_id := lease_id, wl_project_id := project_id, wl_workspace_id := workspace_id,
       wl_holder_attempt_id := holder_attempt_id\<rparr>))))))"

definition is_active_at :: "workspace_lease \<Rightarrow> datetime \<Rightarrow> bool res" where
  "is_active_at l at = bindr (checkr (aware at) ValueError) (\<lambda>_.
     Inr (wl_released_at l = None \<and> at_time at < at_time (wl_expires_at l)))"

text \<open>\<open>token != self.token or not self.is_active_at(at)\<close>: the clock is read only for an equal token.\<close>

definition require_fencing_token :: "workspace_lease \<Rightarrow> int \<Rightarrow> datetime \<Rightarrow> unit res" where
  "require_fencing_token l token at =
    (if token \<noteq> wl_fencing_token l then Inl StaleLease
     else bindr (is_active_at l at) (\<lambda>active. checkr active StaleLease))"

definition lease_heartbeat :: "workspace_lease \<Rightarrow> int \<Rightarrow> datetime \<Rightarrow> datetime \<Rightarrow> workspace_lease res" where
  "lease_heartbeat l token at expires =
     bindr (require_fencing_token l token at) (\<lambda>_.
     bindr (checkr (aware expires) ValueError) (\<lambda>_.
     bindr (checkr (at_time (wl_heartbeat_at l) \<le> at_time at) ValueError) (\<lambda>_.
     bindr (checkr (at_time (wl_expires_at l) < at_time expires \<and> at_time at < at_time expires) ValueError)
       (\<lambda>_.
     mk_workspace_lease (l\<lparr>wl_heartbeat_at := at, wl_expires_at := expires,
       wl_version := wl_version l + 1\<rparr>)))))"

definition lease_release :: "workspace_lease \<Rightarrow> int \<Rightarrow> datetime \<Rightarrow> workspace_lease res" where
  "lease_release l token at =
     bindr (require_fencing_token l token at) (\<lambda>_.
     bindr (checkr (at_time (wl_heartbeat_at l) \<le> at_time at) ValueError) (\<lambda>_.
     mk_workspace_lease (l\<lparr>wl_released_at := Some at, wl_version := wl_version l + 1\<rparr>)))"

definition supersedes :: "workspace_lease \<Rightarrow> workspace_lease \<Rightarrow> bool" where
  "supersedes l other = (wl_organization_id l = wl_organization_id other
     \<and> wl_project_id l = wl_project_id other \<and> wl_workspace_id l = wl_workspace_id other
     \<and> wl_fencing_token other < wl_fencing_token l)"


section \<open>Receipts\<close>

text \<open>
  \<open>committed_at\<close> is the one timestamp whose time zone the code uses: the digest of a receipt hashes
  \<open>committed_at.isoformat()\<close>, the local time and its offset.  It is kept as the instant
  \<open>dr_committed_at\<close> and the offset from UTC \<open>dr_committed_offset\<close>; every comparison of timestamps reads
  only the instant.
\<close>

record data_receipt =
  dr_receipt_id :: string
  dr_operation_id :: string
  dr_organization_id :: string
  dr_project_id :: string
  dr_workspace_id :: "string option"
  dr_operation_kind :: string
  dr_semantic_input_hash :: string
  dr_fencing_token :: "int option"
  dr_evidence_hash :: string
  dr_artifacts :: "artifact_identity list"
  dr_committed_at :: datetime
  dr_committed_offset :: int

fun optional_res :: "('a \<Rightarrow> 'b res) \<Rightarrow> 'a option \<Rightarrow> 'b option res" where
  "optional_res f None = Inr None"
| "optional_res f (Some x) = bindr (f x) (\<lambda>y. Inr (Some y))"

definition mk_data_receipt :: "data_receipt \<Rightarrow> data_receipt res" where
  "mk_data_receipt r =
     bindr (required_text 300 (dr_receipt_id r)) (\<lambda>receipt_id.
     bindr (required_text 300 (dr_operation_id r)) (\<lambda>operation_id.
     bindr (required_text 300 (dr_project_id r)) (\<lambda>project_id.
     bindr (required_text 300 (dr_operation_kind r)) (\<lambda>operation_kind.
     bindr (optional_res (required_text 200) (dr_workspace_id r)) (\<lambda>workspace_id.
     bindr (checkr (sha256_hash (dr_semantic_input_hash r)) ValueError) (\<lambda>_.
     bindr (checkr (sha256_hash (dr_evidence_hash r)) ValueError) (\<lambda>_.
     bindr (checkr (case dr_fencing_token r of None \<Rightarrow> True | Some t \<Rightarrow> 1 \<le> t) ValueError) (\<lambda>_.
     bindr (checkr (distinct (map ai_artifact_id (dr_artifacts r))) ValueError) (\<lambda>_.
     bindr (checkr (aware (dr_committed_at r)) ValueError) (\<lambda>_.
     Inr (r\<lparr>dr_receipt_id := receipt_id, dr_operation_id := operation_id, dr_project_id := project_id,
       dr_operation_kind := operation_kind, dr_workspace_id := workspace_id,
       dr_artifacts := sort_key ai_artifact_id (dr_artifacts r)\<rparr>)))))))))))"

text \<open>The digest of the canonical receipt content.\<close>

type_synonym digest = "data_receipt \<Rightarrow> string"

text \<open>The primary key of an operation's rows.\<close>

type_synonym operation_id = "string \<times> string"

definition operation_key :: "operation_request \<Rightarrow> operation_id" where
  "operation_key r = (or_organization_id r, or_operation_id r)"

definition receipt_key :: "data_receipt \<Rightarrow> operation_id" where
  "receipt_key r = (dr_organization_id r, dr_operation_id r)"

definition require_operation :: "data_receipt \<Rightarrow> operation_request \<Rightarrow> unit res" where
  "require_operation r q = checkr
     (dr_operation_id r = or_operation_id q \<and> dr_organization_id r = or_organization_id q
      \<and> dr_project_id r = or_project_id q \<and> dr_operation_kind r = or_operation_kind q
      \<and> dr_semantic_input_hash r = or_semantic_input_hash q) ReceiptMismatch"

definition require_lease :: "data_receipt \<Rightarrow> workspace_lease \<Rightarrow> unit res" where
  "require_lease r l =
     bindr (checkr (dr_workspace_id r = Some (wl_workspace_id l)
        \<and> dr_organization_id r = wl_organization_id l \<and> dr_project_id r = wl_project_id l
        \<and> dr_fencing_token r = Some (wl_fencing_token l)) ReceiptMismatch) (\<lambda>_.
     require_fencing_token l (wl_fencing_token l) (dr_committed_at r))"

record projection_receipt =
  pr_projection_receipt_id :: string
  pr_operation_id :: string
  pr_organization_id :: string
  pr_project_id :: string
  pr_data_plane_receipt_hash :: string
  pr_projection_hash :: string
  pr_projection_revision :: int
  pr_projected_at :: datetime

definition mk_projection_receipt :: "projection_receipt \<Rightarrow> projection_receipt res" where
  "mk_projection_receipt p =
     bindr (required_text 300 (pr_projection_receipt_id p)) (\<lambda>projection_receipt_id.
     bindr (required_text 300 (pr_operation_id p)) (\<lambda>operation_id.
     bindr (required_text 300 (pr_project_id p)) (\<lambda>project_id.
     bindr (checkr (sha256_hash (pr_data_plane_receipt_hash p)) ValueError) (\<lambda>_.
     bindr (checkr (sha256_hash (pr_projection_hash p)) ValueError) (\<lambda>_.
     bindr (checkr (1 \<le> pr_projection_revision p) ValueError) (\<lambda>_.
     bindr (checkr (aware (pr_projected_at p)) ValueError) (\<lambda>_.
     Inr (p\<lparr>pr_projection_receipt_id := projection_receipt_id, pr_operation_id := operation_id,
       pr_project_id := project_id\<rparr>))))))))"

definition projection_key :: "projection_receipt \<Rightarrow> operation_id" where
  "projection_key p = (pr_organization_id p, pr_operation_id p)"

definition projection_for_data_plane :: "digest \<Rightarrow> data_receipt \<Rightarrow> string \<Rightarrow> string \<Rightarrow> int \<Rightarrow> datetime
    \<Rightarrow> projection_receipt res" where
  "projection_for_data_plane digest r receipt_id projection_hash revision projected_at =
     mk_projection_receipt \<lparr>pr_projection_receipt_id = receipt_id, pr_operation_id = dr_operation_id r,
       pr_organization_id = dr_organization_id r, pr_project_id = dr_project_id r,
       pr_data_plane_receipt_hash = digest r, pr_projection_hash = projection_hash,
       pr_projection_revision = revision, pr_projected_at = projected_at\<rparr>"

definition require_data_plane_receipt :: "digest \<Rightarrow> projection_receipt \<Rightarrow> data_receipt \<Rightarrow> unit res" where
  "require_data_plane_receipt digest p r = checkr
     (dr_operation_id r = pr_operation_id p \<and> dr_organization_id r = pr_organization_id p
      \<and> dr_project_id r = pr_project_id p \<and> digest r = pr_data_plane_receipt_hash p) ReceiptMismatch"


section \<open>Snapshots\<close>

datatype operation_state = RESERVED | DATA_COMMITTED | PROJECTED | INTERRUPTED | MANUAL_REVIEW

datatype recovery_disposition =
  NO_COMMITTED_RECEIPT | RECEIPT_MISMATCH | ARTIFACT_MISMATCH | PROJECTION_MISMATCH

record operation_snapshot =
  os_request :: operation_request
  os_state :: operation_state
  os_data_receipt :: "data_receipt option"
  os_projection :: "projection_receipt option"
  os_interrupted_at :: "datetime option"
  os_disposition :: "recovery_disposition option"

definition mk_operation_snapshot :: "digest \<Rightarrow> operation_snapshot \<Rightarrow> operation_snapshot res" where
  "mk_operation_snapshot digest s =
    (let has_data = os_data_receipt s \<noteq> None; has_projection = os_projection s \<noteq> None;
         ending = os_state s \<in> {INTERRUPTED, MANUAL_REVIEW} in
     bindr (case os_data_receipt s of None \<Rightarrow> Inr ()
       | Some r \<Rightarrow> require_operation r (os_request s)) (\<lambda>_.
     bindr (case os_projection s of None \<Rightarrow> Inr ()
       | Some p \<Rightarrow> (case os_data_receipt s of None \<Rightarrow> Inl ValueError
           | Some r \<Rightarrow> require_data_plane_receipt digest p r)) (\<lambda>_.
     bindr (checkr (os_state s = RESERVED \<longrightarrow> \<not> has_data \<and> \<not> has_projection) ValueError) (\<lambda>_.
     bindr (checkr (os_state s = DATA_COMMITTED \<longrightarrow> has_data \<and> \<not> has_projection) ValueError) (\<lambda>_.
     bindr (checkr (os_state s = PROJECTED \<longrightarrow> has_data \<and> has_projection) ValueError) (\<lambda>_.
     bindr (checkr (if ending then (case os_interrupted_at s of None \<Rightarrow> False | Some t \<Rightarrow> aware t)
                        \<and> os_disposition s \<noteq> None
                    else os_interrupted_at s = None \<and> os_disposition s = None) ValueError) (\<lambda>_.
     Inr s)))))))"


section \<open>Optimistic edits\<close>

record optimistic_mutation =
  om_aggregate_kind :: string
  om_aggregate_id :: string
  om_expected_revision :: int

definition mk_optimistic_mutation :: "optimistic_mutation \<Rightarrow> optimistic_mutation res" where
  "mk_optimistic_mutation m =
     bindr (required_text 200 (om_aggregate_kind m)) (\<lambda>kind.
     bindr (required_text 200 (om_aggregate_id m)) (\<lambda>aggregate_id.
     bindr (checkr (1 \<le> om_expected_revision m) ValueError) (\<lambda>_.
     Inr (m\<lparr>om_aggregate_kind := kind, om_aggregate_id := aggregate_id\<rparr>))))"

record optimistic_conflict =
  oc_aggregate_kind :: string
  oc_aggregate_id :: string
  oc_expected_revision :: int
  oc_current_revision :: int
  oc_conflict_code :: string

definition mk_optimistic_conflict :: "optimistic_conflict \<Rightarrow> optimistic_conflict res" where
  "mk_optimistic_conflict c =
     bindr (required_text 200 (oc_aggregate_kind c)) (\<lambda>kind.
     bindr (required_text 200 (oc_aggregate_id c)) (\<lambda>aggregate_id.
     bindr (required_text 200 (oc_conflict_code c)) (\<lambda>code.
     bindr (checkr (1 \<le> oc_expected_revision c) ValueError) (\<lambda>_.
     bindr (checkr (oc_expected_revision c < oc_current_revision c) ValueError) (\<lambda>_.
     Inr (c\<lparr>oc_aggregate_kind := kind, oc_aggregate_id := aggregate_id, oc_conflict_code := code\<rparr>))))))"


section \<open>Facts about leases\<close>

definition lease_ok :: "workspace_lease \<Rightarrow> bool" where
  "lease_ok l = (lease_times_ok l \<and> required_text 200 (wl_lease_id l) = Inr (wl_lease_id l)
     \<and> required_text 200 (wl_project_id l) = Inr (wl_project_id l)
     \<and> required_text 200 (wl_workspace_id l) = Inr (wl_workspace_id l)
     \<and> required_text 200 (wl_holder_attempt_id l) = Inr (wl_holder_attempt_id l))"

lemma dropWhile_idem: "dropWhile P (dropWhile P xs) = dropWhile P xs"
  by (induction xs) auto

lemma dropWhile_hd: "\<not> P (hd xs) \<Longrightarrow> dropWhile P xs = xs"
  by (cases xs) auto

lemma strip_strip [simp]: "strip (strip s) = strip s"
proof -
  let ?d = "dropWhile is_space" and ?t = "dropWhile is_space s"
  have "?d (rev (?d (rev ?t))) = rev (?d (rev ?t))"
  proof (cases "?d (rev ?t) = []")
    case True
    show ?thesis unfolding True by simp
  next
    case False
    have "\<not> is_space (hd ?t)" if "?t \<noteq> []" using that by (rule hd_dropWhile)
    moreover obtain ys where ys: "rev ?t = ys @ ?d (rev ?t)" by (metis takeWhile_dropWhile_id)
    then have "?t = rev (?d (rev ?t)) @ rev ys" by (metis rev_append rev_rev_ident)
    then have "hd ?t = hd (rev (?d (rev ?t)))" using False by (metis Nil_is_rev_conv hd_append2)
    moreover have "?t \<noteq> []" using False by (metis dropWhile.simps(1) rev.simps(1))
    ultimately have "\<not> is_space (hd (rev (?d (rev ?t))))" by metis
    then show ?thesis by (rule dropWhile_hd)
  qed
  then show ?thesis by (simp add: strip_def dropWhile_idem)
qed

lemma mk_workspace_lease_Inr:
  "mk_workspace_lease l = Inr m \<Longrightarrow> lease_ok m \<and> lease_times_ok l
    \<and> m = l\<lparr>wl_lease_id := strip (wl_lease_id l), wl_project_id := strip (wl_project_id l),
        wl_workspace_id := strip (wl_workspace_id l),
        wl_holder_attempt_id := strip (wl_holder_attempt_id l)\<rparr>"
  by (auto simp: mk_workspace_lease_def res_simps lease_ok_def lease_times_ok_def split: option.splits)

lemma mk_workspace_lease_ok: "lease_ok l \<Longrightarrow> mk_workspace_lease l = Inr l"
  by (auto simp: mk_workspace_lease_def lease_ok_def)


section \<open>Constructing a constructed value changes nothing\<close>

lemma build_request_idem: "build_request r = Inr q \<Longrightarrow> build_request q = Inr q"
  by (auto simp: build_request_def mk_actor_identity_def mk_operation_request_def res_simps)

lemma sort_key_idem: "sort_key f (sort_key f xs) = sort_key f xs"
  by (rule sort_key_id_if_sorted) simp

lemma mk_data_receipt_idem: "mk_data_receipt r = Inr q \<Longrightarrow> mk_data_receipt q = Inr q"
proof -
  assume r: "mk_data_receipt r = Inr q"
  have w: "optional_res (required_text 200) x = Inr y \<Longrightarrow> optional_res (required_text 200) y = Inr y"
    for x y by (cases x) (auto simp: res_simps)
  have "distinct (map f (sort_key f xs)) \<longleftrightarrow> distinct (map f xs)" for f :: "artifact_identity \<Rightarrow> string" and xs
    by (metis mset_map mset_sort distinct_count_atmost_1 mset_eq_imp_distinct_iff)
  with r show ?thesis
    by (auto simp: mk_data_receipt_def res_simps sort_key_idem dest: w)
qed

lemma mk_projection_receipt_idem: "mk_projection_receipt r = Inr q \<Longrightarrow> mk_projection_receipt q = Inr q"
  by (auto simp: mk_projection_receipt_def res_simps)

end
