(* ===== verification/Cross_Store.thy ===== *)
theory Cross_Store
imports Effects Coordination
begin

text \<open>
  The cross-store coordinator (\<open>application/shared/cross_store_coordinator.py\<close>).  It is given its
  collaborators as protocol objects, so the model takes a record of ports: the journal, the lease
  repository, the data-plane command, the artifact verifier, the projection updater, the checkpoint
  and the clock.  Any port may raise any exception after it has changed the state.
\<close>

section \<open>Ports\<close>

datatype boundary = BEFORE_LEASE | AFTER_LEASE | AFTER_ARTIFACT_STAGING | AFTER_DATA_PLANE_COMMIT
  | AFTER_ARTIFACT_PUBLICATION | BEFORE_PROJECTION_UPDATE | AFTER_PROJECTION_UPDATE

record 's ports =
  journal_reserve :: "operation_request \<Rightarrow> (operation_request \<times> bool, 's) prog"
  journal_get :: "operation_request \<Rightarrow> (operation_snapshot, 's) prog"
  journal_record_data :: "data_receipt \<Rightarrow> (unit, 's) prog"
  journal_record_projection :: "projection_receipt \<Rightarrow> (unit, 's) prog"
  journal_interrupt :: "operation_request \<Rightarrow> datetime \<Rightarrow> recovery_disposition \<Rightarrow> (unit, 's) prog"
  journal_review :: "operation_request \<Rightarrow> datetime \<Rightarrow> recovery_disposition \<Rightarrow> (unit, 's) prog"
  leases_acquire :: "string \<Rightarrow> string \<Rightarrow> string \<Rightarrow> string \<Rightarrow> datetime \<Rightarrow> datetime \<Rightarrow> (workspace_lease, 's) prog"
  leases_release :: "workspace_lease \<Rightarrow> datetime \<Rightarrow> (workspace_lease, 's) prog"
  data_execute :: "operation_request \<Rightarrow> workspace_lease \<Rightarrow> (data_receipt, 's) prog"
  data_find :: "operation_request \<Rightarrow> (data_receipt option, 's) prog"
  artifacts_verify :: "artifact_identity \<Rightarrow> (unit, 's) prog"
  projections_project :: "data_receipt \<Rightarrow> (projection_receipt, 's) prog"
  at_boundary :: "boundary \<Rightarrow> (unit, 's) prog"
  read_clock :: "(datetime, 's) prog"
  lease_duration :: int
  receipt_digest :: digest

text \<open>The constructor's own check.\<close>

definition mk_coordinator :: "'s ports \<Rightarrow> 's ports res" where
  "mk_coordinator P = bindr (checkr (0 < lease_duration P) ValueError) (\<lambda>_. Inr P)"

record cross_store_command =
  cc_request :: operation_request
  cc_workspace_id :: string
  cc_holder_attempt_id :: string

definition mk_command :: "cross_store_command \<Rightarrow> cross_store_command res" where
  "mk_command c = bindr (checkr (\<not> blank (cc_workspace_id c)) ValueError) (\<lambda>_.
     bindr (checkr (\<not> blank (cc_holder_attempt_id c)) ValueError) (\<lambda>_. Inr c))"

record cross_store_result =
  cs_request :: operation_request
  cs_data_receipt :: data_receipt
  cs_projection :: projection_receipt
  cs_replayed :: bool

definition mk_result :: "digest \<Rightarrow> cross_store_result \<Rightarrow> cross_store_result res" where
  "mk_result digest r = bindr (require_operation (cs_data_receipt r) (cs_request r)) (\<lambda>_.
     bindr (require_data_plane_receipt digest (cs_projection r) (cs_data_receipt r)) (\<lambda>_. Inr r))"


section \<open>The coordinator\<close>

fun add_duration :: "datetime \<Rightarrow> int \<Rightarrow> datetime" where
  "add_duration (Aware t) d = Aware (t + d)"
| "add_duration (Naive t) d = Naive (t + d)"

definition now_of :: "'s ports \<Rightarrow> (datetime, 's) prog" where
  "now_of P = seq (read_clock P) (\<lambda>t. if aware t then return t else raise ValueError)"

definition manual_review :: "'s ports \<Rightarrow> operation_request \<Rightarrow> recovery_disposition \<Rightarrow> (unit, 's) prog" where
  "manual_review P r disposition = seq (now_of P) (\<lambda>t. journal_review P r t disposition)"

text \<open>\<open>except ...: self._manual_review(...); raise CrossStoreManualReviewError\<close>.\<close>

definition stop_for_review :: "'s ports \<Rightarrow> operation_request \<Rightarrow> recovery_disposition \<Rightarrow> ('a, 's) prog" where
  "stop_for_review P r disposition = seq (manual_review P r disposition) (\<lambda>_. raise ManualReviewRequired)"

definition required_data_receipt :: "operation_snapshot \<Rightarrow> data_receipt res" where
  "required_data_receipt s = (case os_data_receipt s of None \<Rightarrow> Inl ReceiptMismatch | Some r \<Rightarrow> Inr r)"

definition result_from_snapshot :: "digest \<Rightarrow> operation_snapshot \<Rightarrow> bool \<Rightarrow> cross_store_result res" where
  "result_from_snapshot digest s replayed = bindr (required_data_receipt s) (\<lambda>r.
     case os_projection s of
       None \<Rightarrow> Inl ReceiptMismatch
     | Some p \<Rightarrow> mk_result digest \<lparr>cs_request = os_request s, cs_data_receipt = r, cs_projection = p,
         cs_replayed = replayed\<rparr>)"

definition finalize :: "'s ports \<Rightarrow> operation_request \<Rightarrow> data_receipt \<Rightarrow> bool \<Rightarrow> (cross_store_result, 's) prog"
where
  "finalize P request receipt replayed =
     seq (from_res (require_operation receipt request)) (\<lambda>_.
     seq (journal_record_data P receipt) (\<lambda>_.
     seq (on_error ArtifactMismatch (each (artifacts_verify P) (dr_artifacts receipt))
            (stop_for_review P request ARTIFACT_MISMATCH)) (\<lambda>_.
     seq (at_boundary P BEFORE_PROJECTION_UPDATE) (\<lambda>_.
     seq (projections_project P receipt) (\<lambda>projection.
     seq (on_error ReceiptMismatch
            (seq (from_res (require_data_plane_receipt (receipt_digest P) projection receipt))
              (\<lambda>_. journal_record_projection P projection))
            (stop_for_review P request PROJECTION_MISMATCH)) (\<lambda>_.
     seq (at_boundary P AFTER_PROJECTION_UPDATE) (\<lambda>_.
     from_res (mk_result (receipt_digest P) \<lparr>cs_request = request, cs_data_receipt = receipt,
       cs_projection = projection, cs_replayed = replayed\<rparr>))))))))"

definition recover :: "'s ports \<Rightarrow> operation_request \<Rightarrow> (cross_store_result, 's) prog" where
  "recover P request = seq (journal_get P request) (\<lambda>snapshot.
     case os_state snapshot of
       PROJECTED \<Rightarrow> from_res (result_from_snapshot (receipt_digest P) snapshot True)
     | DATA_COMMITTED \<Rightarrow> seq (from_res (required_data_receipt snapshot)) (\<lambda>receipt.
         finalize P request receipt True)
     | RESERVED \<Rightarrow> seq (data_find P request) (\<lambda>found. case found of
         None \<Rightarrow> seq (now_of P) (\<lambda>t.
           seq (journal_interrupt P request t NO_COMMITTED_RECEIPT) (\<lambda>_. raise InterruptedOperation))
       | Some receipt \<Rightarrow>
           seq (on_error ReceiptMismatch
                  (seq (from_res (require_operation receipt request)) (\<lambda>_. journal_record_data P receipt))
                  (stop_for_review P request RECEIPT_MISMATCH)) (\<lambda>_.
           finalize P request receipt True))
     | INTERRUPTED \<Rightarrow> raise InterruptedOperation
     | MANUAL_REVIEW \<Rightarrow> raise ManualReviewRequired)"

definition execute :: "'s ports \<Rightarrow> cross_store_command \<Rightarrow> (cross_store_result, 's) prog" where
  "execute P c = seq (journal_reserve P (cc_request c)) (\<lambda>(request, created).
     if \<not> created then recover P request
     else
       seq (at_boundary P BEFORE_LEASE) (\<lambda>_.
       seq (now_of P) (\<lambda>acquired.
       seq (leases_acquire P (or_organization_id request) (or_project_id request) (cc_workspace_id c)
              (cc_holder_attempt_id c) acquired (add_duration acquired (lease_duration P))) (\<lambda>lease.
       seq (at_boundary P AFTER_LEASE) (\<lambda>_.
       seq (on_error ReceiptMismatch
              (seq (data_execute P request lease) (\<lambda>receipt.
               seq (from_res (require_operation receipt request)) (\<lambda>_.
               seq (from_res (require_lease receipt lease)) (\<lambda>_.
               finalize P request receipt False))))
              (stop_for_review P request RECEIPT_MISMATCH)) (\<lambda>result.
       seq (now_of P) (\<lambda>at.
       seq (leases_release P lease at) (\<lambda>_. return result))))))))"

end
