(* ===== verification/Cross_Store_Laws.thy ===== *)
theory Cross_Store_Laws
imports Cross_Store
begin

text \<open>
  The contract between the coordinator and its ports, and what the coordinator guarantees under it:
  it passes a request to the data plane at most once per reservation, a result it returns is durable,
  and a stop for review or an interruption is recorded before it is reported.
\<close>

section \<open>The contract\<close>

locale cross_store_ports = evolution le
  for le :: "'s \<Rightarrow> 's \<Rightarrow> bool" +
  fixes P :: "'s ports"
    and ok :: "'s \<Rightarrow> bool"
    and scopes :: "'s \<Rightarrow> (string \<times> string) set"
    and started :: "'s \<Rightarrow> operation_request list"
    and projected :: "'s \<Rightarrow> string \<times> string \<Rightarrow> string \<Rightarrow> projection_receipt \<Rightarrow> bool"
    and finished_as :: "'s \<Rightarrow> string \<times> string \<Rightarrow> operation_state \<Rightarrow> bool"
  assumes quiet_ports:
      "keeps ok (\<lambda>s t. le s t \<and> started t = started s) (journal_reserve P r)"
      "keeps ok (\<lambda>s t. le s t \<and> started t = started s) (journal_get P r)"
      "keeps ok (\<lambda>s t. le s t \<and> started t = started s) (journal_record_data P d)"
      "keeps ok (\<lambda>s t. le s t \<and> started t = started s) (journal_record_projection P p)"
      "keeps ok (\<lambda>s t. le s t \<and> started t = started s) (journal_interrupt P r at x)"
      "keeps ok (\<lambda>s t. le s t \<and> started t = started s) (journal_review P r at x)"
      "keeps ok (\<lambda>s t. le s t \<and> started t = started s) (leases_acquire P a b c h at at')"
      "keeps ok (\<lambda>s t. le s t \<and> started t = started s) (leases_release P l at)"
      "keeps ok (\<lambda>s t. le s t \<and> started t = started s) (data_find P r)"
      "keeps ok (\<lambda>s t. le s t \<and> started t = started s) (artifacts_verify P i)"
      "keeps ok (\<lambda>s t. le s t \<and> started t = started s) (projections_project P d)"
      "keeps ok (\<lambda>s t. le s t \<and> started t = started s) (at_boundary P e)"
      "keeps ok (\<lambda>s t. le s t \<and> started t = started s) (read_clock P)"
    and data_plane: "ok s \<Longrightarrow> data_execute P r l s = (y, t) \<Longrightarrow>
      ok t \<and> le s t \<and> started t = r # started s"
    and reserve_created: "ok s \<Longrightarrow> journal_reserve P r s = (Inr (q, True), t) \<Longrightarrow>
      idempotency_scope q \<notin> scopes s \<and> idempotency_scope q \<in> scopes t"
    and le_scopes: "le s t \<Longrightarrow> scopes s \<subseteq> scopes t"
    and get_key: "ok s \<Longrightarrow> journal_get P r s = (Inr m, t) \<Longrightarrow> operation_key (os_request m) = operation_key r"
    and get_projected: "ok s \<Longrightarrow> journal_get P r s = (Inr m, t) \<Longrightarrow> os_state m = PROJECTED \<Longrightarrow>
      os_data_receipt m = Some d \<Longrightarrow> os_projection m = Some p \<Longrightarrow>
      projected t (operation_key r) (receipt_digest P d) p"
    and get_finished: "ok s \<Longrightarrow> journal_get P r s = (Inr m, t) \<Longrightarrow> os_state m \<in> {INTERRUPTED, MANUAL_REVIEW} \<Longrightarrow>
      finished_as t (operation_key r) (os_state m)"
    and record_projected: "ok s \<Longrightarrow> journal_record_projection P p s = (Inr (), t) \<Longrightarrow>
      projected t (projection_key p) (pr_data_plane_receipt_hash p) p"
    and le_projected: "le s t \<Longrightarrow> projected s k h p \<Longrightarrow> projected t k h p"
    and interrupt_recorded: "ok s \<Longrightarrow> journal_interrupt P r at x s = (Inr (), t) \<Longrightarrow>
      finished_as t (operation_key r) INTERRUPTED"
    and review_recorded: "ok s \<Longrightarrow> journal_review P r at x s = (Inr (), t) \<Longrightarrow>
      finished_as t (operation_key r) MANUAL_REVIEW"
begin

abbreviation quiet :: "'s \<Rightarrow> 's \<Rightarrow> bool" where
  "quiet s t \<equiv> le s t \<and> started t = started s"

sublocale quietly: evolution quiet
  by unfold_locales (auto intro: le_refl le_trans)


lemma keeps_now: "keeps ok quiet (now_of P)"
  unfolding now_of_def by (intro quietly.keeps_rules quiet_ports)

lemma keeps_stop: "keeps ok quiet (stop_for_review P r x)"
  unfolding stop_for_review_def manual_review_def by (intro quietly.keeps_rules quiet_ports keeps_now)

lemma keeps_finalize: "keeps ok quiet (finalize P r d b)"
  unfolding finalize_def by (intro quietly.keeps_rules quiet_ports keeps_stop)

lemma keeps_recover: "keeps ok quiet (recover P r)"
  unfolding recover_def
proof (rule quietly.keeps_seq[OF quiet_ports(2)])
  fix m
  show "keeps ok quiet (case os_state m of
       PROJECTED \<Rightarrow> from_res (result_from_snapshot (receipt_digest P) m True)
     | DATA_COMMITTED \<Rightarrow> seq (from_res (required_data_receipt m)) (\<lambda>receipt. finalize P r receipt True)
     | RESERVED \<Rightarrow> seq (data_find P r) (\<lambda>found. case found of
         None \<Rightarrow> seq (now_of P) (\<lambda>t.
           seq (journal_interrupt P r t NO_COMMITTED_RECEIPT) (\<lambda>_. raise InterruptedOperation))
       | Some receipt \<Rightarrow>
           seq (on_error ReceiptMismatch
                  (seq (from_res (require_operation receipt r)) (\<lambda>_. journal_record_data P receipt))
                  (stop_for_review P r RECEIPT_MISMATCH)) (\<lambda>_.
           finalize P r receipt True))
     | INTERRUPTED \<Rightarrow> raise InterruptedOperation
     | MANUAL_REVIEW \<Rightarrow> raise ManualReviewRequired)"
    by (cases "os_state m")
      (auto intro!: quietly.keeps_rules quiet_ports keeps_now keeps_stop keeps_finalize split: option.split)
qed


section \<open>At most one start per reservation\<close>

definition fresh :: "'s \<Rightarrow> bool" where
  "fresh s = (distinct (map idempotency_scope (started s))
     \<and> idempotency_scope ` set (started s) \<subseteq> scopes s)"

lemma fresh_quiet: "fresh s \<Longrightarrow> quiet s t \<Longrightarrow> fresh t"
  using le_scopes[of s t] unfolding fresh_def by (metis order_trans)

text \<open>A program that starts the request \<open>r\<close> at most once.\<close>

definition starts :: "operation_request \<Rightarrow> ('a, 's) prog \<Rightarrow> bool" where
  "starts r m = (\<forall>s x t. ok s \<longrightarrow> m s = (x, t) \<longrightarrow>
     ok t \<and> le s t \<and> (started t = started s \<or> started t = r # started s))"

lemma startsD: "starts r m \<Longrightarrow> ok s \<Longrightarrow> m s = (x, t) \<Longrightarrow>
    ok t \<and> le s t \<and> (started t = started s \<or> started t = r # started s)"
  by (simp add: starts_def)

lemma starts_quiet: "keeps ok quiet m \<Longrightarrow> starts r m"
  by (auto simp: starts_def keeps_def)

lemma quiet_seq_starts:
  assumes m: "keeps ok quiet m" and f: "\<And>x. starts r (f x)"
  shows "starts r (seq m f)"
  unfolding starts_def
proof (intro allI impI)
  fix s x t
  assume s: "ok s" and run: "seq m f s = (x, t)"
  obtain y u where y: "m s = (y, u)" by fastforce
  then have u: "ok u" "le s u" "started u = started s" using keepsD[OF m s] by blast+
  have "y = Inl e \<Longrightarrow> u = t" for e using y run by (simp add: seq_def)
  moreover have "y = Inr z \<Longrightarrow> f z u = (x, t)" for z using y run by (simp add: seq_def)
  ultimately show "ok t \<and> le s t \<and> (started t = started s \<or> started t = r # started s)"
    using startsD[OF f u(1)] u le_trans[OF u(2)] by (cases y) fastforce+
qed

lemma starts_seq_quiet:
  assumes m: "starts r m" and f: "\<And>x. keeps ok quiet (f x)"
  shows "starts r (seq m f)"
  unfolding starts_def
proof (intro allI impI)
  fix s x t
  assume s: "ok s" and run: "seq m f s = (x, t)"
  obtain y u where y: "m s = (y, u)" by fastforce
  then have u: "ok u" "le s u" "started u = started s \<or> started u = r # started s"
    using startsD[OF m s] by blast+
  have "y = Inl e \<Longrightarrow> u = t" for e using y run by (simp add: seq_def)
  moreover have "y = Inr z \<Longrightarrow> f z u = (x, t)" for z using y run by (simp add: seq_def)
  ultimately show "ok t \<and> le s t \<and> (started t = started s \<or> started t = r # started s)"
    using keepsD[OF f u(1)] u le_trans[OF u(2)] by (cases y) fastforce+
qed

lemma starts_on_error:
  assumes m: "starts r m" and h: "keeps ok quiet h"
  shows "starts r (on_error e m h)"
  unfolding starts_def
proof (intro allI impI)
  fix s x t
  assume s: "ok s" and run: "on_error e m h s = (x, t)"
  obtain y u where y: "m s = (y, u)" by fastforce
  then have u: "ok u" "le s u" "started u = started s \<or> started u = r # started s"
    using startsD[OF m s] by blast+
  have "h u = (x, t) \<or> u = t" using y run by (auto simp: on_error_def split: sum.splits if_splits)
  then show "ok t \<and> le s t \<and> (started t = started s \<or> started t = r # started s)"
    using keepsD[OF h u(1)] u le_trans[OF u(2)] by fastforce
qed

lemma starts_data_plane: "starts r (data_execute P r l)"
  using data_plane by (auto simp: starts_def)

definition execute_reserved :: "cross_store_command \<Rightarrow> operation_request \<Rightarrow> (cross_store_result, 's) prog" where
  "execute_reserved c request = seq (at_boundary P BEFORE_LEASE) (\<lambda>_.
       seq (now_of P) (\<lambda>acquired.
       seq (leases_acquire P (or_organization_id request) (or_project_id request) (cc_workspace_id c)
              (cc_holder_attempt_id c) acquired (add_duration acquired (lease_duration P))) (\<lambda>lease.
       seq (at_boundary P AFTER_LEASE) (\<lambda>_.
       seq (on_error ReceiptMismatch
              (seq (data_execute P request lease) (\<lambda>receipt.
               seq (from_res (require_operation receipt request)) (\<lambda>_.
               seq (from_res (require_lease receipt lease)) (\<lambda>_.
               finalize P request receipt False))))
              (stop_for_review P request RECEIPT_MISMATCH)) (\<lambda>result.
       seq (now_of P) (\<lambda>at.
       seq (leases_release P lease at) (\<lambda>_. return result)))))))"

lemma execute_cases: "execute P c = seq (journal_reserve P (cc_request c)) (\<lambda>(request, created).
    if \<not> created then recover P request else execute_reserved c request)"
  unfolding execute_def execute_reserved_def ..

lemma starts_execute_reserved: "starts r (execute_reserved c r)"
  unfolding execute_reserved_def
  by (intro quiet_seq_starts quiet_ports keeps_now starts_seq_quiet starts_on_error starts_data_plane
      quietly.keeps_rules keeps_stop keeps_finalize)

lemma execute_fresh:
  assumes s: "ok s" "fresh s" and run: "execute P c s = (x, t)"
  shows "ok t \<and> le s t \<and> fresh t"
proof -
  obtain y u where y: "journal_reserve P (cc_request c) s = (y, u)" by fastforce
  have u: "ok u" "quiet s u" using keepsD[OF quiet_ports(1) s(1) y] by blast+
  have fresh: "fresh u" by (rule fresh_quiet[OF s(2) u(2)])
  show ?thesis
  proof (cases y)
    case (Inl e)
    then show ?thesis using y run u fresh by (simp add: execute_cases seq_def)
  next
    case (Inr z)
    obtain request created where z: "z = (request, created)" by fastforce
    show ?thesis
    proof (cases created)
      case False
      then have "recover P request u = (x, t)" using y run Inr z by (simp add: execute_cases seq_def)
      then have "ok t" "quiet u t" using keepsD[OF keeps_recover u(1)] by blast+
      then show ?thesis using fresh_quiet[OF fresh] u le_trans by blast
    next
      case True
      then have r: "execute_reserved c request u = (x, t)" using y run Inr z by (simp add: execute_cases seq_def)
      have t: "ok t" "le u t" "started t = started u \<or> started t = request # started u"
        using startsD[OF starts_execute_reserved u(1) r] by blast+
      have new: "idempotency_scope request \<notin> scopes s" "idempotency_scope request \<in> scopes u"
        using reserve_created[OF s(1)] y Inr z True by auto
      have sub: "scopes u \<subseteq> scopes t" by (rule le_scopes[OF t(2)])
      have old: "idempotency_scope ` set (started u) \<subseteq> scopes s" "distinct (map idempotency_scope (started u))"
        using s(2) u(2) by (simp_all add: fresh_def)
      have "idempotency_scope ` set (started u) \<subseteq> scopes t"
        using fresh sub unfolding fresh_def by (blast intro: order_trans)
      moreover have "idempotency_scope request \<notin> idempotency_scope ` set (started u)"
        using new(1) old(1) by (rule contra_subsetD[rotated])
      moreover have "idempotency_scope request \<in> scopes t" using new(2) sub by (rule rev_subsetD)
      ultimately have "fresh t" using t(3) old(2) unfolding fresh_def by (elim disjE) simp_all
      then show ?thesis using t u le_trans by blast
    qed
  qed
qed


section \<open>Results are durable\<close>

lemma finalize_durable:
  assumes s: "ok s" and run: "finalize P r d b s = (Inr res, t)"
  shows "projected t (operation_key r) (receipt_digest P d) (cs_projection res)
    \<and> cs_request res = r \<and> cs_data_receipt res = d \<and> cs_replayed res = b"
proof -
  let ?review = "on_error ArtifactMismatch (each (artifacts_verify P) (dr_artifacts d))
            (stop_for_review P r ARTIFACT_MISMATCH)"
  obtain u1 u2 u3 u4 u5 p x where
    op: "require_operation d r = Inr ()"
    and u1: "journal_record_data P d s = (Inr (), u1)"
    and u2: "?review u1 = (Inr (), u2)"
    and u3: "at_boundary P BEFORE_PROJECTION_UPDATE u2 = (Inr (), u3)"
    and u4: "projections_project P d u3 = (Inr p, u4)"
    and x: "on_error ReceiptMismatch (seq (from_res (require_data_plane_receipt (receipt_digest P) p d))
              (\<lambda>_. journal_record_projection P p)) (stop_for_review P r PROJECTION_MISMATCH) u4 = (Inr (), u5)"
    and u6: "at_boundary P AFTER_PROJECTION_UPDATE u5 = (Inr (), t)"
    and res: "mk_result (receipt_digest P) \<lparr>cs_request = r, cs_data_receipt = d,
       cs_projection = p, cs_replayed = b\<rparr> = Inr res"
    using run by (auto simp: finalize_def seq_Inr)
  have "ok u1" using keepsD[OF quiet_ports(3) s u1] by simp
  moreover have "keeps ok quiet ?review" by (intro quietly.keeps_rules quiet_ports keeps_stop)
  ultimately have "ok u2" using u2 by (blast dest: keepsD)
  then have "ok u3" using keepsD[OF quiet_ports(12) _ u3] by simp
  then have ok: "ok u4" using keepsD[OF quiet_ports(11) _ u4] by simp
  have "stop_for_review P r PROJECTION_MISMATCH v \<noteq> (Inr (), w)" for v w
    by (simp add: stop_for_review_def seq_Inr)
  with x have bind: "require_data_plane_receipt (receipt_digest P) p d = Inr ()"
    and rec: "journal_record_projection P p u4 = (Inr (), u5)"
    by (auto simp: on_error_Inr seq_Inr)
  have "ok u5" using keepsD[OF quiet_ports(4) ok rec] by simp
  then have "le u5 t" using keepsD[OF quiet_ports(12) _ u6] by simp
  moreover have "projected u5 (projection_key p) (pr_data_plane_receipt_hash p) p"
    by (rule record_projected[OF ok rec])
  moreover have "projection_key p = operation_key r" "pr_data_plane_receipt_hash p = receipt_digest P d"
    using op bind by (auto simp: require_operation_def require_data_plane_receipt_def res_simps
        projection_key_def operation_key_def)
  moreover have "res = \<lparr>cs_request = r, cs_data_receipt = d, cs_projection = p, cs_replayed = b\<rparr>"
    using res by (auto simp: mk_result_def res_simps)
  ultimately show ?thesis using le_projected by simp
qed

lemma result_from_snapshot_Inr:
  assumes "result_from_snapshot d m b = Inr res"
  shows "os_data_receipt m = Some (cs_data_receipt res) \<and> os_projection m = Some (cs_projection res)
    \<and> cs_request res = os_request m \<and> cs_replayed res = b"
  using assms by (auto simp: result_from_snapshot_def required_data_receipt_def mk_result_def res_simps
      split: option.splits)

lemma recover_durable:
  assumes s: "ok s" and run: "recover P r s = (Inr res, t)"
  shows "projected t (operation_key r) (receipt_digest P (cs_data_receipt res)) (cs_projection res)
    \<and> operation_key (cs_request res) = operation_key r \<and> cs_replayed res"
proof -
  obtain m u where m: "journal_get P r s = (Inr m, u)" using run by (auto simp: recover_def seq_Inr)
  have u: "ok u" using keepsD[OF quiet_ports(2) s m] by simp
  note rest = run[unfolded recover_def seq_Inr]
  show ?thesis
  proof (cases "os_state m")
    case PROJECTED
    then have "result_from_snapshot (receipt_digest P) m True = Inr res" "u = t"
      using rest m by auto
    then show ?thesis
      using get_projected[OF s m PROJECTED] get_key[OF s m] by (auto dest!: result_from_snapshot_Inr)
  next
    case DATA_COMMITTED
    then obtain d where "finalize P r d True u = (Inr res, t)" using rest m by (auto simp: seq_Inr)
    then show ?thesis using finalize_durable[OF u] by auto
  next
    case RESERVED
    then obtain d v w where d: "data_find P r u = (Inr (Some d), v)"
      "on_error ReceiptMismatch (seq (from_res (require_operation d r)) (\<lambda>_. journal_record_data P d))
          (stop_for_review P r RECEIPT_MISMATCH) v = (Inr (), w)" "finalize P r d True w = (Inr res, t)"
      using rest m by (auto simp: seq_Inr split: option.splits)
    have "ok v" using keepsD[OF quiet_ports(9) u d(1)] by simp
    moreover have "keeps ok quiet (on_error ReceiptMismatch (seq (from_res (require_operation d r))
        (\<lambda>_. journal_record_data P d)) (stop_for_review P r RECEIPT_MISMATCH))"
      by (intro quietly.keeps_rules quiet_ports keeps_stop)
    ultimately have "ok w" using d(2) by (blast dest: keepsD)
    then show ?thesis using finalize_durable[OF _ d(3)] by auto
  qed (use rest m in auto)
qed

lemma execute_durable:
  assumes s: "ok s" and run: "execute P c s = (Inr res, t)"
  shows "projected t (operation_key (cs_request res)) (receipt_digest P (cs_data_receipt res))
    (cs_projection res)"
proof -
  obtain q created u where q: "journal_reserve P (cc_request c) s = (Inr (q, created), u)"
    "(if \<not> created then recover P q else execute_reserved c q) u = (Inr res, t)"
    using run by (auto simp: execute_cases seq_Inr)
  have u: "ok u" using keepsD[OF quiet_ports(1) s q(1)] by simp
  show ?thesis
  proof (cases created)
    case False
    then show ?thesis using recover_durable[OF u] q(2) by auto
  next
    case True
    then obtain v1 v2 v3 v4 v5 v6 a l d at l' x where
      v: "at_boundary P BEFORE_LEASE u = (Inr (), v1)" "now_of P v1 = (Inr a, v2)"
        "leases_acquire P (or_organization_id q) (or_project_id q) (cc_workspace_id c)
              (cc_holder_attempt_id c) a (add_duration a (lease_duration P)) v2 = (Inr l, v3)"
        "at_boundary P AFTER_LEASE v3 = (Inr (), v4)"
      and x: "on_error ReceiptMismatch
              (seq (data_execute P q l) (\<lambda>receipt.
               seq (from_res (require_operation receipt q)) (\<lambda>_.
               seq (from_res (require_lease receipt l)) (\<lambda>_.
               finalize P q receipt False))))
              (stop_for_review P q RECEIPT_MISMATCH) v4 = (Inr res, v5)"
      and r: "now_of P v5 = (Inr at, v6)" "leases_release P l at v6 = (Inr l', t)"
      using q(2) by (auto simp: execute_reserved_def seq_Inr)
    have "ok v1" using keepsD[OF quiet_ports(12) u v(1)] by simp
    then have "ok v2" using keepsD[OF keeps_now _ v(2)] by simp
    then have "ok v3" using keepsD[OF quiet_ports(7) _ v(3)] by simp
    then have v4: "ok v4" using keepsD[OF quiet_ports(12) _ v(4)] by simp
    have "stop_for_review P q RECEIPT_MISMATCH b \<noteq> (Inr res, w)" for b w
      by (simp add: stop_for_review_def seq_Inr)
    with x obtain d b where d: "data_execute P q l v4 = (Inr d, b)" "finalize P q d False b = (Inr res, v5)"
      by (auto simp: on_error_Inr seq_Inr)
    have b: "ok b" using data_plane[OF v4 d(1)] by simp
    then have v5: "ok v5" using keepsD[OF keeps_finalize _ d(2)] by simp
    then have v6: "ok v6" "le v5 v6" using keepsD[OF keeps_now _ r(1)] by simp_all
    then have "le v5 t" using keepsD[OF quiet_ports(8) _ r(2)] le_trans by blast
    then show ?thesis using finalize_durable[OF b d(2)] le_projected by auto
  qed
qed

end


section \<open>Stops are recorded\<close>

text \<open>No collaborator raises the coordinator's own two exceptions.\<close>

definition silent :: "('a, 's) prog \<Rightarrow> bool" where
  "silent m = (\<forall>s e t. m s = (Inl e, t) \<longrightarrow> e \<noteq> ManualReviewRequired \<and> e \<noteq> InterruptedOperation)"

locale honest_ports = cross_store_ports le P ok scopes started projected finished_as
  for le :: "'s \<Rightarrow> 's \<Rightarrow> bool" and P :: "'s ports" and ok :: "'s \<Rightarrow> bool"
    and scopes :: "'s \<Rightarrow> (string \<times> string) set" and started :: "'s \<Rightarrow> operation_request list"
    and projected :: "'s \<Rightarrow> string \<times> string \<Rightarrow> string \<Rightarrow> projection_receipt \<Rightarrow> bool"
    and finished_as :: "'s \<Rightarrow> string \<times> string \<Rightarrow> operation_state \<Rightarrow> bool" +
  assumes silent_ports: "silent (journal_reserve P r)" "silent (journal_get P r)" "silent (journal_record_data P d)"
    "silent (journal_record_projection P p)" "silent (journal_interrupt P r at x)"
    "silent (journal_review P r at x)" "silent (leases_acquire P a b c h at at')"
    "silent (leases_release P l at)" "silent (data_execute P r l)" "silent (data_find P r)"
    "silent (artifacts_verify P i)" "silent (projections_project P d)" "silent (at_boundary P e)"
    "silent (read_clock P)"
begin

definition reports :: "operation_request \<Rightarrow> ('a, 's) prog \<Rightarrow> bool" where
  "reports r m = (\<forall>s e t. ok s \<longrightarrow> m s = (Inl e, t) \<longrightarrow>
     (e = ManualReviewRequired \<longrightarrow> finished_as t (operation_key r) MANUAL_REVIEW)
   \<and> (e = InterruptedOperation \<longrightarrow> finished_as t (operation_key r) INTERRUPTED))"

lemma reports_silent: "silent m \<Longrightarrow> reports r m"
  by (auto simp: reports_def silent_def)

lemma keeps_quiet: "keeps ok quiet m \<Longrightarrow> keeps ok le m"
  unfolding keeps_def by blast

lemma reports_seq_le:
  assumes "keeps ok le m" "reports r m" "\<And>x. reports r (f x)"
  shows "reports r (seq m f)"
  unfolding reports_def
proof (intro allI impI)
  fix s e t
  assume s: "ok s" and run: "seq m f s = (Inl e, t)"
  show "(e = ManualReviewRequired \<longrightarrow> finished_as t (operation_key r) MANUAL_REVIEW)
   \<and> (e = InterruptedOperation \<longrightarrow> finished_as t (operation_key r) INTERRUPTED)"
  proof (cases "m s = (Inl e, t)")
    case True
    then show ?thesis using assms(2) s unfolding reports_def by blast
  next
    case False
    then obtain x u where u: "m s = (Inr x, u)" "f x u = (Inl e, t)" using run by (auto simp: seq_Inl)
    then have "ok u" using keepsD[OF assms(1) s] by blast
    then show ?thesis using assms(3)[of x] u(2) unfolding reports_def by blast
  qed
qed

lemma reports_seq: "keeps ok quiet m \<Longrightarrow> reports r m \<Longrightarrow> (\<And>x. reports r (f x)) \<Longrightarrow> reports r (seq m f)"
  by (rule reports_seq_le[OF keeps_quiet])

lemma reports_on_error_le:
  assumes "keeps ok le m" "reports r m" "reports r h"
  shows "reports r (on_error e m h)"
  unfolding reports_def
proof (intro allI impI)
  fix s x t
  assume s: "ok s" and run: "on_error e m h s = (Inl x, t)"
  show "(x = ManualReviewRequired \<longrightarrow> finished_as t (operation_key r) MANUAL_REVIEW)
   \<and> (x = InterruptedOperation \<longrightarrow> finished_as t (operation_key r) INTERRUPTED)"
  proof (cases "m s = (Inl x, t)")
    case True
    then show ?thesis using assms(2) s unfolding reports_def by blast
  next
    case False
    then obtain u where u: "m s = (Inl e, u)" "h u = (Inl x, t)" using run by (auto simp: on_error_Inl)
    then have "ok u" using keepsD[OF assms(1) s] by blast
    then show ?thesis using assms(3) u(2) unfolding reports_def by blast
  qed
qed

lemma reports_on_error: "keeps ok quiet m \<Longrightarrow> reports r m \<Longrightarrow> reports r h \<Longrightarrow> reports r (on_error e m h)"
  by (rule reports_on_error_le[OF keeps_quiet])

lemma silent_return: "silent (return x)"
  by (simp add: silent_def)

lemma silent_seq: "silent m \<Longrightarrow> (\<And>x. silent (f x)) \<Longrightarrow> silent (seq m f)"
  unfolding silent_def seq_Inl by blast

lemma silent_each: "(\<And>x. silent (f x)) \<Longrightarrow> silent (each f xs)"
  by (induction xs) (auto intro: silent_seq silent_return)

lemma silentD: "silent m \<Longrightarrow> m s = (Inl e, t) \<Longrightarrow> e \<noteq> ManualReviewRequired \<and> e \<noteq> InterruptedOperation"
  unfolding silent_def by blast

lemma silent_checks: "silent (from_res (require_operation d r))"
  "silent (from_res (require_data_plane_receipt g p d))" "silent (from_res (mk_result g res))"
  "silent (from_res (required_data_receipt m))" "silent (from_res (result_from_snapshot g m b))"
  by (auto simp: silent_def require_operation_def require_data_plane_receipt_def mk_result_def
      required_data_receipt_def result_from_snapshot_def res_simps split: option.splits)

lemma silent_now: "silent (now_of P)"
  using silent_ports(14) by (auto simp: silent_def now_of_def seq_Inl split: if_splits)

lemma reports_stop: "reports r (stop_for_review P r x)"
  unfolding reports_def
proof (intro allI impI)
  fix s e t
  assume s: "ok s" and run: "stop_for_review P r x s = (Inl e, t)"
  show "(e = ManualReviewRequired \<longrightarrow> finished_as t (operation_key r) MANUAL_REVIEW)
   \<and> (e = InterruptedOperation \<longrightarrow> finished_as t (operation_key r) INTERRUPTED)"
  proof (cases "manual_review P r x s = (Inl e, t)")
    case True
    moreover have "silent (manual_review P r x)"
      unfolding manual_review_def by (intro silent_seq silent_now silent_ports)
    ultimately show ?thesis by (blast dest: silentD)
  next
    case False
    then obtain at u where "now_of P s = (Inr at, u)" "journal_review P r at x u = (Inr (), t)"
      "e = ManualReviewRequired"
      using run by (auto simp: stop_for_review_def manual_review_def seq_Inl seq_Inr)
    then show ?thesis using review_recorded keepsD[OF keeps_now s] by auto
  qed
qed

lemma reports_finalize: "reports r (finalize P r d b)"
  unfolding finalize_def
  by (intro reports_seq reports_on_error reports_stop reports_silent silent_each silent_ports silent_checks
      quietly.keeps_rules quiet_ports keeps_stop)

lemma reports_interrupt:
  "reports r (seq (now_of P) (\<lambda>t. seq (journal_interrupt P r t x) (\<lambda>_. raise InterruptedOperation)))"
  unfolding reports_def
proof (intro allI impI)
  fix s e t
  assume s: "ok s" and run: "seq (now_of P) (\<lambda>t. seq (journal_interrupt P r t x)
      (\<lambda>_. raise InterruptedOperation)) s = (Inl e, t)"
  show "(e = ManualReviewRequired \<longrightarrow> finished_as t (operation_key r) MANUAL_REVIEW)
   \<and> (e = InterruptedOperation \<longrightarrow> finished_as t (operation_key r) INTERRUPTED)"
  proof (cases "now_of P s = (Inl e, t)")
    case True
    then show ?thesis using silent_now by (blast dest: silentD)
  next
    case False
    then obtain at u where u: "now_of P s = (Inr at, u)"
      "seq (journal_interrupt P r at x) (\<lambda>_. raise InterruptedOperation) u = (Inl e, t)"
      using run by (auto simp: seq_Inl)
    show ?thesis
    proof (cases "journal_interrupt P r at x u = (Inl e, t)")
      case True
      then show ?thesis using silent_ports(5) by (blast dest: silentD)
    next
      case False
      then have "journal_interrupt P r at x u = (Inr (), t)" "e = InterruptedOperation"
        using u(2) by (auto simp: seq_Inl)
      then show ?thesis using interrupt_recorded keepsD[OF keeps_now s u(1)] by auto
    qed
  qed
qed

lemma reports_recover: "reports r (recover P r)"
  unfolding reports_def
proof (intro allI impI)
  fix s e t
  assume s: "ok s" and run: "recover P r s = (Inl e, t)"
  show "(e = ManualReviewRequired \<longrightarrow> finished_as t (operation_key r) MANUAL_REVIEW)
   \<and> (e = InterruptedOperation \<longrightarrow> finished_as t (operation_key r) INTERRUPTED)"
  proof (cases "journal_get P r s = (Inl e, t)")
    case True
    then show ?thesis using silent_ports(2) unfolding silent_def by blast
  next
    case False
    then obtain m u where m: "journal_get P r s = (Inr m, u)" using run by (auto simp: recover_def seq_Inl)
    note rest = run[unfolded recover_def seq_Inl]
    have u: "ok u" using keepsD[OF quiet_ports(2) s m] by simp
    show ?thesis
    proof (cases "os_state m")
      case PROJECTED
      then have "from_res (result_from_snapshot (receipt_digest P) m True) u = (Inl e, t)" using rest m by auto
      from silentD[OF silent_checks(5) this] show ?thesis by simp
    next
      case DATA_COMMITTED
      then have "seq (from_res (required_data_receipt m)) (\<lambda>receipt. finalize P r receipt True) u = (Inl e, t)"
        using rest m by auto
      moreover have "reports r (seq (from_res (required_data_receipt m)) (\<lambda>receipt. finalize P r receipt True))"
        by (intro reports_seq quietly.keeps_rules reports_silent silent_checks reports_finalize)
      ultimately show ?thesis using u unfolding reports_def by blast
    next
      case INTERRUPTED
      then have "e = InterruptedOperation" "t = u" using rest m by auto
      then show ?thesis using get_finished[OF s m] INTERRUPTED by simp
    next
      case MANUAL_REVIEW
      then have "e = ManualReviewRequired" "t = u" using rest m by auto
      then show ?thesis using get_finished[OF s m] MANUAL_REVIEW by simp
    next
      case RESERVED
      let ?f = "\<lambda>found. case found of
         None \<Rightarrow> seq (now_of P) (\<lambda>t.
           seq (journal_interrupt P r t NO_COMMITTED_RECEIPT) (\<lambda>_. raise InterruptedOperation))
       | Some receipt \<Rightarrow>
           seq (on_error ReceiptMismatch
                  (seq (from_res (require_operation receipt r)) (\<lambda>_. journal_record_data P receipt))
                  (stop_for_review P r RECEIPT_MISMATCH)) (\<lambda>_.
           finalize P r receipt True)"
      have "seq (data_find P r) ?f u = (Inl e, t)" using rest m RESERVED by auto
      moreover have "reports r (?f found)" for found
      proof (cases found)
        case None
        show ?thesis unfolding None option.case by (rule reports_interrupt)
      next
        case (Some d)
        show ?thesis
          unfolding Some option.case
          by (intro reports_seq reports_on_error reports_stop reports_silent silent_ports silent_checks
              reports_finalize quietly.keeps_rules quiet_ports keeps_stop)
      qed
      then have "reports r (seq (data_find P r) ?f)"
        by (rule reports_seq[OF quiet_ports(9) reports_silent[OF silent_ports(10)]])
      ultimately show ?thesis using u unfolding reports_def by blast
    qed
  qed
qed

lemma reports_execute_reserved: "reports r (execute_reserved c r)"
proof -
  have dp: "keeps ok le (data_execute P r l)" for l
    using data_plane by (auto simp: keeps_def)
  have lease: "silent (from_res (require_lease d l))" for d l
    by (auto simp: silent_def require_lease_def require_fencing_token_def is_active_at_def res_simps split: if_splits)
  have inner: "keeps ok le (seq (data_execute P r l) (\<lambda>receipt.
               seq (from_res (require_operation receipt r)) (\<lambda>_.
               seq (from_res (require_lease receipt l)) (\<lambda>_. finalize P r receipt False))))" for l
    by (intro keeps_rules dp keeps_quiet[OF keeps_finalize])
  have body: "keeps ok le (on_error ReceiptMismatch (seq (data_execute P r l) (\<lambda>receipt.
               seq (from_res (require_operation receipt r)) (\<lambda>_.
               seq (from_res (require_lease receipt l)) (\<lambda>_. finalize P r receipt False))))
              (stop_for_review P r RECEIPT_MISMATCH))" for l
    by (intro keeps_on_error inner keeps_quiet[OF keeps_stop])
  have tail: "reports r (seq (now_of P) (\<lambda>at. seq (leases_release P l at) (\<lambda>_. return result)))" for l result
    by (intro reports_seq keeps_now quiet_ports reports_silent silent_now silent_ports silent_return)
  have call: "reports r (seq (data_execute P r l) (\<lambda>receipt.
               seq (from_res (require_operation receipt r)) (\<lambda>_.
               seq (from_res (require_lease receipt l)) (\<lambda>_. finalize P r receipt False))))" for l
    by (rule reports_seq_le[OF dp reports_silent[OF silent_ports(9)]])
      (intro reports_seq quietly.keeps_rules reports_silent silent_checks lease reports_finalize)
  have whole: "reports r (seq (on_error ReceiptMismatch (seq (data_execute P r l) (\<lambda>receipt.
               seq (from_res (require_operation receipt r)) (\<lambda>_.
               seq (from_res (require_lease receipt l)) (\<lambda>_. finalize P r receipt False))))
              (stop_for_review P r RECEIPT_MISMATCH)) (\<lambda>result.
       seq (now_of P) (\<lambda>at. seq (leases_release P l at) (\<lambda>_. return result))))" for l
    by (rule reports_seq_le[OF body reports_on_error_le[OF inner call reports_stop] tail])
  show ?thesis
    unfolding execute_reserved_def
    by (rule reports_seq[OF quiet_ports(12) reports_silent[OF silent_ports(13)]],
        rule reports_seq[OF keeps_now reports_silent[OF silent_now]],
        rule reports_seq[OF quiet_ports(7) reports_silent[OF silent_ports(7)]],
        rule reports_seq[OF quiet_ports(12) reports_silent[OF silent_ports(13)]], rule whole)
qed

lemma execute_reports:
  assumes s: "ok s" and run: "execute P c s = (Inl e, t)" and e: "e \<in> {ManualReviewRequired, InterruptedOperation}"
  shows "\<exists>q b u. journal_reserve P (cc_request c) s = (Inr (q, b), u)
    \<and> finished_as t (operation_key q) (if e = ManualReviewRequired then MANUAL_REVIEW else INTERRUPTED)"
proof -
  have "journal_reserve P (cc_request c) s \<noteq> (Inl e, t)"
    using silentD[OF silent_ports(1)] e by blast
  then obtain q b u where q: "journal_reserve P (cc_request c) s = (Inr (q, b), u)"
    "(if \<not> b then recover P q else execute_reserved c q) u = (Inl e, t)"
    using run by (auto simp: execute_cases seq_Inl)
  have u: "ok u" using keepsD[OF quiet_ports(1) s q(1)] by simp
  have "reports q (if \<not> b then recover P q else execute_reserved c q)"
    using reports_recover reports_execute_reserved by simp
  then have "finished_as t (operation_key q) (if e = ManualReviewRequired then MANUAL_REVIEW else INTERRUPTED)"
    using u q(2) e unfolding reports_def by auto
  then show ?thesis using q(1) by blast
qed

end

end
