(* ===== verification/Lease_Store.thy ===== *)
theory Lease_Store
imports Coordination
begin

text \<open>
  The PostgreSQL lease repository (\<open>adapters/postgresql/coordination.py\<close>,
  \<open>PsycopgWorkspaceLeaseRepository\<close>): one row per workspace, the acquire, heartbeat and release
  statements with their \<open>WHERE\<close> clauses, and the decoding of the returned row.  The table is a
  dictionary from its primary key; each call is one transaction, so an error leaves the table as it
  was.  A ghost list of the leases ever returned lets the lemmas speak about stale owners.  The project
  row the foreign key needs is taken to exist, and tokens and versions stay below the width of their
  \<open>bigint\<close> columns.
\<close>


section \<open>Identifiers\<close>

text \<open>\<open>require_uuid\<close>: the lower-case canonical form with its four dashes.\<close>

definition is_uuid :: "string \<Rightarrow> bool" where
  "is_uuid s = (length s = 36 \<and> list_all (\<lambda>i. if i \<in> {8, 13, 18, 23} then s ! i = CHR ''-''
     else hex_digit (s ! i)) [0..<36])"

definition require_uuid :: "string \<Rightarrow> unit res" where
  "require_uuid s = checkr (is_uuid s) FoundationError"


section \<open>The lease table\<close>

type_synonym workspace_key = "string \<times> string \<times> string"

type_synonym lease_table = "(workspace_key \<times> workspace_lease) list"

definition lease_key :: "workspace_lease \<Rightarrow> workspace_key" where
  "lease_key l = (wl_organization_id l, wl_project_id l, wl_workspace_id l)"

text \<open>\<open>_lease_from_row\<close>: a row the constructor refuses is a storage error.\<close>

definition lease_from_row :: "workspace_lease \<Rightarrow> workspace_lease res" where
  "lease_from_row l = (case mk_workspace_lease l of Inl _ \<Rightarrow> Inl StorageError | Inr m \<Rightarrow> Inr m)"

text \<open>The identifier column has the type \<open>uuid\<close>, and \<open>str(uuid4())\<close> is canonical.\<close>

definition lease_id_column :: "workspace_lease \<Rightarrow> bool" where
  "lease_id_column l = is_uuid (wl_lease_id l)"

text \<open>The unique index over organization and lease identifier, against the other rows.\<close>

definition lease_id_free :: "lease_table \<Rightarrow> workspace_lease \<Rightarrow> bool" where
  "lease_id_free table l = list_all (\<lambda>(k, m). k = lease_key l
     \<or> (wl_organization_id m, wl_lease_id m) \<noteq> (wl_organization_id l, wl_lease_id l)) table"

definition store_lease :: "workspace_lease \<Rightarrow> lease_table \<Rightarrow> (workspace_lease \<times> lease_table) res" where
  "store_lease l table = bindr (lease_from_row l) (\<lambda>m. Inr (m, dict_set table (lease_key l) l))"

text \<open>\<open>_ACQUIRE_LEASE_QUERY\<close>: insert with token 1, or take over a released or expired row.\<close>

definition acquire_row :: "workspace_lease \<Rightarrow> workspace_lease option \<Rightarrow> workspace_lease option" where
  "acquire_row excluded row = (case row of
     None \<Rightarrow> Some (excluded\<lparr>wl_fencing_token := 1, wl_version := 1, wl_released_at := None\<rparr>)
   | Some old \<Rightarrow>
       if wl_released_at old \<noteq> None \<or> at_time (wl_expires_at old) \<le> at_time (wl_acquired_at excluded)
       then Some (excluded\<lparr>wl_fencing_token := wl_fencing_token old + 1,
              wl_version := wl_version old + 1, wl_released_at := None\<rparr>)
       else None)"

definition acquire_lease :: "string \<Rightarrow> string \<Rightarrow> string \<Rightarrow> string \<Rightarrow> string \<Rightarrow> datetime \<Rightarrow> datetime
    \<Rightarrow> lease_table \<Rightarrow> (workspace_lease \<times> lease_table) res" where
  "acquire_lease lease_id organization project workspace holder acquired expires table =
     bindr (require_uuid project) (\<lambda>_. bindr (require_uuid workspace) (\<lambda>_.
     bindr (require_uuid holder) (\<lambda>_.
     bindr (checkr (aware acquired) FoundationError) (\<lambda>_.
     bindr (checkr (aware expires) FoundationError) (\<lambda>_.
     bindr (checkr (at_time acquired < at_time expires) FoundationError) (\<lambda>_.
     let excluded = \<lparr>wl_lease_id = lease_id, wl_organization_id = organization, wl_project_id = project,
           wl_workspace_id = workspace, wl_holder_attempt_id = holder, wl_fencing_token = 1,
           wl_acquired_at = acquired, wl_heartbeat_at = acquired, wl_expires_at = expires,
           wl_version = 1, wl_released_at = None\<rparr> in
     case acquire_row excluded (map_of table (lease_key excluded)) of
       None \<Rightarrow> Inl StaleLease
     | Some l \<Rightarrow> bindr (checkr (lease_id_column l) StorageError) (\<lambda>_.
         bindr (checkr (lease_id_free table l) IdempotencyConflict) (\<lambda>_. store_lease l table))))))))"

text \<open>The \<open>WHERE\<close> clause both updates share: the exact revision of an active row.\<close>

definition owns_row :: "workspace_lease \<Rightarrow> datetime \<Rightarrow> workspace_lease \<Rightarrow> bool" where
  "owns_row lease at row = (wl_lease_id row = wl_lease_id lease
     \<and> wl_holder_attempt_id row = wl_holder_attempt_id lease
     \<and> wl_fencing_token row = wl_fencing_token lease \<and> wl_version row = wl_version lease
     \<and> wl_released_at row = None \<and> at_time at < at_time (wl_expires_at row)
     \<and> at_time (wl_heartbeat_at row) \<le> at_time at)"

definition lease_uuids :: "workspace_lease \<Rightarrow> unit res" where
  "lease_uuids l = bindr (require_uuid (wl_project_id l)) (\<lambda>_. bindr (require_uuid (wl_workspace_id l)) (\<lambda>_.
     bindr (require_uuid (wl_lease_id l)) (\<lambda>_. require_uuid (wl_holder_attempt_id l))))"

definition heartbeat_stored :: "workspace_lease \<Rightarrow> datetime \<Rightarrow> datetime \<Rightarrow> lease_table
    \<Rightarrow> (workspace_lease \<times> lease_table) res" where
  "heartbeat_stored lease at expires table =
     bindr (lease_heartbeat lease (wl_fencing_token lease) at expires) (\<lambda>candidate.
     bindr (lease_uuids lease) (\<lambda>_.
     case map_of table (lease_key lease) of
       None \<Rightarrow> Inl StaleLease
     | Some row \<Rightarrow>
         if owns_row lease at row \<and> at_time (wl_expires_at row) < at_time expires
         then store_lease (row\<lparr>wl_heartbeat_at := wl_heartbeat_at candidate,
                wl_expires_at := wl_expires_at candidate, wl_version := wl_version row + 1\<rparr>) table
         else Inl StaleLease))"

definition release_stored :: "workspace_lease \<Rightarrow> datetime \<Rightarrow> lease_table
    \<Rightarrow> (workspace_lease \<times> lease_table) res" where
  "release_stored lease at table =
     bindr (lease_release lease (wl_fencing_token lease) at) (\<lambda>candidate.
     bindr (lease_uuids lease) (\<lambda>_.
     case map_of table (lease_key lease) of
       None \<Rightarrow> Inl StaleLease
     | Some row \<Rightarrow>
         if owns_row lease at row
         then store_lease (row\<lparr>wl_released_at := wl_released_at candidate,
                wl_version := wl_version row + 1\<rparr>) table
         else Inl StaleLease))"


section \<open>Runs of the repository\<close>

datatype lease_op =
    Acquire string string string string string datetime datetime
  | Heartbeat workspace_lease datetime datetime
  | Release workspace_lease datetime

record lease_system =
  ls_table :: lease_table
  ls_issued :: "workspace_lease list"

fun lease_call :: "lease_op \<Rightarrow> lease_table \<Rightarrow> (workspace_lease \<times> lease_table) res" where
  "lease_call (Acquire i g p w h a e) table = acquire_lease i g p w h a e table"
| "lease_call (Heartbeat l a e) table = heartbeat_stored l a e table"
| "lease_call (Release l a) table = release_stored l a table"

definition lease_step :: "lease_op \<Rightarrow> lease_system \<Rightarrow> lease_system res" where
  "lease_step a s = bindr (lease_call a (ls_table s)) (\<lambda>(l, table).
     Inr \<lparr>ls_table = table, ls_issued = l # ls_issued s\<rparr>)"

definition empty_leases :: lease_system where
  "empty_leases = \<lparr>ls_table = [], ls_issued = []\<rparr>"

definition same_owner :: "workspace_lease \<Rightarrow> workspace_lease \<Rightarrow> bool" where
  "same_owner l m = (wl_lease_id l = wl_lease_id m \<and> wl_holder_attempt_id l = wl_holder_attempt_id m)"

text \<open>A valid row has aware, ordered times, a positive token, and its own key.\<close>

definition rows_ok :: "lease_table \<Rightarrow> bool" where
  "rows_ok table = (distinct (map fst table)
     \<and> (\<forall>k l. map_of table k = Some l \<longrightarrow> lease_ok l \<and> lease_key l = k))"

definition leases_ok :: "lease_system \<Rightarrow> bool" where
  "leases_ok s = (rows_ok (ls_table s)
     \<and> (\<forall>l\<in>set (ls_issued s). \<exists>row. map_of (ls_table s) (lease_key l) = Some row
          \<and> wl_fencing_token l \<le> wl_fencing_token row
          \<and> (wl_fencing_token l = wl_fencing_token row \<longrightarrow> same_owner l row))
     \<and> (\<forall>l\<in>set (ls_issued s). \<forall>m\<in>set (ls_issued s).
          lease_key l = lease_key m \<and> wl_fencing_token l = wl_fencing_token m \<longrightarrow> same_owner l m))"

text \<open>Every successful call stores a row for its workspace and returns it: a new owner with a greater
  token, or the owner of the row with the same token.\<close>

definition stores :: "lease_table \<Rightarrow> workspace_lease \<Rightarrow> lease_table \<Rightarrow> bool" where
  "stores table l table' = (lease_ok l \<and> table' = dict_set table (lease_key l) l
     \<and> (case map_of table (lease_key l) of None \<Rightarrow> True
         | Some row \<Rightarrow> wl_fencing_token row < wl_fencing_token l
             \<or> wl_fencing_token row = wl_fencing_token l \<and> same_owner l row))"

lemma uuid_not_space: "hex_digit c \<or> c = CHR ''-'' \<Longrightarrow> \<not> is_space c"
proof -
  assume "hex_digit c \<or> c = CHR ''-''"
  then have "33 \<le> (of_char c :: nat)" "(of_char c :: nat) \<le> 126"
    by (auto simp: hex_digit_def is_digit_def less_eq_char_def)
  then show ?thesis by (simp add: is_space_def Let_def)
qed

lemma uuid_text: "is_uuid s \<Longrightarrow> strip s = s \<and> s \<noteq> [] \<and> length s \<le> 200"
proof -
  assume u: "is_uuid s"
  then have len: "length s = 36" by (simp add: is_uuid_def)
  then have ne: "s \<noteq> []" by auto
  have all: "list_all (\<lambda>i. if i \<in> {8, 13, 18, 23} then s ! i = CHR ''-'' else hex_digit (s ! i)) [0..<36]"
    using u unfolding is_uuid_def by (rule conjunct2)
  have char: "\<not> is_space (s ! i)" if "i < 36" for i
  proof -
    have "i \<in> set [0..<36]" using that by simp
    then have "if i \<in> {8, 13, 18, 23} then s ! i = CHR ''-'' else hex_digit (s ! i)"
      using all unfolding list_all_iff by blast
    then have "hex_digit (s ! i) \<or> s ! i = CHR ''-''" by (simp split: if_splits)
    then show ?thesis by (rule uuid_not_space)
  qed
  have "\<not> is_space (hd s)" "\<not> is_space (hd (rev s))"
    using len ne char[of 0] char[of 35] by (simp_all add: hd_conv_nth hd_rev last_conv_nth)
  then have "strip s = s" by (simp add: strip_def dropWhile_hd)
  then show ?thesis using len ne by simp
qed


section \<open>What one call does\<close>

lemma map_of_rows_ok:
  "rows_ok table \<Longrightarrow> map_of table k = Some l \<Longrightarrow> lease_ok l \<and> lease_key l = k"
  by (simp add: rows_ok_def)

lemma uuid_required: "is_uuid s \<Longrightarrow> required_text 200 s = Inr s"
  using uuid_text[of s] by (auto simp: required_text_def)

lemma store_lease_result:
  assumes "store_lease l table = Inr (m, table')" "is_uuid (wl_lease_id l)" "is_uuid (wl_project_id l)"
    "is_uuid (wl_workspace_id l)" "is_uuid (wl_holder_attempt_id l)"
  shows "m = l \<and> lease_ok l \<and> table' = dict_set table (lease_key l) l"
proof -
  have "mk_workspace_lease l = Inr m" "table' = dict_set table (lease_key l) l"
    using assms(1) by (auto simp: store_lease_def lease_from_row_def res_simps split: sum.splits)
  then show ?thesis
    using mk_workspace_lease_Inr[of l m] uuid_text assms(2-5) by auto
qed

lemma acquire_lease_Inr:
  assumes "acquire_lease i g p w h a e table = Inr (m, table')"
  obtains l where "m = l" "lease_ok l" "table' = dict_set table (lease_key l) l"
    "lease_key l = (g, p, w)" "wl_acquired_at l = a" "wl_lease_id l = i" "wl_holder_attempt_id l = h"
    "case map_of table (g, p, w) of None \<Rightarrow> wl_fencing_token l = 1
      | Some row \<Rightarrow> wl_fencing_token l = wl_fencing_token row + 1
          \<and> (wl_released_at row \<noteq> None \<or> at_time (wl_expires_at row) \<le> at_time a)"
proof -
  let ?x = "\<lparr>wl_lease_id = i, wl_organization_id = g, wl_project_id = p,
           wl_workspace_id = w, wl_holder_attempt_id = h, wl_fencing_token = 1,
           wl_acquired_at = a, wl_heartbeat_at = a, wl_expires_at = e,
           wl_version = 1, wl_released_at = None\<rparr>"
  obtain l where l: "acquire_row ?x (map_of table (lease_key ?x)) = Some l" "is_uuid (wl_lease_id l)"
    "store_lease l table = Inr (m, table')" "is_uuid p" "is_uuid w" "is_uuid h"
    using assms by (auto simp: acquire_lease_def require_uuid_def res_simps Let_def lease_id_column_def
        split: option.splits)
  have f: "wl_project_id l = p" "wl_workspace_id l = w" "wl_holder_attempt_id l = h"
    "wl_organization_id l = g" "wl_acquired_at l = a" "wl_lease_id l = i"
    using l(1) by (auto simp: acquire_row_def split: option.splits if_splits)
  have token: "case map_of table (g, p, w) of None \<Rightarrow> wl_fencing_token l = 1
      | Some row \<Rightarrow> wl_fencing_token l = wl_fencing_token row + 1
          \<and> (wl_released_at row \<noteq> None \<or> at_time (wl_expires_at row) \<le> at_time a)"
    using l(1) by (auto simp: acquire_row_def lease_key_def split: option.splits if_splits)
  from store_lease_result[OF l(3,2)] f l(4-6)
  have "m = l \<and> lease_ok l \<and> table' = dict_set table (lease_key l) l" by simp
  then show thesis
    by (intro that[of l]) (use token f in \<open>simp_all add: lease_key_def\<close>)
qed

lemma heartbeat_stored_Inr:
  assumes "heartbeat_stored l a e table = Inr (m, table')" "rows_ok table"
  obtains row where "map_of table (lease_key l) = Some row" "owns_row l a row" "aware a"
    "lease_ok m" "table' = dict_set table (lease_key m) m" "lease_key m = lease_key l"
    "wl_fencing_token m = wl_fencing_token row" "same_owner m row"
proof -
  obtain row c where r: "map_of table (lease_key l) = Some row" "owns_row l a row"
    "lease_heartbeat l (wl_fencing_token l) a e = Inr c" "lease_uuids l = Inr ()"
    "store_lease (row\<lparr>wl_heartbeat_at := wl_heartbeat_at c, wl_expires_at := wl_expires_at c,
       wl_version := wl_version row + 1\<rparr>) table = Inr (m, table')"
    using assms(1) by (auto simp: heartbeat_stored_def res_simps split: option.splits if_splits)
  have key: "lease_key row = lease_key l" using map_of_rows_ok[OF assms(2) r(1)] by simp
  have u: "is_uuid (wl_project_id l)" "is_uuid (wl_workspace_id l)" "is_uuid (wl_lease_id l)"
    "is_uuid (wl_holder_attempt_id l)"
    using r(4) by (auto simp: lease_uuids_def require_uuid_def res_simps)
  have "aware a"
    using r(3) by (auto simp: lease_heartbeat_def require_fencing_token_def is_active_at_def res_simps)
  then show thesis
    using store_lease_result[OF r(5)] u key r(1,2)
    by (intro that[of row]) (auto simp: owns_row_def lease_key_def same_owner_def)
qed

lemma release_stored_Inr:
  assumes "release_stored l a table = Inr (m, table')" "rows_ok table"
  obtains row where "map_of table (lease_key l) = Some row" "owns_row l a row" "aware a"
    "lease_ok m" "table' = dict_set table (lease_key m) m" "lease_key m = lease_key l"
    "wl_fencing_token m = wl_fencing_token row" "same_owner m row"
proof -
  obtain row c where r: "map_of table (lease_key l) = Some row" "owns_row l a row"
    "lease_release l (wl_fencing_token l) a = Inr c" "lease_uuids l = Inr ()"
    "store_lease (row\<lparr>wl_released_at := wl_released_at c, wl_version := wl_version row + 1\<rparr>) table
      = Inr (m, table')"
    using assms(1) by (auto simp: release_stored_def res_simps split: option.splits if_splits)
  have key: "lease_key row = lease_key l" using map_of_rows_ok[OF assms(2) r(1)] by simp
  have u: "is_uuid (wl_project_id l)" "is_uuid (wl_workspace_id l)" "is_uuid (wl_lease_id l)"
    "is_uuid (wl_holder_attempt_id l)"
    using r(4) by (auto simp: lease_uuids_def require_uuid_def res_simps)
  have "aware a"
    using r(3) by (auto simp: lease_release_def require_fencing_token_def is_active_at_def res_simps)
  then show thesis
    using store_lease_result[OF r(5)] u key r(1,2)
    by (intro that[of row]) (auto simp: owns_row_def lease_key_def same_owner_def)
qed

lemma lease_call_stores:
  assumes "lease_call a table = Inr (l, table')" "rows_ok table"
  shows "stores table l table'"
proof (cases a)
  case (Acquire i g p w h t e)
  with assms(1) have "acquire_lease i g p w h t e table = Inr (l, table')" by simp
  then show ?thesis by (rule acquire_lease_Inr) (auto simp: stores_def split: option.splits)
next
  case (Heartbeat m t e)
  with assms(1) have "heartbeat_stored m t e table = Inr (l, table')" by simp
  then show ?thesis by (rule heartbeat_stored_Inr[OF _ assms(2)]) (simp add: stores_def)
next
  case (Release m t)
  with assms(1) have "release_stored m t table = Inr (l, table')" by simp
  then show ?thesis by (rule release_stored_Inr[OF _ assms(2)]) (simp add: stores_def)
qed

lemma stores_rows_ok: "rows_ok table \<Longrightarrow> stores table l table' \<Longrightarrow> rows_ok table'"
  by (auto simp: rows_ok_def stores_def map_of_dict_set distinct_dict_set split: if_splits)

lemma same_owner_trans: "same_owner l m \<Longrightarrow> same_owner m n \<Longrightarrow> same_owner l n"
  by (simp add: same_owner_def)

lemma same_owner_refl: "same_owner l l"
  by (simp add: same_owner_def)

lemma same_owner_sym: "same_owner l m \<Longrightarrow> same_owner m l"
  by (simp add: same_owner_def)


section \<open>The invariant of all runs\<close>

lemma lease_step_Inr:
  assumes "lease_step a s = Inr s'"
  obtains l where "lease_call a (ls_table s) = Inr (l, ls_table s')" "ls_issued s' = l # ls_issued s"
  using assms by (auto simp: lease_step_def res_simps)

lemma leases_ok_step:
  assumes ok: "leases_ok s" and step: "lease_step a s = Inr s'"
  shows "leases_ok s'"
proof -
  let ?t = "ls_table s" and ?t' = "ls_table s'"
  obtain l where l: "lease_call a ?t = Inr (l, ?t')" "ls_issued s' = l # ls_issued s"
    using step by (rule lease_step_Inr)
  have rows: "rows_ok ?t"
    and cur: "\<And>m. m \<in> set (ls_issued s) \<Longrightarrow> \<exists>row. map_of ?t (lease_key m) = Some row
          \<and> wl_fencing_token m \<le> wl_fencing_token row
          \<and> (wl_fencing_token m = wl_fencing_token row \<longrightarrow> same_owner m row)"
    and pair: "\<And>m n. m \<in> set (ls_issued s) \<Longrightarrow> n \<in> set (ls_issued s) \<Longrightarrow> lease_key m = lease_key n \<Longrightarrow>
          wl_fencing_token m = wl_fencing_token n \<Longrightarrow> same_owner m n"
    using ok unfolding leases_ok_def by blast+
  have st: "stores ?t l ?t'" by (rule lease_call_stores[OF l(1) rows])
  have new: "map_of ?t' k = (if k = lease_key l then Some l else map_of ?t k)" for k
    using st by (auto simp: stores_def map_of_dict_set)
  have old: "wl_fencing_token m \<le> wl_fencing_token l
      \<and> (wl_fencing_token m = wl_fencing_token l \<longrightarrow> same_owner m l)"
    if m: "m \<in> set (ls_issued s)" "lease_key m = lease_key l" for m
  proof -
    obtain row where "map_of ?t (lease_key l) = Some row" "wl_fencing_token m \<le> wl_fencing_token row"
      "wl_fencing_token m = wl_fencing_token row \<longrightarrow> same_owner m row"
      using cur[OF m(1)] m(2) by auto
    then show ?thesis using st by (auto simp: stores_def intro: same_owner_trans same_owner_sym)
  qed
  have "rows_ok ?t'" by (rule stores_rows_ok[OF rows st])
  moreover have "\<exists>row. map_of ?t' (lease_key m) = Some row \<and> wl_fencing_token m \<le> wl_fencing_token row
      \<and> (wl_fencing_token m = wl_fencing_token row \<longrightarrow> same_owner m row)" if "m \<in> set (ls_issued s')" for m
  proof (cases "m \<in> set (ls_issued s) \<and> lease_key m \<noteq> lease_key l")
    case True
    then show ?thesis using cur[of m] by (simp add: new)
  next
    case False
    then show ?thesis using that l(2) old[of m] by (auto simp: new same_owner_def)
  qed
  moreover have "same_owner m n" if "m \<in> set (ls_issued s')" "n \<in> set (ls_issued s')"
    "lease_key m = lease_key n" "wl_fencing_token m = wl_fencing_token n" for m n
  proof -
    have "m = l \<or> m \<in> set (ls_issued s)" "n = l \<or> n \<in> set (ls_issued s)"
      using that(1,2) l(2) by auto
    then show ?thesis
      using that(3,4) old[of m] old[of n] pair[of m n] same_owner_sym[of n l] same_owner_refl
      by (elim disjE) simp_all
  qed
  ultimately show ?thesis unfolding leases_ok_def by blast
qed

lemma leases_ok_empty: "leases_ok empty_leases"
  by (simp add: leases_ok_def empty_leases_def rows_ok_def)

text \<open>The token of a workspace, 0 before its first lease.\<close>

definition current_token :: "workspace_key \<Rightarrow> lease_system \<Rightarrow> int" where
  "current_token k s = (case map_of (ls_table s) k of None \<Rightarrow> 0 | Some l \<Rightarrow> wl_fencing_token l)"

lemma lease_ok_token: "lease_ok l \<Longrightarrow> 1 \<le> wl_fencing_token l"
  by (simp add: lease_ok_def lease_times_ok_def)

lemma token_step:
  assumes "leases_ok s" "lease_step a s = Inr s'"
  shows "current_token k s \<le> current_token k s'"
proof -
  obtain l where l: "lease_call a (ls_table s) = Inr (l, ls_table s')"
    using assms(2) by (rule lease_step_Inr)
  have "stores (ls_table s) l (ls_table s')"
    by (rule lease_call_stores[OF l]) (use assms(1) in \<open>simp add: leases_ok_def\<close>)
  then show ?thesis
    by (auto simp: current_token_def stores_def map_of_dict_set dest: lease_ok_token split: option.splits)
qed

interpretation lease_runs: monotone_lifecycle lease_step leases_ok "current_token k" for k
  by unfold_locales (auto intro: leases_ok_step token_step)

lemma reachable_leases_ok: "leases_ok (run_ops lease_step as empty_leases)"
  by (rule lease_runs.run_inv[OF leases_ok_empty])


section \<open>Properties\<close>

text \<open>C14: a fencing token identifies its owner.  In every run of acquisitions, heartbeats and
  releases, whatever leases the callers present, the token of a workspace never decreases, and two
  leases handed out for one workspace with the same token belong to the same lease and attempt.\<close>

theorem fencing_tokens_identify_owner:
  "current_token k (run_ops lease_step as empty_leases)
     \<le> current_token k (run_ops lease_step (as @ bs) empty_leases)
   \<and> (\<forall>l\<in>set (ls_issued (run_ops lease_step as empty_leases)).
        \<forall>m\<in>set (ls_issued (run_ops lease_step as empty_leases)).
          lease_key l = lease_key m \<and> wl_fencing_token l = wl_fencing_token m \<longrightarrow> same_owner l m)"
  using lease_runs.run_rank[OF reachable_leases_ok[of as], of k bs] reachable_leases_ok[of as]
  unfolding run_ops_append leases_ok_def by blast

text \<open>A run for the witnesses: an attempt acquires and renews a lease, lets it expire, and another
  attempt takes the workspace over.\<close>

definition example_uuid :: "char \<Rightarrow> string" where
  "example_uuid c = replicate 8 c @ ''-'' @ replicate 4 c @ ''-'' @ replicate 4 c @ ''-'' @ replicate 4 c
     @ ''-'' @ replicate 12 c"

definition example_lease :: "char \<Rightarrow> int \<Rightarrow> int \<Rightarrow> int \<Rightarrow> workspace_lease" where
  "example_lease c token t expires = \<lparr>wl_lease_id = example_uuid c, wl_organization_id = ''org'',
     wl_project_id = example_uuid (CHR ''1''), wl_workspace_id = example_uuid (CHR ''2''),
     wl_holder_attempt_id = example_uuid c, wl_fencing_token = token, wl_acquired_at = Aware t,
     wl_heartbeat_at = Aware t, wl_expires_at = Aware expires, wl_version = token,
     wl_released_at = None\<rparr>"

definition example_acquire :: "char \<Rightarrow> int \<Rightarrow> int \<Rightarrow> lease_op" where
  "example_acquire c t expires = Acquire (example_uuid c) ''org'' (example_uuid (CHR ''1''))
     (example_uuid (CHR ''2'')) (example_uuid c) (Aware t) (Aware expires)"

definition example_ops :: "lease_op list" where
  "example_ops = [example_acquire (CHR ''a'') 0 10,
     Heartbeat (example_lease (CHR ''a'') 1 0 10) (Aware 5) (Aware 15)]"

definition example_takeover :: "lease_op list" where
  "example_takeover = [example_acquire (CHR ''a'') 0 10, example_acquire (CHR ''b'') 20 30]"

lemma example_issued:
  "ls_issued (run_ops lease_step example_takeover empty_leases)
     = [(example_lease (CHR ''b'') 2 20 30), example_lease (CHR ''a'') 1 0 10]"
  by code_simp

theorem fencing_tokens_identify_owner_witness:
  "same_owner (example_lease (CHR ''a'') 1 0 10)
     (hd (ls_issued (run_ops lease_step example_ops empty_leases)))"
proof -
  have "example_lease (CHR ''a'') 1 0 10 \<in> set (ls_issued (run_ops lease_step example_ops empty_leases))"
    "hd (ls_issued (run_ops lease_step example_ops empty_leases))
      \<in> set (ls_issued (run_ops lease_step example_ops empty_leases))"
    "lease_key (example_lease (CHR ''a'') 1 0 10)
      = lease_key (hd (ls_issued (run_ops lease_step example_ops empty_leases)))"
    "wl_fencing_token (example_lease (CHR ''a'') 1 0 10)
      = wl_fencing_token (hd (ls_issued (run_ops lease_step example_ops empty_leases)))"
    by code_simp+
  then show ?thesis using fencing_tokens_identify_owner[where as = example_ops and bs = "[]"] by blast
qed

text \<open>A superseded owner can do nothing.  Once a lease with a greater token was handed out for
  the workspace, every heartbeat and every release of the older lease fails and leaves the table as
  it is, at any time and with any requested expiry.\<close>

theorem superseded_lease_is_fenced:
  assumes "l \<in> set (ls_issued (run_ops lease_step as empty_leases))"
    and "supersedes l old"
  shows "(\<forall>m. heartbeat_stored old at expires (ls_table (run_ops lease_step as empty_leases)) \<noteq> Inr m)
    \<and> (\<forall>m. release_stored old at (ls_table (run_ops lease_step as empty_leases)) \<noteq> Inr m)"
proof -
  let ?s = "run_ops lease_step as empty_leases"
  have ok: "leases_ok ?s" by (rule reachable_leases_ok)
  then have rows: "rows_ok (ls_table ?s)" by (simp add: leases_ok_def)
  have key: "lease_key l = lease_key old" and tok: "wl_fencing_token old < wl_fencing_token l"
    using assms(2) by (auto simp: supersedes_def lease_key_def)
  obtain row where row: "map_of (ls_table ?s) (lease_key old) = Some row"
    "wl_fencing_token l \<le> wl_fencing_token row"
    using ok assms(1) key unfolding leases_ok_def by metis
  then have "\<not> owns_row old at row" using tok by (auto simp: owns_row_def)
  then show ?thesis
    using row(1) heartbeat_stored_Inr[OF _ rows] release_stored_Inr[OF _ rows]
    by (metis option.inject surj_pair)
qed

theorem superseded_lease_is_fenced_witness:
  "\<nexists>m. heartbeat_stored (example_lease (CHR ''a'') 1 0 10) (Aware 5) (Aware 40)
     (ls_table (run_ops lease_step example_takeover empty_leases)) = Inr m"
proof -
  have "example_lease (CHR ''b'') 2 20 30 \<in> set (ls_issued (run_ops lease_step example_takeover empty_leases))"
    by (simp add: example_issued)
  moreover have "supersedes (example_lease (CHR ''b'') 2 20 30) (example_lease (CHR ''a'') 1 0 10)"
    by (simp add: supersedes_def example_lease_def)
  ultimately show ?thesis using superseded_lease_is_fenced by blast
qed

text \<open>C15: at most one active owner.  An acquisition succeeds only when the stored lease of the
  workspace is released or expired at the moment of the acquisition, and then hands out the next
  token; while the stored lease is active the acquisition raises.\<close>

theorem acquire_excludes_active_owner:
  assumes "acquire_lease i g p w h a e (ls_table (run_ops lease_step as empty_leases)) = Inr (l, table')"
  shows "wl_fencing_token l = current_token (g, p, w) (run_ops lease_step as empty_leases) + 1
    \<and> lease_key l = (g, p, w) \<and> wl_holder_attempt_id l = h
    \<and> is_active_at l a = Inr True
    \<and> (case map_of (ls_table (run_ops lease_step as empty_leases)) (g, p, w) of None \<Rightarrow> True
       | Some row \<Rightarrow> is_active_at row a = Inr False \<and> supersedes l row)"
proof -
  let ?t = "ls_table (run_ops lease_step as empty_leases)"
  have rows: "rows_ok ?t" using reachable_leases_ok[of as] by (simp add: leases_ok_def)
  from assms obtain m where m: "l = m" "lease_ok m" "lease_key m = (g, p, w)" "wl_acquired_at m = a"
    "wl_holder_attempt_id m = h"
    "case map_of ?t (g, p, w) of None \<Rightarrow> wl_fencing_token m = 1
      | Some row \<Rightarrow> wl_fencing_token m = wl_fencing_token row + 1
          \<and> (wl_released_at row \<noteq> None \<or> at_time (wl_expires_at row) \<le> at_time a)"
    by (rule acquire_lease_Inr)
  have aware: "aware a" "at_time a < at_time (wl_expires_at m)"
    using m(2,4) by (auto simp: lease_ok_def lease_times_ok_def)
  have fresh: "wl_released_at l = None"
    using assms by (auto simp: acquire_lease_def acquire_row_def store_lease_def lease_from_row_def
        res_simps Let_def split: option.splits sum.splits if_splits dest!: mk_workspace_lease_Inr)
  have "map_of ?t (g, p, w) = Some row \<Longrightarrow> lease_key row = (g, p, w)" for row
    using map_of_rows_ok[OF rows] by simp
  then show ?thesis
    using m aware fresh
    by (auto simp: current_token_def is_active_at_def supersedes_def lease_key_def split: option.splits)
qed

theorem acquire_excludes_active_owner_witness:
  "\<exists>l table'. acquire_lease (example_uuid (CHR ''b'')) ''org'' (example_uuid (CHR ''1''))
      (example_uuid (CHR ''2'')) (example_uuid (CHR ''b'')) (Aware 20) (Aware 30)
      (ls_table (run_ops lease_step [example_acquire (CHR ''a'') 0 10] empty_leases)) = Inr (l, table')
    \<and> wl_fencing_token l = current_token (''org'', example_uuid (CHR ''1''), example_uuid (CHR ''2''))
        (run_ops lease_step [example_acquire (CHR ''a'') 0 10] empty_leases) + 1"
proof -
  let ?r = "acquire_lease (example_uuid (CHR ''b'')) ''org'' (example_uuid (CHR ''1''))
      (example_uuid (CHR ''2'')) (example_uuid (CHR ''b'')) (Aware 20) (Aware 30)
      (ls_table (run_ops lease_step [example_acquire (CHR ''a'') 0 10] empty_leases))"
  have "\<not> isl ?r" by code_simp
  then obtain l table' where "?r = Inr (l, table')" by (cases ?r) auto
  with acquire_excludes_active_owner[OF this] show ?thesis by blast
qed

end
