(* ===== verification/Texts.thy ===== *)
theory Texts
imports Prelude
begin

text \<open>
  Texts the program builds and reads: decimal numerals, hexadecimal digits, comma-separated lists and
  numerals of fixed width, with the facts that make them readable again.
\<close>

fun decimal :: "nat \<Rightarrow> string" where
  "decimal n = (if n < 10 then [char_of (48 + n)] else decimal (n div 10) @ [char_of (48 + n mod 10)])"

declare decimal.simps [simp del]

definition hex_char :: "nat \<Rightarrow> char" where
  "hex_char n = char_of (if n < 10 then 48 + n else 87 + n)"

fun commas :: "string list \<Rightarrow> string" where
  "commas [] = []"
| "commas [x] = x"
| "commas (x # y # xs) = x @ '','' @ commas (y # xs)"

definition int_text :: "int \<Rightarrow> string" where
  "int_text i = (if i < 0 then CHR ''-'' # decimal (nat (- i)) else decimal (nat i))"

text \<open>The number a run of digits denotes.\<close>

definition digit_of :: "char \<Rightarrow> nat" where
  "digit_of c = of_char c - 48"

definition nat_of_digits :: "string \<Rightarrow> nat" where
  "nat_of_digits s = foldl (\<lambda>n c. 10 * n + digit_of c) 0 s"

text \<open>\<open>format(n, "0wd")\<close>.\<close>

definition padded :: "nat \<Rightarrow> nat \<Rightarrow> string" where
  "padded w n = replicate (w - length (decimal n)) (CHR ''0'') @ decimal n"

lemma digit_char [simp]:
  assumes "n < 10"
  shows "is_digit (char_of (48 + n))" "digit_of (char_of (48 + n)) = n"
  using assms by (simp_all add: is_digit_def less_eq_char_def digit_of_def)

lemma is_digit_code: "is_digit c \<Longrightarrow> 48 \<le> (of_char c :: nat) \<and> (of_char c :: nat) \<le> 57"
  by (simp add: is_digit_def less_eq_char_def)

lemma nat_of_digits_snoc: "nat_of_digits (s @ [c]) = 10 * nat_of_digits s + digit_of c"
  by (simp add: nat_of_digits_def)

lemma decimal_digits: "decimal n \<noteq> [] \<and> list_all is_digit (decimal n) \<and> nat_of_digits (decimal n) = n"
proof (induction n rule: decimal.induct)
  case (1 n)
  show ?case
  proof (cases "n < 10")
    case True
    then show ?thesis by (simp add: decimal.simps[of n] nat_of_digits_def)
  next
    case False
    then show ?thesis
      using 1 by (simp add: decimal.simps[of n] nat_of_digits_snoc)
  qed
qed

lemmas decimal_read [simp] = decimal_digits[THEN conjunct1] decimal_digits[THEN conjunct2, THEN conjunct1]
  decimal_digits[THEN conjunct2, THEN conjunct2]

lemma decimal_inject [simp]: "decimal m = decimal n \<longleftrightarrow> m = n"
  by (metis decimal_read(3))

lemma decimal_hd: "hd (decimal n) \<noteq> CHR ''-''"
proof -
  have "is_digit (hd (decimal n))" using decimal_read[of n] by (cases "decimal n") simp_all
  then show ?thesis by (auto simp: is_digit_def less_eq_char_def)
qed

lemma int_text_inject [simp]: "int_text i = int_text j \<longleftrightarrow> i = j"
proof
  assume "int_text i = int_text j"
  then show "i = j"
    using decimal_hd[of "nat i"] decimal_hd[of "nat j"]
    by (auto simp: int_text_def split: if_splits dest: arg_cong[of _ _ hd])
qed simp

text \<open>A numeral that fits is read back from its padded form.\<close>

lemma nat_of_digits_zeros: "nat_of_digits (replicate k (CHR ''0'') @ s) = nat_of_digits s"
  by (induction k) (simp_all add: nat_of_digits_def digit_of_def)

lemma padded_read [simp]: "list_all is_digit (padded w n)" "nat_of_digits (padded w n) = n"
proof -
  show "nat_of_digits (padded w n) = n" by (simp add: padded_def nat_of_digits_zeros)
  show "list_all is_digit (padded w n)" 
    using decimal_read(2)[of n] by (auto simp: padded_def list_all_iff) (simp add: is_digit_def)
qed

lemma length_decimal: "n < 10 ^ w \<Longrightarrow> 0 < w \<Longrightarrow> length (decimal n) \<le> w"
proof (induction w arbitrary: n)
  case (Suc w)
  show ?case
  proof (cases "n < 10")
    case True
    then show ?thesis by (simp add: decimal.simps[of n])
  next
    case False
    then have "0 < w" using Suc.prems by (cases w) simp_all
    then have "length (decimal (n div 10)) \<le> w" using Suc.prems(1) by (intro Suc.IH) auto
    then show ?thesis using False by (simp add: decimal.simps[of n])
  qed
qed simp

lemma length_padded: "n < 10 ^ w \<Longrightarrow> 0 < w \<Longrightarrow> length (padded w n) = w"
  using length_decimal[of n w] by (simp add: padded_def)

end
