(* ===== verification/Operation_Journal.thy ===== *)
theory Operation_Journal
imports Lease_Store Texts
begin

text \<open>
  The PostgreSQL operation journal (\<open>adapters/postgresql/coordination.py\<close>,
  \<open>PsycopgOperationJournal\<close>): its four tables, the reservation of an idempotency key, the recording of
  data-plane and projection receipts, the recovery transitions, and the current projection pointer of a
  project and kind.  Every call is one transaction, so an error leaves the tables as they were; the
  \<open>CHECK\<close> and \<open>UNIQUE\<close> constraints of \<open>adapters/postgresql/migrations.py\<close> that a call can violate are
  guards of the model (a violated \<open>CHECK\<close> is a storage error, a violated \<open>UNIQUE\<close> an idempotency
  conflict).  The project row a foreign key needs is taken to exist.  A \<open>timestamptz\<close> column keeps
  an instant and no zone: it is read back in the time zone of the session, which the adapter does not
  set.  That zone is a constant of the database, \<open>j_zone\<close>, and it decides whether a stored receipt
  still has the digest it was stored with (\<open>read_receipt\<close>, \<open>data_receipt_from_row\<close>).
\<close>


section \<open>Columns\<close>

text \<open>\<open>btrim\<close> removes spaces only.\<close>

definition btrim :: "string \<Rightarrow> string" where
  "btrim s = rev (dropWhile (\<lambda>c. c = CHR '' '') (rev (dropWhile (\<lambda>c. c = CHR '' '') s)))"

definition text_column :: "nat \<Rightarrow> string \<Rightarrow> bool" where
  "text_column maximum s = (s \<noteq> [] \<and> s = btrim s \<and> length s \<le> maximum)"

definition bigint_column :: "int \<Rightarrow> bool" where
  "bigint_column n = (0 < n \<and> n < 2 ^ 63)"

definition request_columns :: "operation_request \<Rightarrow> bool" where
  "request_columns r = (length (or_organization_id r) \<le> 200 \<and> text_column 300 (or_operation_kind r)
     \<and> text_column 300 (or_idempotency_key r) \<and> sha256_text (or_semantic_input_hash r)
     \<and> text_column 300 (or_authorization_receipt_id r)
     \<and> text_column 500 (actor_issuer (or_requested_by r))
     \<and> text_column 500 (actor_subject_id (or_requested_by r))
     \<and> text_column 200 (actor_display_name (or_requested_by r)))"

definition receipt_columns :: "data_receipt \<Rightarrow> string \<Rightarrow> bool" where
  "receipt_columns r hash = (text_column 300 (dr_receipt_id r) \<and> text_column 300 (dr_operation_kind r)
     \<and> sha256_text (dr_semantic_input_hash r) \<and> sha256_text (dr_evidence_hash r) \<and> sha256_text hash
     \<and> (case dr_fencing_token r of None \<Rightarrow> True | Some t \<Rightarrow> bigint_column t))"

definition projection_columns :: "projection_receipt \<Rightarrow> bool" where
  "projection_columns p = (text_column 300 (pr_projection_receipt_id p)
     \<and> sha256_text (pr_data_plane_receipt_hash p) \<and> sha256_text (pr_projection_hash p)
     \<and> bigint_column (pr_projection_revision p))"


section \<open>The artifact column\<close>

text \<open>\<open>json.dumps\<close> with \<open>ensure_ascii\<close>, no spaces and sorted keys.\<close>

definition json_char :: "char \<Rightarrow> string" where
  "json_char c = (let n = of_char c :: nat in
     if n = 34 \<or> n = 92 then [CHR 0x5C, c]
     else if n = 10 then CHR 0x5C # ''n'' else if n = 13 then CHR 0x5C # ''r''
     else if n = 9 then CHR 0x5C # ''t'' else if n = 8 then CHR 0x5C # ''b''
     else if n = 12 then CHR 0x5C # ''f''
     else if 32 \<le> n \<and> n \<le> 126 then [c]
     else CHR 0x5C # ''u00'' @ [hex_char (n div 16), hex_char (n mod 16)])"

definition json_text :: "string \<Rightarrow> string" where
  "json_text s = CHR 0x22 # concat (map json_char s) @ [CHR 0x22]"

definition json_field :: "string \<Rightarrow> string \<Rightarrow> string" where
  "json_field name v = json_text name @ '':'' @ v"

definition artifact_object :: "artifact_identity \<Rightarrow> string" where
  "artifact_object a = ''{'' @ commas
     [json_field ''artifact_id'' (json_text (ai_artifact_id a)),
      json_field ''artifact_kind'' (json_text (ai_artifact_kind a)),
      json_field ''media_type'' (json_text (ai_media_type a)),
      json_field ''owner_id'' (json_text (ai_owner_id a)),
      json_field ''owner_kind'' (json_text (ai_owner_kind a)),
      json_field ''sha256'' (json_text (ai_sha256 a)),
      json_field ''size_bytes'' (decimal (nat (ai_size_bytes a))),
      json_field ''storage_key'' (json_text (ai_storage_key a))] @ ''}''"

definition artifact_json :: "artifact_identity list \<Rightarrow> string res" where
  "artifact_json artifacts =
     bindr (checkr (int (length artifacts) \<le> 1000) FoundationError) (\<lambda>_.
     let encoded = ''['' @ commas (map artifact_object artifacts) @ '']'' in
     bindr (checkr (int (length encoded) \<le> 1000000) FoundationError) (\<lambda>_. Inr encoded))"


section \<open>The tables\<close>

type_synonym projection_slot = "string \<times> string \<times> string"

record operation_row =
  ow_request :: operation_request
  ow_state :: operation_state
  ow_data_hash :: "string option"
  ow_interrupted_at :: "datetime option"
  ow_disposition :: "recovery_disposition option"

record receipt_row =
  rr_receipt :: data_receipt
  rr_hash :: string

record current_row =
  cr_operation_id :: string
  cr_data_hash :: string
  cr_projection_hash :: string
  cr_revision :: int
  cr_committed_at :: datetime
  cr_projected_at :: datetime

text \<open>\<open>j_zone t\<close> is the offset from UTC that the sessions' \<open>TimeZone\<close> has at the instant \<open>t\<close>; no
  operation changes it.\<close>

record journal =
  j_zone :: "int \<Rightarrow> int"
  j_operations :: "(operation_id \<times> operation_row) list"
  j_receipts :: "(operation_id \<times> receipt_row) list"
  j_projections :: "(operation_id \<times> projection_receipt) list"
  j_current :: "(projection_slot \<times> current_row) list"

definition empty_journal :: "(int \<Rightarrow> int) \<Rightarrow> journal" where
  "empty_journal zone = \<lparr>j_zone = zone, j_operations = [], j_receipts = [], j_projections = [], j_current = []\<rparr>"

text \<open>A decoder turns the \<open>ValueError\<close> of a constructor into a storage error.\<close>

definition decoded :: "'a res \<Rightarrow> 'a res" where
  "decoded m = (case m of Inl ValueError \<Rightarrow> Inl StorageError | _ \<Rightarrow> m)"

definition operation_from_row :: "operation_row \<Rightarrow> operation_request res" where
  "operation_from_row row = decoded (build_request (ow_request row))"

text \<open>The columns of a receipt as a session reads them: \<open>committed_at\<close> is the stored instant, shown at
  the session's offset, whatever offset the recorded receipt had.\<close>

definition read_receipt :: "(int \<Rightarrow> int) \<Rightarrow> data_receipt \<Rightarrow> data_receipt" where
  "read_receipt zone r = r\<lparr>dr_committed_offset := zone (at_time (dr_committed_at r))\<rparr>"

definition data_receipt_from_row :: "(int \<Rightarrow> int) \<Rightarrow> digest \<Rightarrow> receipt_row \<Rightarrow> data_receipt res" where
  "data_receipt_from_row zone digest row = decoded (bindr (mk_data_receipt (read_receipt zone (rr_receipt row))) (\<lambda>r.
     bindr (checkr (digest r = rr_hash row) ValueError) (\<lambda>_. Inr r)))"

text \<open>The table of projection receipts has no project column: the decoder takes the operation's.\<close>

definition projection_receipt_from_row :: "operation_request \<Rightarrow> projection_receipt
    \<Rightarrow> projection_receipt res" where
  "projection_receipt_from_row request p = decoded (mk_projection_receipt
     (p\<lparr>pr_organization_id := or_organization_id request, pr_project_id := or_project_id request\<rparr>))"


section \<open>Reservations and reads\<close>

definition operation_by_scope :: "string \<times> string \<Rightarrow> journal \<Rightarrow> operation_row option" where
  "operation_by_scope scope j = map_option snd
     (List.find (\<lambda>(k, row). idempotency_scope (ow_request row) = scope) (j_operations j))"

definition reserve_with_status :: "operation_request \<Rightarrow> journal
    \<Rightarrow> ((operation_request \<times> bool) \<times> journal) res" where
  "reserve_with_status r j =
     bindr (require_uuid (or_operation_id r)) (\<lambda>_. bindr (require_uuid (or_project_id r)) (\<lambda>_.
     bindr (checkr (sha256_text (or_semantic_input_hash r)) FoundationError) (\<lambda>_.
     bindr (checkr (aware (or_requested_at r)) FoundationError) (\<lambda>_.
     bindr (checkr (request_columns r) StorageError) (\<lambda>_.
     case operation_by_scope (idempotency_scope r) j of
       None \<Rightarrow> bindr (checkr (map_of (j_operations j) (operation_key r) = None) IdempotencyConflict) (\<lambda>_.
         Inr ((r, True), j\<lparr>j_operations := dict_set (j_operations j) (operation_key r)
           \<lparr>ow_request = r, ow_state = RESERVED, ow_data_hash = None, ow_interrupted_at = None,
             ow_disposition = None\<rparr>\<rparr>))
     | Some row \<Rightarrow> bindr (operation_from_row row) (\<lambda>existing.
         bindr (require_same_idempotent_request existing r) (\<lambda>_. Inr ((existing, False), j))))))))"

definition snapshot_from_rows :: "(int \<Rightarrow> int) \<Rightarrow> digest \<Rightarrow> operation_row \<Rightarrow> receipt_row option
    \<Rightarrow> projection_receipt option \<Rightarrow> operation_snapshot res" where
  "snapshot_from_rows zone digest row data_row projection_row = decoded
     (bindr (operation_from_row row) (\<lambda>request.
      bindr (optional_res (data_receipt_from_row zone digest) data_row) (\<lambda>receipt.
      bindr (checkr (map_option digest receipt = ow_data_hash row) ValueError) (\<lambda>_.
      bindr (optional_res (projection_receipt_from_row request) projection_row) (\<lambda>projection.
      mk_operation_snapshot digest \<lparr>os_request = request, os_state = ow_state row,
        os_data_receipt = receipt, os_projection = projection,
        os_interrupted_at = ow_interrupted_at row, os_disposition = ow_disposition row\<rparr>)))))"

definition get_operation :: "digest \<Rightarrow> operation_request \<Rightarrow> journal \<Rightarrow> operation_snapshot res" where
  "get_operation digest r j =
     bindr (require_uuid (or_operation_id r)) (\<lambda>_.
     case map_of (j_operations j) (operation_key r) of
       None \<Rightarrow> Inl OperationNotFound
     | Some row \<Rightarrow>
         bindr (operation_from_row row) (\<lambda>stored.
         bindr (require_same_idempotent_request stored r) (\<lambda>_.
         bindr (checkr (or_operation_id stored = or_operation_id r) IdempotencyConflict) (\<lambda>_.
         snapshot_from_rows (j_zone j) digest row
           (if ow_data_hash row \<noteq> None then map_of (j_receipts j) (operation_key r) else None)
           (if ow_state row = PROJECTED then map_of (j_projections j) (operation_key r) else None)))))"


section \<open>Receipts\<close>

definition operation_matches_receipt :: "operation_row \<Rightarrow> data_receipt \<Rightarrow> bool" where
  "operation_matches_receipt row r = (or_project_id (ow_request row) = dr_project_id r
     \<and> or_operation_kind (ow_request row) = dr_operation_kind r
     \<and> or_semantic_input_hash (ow_request row) = dr_semantic_input_hash r)"

text \<open>The unique indexes over organization and receipt identity, against every other row.\<close>

definition receipt_id_free :: "data_receipt \<Rightarrow> journal \<Rightarrow> bool" where
  "receipt_id_free r j = list_all (\<lambda>(k, row). k \<noteq> receipt_key r
     \<and> (fst k, dr_receipt_id (rr_receipt row)) \<noteq> (dr_organization_id r, dr_receipt_id r)) (j_receipts j)"

definition projection_id_free :: "projection_receipt \<Rightarrow> journal \<Rightarrow> bool" where
  "projection_id_free p j = list_all (\<lambda>(k, q). k \<noteq> projection_key p
     \<and> (fst k, pr_projection_receipt_id q) \<noteq> (pr_organization_id p, pr_projection_receipt_id p))
     (j_projections j)"

definition record_data_plane_receipt :: "digest \<Rightarrow> data_receipt \<Rightarrow> journal \<Rightarrow> journal res" where
  "record_data_plane_receipt digest r j =
     bindr (require_uuid (dr_operation_id r)) (\<lambda>_. bindr (require_uuid (dr_project_id r)) (\<lambda>_.
     bindr (case dr_workspace_id r of None \<Rightarrow> Inr () | Some w \<Rightarrow> require_uuid w) (\<lambda>_.
     bindr (artifact_json (dr_artifacts r)) (\<lambda>_.
     case map_of (j_operations j) (receipt_key r) of
       None \<Rightarrow> Inl ReceiptMismatch
     | Some row \<Rightarrow>
         bindr (checkr (operation_matches_receipt row r) ReceiptMismatch) (\<lambda>_.
         case ow_data_hash row of
           Some existing \<Rightarrow> bindr (checkr (existing = digest r) ReceiptMismatch) (\<lambda>_. Inr j)
         | None \<Rightarrow>
             bindr (checkr (ow_state row = RESERVED) ReceiptMismatch) (\<lambda>_.
             bindr (checkr (receipt_columns r (digest r)) StorageError) (\<lambda>_.
             bindr (checkr (receipt_id_free r j) IdempotencyConflict) (\<lambda>_.
             Inr (j\<lparr>j_operations := dict_set (j_operations j) (receipt_key r)
                    (row\<lparr>ow_state := DATA_COMMITTED, ow_data_hash := Some (digest r)\<rparr>),
                  j_receipts := dict_set (j_receipts j) (receipt_key r)
                    \<lparr>rr_receipt = r, rr_hash = digest r\<rparr>\<rparr>)))))))))"


section \<open>The current projection\<close>

definition current_key :: "current_row \<Rightarrow> int \<times> string" where
  "current_key c = (at_time (cr_committed_at c), cr_operation_id c)"

definition candidate_row :: "projection_receipt \<Rightarrow> datetime \<Rightarrow> current_row" where
  "candidate_row p committed_at = \<lparr>cr_operation_id = pr_operation_id p,
     cr_data_hash = pr_data_plane_receipt_hash p, cr_projection_hash = pr_projection_hash p,
     cr_revision = pr_projection_revision p, cr_committed_at = committed_at,
     cr_projected_at = pr_projected_at p\<rparr>"

definition current_accepts :: "current_row \<Rightarrow> projection_receipt \<Rightarrow> datetime \<Rightarrow> bool" where
  "current_accepts c p committed_at =
     (is_uuid (cr_operation_id c) \<and> aware (cr_committed_at c) \<and>
      (if cr_operation_id c \<noteq> pr_operation_id p
       then (at_time committed_at, pr_operation_id p) < current_key c
       else cr_data_hash c = pr_data_plane_receipt_hash p \<and> cr_projection_hash c = pr_projection_hash p
         \<and> cr_revision c = pr_projection_revision p \<and> at_time (cr_committed_at c) = at_time committed_at
         \<and> aware (cr_projected_at c) \<and> at_time (cr_projected_at c) = at_time (pr_projected_at p)))"

definition current_id_free :: "projection_slot \<Rightarrow> current_row \<Rightarrow> journal \<Rightarrow> bool" where
  "current_id_free slot c j = list_all (\<lambda>(s, d). s = slot
     \<or> (fst s, cr_operation_id d) \<noteq> (fst slot, cr_operation_id c)) (j_current j)"

definition advance_projection_current :: "projection_receipt \<Rightarrow> string \<Rightarrow> datetime \<Rightarrow> journal \<Rightarrow> journal res"
where
  "advance_projection_current p kind committed_at j =
    (let slot = (pr_organization_id p, pr_project_id p, kind); candidate = candidate_row p committed_at in
     case map_of (j_current j) slot of
       None \<Rightarrow> bindr (checkr (current_id_free slot candidate j) IdempotencyConflict) (\<lambda>_.
         Inr (j\<lparr>j_current := dict_set (j_current j) slot candidate\<rparr>))
     | Some c \<Rightarrow>
         if current_key c < current_key candidate
         then bindr (checkr (current_id_free slot candidate j) IdempotencyConflict) (\<lambda>_.
           Inr (j\<lparr>j_current := dict_set (j_current j) slot candidate\<rparr>))
         else bindr (checkr (current_accepts c p committed_at) StorageError) (\<lambda>_. Inr j))"

definition projection_row_matches :: "projection_receipt \<Rightarrow> projection_receipt \<Rightarrow> bool" where
  "projection_row_matches row p =
     (pr_projection_receipt_id row = pr_projection_receipt_id p \<and> pr_operation_id row = pr_operation_id p
      \<and> pr_data_plane_receipt_hash row = pr_data_plane_receipt_hash p
      \<and> pr_projection_hash row = pr_projection_hash p
      \<and> pr_projection_revision row = pr_projection_revision p
      \<and> aware (pr_projected_at row) \<and> at_time (pr_projected_at row) = at_time (pr_projected_at p))"

definition record_projection_receipt :: "digest \<Rightarrow> projection_receipt \<Rightarrow> journal \<Rightarrow> journal res" where
  "record_projection_receipt digest p j =
     bindr (require_uuid (pr_operation_id p)) (\<lambda>_. bindr (require_uuid (pr_project_id p)) (\<lambda>_.
     case map_of (j_operations j) (projection_key p) of
       None \<Rightarrow> Inl ReceiptMismatch
     | Some row \<Rightarrow>
         bindr (checkr (or_project_id (ow_request row) = pr_project_id p
           \<and> ow_data_hash row = Some (pr_data_plane_receipt_hash p)) ReceiptMismatch) (\<lambda>_.
         case map_of (j_receipts j) (projection_key p) of
           None \<Rightarrow> Inl ReceiptMismatch
         | Some data_row \<Rightarrow>
             bindr (data_receipt_from_row (j_zone j) digest data_row) (\<lambda>r.
             bindr (require_data_plane_receipt digest p r) (\<lambda>_.
             let kind = or_operation_kind (ow_request row) in
             case map_of (j_projections j) (projection_key p) of
               Some existing \<Rightarrow>
                 bindr (checkr (projection_row_matches existing p) ReceiptMismatch) (\<lambda>_.
                 advance_projection_current p kind (dr_committed_at r) j)
             | None \<Rightarrow>
                 bindr (checkr (ow_state row = DATA_COMMITTED) ReceiptMismatch) (\<lambda>_.
                 bindr (checkr (projection_columns p) StorageError) (\<lambda>_.
                 bindr (checkr (projection_id_free p j) IdempotencyConflict) (\<lambda>_.
                 advance_projection_current p kind (dr_committed_at r)
                   (j\<lparr>j_operations := dict_set (j_operations j) (projection_key p)
                        (row\<lparr>ow_state := PROJECTED\<rparr>),
                      j_projections := dict_set (j_projections j) (projection_key p) p\<rparr>)))))))))"


section \<open>Recovery transitions\<close>

definition operation_row_matches_request :: "operation_row \<Rightarrow> operation_request \<Rightarrow> bool" where
  "operation_row_matches_request row r = (or_project_id (ow_request row) = or_project_id r
     \<and> or_operation_kind (ow_request row) = or_operation_kind r
     \<and> or_semantic_input_hash (ow_request row) = or_semantic_input_hash r)"

definition record_recovery_state :: "operation_request \<Rightarrow> operation_state \<Rightarrow> datetime
    \<Rightarrow> recovery_disposition \<Rightarrow> journal \<Rightarrow> journal res" where
  "record_recovery_state r state at disposition j =
     bindr (require_uuid (or_operation_id r)) (\<lambda>_.
     bindr (checkr (aware at) FoundationError) (\<lambda>_.
     case map_of (j_operations j) (operation_key r) of
       None \<Rightarrow> Inl OperationNotFound
     | Some row \<Rightarrow>
         bindr (checkr (operation_row_matches_request row r) IdempotencyConflict) (\<lambda>_.
         if ow_state row = state
         then bindr (checkr (map_option at_time (ow_interrupted_at row) = Some (at_time at)
           \<and> ow_disposition row = Some disposition) OperationStateConflict) (\<lambda>_. Inr j)
         else
           bindr (checkr (ow_state row \<notin> {PROJECTED, INTERRUPTED, MANUAL_REVIEW})
             OperationStateConflict) (\<lambda>_.
           bindr (checkr (state = INTERRUPTED \<longrightarrow> ow_state row = RESERVED \<and> ow_data_hash row = None)
             OperationStateConflict) (\<lambda>_.
           Inr (j\<lparr>j_operations := dict_set (j_operations j) (operation_key r)
             (row\<lparr>ow_state := state, ow_interrupted_at := Some at,
               ow_disposition := Some disposition\<rparr>)\<rparr>))))))"

definition record_interruption :: "operation_request \<Rightarrow> datetime \<Rightarrow> recovery_disposition \<Rightarrow> journal
    \<Rightarrow> journal res" where
  "record_interruption r at disposition j = record_recovery_state r INTERRUPTED at disposition j"

definition require_manual_review :: "operation_request \<Rightarrow> datetime \<Rightarrow> recovery_disposition \<Rightarrow> journal
    \<Rightarrow> journal res" where
  "require_manual_review r at disposition j = record_recovery_state r MANUAL_REVIEW at disposition j"

end
