(* ===== verification/Journal_Runs.thy ===== *)
theory Journal_Runs
imports Operation_Journal
begin

text \<open>
  Runs of the operation journal: the invariant that every sequence of calls keeps (each stored row
  agrees with its receipts, idempotency keys are unique, the current projection of a project and kind
  is the greatest one), the order in which a journal evolves (requests and receipts never change,
  states only advance, terminal rows stay), and the properties that rest on them.
\<close>


section \<open>Calls\<close>

text \<open>A caller builds every value with its constructor before it calls the journal.\<close>

datatype journal_op =
    Reserve operation_request
  | RecordData data_receipt
  | RecordProjection projection_receipt
  | RecordInterruption operation_request datetime recovery_disposition
  | RequireManualReview operation_request datetime recovery_disposition

fun journal_step :: "digest \<Rightarrow> journal_op \<Rightarrow> journal \<Rightarrow> journal res" where
  "journal_step d (Reserve r) j = bindr (build_request r) (\<lambda>q. bindr (reserve_with_status q j) (\<lambda>x. Inr (snd x)))"
| "journal_step d (RecordData r) j = bindr (mk_data_receipt r) (\<lambda>q. record_data_plane_receipt d q j)"
| "journal_step d (RecordProjection p) j = bindr (mk_projection_receipt p) (\<lambda>q. record_projection_receipt d q j)"
| "journal_step d (RecordInterruption r t x) j = bindr (build_request r) (\<lambda>q. record_interruption q t x j)"
| "journal_step d (RequireManualReview r t x) j = bindr (build_request r) (\<lambda>q. require_manual_review q t x j)"


section \<open>The invariant\<close>

definition ending :: "operation_state \<Rightarrow> bool" where
  "ending s = (s \<in> {INTERRUPTED, MANUAL_REVIEW})"

definition row_ok :: "digest \<Rightarrow> operation_id \<Rightarrow> operation_row \<Rightarrow> receipt_row option
    \<Rightarrow> projection_receipt option \<Rightarrow> bool" where
  "row_ok d k row dr pr \<longleftrightarrow>
     build_request (ow_request row) = Inr (ow_request row) \<and> is_uuid (snd k)
   \<and> operation_key (ow_request row) = k \<and> map_option rr_hash dr = ow_data_hash row
   \<and> (\<forall>x. dr = Some x \<longrightarrow> mk_data_receipt (rr_receipt x) = Inr (rr_receipt x) \<and> rr_hash x = d (rr_receipt x)
        \<and> require_operation (rr_receipt x) (ow_request row) = Inr ())
   \<and> (\<forall>p. pr = Some p \<longrightarrow> mk_projection_receipt p = Inr p \<and> projection_columns p \<and> dr \<noteq> None
        \<and> projection_key p = k
        \<and> ow_data_hash row = Some (pr_data_plane_receipt_hash p)
        \<and> pr_project_id p = or_project_id (ow_request row))
   \<and> (ow_state row \<in> {RESERVED, INTERRUPTED} \<longrightarrow> dr = None)
   \<and> (ow_state row \<in> {DATA_COMMITTED, PROJECTED} \<longrightarrow> dr \<noteq> None)
   \<and> (ow_state row = PROJECTED \<longleftrightarrow> pr \<noteq> None)
   \<and> (if ending (ow_state row) then (\<exists>t. ow_interrupted_at row = Some (Aware t)) \<and> ow_disposition row \<noteq> None
      else ow_interrupted_at row = None \<and> ow_disposition row = None)"

definition slot_of :: "operation_request \<Rightarrow> projection_slot" where
  "slot_of r = (or_organization_id r, or_project_id r, or_operation_kind r)"

text \<open>The candidate for the current projection that a projected operation stands for.\<close>

definition projected_entry :: "journal \<Rightarrow> operation_id \<Rightarrow> projection_slot \<Rightarrow> current_row \<Rightarrow> bool" where
  "projected_entry j k slot c = (\<exists>row x p. map_of (j_operations j) k = Some row \<and> ow_state row = PROJECTED
     \<and> slot_of (ow_request row) = slot \<and> map_of (j_receipts j) k = Some x
     \<and> map_of (j_projections j) k = Some p \<and> c = candidate_row p (dr_committed_at (rr_receipt x)))"

definition current_ok :: "journal \<Rightarrow> bool" where
  "current_ok j \<longleftrightarrow>
     (\<forall>slot c. map_of (j_current j) slot = Some c \<longrightarrow> (\<exists>k. projected_entry j k slot c))
   \<and> (\<forall>slot c k. projected_entry j k slot c \<longrightarrow>
        (\<exists>c'. map_of (j_current j) slot = Some c' \<and> current_key c \<le> current_key c'))"

definition rows_consistent :: "digest \<Rightarrow> journal \<Rightarrow> bool" where
  "rows_consistent d j \<longleftrightarrow>
     (\<forall>k. case map_of (j_operations j) k of
        None \<Rightarrow> map_of (j_receipts j) k = None \<and> map_of (j_projections j) k = None
      | Some row \<Rightarrow> row_ok d k row (map_of (j_receipts j) k) (map_of (j_projections j) k))"

definition scopes_unique :: "journal \<Rightarrow> bool" where
  "scopes_unique j \<longleftrightarrow> (\<forall>k row k' row'. map_of (j_operations j) k = Some row
      \<longrightarrow> map_of (j_operations j) k' = Some row'
      \<longrightarrow> idempotency_scope (ow_request row) = idempotency_scope (ow_request row') \<longrightarrow> k = k')"

text \<open>A receipt verifies when a session reads it with the digest it was stored with.  The receipt of an
  operation that has a projection does: recording the projection read it.\<close>

definition receipt_verifies :: "digest \<Rightarrow> (int \<Rightarrow> int) \<Rightarrow> receipt_row \<Rightarrow> bool" where
  "receipt_verifies d zone x \<longleftrightarrow> d (read_receipt zone (rr_receipt x)) = rr_hash x"

definition projections_verified :: "digest \<Rightarrow> journal \<Rightarrow> bool" where
  "projections_verified d j \<longleftrightarrow> (\<forall>k x p. map_of (j_receipts j) k = Some x \<longrightarrow> map_of (j_projections j) k = Some p
     \<longrightarrow> receipt_verifies d (j_zone j) x)"

definition journal_ok :: "digest \<Rightarrow> journal \<Rightarrow> bool" where
  "journal_ok d j \<longleftrightarrow> distinct (map fst (j_operations j)) \<and> rows_consistent d j \<and> scopes_unique j
     \<and> current_ok j \<and> projections_verified d j"

text \<open>How a journal may evolve.\<close>

fun state_rank :: "operation_state \<Rightarrow> nat" where
  "state_rank RESERVED = 0" | "state_rank DATA_COMMITTED = 1" | "state_rank PROJECTED = 2"
| "state_rank INTERRUPTED = 2" | "state_rank MANUAL_REVIEW = 2"

definition row_earlier :: "operation_row \<Rightarrow> operation_row \<Rightarrow> bool" where
  "row_earlier row row' \<longleftrightarrow> ow_request row' = ow_request row
     \<and> state_rank (ow_state row) \<le> state_rank (ow_state row') \<and> (state_rank (ow_state row) = 2 \<longrightarrow> row' = row)"

definition journal_earlier :: "journal \<Rightarrow> journal \<Rightarrow> bool" where
  "journal_earlier j j' \<longleftrightarrow> j_zone j' = j_zone j \<and> dict_grows row_earlier (j_operations j) (j_operations j')
   \<and> dict_grows (=) (j_receipts j) (j_receipts j') \<and> dict_grows (=) (j_projections j) (j_projections j')
   \<and> dict_grows (\<lambda>c c'. current_key c \<le> current_key c') (j_current j) (j_current j')"

lemma row_earlier_refl [simp]: "row_earlier row row"
  by (simp add: row_earlier_def)

lemma row_earlier_trans: "row_earlier a b \<Longrightarrow> row_earlier b c \<Longrightarrow> row_earlier a c"
  by (auto simp: row_earlier_def)

lemma journal_earlier_refl [simp]: "journal_earlier j j"
  by (simp add: journal_earlier_def dict_grows_refl)

lemma journal_earlier_trans: "journal_earlier j k \<Longrightarrow> journal_earlier k l \<Longrightarrow> journal_earlier j l"
  unfolding journal_earlier_def
  by (elim conjE, intro conjI, simp; erule (1) dict_grows_trans) (auto intro: row_earlier_trans)


section \<open>What a successful call does\<close>

lemma decoded_Inr [res_simps]: "decoded m = Inr x \<longleftrightarrow> m = Inr x"
  by (auto simp: decoded_def split: sum.splits exn.splits)

lemma require_uuid_Inr [res_simps]: "require_uuid s = Inr u \<longleftrightarrow> is_uuid s"
  by (simp add: require_uuid_def res_simps)

lemma operation_by_scope_Some:
  assumes "operation_by_scope s j = Some row" "distinct (map fst (j_operations j))"
  obtains k where "map_of (j_operations j) k = Some row" "idempotency_scope (ow_request row) = s"
proof -
  from assms(1) obtain e where "List.find (\<lambda>(k, row). idempotency_scope (ow_request row) = s) (j_operations j) = Some e"
    "row = snd e"
    by (auto simp: operation_by_scope_def)
  then have e: "e \<in> set (j_operations j)" "idempotency_scope (ow_request row) = s"
    using find_SomeD by fastforce+
  then have "map_of (j_operations j) (fst e) = Some row"
    using assms(2) \<open>row = snd e\<close> by (intro map_of_is_SomeI) (simp_all add: prod.collapse)
  then show thesis using that e(2) by blast
qed

lemma operation_by_scope_None:
  assumes "operation_by_scope s j = None" "map_of (j_operations j) k = Some row"
  shows "idempotency_scope (ow_request row) \<noteq> s"
  using assms(1) map_of_SomeD[OF assms(2)] by (auto simp: operation_by_scope_def find_None_iff)

lemma reserve_cases:
  assumes "reserve_with_status r j = Inr ((q, created), j')" "distinct (map fst (j_operations j))"
  obtains (new) "created" "q = r" "is_uuid (or_operation_id r)" "operation_by_scope (idempotency_scope r) j = None"
      "map_of (j_operations j) (operation_key r) = None"
      "j' = j\<lparr>j_operations := dict_set (j_operations j) (operation_key r)
           \<lparr>ow_request = r, ow_state = RESERVED, ow_data_hash = None, ow_interrupted_at = None,
             ow_disposition = None\<rparr>\<rparr>"
  | (replay) k row where "\<not> created" "j' = j" "map_of (j_operations j) k = Some row"
      "operation_from_row row = Inr q" "idempotency_scope (ow_request row) = idempotency_scope r"
      "require_same_idempotent_request q r = Inr ()"
proof (cases "operation_by_scope (idempotency_scope r) j")
  case None
  then show thesis using assms(1) by (intro new) (auto simp: reserve_with_status_def res_simps)
next
  case (Some row)
  then obtain k where "map_of (j_operations j) k = Some row"
    "idempotency_scope (ow_request row) = idempotency_scope r"
    using assms(2) by (rule operation_by_scope_Some)
  then show thesis using assms(1) Some by (intro replay) (auto simp: reserve_with_status_def res_simps)
qed

lemma record_data_cases:
  assumes "record_data_plane_receipt d r j = Inr j'"
  obtains (same) row where "j' = j" "map_of (j_operations j) (receipt_key r) = Some row"
      "operation_matches_receipt row r" "ow_data_hash row = Some (d r)"
  | (stored) row where "map_of (j_operations j) (receipt_key r) = Some row"
      "operation_matches_receipt row r" "ow_data_hash row = None" "ow_state row = RESERVED"
      "j' = j\<lparr>j_operations := dict_set (j_operations j) (receipt_key r)
                    (row\<lparr>ow_state := DATA_COMMITTED, ow_data_hash := Some (d r)\<rparr>),
                  j_receipts := dict_set (j_receipts j) (receipt_key r)
                    \<lparr>rr_receipt = r, rr_hash = d r\<rparr>\<rparr>"
proof (cases "map_of (j_operations j) (receipt_key r)")
  case None
  then show thesis using assms by (simp add: record_data_plane_receipt_def res_simps)
next
  case (Some row)
  show thesis
  proof (cases "ow_data_hash row")
    case None
    then show thesis using assms Some
      by (intro stored) (auto simp: record_data_plane_receipt_def res_simps)
  next
    case (Some h)
    then show thesis using assms \<open>map_of (j_operations j) (receipt_key r) = Some row\<close>
      by (intro same) (auto simp: record_data_plane_receipt_def res_simps)
  qed
qed

lemma advance_cases:
  assumes "advance_projection_current p kind t j = Inr j'"
  obtains (kept) c where "j' = j" "map_of (j_current j) (pr_organization_id p, pr_project_id p, kind) = Some c"
      "current_key (candidate_row p t) \<le> current_key c"
  | (advanced) "j' = j\<lparr>j_current := dict_set (j_current j) (pr_organization_id p, pr_project_id p, kind)
        (candidate_row p t)\<rparr>"
      "\<And>c. map_of (j_current j) (pr_organization_id p, pr_project_id p, kind) = Some c \<Longrightarrow>
        current_key c < current_key (candidate_row p t)"
proof (cases "map_of (j_current j) (pr_organization_id p, pr_project_id p, kind)")
  case None
  then show thesis using assms by (intro advanced) (auto simp: advance_projection_current_def res_simps Let_def)
next
  case (Some c)
  show thesis
  proof (cases "current_key c < current_key (candidate_row p t)")
    case True
    then show thesis using assms Some by (intro advanced) (auto simp: advance_projection_current_def res_simps Let_def)
  next
    case False
    then have "current_key (candidate_row p t) \<le> current_key c" by simp
    then show thesis using assms Some False
      by (intro kept) (auto simp: advance_projection_current_def res_simps Let_def simp del: not_less)
  qed
qed

lemma record_recovery_cases:
  assumes "record_recovery_state r state t x j = Inr j'"
  obtains (same) "j' = j"
  | (moved) row where "map_of (j_operations j) (operation_key r) = Some row" "aware t"
      "ow_state row = RESERVED \<or> ow_state row = DATA_COMMITTED"
      "state = INTERRUPTED \<longrightarrow> ow_state row = RESERVED"
      "j' = j\<lparr>j_operations := dict_set (j_operations j) (operation_key r)
             (row\<lparr>ow_state := state, ow_interrupted_at := Some t, ow_disposition := Some x\<rparr>)\<rparr>"
proof (cases "map_of (j_operations j) (operation_key r)")
  case None
  then show thesis using assms by (simp add: record_recovery_state_def res_simps)
next
  case (Some row)
  show thesis
  proof (cases "ow_state row = state")
    case True
    then show thesis using assms Some by (intro same) (auto simp: record_recovery_state_def res_simps)
  next
    case False
    then show thesis using assms Some
      by (intro moved) (auto simp: record_recovery_state_def res_simps intro: operation_state.exhaust)
  qed
qed


section \<open>Every call keeps the invariant\<close>

lemma journal_rows:
  assumes "journal_ok d j" "map_of (j_operations j) k = Some row"
  shows "row_ok d k row (map_of (j_receipts j) k) (map_of (j_projections j) k)"
proof -
  have "rows_consistent d j" using assms(1) by (simp add: journal_ok_def)
  then have "case map_of (j_operations j) k of
        None \<Rightarrow> map_of (j_receipts j) k = None \<and> map_of (j_projections j) k = None
      | Some row \<Rightarrow> row_ok d k row (map_of (j_receipts j) k) (map_of (j_projections j) k)"
    unfolding rows_consistent_def by (rule spec)
  with assms(2) show ?thesis by simp
qed

lemma journal_absent:
  assumes "journal_ok d j" "map_of (j_operations j) k = None"
  shows "map_of (j_receipts j) k = None \<and> map_of (j_projections j) k = None"
proof -
  have "rows_consistent d j" using assms(1) by (simp add: journal_ok_def)
  then have "case map_of (j_operations j) k of
        None \<Rightarrow> map_of (j_receipts j) k = None \<and> map_of (j_projections j) k = None
      | Some row \<Rightarrow> row_ok d k row (map_of (j_receipts j) k) (map_of (j_projections j) k)"
    unfolding rows_consistent_def by (rule spec)
  with assms(2) show ?thesis by simp
qed

text \<open>What a call may write at one key.\<close>

definition writes_row :: "operation_id \<Rightarrow> operation_row \<Rightarrow> journal \<Rightarrow> journal \<Rightarrow> bool" where
  "writes_row k row j j' \<longleftrightarrow> j_zone j' = j_zone j \<and> j_operations j' = dict_set (j_operations j) k row
     \<and> (\<forall>k'. k' \<noteq> k \<longrightarrow> map_of (j_receipts j') k' = map_of (j_receipts j) k'
          \<and> map_of (j_projections j') k' = map_of (j_projections j) k')"

lemma writes_row_consistent:
  assumes ok: "journal_ok d j" and w: "writes_row k row j j'"
    and row: "row_ok d k row (map_of (j_receipts j') k) (map_of (j_projections j') k)"
    and scope: "\<forall>k' row'. k' \<noteq> k \<longrightarrow> map_of (j_operations j) k' = Some row' \<longrightarrow>
        idempotency_scope (ow_request row') \<noteq> idempotency_scope (ow_request row)"
  shows "distinct (map fst (j_operations j')) \<and> rows_consistent d j' \<and> scopes_unique j'"
proof (intro conjI)
  have ops: "j_operations j' = dict_set (j_operations j) k row" using w by (simp add: writes_row_def)
  show "distinct (map fst (j_operations j'))"
    using ok unfolding ops by (simp add: journal_ok_def distinct_dict_set)
  show "rows_consistent d j'"
    unfolding rows_consistent_def
  proof
    fix k'
    show "case map_of (j_operations j') k' of
        None \<Rightarrow> map_of (j_receipts j') k' = None \<and> map_of (j_projections j') k' = None
      | Some row \<Rightarrow> row_ok d k' row (map_of (j_receipts j') k') (map_of (j_projections j') k')"
    proof (cases "k' = k")
      case True
      then show ?thesis using row by (simp add: ops map_of_dict_set)
    next
      case False
      then have "map_of (j_operations j') k' = map_of (j_operations j) k'"
        "map_of (j_receipts j') k' = map_of (j_receipts j) k'"
        "map_of (j_projections j') k' = map_of (j_projections j) k'"
        using w by (simp_all add: ops map_of_dict_set writes_row_def)
      then show ?thesis using journal_rows[OF ok] journal_absent[OF ok] by (simp split: option.split)
    qed
  qed
  have unique: "scopes_unique j" using ok by (simp add: journal_ok_def)
  show "scopes_unique j'"
    unfolding scopes_unique_def
  proof (intro allI impI)
    fix a ra b rb
    assume a: "map_of (j_operations j') a = Some ra" and b: "map_of (j_operations j') b = Some rb"
      and eq: "idempotency_scope (ow_request ra) = idempotency_scope (ow_request rb)"
    have a': "if a = k then ra = row else map_of (j_operations j) a = Some ra"
      and b': "if b = k then rb = row else map_of (j_operations j) b = Some rb"
      using a b by (auto simp: ops map_of_dict_set split: if_splits)
    show "a = b"
    proof (cases "a = k")
      case True
      then have "ra = row" using a' by simp
      then show ?thesis using True scope[rule_format, of b rb] b' eq by (cases "b = k") simp_all
    next
      case False
      then have ra: "map_of (j_operations j) a = Some ra" using a' by simp
      have "b \<noteq> k" using scope[rule_format, OF False ra] b' eq by auto
      then have "map_of (j_operations j) b = Some rb" using b' by simp
      then show ?thesis using unique ra eq unfolding scopes_unique_def by blast
    qed
  qed
qed

lemma journal_scopes:
  assumes "journal_ok d j" "map_of (j_operations j) k = Some row"
  shows "\<forall>k' row'. k' \<noteq> k \<longrightarrow> map_of (j_operations j) k' = Some row' \<longrightarrow>
        idempotency_scope (ow_request row') \<noteq> idempotency_scope (ow_request row)"
  using assms unfolding journal_ok_def scopes_unique_def by metis

text \<open>A row that is not projected, before and after, leaves the projected entries as they are.\<close>

lemma projected_entry_unchanged:
  assumes w: "writes_row k row j j'" and new: "ow_state row \<noteq> PROJECTED"
    and old: "\<forall>r. map_of (j_operations j) k = Some r \<longrightarrow> ow_state r \<noteq> PROJECTED"
  shows "projected_entry j' k' slot c = projected_entry j k' slot c"
proof (cases "k' = k")
  case True
  then show ?thesis using new old w
    by (auto simp: projected_entry_def writes_row_def map_of_dict_set)
next
  case False
  then have "map_of (j_operations j') k' = map_of (j_operations j) k'"
    "map_of (j_receipts j') k' = map_of (j_receipts j) k'"
    "map_of (j_projections j') k' = map_of (j_projections j) k'"
    using w by (simp_all add: map_of_dict_set writes_row_def)
  then show ?thesis by (simp add: projected_entry_def)
qed

lemma writes_row_ok:
  assumes ok: "journal_ok d j" and w: "writes_row k row j j'"
    and row: "row_ok d k row (map_of (j_receipts j') k) (map_of (j_projections j') k)"
    and scope: "\<forall>k' row'. k' \<noteq> k \<longrightarrow> map_of (j_operations j) k' = Some row' \<longrightarrow>
        idempotency_scope (ow_request row') \<noteq> idempotency_scope (ow_request row)"
    and states: "ow_state row \<noteq> PROJECTED"
      "\<forall>r. map_of (j_operations j) k = Some r \<longrightarrow> ow_state r \<noteq> PROJECTED"
    and cur: "j_current j' = j_current j"
  shows "journal_ok d j'"
proof -
  have "current_ok j'"
    using ok unfolding journal_ok_def current_ok_def cur projected_entry_unchanged[OF w states] by blast
  moreover have "projections_verified d j'"
    unfolding projections_verified_def
  proof (intro allI impI)
    fix k' x p
    assume x: "map_of (j_receipts j') k' = Some x" and p: "map_of (j_projections j') k' = Some p"
    have "map_of (j_projections j') k = None" using row states(1) by (auto simp: row_ok_def)
    with p have "k' \<noteq> k" by auto
    then show "receipt_verifies d (j_zone j') x"
      using ok w x p unfolding journal_ok_def projections_verified_def writes_row_def by metis
  qed
  ultimately show ?thesis using writes_row_consistent[OF ok w row scope] by (simp add: journal_ok_def)
qed

lemma reserve_ok:
  assumes ok: "journal_ok d j" and r: "build_request r = Inr r"
    and step: "reserve_with_status r j = Inr ((q, created), j')"
  shows "journal_ok d j' \<and> journal_earlier j j'"
proof -
  have "distinct (map fst (j_operations j))" using ok by (simp add: journal_ok_def)
  with step show ?thesis
  proof (cases rule: reserve_cases)
    case new
    let ?row = "\<lparr>ow_request = r, ow_state = RESERVED, ow_data_hash = None, ow_interrupted_at = None,
             ow_disposition = None\<rparr>"
    have none: "map_of (j_receipts j) (operation_key r) = None" "map_of (j_projections j) (operation_key r) = None"
      using journal_absent[OF ok new(5)] by simp_all
    have w: "writes_row (operation_key r) ?row j j'" by (simp add: writes_row_def new(6))
    have "row_ok d (operation_key r) ?row None None"
      using r new(3) by (simp add: row_ok_def ending_def) (simp add: operation_key_def)
    then have "journal_ok d j'"
      using new(4,5) none
      by (intro writes_row_ok[OF ok w]) (auto simp: new(6) dest: operation_by_scope_None)
    moreover have "journal_earlier j j'"
      using new(5) unfolding journal_earlier_def new(6) by (auto simp: dict_grows_refl intro!: dict_grows_set)
    ultimately show ?thesis by simp
  next
    case replay
    then show ?thesis using ok by simp
  qed
qed

lemma record_data_ok:
  assumes ok: "journal_ok d j" and r: "mk_data_receipt r = Inr r"
    and step: "record_data_plane_receipt d r j = Inr j'"
  shows "journal_ok d j' \<and> journal_earlier j j'"
  using step
proof (cases rule: record_data_cases)
  case same
  then show ?thesis using ok by simp
next
  case (stored row)
  let ?k = "receipt_key r" and ?row = "row\<lparr>ow_state := DATA_COMMITTED, ow_data_hash := Some (d r)\<rparr>"
  have old: "row_ok d ?k row (map_of (j_receipts j) ?k) (map_of (j_projections j) ?k)"
    by (rule journal_rows[OF ok stored(1)])
  then have none: "map_of (j_receipts j) ?k = None" "map_of (j_projections j) ?k = None"
    using stored(4) by (auto simp: row_ok_def)
  have w: "writes_row ?k ?row j j'" by (simp add: writes_row_def stored(5) map_of_dict_set)
  have "require_operation r (ow_request row) = Inr ()"
    using old stored(2)
    by (auto simp: row_ok_def require_operation_def res_simps operation_matches_receipt_def receipt_key_def
        operation_key_def)
  then have "row_ok d ?k ?row (Some \<lparr>rr_receipt = r, rr_hash = d r\<rparr>) None"
    using old r stored(4) by (auto simp: row_ok_def ending_def)
  then have "journal_ok d j'"
    using stored(1,4) none journal_scopes[OF ok stored(1)]
    by (intro writes_row_ok[OF ok w]) (auto simp: stored(5) map_of_dict_set)
  moreover have "journal_earlier j j'"
    using stored(1,4) none unfolding journal_earlier_def stored(5)
    by (simp add: dict_grows_refl) (intro conjI dict_grows_set, auto simp: row_earlier_def)
  ultimately show ?thesis by simp
qed

lemma record_recovery_ok:
  assumes ok: "journal_ok d j" and state: "ending state"
    and step: "record_recovery_state r state t x j = Inr j'"
  shows "journal_ok d j' \<and> journal_earlier j j'"
  using step
proof (cases rule: record_recovery_cases)
  case same
  then show ?thesis using ok by simp
next
  case (moved row)
  let ?k = "operation_key r"
  let ?row = "row\<lparr>ow_state := state, ow_interrupted_at := Some t, ow_disposition := Some x\<rparr>"
  have old: "row_ok d ?k row (map_of (j_receipts j) ?k) (map_of (j_projections j) ?k)"
    by (rule journal_rows[OF ok moved(1)])
  have w: "writes_row ?k ?row j j'" by (simp add: writes_row_def moved(5))
  obtain u where "t = Aware u" using moved(2) by (cases t) auto
  then have "row_ok d ?k ?row (map_of (j_receipts j) ?k) (map_of (j_projections j) ?k)"
    using old moved(3,4) state by (cases state) (auto simp: row_ok_def ending_def)
  then have "journal_ok d j'"
    using moved(1,3) state journal_scopes[OF ok moved(1)]
    by (intro writes_row_ok[OF ok w]) (auto simp: moved(5) ending_def)
  moreover have "state_rank (ow_state row) \<le> state_rank state" "state_rank (ow_state row) \<noteq> 2"
    using moved(3) state by (auto simp: ending_def)
  then have "journal_earlier j j'"
    using moved(1) unfolding journal_earlier_def moved(5)
    by (simp add: dict_grows_refl) (intro dict_grows_set, auto simp: row_earlier_def)
  ultimately show ?thesis by simp
qed

lemma record_projection_cases:
  assumes "record_projection_receipt d p j = Inr j'"
  obtains row x r where "map_of (j_operations j) (projection_key p) = Some row"
      "or_project_id (ow_request row) = pr_project_id p" "ow_data_hash row = Some (pr_data_plane_receipt_hash p)"
      "map_of (j_receipts j) (projection_key p) = Some x" "data_receipt_from_row (j_zone j) d x = Inr r"
      "case map_of (j_projections j) (projection_key p) of
         Some q \<Rightarrow> projection_row_matches q p
           \<and> advance_projection_current p (or_operation_kind (ow_request row)) (dr_committed_at r) j = Inr j'
       | None \<Rightarrow> ow_state row = DATA_COMMITTED \<and> projection_columns p
           \<and> advance_projection_current p (or_operation_kind (ow_request row)) (dr_committed_at r)
               (j\<lparr>j_operations := dict_set (j_operations j) (projection_key p) (row\<lparr>ow_state := PROJECTED\<rparr>),
                  j_projections := dict_set (j_projections j) (projection_key p) p\<rparr>) = Inr j'"
proof -
  obtain row where row: "map_of (j_operations j) (projection_key p) = Some row"
    using assms by (cases "map_of (j_operations j) (projection_key p)")
      (auto simp: record_projection_receipt_def res_simps)
  obtain x where x: "map_of (j_receipts j) (projection_key p) = Some x"
    using assms row by (cases "map_of (j_receipts j) (projection_key p)")
      (auto simp: record_projection_receipt_def res_simps)
  obtain r where r: "data_receipt_from_row (j_zone j) d x = Inr r"
    using assms row x by (cases "data_receipt_from_row (j_zone j) d x")
      (auto simp: record_projection_receipt_def res_simps)
  show thesis
    using assms row x r
    by (intro that[OF row _ _ x r])
      (auto simp: record_projection_receipt_def res_simps Let_def split: option.splits)
qed

lemma row_ok_key: "row_ok d k row dr pr \<Longrightarrow> operation_key (ow_request row) = k"
  by (simp add: row_ok_def)

text \<open>Reading a stored receipt builds it, at the session's offset, and fails exactly when its digest
  differs from the stored one.\<close>

lemma mk_read_receipt:
  assumes "mk_data_receipt r = Inr r"
  shows "mk_data_receipt (read_receipt zone r) = Inr (read_receipt zone r)"
  using assms by (cases r) (auto simp: mk_data_receipt_def read_receipt_def res_simps)

lemma stored_receipt_read:
  assumes "row_ok d k row (Some x) pr"
  shows "data_receipt_from_row zone d x = (if receipt_verifies d zone x then Inr (read_receipt zone (rr_receipt x))
    else Inl StorageError)"
proof -
  have "mk_data_receipt (read_receipt zone (rr_receipt x)) = Inr (read_receipt zone (rr_receipt x))"
    using assms by (intro mk_read_receipt) (simp add: row_ok_def)
  then show ?thesis by (simp add: data_receipt_from_row_def receipt_verifies_def checkr_def decoded_def)
qed

lemma stored_receipt:
  assumes "row_ok d k row (Some x) pr" "data_receipt_from_row zone d x = Inr r"
  shows "r = read_receipt zone (rr_receipt x)" "receipt_verifies d zone x"
  using assms by (simp_all add: stored_receipt_read split: if_splits)

lemma read_receipt_simps [simp]:
  "dr_committed_at (read_receipt zone r) = dr_committed_at r"
  "dr_committed_offset (read_receipt zone r) = zone (at_time (dr_committed_at r))"
  "require_operation (read_receipt zone r) q = require_operation r q"
  "receipt_key (read_receipt zone r) = receipt_key r"
  by (simp_all add: read_receipt_def require_operation_def receipt_key_def)

text \<open>A receipt recorded at the session's offset is read back as it was.\<close>

lemma receipt_of_session_zone:
  assumes "dr_committed_offset r = zone (at_time (dr_committed_at r))"
  shows "read_receipt zone r = r"
  using assms by (cases r) (simp add: read_receipt_def)

lemma stored_projection:
  assumes "row_ok d k row dr (Some q)" "projection_row_matches q p" "mk_projection_receipt p = Inr p"
    "projection_key p = k" "or_project_id (ow_request row) = pr_project_id p"
    "ow_data_hash row = Some (pr_data_plane_receipt_hash p)"
  shows "q = p"
proof -
  have "aware (pr_projected_at p)" using assms(3) by (auto simp: mk_projection_receipt_def res_simps)
  then have "pr_projected_at q = pr_projected_at p"
    using assms(2) by (cases "pr_projected_at q"; cases "pr_projected_at p") (auto simp: projection_row_matches_def)
  then show ?thesis
    using assms(1,2,4-6) by (cases q; cases p) (auto simp: row_ok_def projection_row_matches_def projection_key_def)
qed

lemma current_ok_insert:
  assumes cur: "current_ok j"
    and entries: "\<And>k' s c'. projected_entry j' k' s c' \<longleftrightarrow> k' = k \<and> s = slot \<and> c' = c \<or> projected_entry j k' s c'"
    and step: "(j_current j' = j_current j \<and> (\<exists>c'. map_of (j_current j) slot = Some c' \<and> current_key c \<le> current_key c'))
      \<or> (j_current j' = dict_set (j_current j) slot c
          \<and> (\<forall>c'. map_of (j_current j) slot = Some c' \<longrightarrow> current_key c' < current_key c))"
  shows "current_ok j'"
proof -
  have a: "\<And>s c'. map_of (j_current j) s = Some c' \<Longrightarrow> \<exists>k'. projected_entry j k' s c'"
    and b: "\<And>s c' k'. projected_entry j k' s c' \<Longrightarrow>
      \<exists>c''. map_of (j_current j) s = Some c'' \<and> current_key c' \<le> current_key c''"
    using cur unfolding current_ok_def by blast+
  from step show ?thesis
  proof (elim disjE conjE)
    assume same: "j_current j' = j_current j"
      and above: "\<exists>c'. map_of (j_current j) slot = Some c' \<and> current_key c \<le> current_key c'"
    have "\<exists>k'. projected_entry j' k' s c'" if "map_of (j_current j') s = Some c'" for s c'
      using a[of s c'] that entries unfolding same by blast
    moreover have "\<exists>c''. map_of (j_current j') s = Some c'' \<and> current_key c' \<le> current_key c''"
      if "projected_entry j' k' s c'" for k' s c'
      using b[of k' s c'] that above unfolding entries same by blast
    ultimately show ?thesis unfolding current_ok_def by blast
  next
    assume j': "j_current j' = dict_set (j_current j) slot c"
      and less: "\<forall>c'. map_of (j_current j) slot = Some c' \<longrightarrow> current_key c' < current_key c"
    have "\<exists>c''. map_of (j_current j') s = Some c'' \<and> current_key c' \<le> current_key c''"
      if e: "projected_entry j k' s c'" for k' s c'
    proof -
      obtain c'' where "map_of (j_current j) s = Some c''" "current_key c' \<le> current_key c''"
        using b[OF e] by blast
      then show ?thesis using less unfolding j' by (auto simp: map_of_dict_set intro: order_trans less_imp_le)
    qed
    moreover have "\<exists>k'. projected_entry j' k' s c'" if "map_of (j_current j') s = Some c'" for s c'
      using that a[of s c'] unfolding entries j' by (auto simp: map_of_dict_set split: if_splits)
    ultimately show ?thesis unfolding current_ok_def entries by (auto simp: j' map_of_dict_set)
  qed
qed

lemma record_projection_ok:
  assumes ok: "journal_ok d j" and p: "mk_projection_receipt p = Inr p"
    and step: "record_projection_receipt d p j = Inr j'"
  shows "journal_ok d j' \<and> journal_earlier j j'"
  using step
proof (rule record_projection_cases)
  fix row :: operation_row and x :: receipt_row and r :: data_receipt
  let ?k = "projection_key p" and ?kind = "or_operation_kind (ow_request row)"
  let ?slot = "(pr_organization_id p, pr_project_id p, ?kind)" and ?c = "candidate_row p (dr_committed_at r)"
  assume row: "map_of (j_operations j) ?k = Some row" and project: "or_project_id (ow_request row) = pr_project_id p"
    and hash: "ow_data_hash row = Some (pr_data_plane_receipt_hash p)"
    and x: "map_of (j_receipts j) ?k = Some x" and r: "data_receipt_from_row (j_zone j) d x = Inr r"
    and rest: "case map_of (j_projections j) ?k of
         Some q \<Rightarrow> projection_row_matches q p \<and> advance_projection_current p ?kind (dr_committed_at r) j = Inr j'
       | None \<Rightarrow> ow_state row = DATA_COMMITTED \<and> projection_columns p
           \<and> advance_projection_current p ?kind (dr_committed_at r)
               (j\<lparr>j_operations := dict_set (j_operations j) ?k (row\<lparr>ow_state := PROJECTED\<rparr>),
                  j_projections := dict_set (j_projections j) ?k p\<rparr>) = Inr j'"
  have old: "row_ok d ?k row (Some x) (map_of (j_projections j) ?k)"
    using journal_rows[OF ok row] x by simp
  have r_eq: "dr_committed_at r = dr_committed_at (rr_receipt x)" and verified: "receipt_verifies d (j_zone j) x"
    using stored_receipt[OF old r] by simp_all
  have slot: "slot_of (ow_request row) = ?slot"
    using row_ok_key[OF old] project by (simp add: slot_of_def operation_key_def projection_key_def)
  have cur: "current_ok j" using ok by (simp add: journal_ok_def)
  show ?thesis
  proof (cases "map_of (j_projections j) ?k")
    case (Some q)
    with rest have m: "projection_row_matches q p"
      and adv: "advance_projection_current p ?kind (dr_committed_at r) j = Inr j'" by simp_all
    have q: "q = p" using stored_projection[OF _ m p _ project hash] old Some by simp
    have "ow_state row = PROJECTED" using old Some by (simp add: row_ok_def)
    then have "projected_entry j ?k ?slot ?c"
      using row x Some q r_eq slot by (simp add: projected_entry_def)
    then have "\<exists>c'. map_of (j_current j) ?slot = Some c' \<and> current_key ?c \<le> current_key c'"
      using cur unfolding current_ok_def by blast
    with adv have "j' = j"
      by (elim advance_cases) (auto dest: leD)
    then show ?thesis using ok by simp
  next
    case None
    let ?row = "row\<lparr>ow_state := PROJECTED\<rparr>"
    let ?j = "j\<lparr>j_operations := dict_set (j_operations j) ?k ?row,
                  j_projections := dict_set (j_projections j) ?k p\<rparr>"
    from rest None have state: "ow_state row = DATA_COMMITTED" and columns: "projection_columns p"
      and adv: "advance_projection_current p ?kind (dr_committed_at r) ?j = Inr j'" by simp_all
    have shape: "j_operations j' = j_operations ?j" "j_receipts j' = j_receipts ?j"
      "j_projections j' = j_projections ?j" "j_zone j' = j_zone j"
      using adv by (elim advance_cases; simp)+
    have w: "writes_row ?k ?row j j'" by (simp add: writes_row_def shape map_of_dict_set)
    have "row_ok d ?k ?row (Some x) (Some p)"
      using old None p project hash state columns by (auto simp: row_ok_def ending_def)
    then have rows: "distinct (map fst (j_operations j')) \<and> rows_consistent d j' \<and> scopes_unique j'"
      using journal_scopes[OF ok row] x
      by (intro writes_row_consistent[OF ok w]) (auto simp: shape map_of_dict_set)
    have entries: "projected_entry j' k' s c' \<longleftrightarrow> k' = ?k \<and> s = ?slot \<and> c' = ?c \<or> projected_entry j k' s c'"
      for k' s c'
      using row x None state slot r_eq
      by (cases "k' = ?k") (auto simp: projected_entry_def shape map_of_dict_set)
    have move: "(j_current j' = j_current j \<and> (\<exists>c'. map_of (j_current j) ?slot = Some c' \<and> current_key ?c \<le> current_key c'))
      \<or> (j_current j' = dict_set (j_current j) ?slot ?c
          \<and> (\<forall>c'. map_of (j_current j) ?slot = Some c' \<longrightarrow> current_key c' < current_key ?c))"
      using adv by (elim advance_cases) auto
    have "current_ok j'" by (rule current_ok_insert[OF cur entries move])
    moreover have "journal_earlier j j'"
      using row state None move unfolding journal_earlier_def shape
      by (auto simp: dict_grows_refl row_earlier_def intro!: dict_grows_set)
    moreover have "projections_verified d j'"
      unfolding projections_verified_def
    proof (intro allI impI)
      fix k' y q
      assume y: "map_of (j_receipts j') k' = Some y" and q: "map_of (j_projections j') k' = Some q"
      show "receipt_verifies d (j_zone j') y"
      proof (cases "k' = ?k")
        case True
        then show ?thesis using y x verified by (simp add: shape)
      next
        case False
        then have "map_of (j_projections j) k' = Some q" using q by (simp add: shape map_of_dict_set)
        then show ?thesis using ok y unfolding journal_ok_def projections_verified_def by (simp add: shape)
      qed
    qed
    ultimately show ?thesis using rows by (simp add: journal_ok_def)
  qed
qed

lemma journal_step_ok:
  assumes "journal_ok d j" "journal_step d a j = Inr j'"
  shows "journal_ok d j' \<and> journal_earlier j j'"
proof (cases a)
  case (Reserve r)
  then obtain q x where "build_request r = Inr q" "reserve_with_status q j = Inr x" "j' = snd x"
    using assms(2) by (auto simp: res_simps)
  then show ?thesis using reserve_ok[OF assms(1) build_request_idem, of r q "fst (fst x)" "snd (fst x)"] by simp
next
  case (RecordData r)
  then show ?thesis using assms record_data_ok[OF _ mk_data_receipt_idem] by (auto simp: res_simps)
next
  case (RecordProjection p)
  then show ?thesis using assms record_projection_ok[OF _ mk_projection_receipt_idem] by (auto simp: res_simps)
next
  case (RecordInterruption r t x)
  then show ?thesis using assms record_recovery_ok[of d j INTERRUPTED]
    by (auto simp: res_simps record_interruption_def ending_def)
next
  case (RequireManualReview r t x)
  then show ?thesis using assms record_recovery_ok[of d j MANUAL_REVIEW]
    by (auto simp: res_simps require_manual_review_def ending_def)
qed

interpretation journal_runs: evolving_lifecycle "journal_step d" "journal_ok d" journal_earlier for d
  by unfold_locales (auto dest: journal_step_ok intro: journal_earlier_trans)

end
