(* ===== verification/Journal_Properties.thy ===== *)
theory Journal_Properties
imports Journal_Runs
begin

text \<open>
  What the journal promises its clients, for every sequence of calls from the empty journal: recorded
  evidence is immutable and states only advance, a read of a reserved operation never finds corrupt
  evidence, an idempotency key is created once, and the current projection is the latest one.
\<close>

abbreviation journal_after :: "(int \<Rightarrow> int) \<Rightarrow> digest \<Rightarrow> journal_op list \<Rightarrow> journal" where
  "journal_after zone d as \<equiv> run_ops (journal_step d) as (empty_journal zone)"

lemma journal_ok_empty: "journal_ok d (empty_journal zone)"
  by (simp add: journal_ok_def empty_journal_def rows_consistent_def scopes_unique_def current_ok_def projections_verified_def
      projected_entry_def)

lemma reachable_journal_ok: "journal_ok d (journal_after zone d as)"
  by (rule journal_runs.run_inv[OF journal_ok_empty])

lemma reachable_evolves: "journal_earlier (journal_after zone d as) (journal_after zone d (as @ bs))"
  unfolding run_ops_append by (rule journal_runs.run_earlier[OF reachable_journal_ok])


section \<open>Reads\<close>

lemma stored_operation:
  assumes "row_ok d k row dr pr"
  shows "operation_from_row row = Inr (ow_request row)"
  using assms by (simp add: row_ok_def operation_from_row_def res_simps)

lemma stored_projection_decodes:
  assumes "row_ok d k row dr (Some p)"
  shows "projection_receipt_from_row (ow_request row) p = Inr p"
proof -
  have "p\<lparr>pr_organization_id := or_organization_id (ow_request row),
       pr_project_id := or_project_id (ow_request row)\<rparr> = p"
    using assms by (cases p) (auto simp: row_ok_def projection_key_def operation_key_def)
  then show ?thesis using assms by (simp add: row_ok_def projection_receipt_from_row_def res_simps)
qed

lemma stored_receipt_belongs:
  "row_ok d k row (Some x) pr \<Longrightarrow> require_operation (rr_receipt x) (ow_request row) = Inr ()"
  by (simp add: row_ok_def)

lemma stored_projection_binds:
  assumes ok: "row_ok d k row (Some x) (Some p)"
    and read: "receipt_verifies d zone x"
  shows "require_data_plane_receipt d p (read_receipt zone (rr_receipt x)) = Inr ()"
proof -
  have "operation_key (ow_request row) = projection_key p"
    "pr_project_id p = or_project_id (ow_request row)"
    "ow_data_hash row = Some (pr_data_plane_receipt_hash p)" "ow_data_hash row = Some (rr_hash x)"
    using ok by (auto simp: row_ok_def)
  moreover have "dr_organization_id (read_receipt zone r) = dr_organization_id r"
    "dr_operation_id (read_receipt zone r) = dr_operation_id r"
    "dr_project_id (read_receipt zone r) = dr_project_id r" for r
    by (simp_all add: read_receipt_def)
  ultimately show ?thesis
    using stored_receipt_belongs[OF ok] read
    by (simp add: receipt_verifies_def require_data_plane_receipt_def require_operation_def res_simps operation_key_def
        projection_key_def)
qed

text \<open>The snapshot of a row: its request and state with the receipts its state lets it have.\<close>

definition row_snapshot :: "journal \<Rightarrow> operation_id \<Rightarrow> operation_row \<Rightarrow> operation_snapshot" where
  "row_snapshot j k row = \<lparr>os_request = ow_request row, os_state = ow_state row,
     os_data_receipt = map_option (\<lambda>x. read_receipt (j_zone j) (rr_receipt x)) (map_of (j_receipts j) k),
     os_projection = map_of (j_projections j) k,
     os_interrupted_at = ow_interrupted_at row, os_disposition = ow_disposition row\<rparr>"

text \<open>Whether the receipt of an operation, if it has one, verifies in the time zone of the sessions.\<close>

definition operation_verifies :: "digest \<Rightarrow> journal \<Rightarrow> operation_id \<Rightarrow> bool" where
  "operation_verifies d j k = (case map_of (j_receipts j) k of None \<Rightarrow> True
     | Some x \<Rightarrow> receipt_verifies d (j_zone j) x)"

lemma projected_operation_verifies:
  assumes ok: "journal_ok d j" and row: "map_of (j_operations j) k = Some row" "ow_state row = PROJECTED"
  shows "operation_verifies d j k"
proof -
  obtain x p where "map_of (j_receipts j) k = Some x" "map_of (j_projections j) k = Some p"
    using journal_rows[OF ok row(1)] row(2) by (auto simp: row_ok_def)
  then show ?thesis
    using ok unfolding journal_ok_def projections_verified_def by (simp add: operation_verifies_def)
qed

lemma session_zone_verifies:
  assumes ok: "journal_ok d j" and row: "map_of (j_operations j) k = Some row"
    and zone: "\<And>x. map_of (j_receipts j) k = Some x \<Longrightarrow>
      dr_committed_offset (rr_receipt x) = j_zone j (at_time (dr_committed_at (rr_receipt x)))"
  shows "operation_verifies d j k"
  using journal_rows[OF ok row] zone
  by (auto simp: operation_verifies_def receipt_verifies_def row_ok_def receipt_of_session_zone split: option.splits)

lemma mk_operation_snapshot_ok:
  assumes "(case os_data_receipt s of None \<Rightarrow> Inr () | Some r \<Rightarrow> require_operation r (os_request s)) = Inr ()"
    and "(case os_projection s of None \<Rightarrow> Inr () | Some p \<Rightarrow> (case os_data_receipt s of
      None \<Rightarrow> Inl ValueError | Some r \<Rightarrow> require_data_plane_receipt d p r)) = Inr ()"
    and "os_state s = RESERVED \<longrightarrow> os_data_receipt s = None \<and> os_projection s = None"
    and "os_state s = DATA_COMMITTED \<longrightarrow> os_data_receipt s \<noteq> None \<and> os_projection s = None"
    and "os_state s = PROJECTED \<longrightarrow> os_data_receipt s \<noteq> None \<and> os_projection s \<noteq> None"
    and "if os_state s \<in> {INTERRUPTED, MANUAL_REVIEW}
      then (case os_interrupted_at s of None \<Rightarrow> False | Some t \<Rightarrow> aware t) \<and> os_disposition s \<noteq> None
      else os_interrupted_at s = None \<and> os_disposition s = None"
  shows "mk_operation_snapshot d s = Inr s"
  using assms(3-6) unfolding mk_operation_snapshot_def Let_def assms(1,2) by (cases "os_state s") simp_all

lemma snapshot_constructs:
  assumes r: "row_ok d k row (map_of (j_receipts j) k) (map_of (j_projections j) k)"
    and read: "operation_verifies d j k"
  shows "mk_operation_snapshot d (row_snapshot j k row) = Inr (row_snapshot j k row)"
proof -
  let ?dr = "map_of (j_receipts j) k" and ?pr = "map_of (j_projections j) k"
  let ?read = "map_option (\<lambda>x. read_receipt (j_zone j) (rr_receipt x)) ?dr"
  have data: "(case ?read of None \<Rightarrow> Inr ()
      | Some x \<Rightarrow> require_operation x (ow_request row)) = Inr ()"
    using r by (cases ?dr) (simp_all add: stored_receipt_belongs)
  have projection: "(case ?pr of None \<Rightarrow> Inr () | Some p \<Rightarrow> (case ?read of
      None \<Rightarrow> Inl ValueError | Some x \<Rightarrow> require_data_plane_receipt d p x)) = Inr ()"
  proof (cases ?pr)
    case (Some p)
    then obtain x where "?dr = Some x" using r by (auto simp: row_ok_def)
    then show ?thesis using r read Some by (simp add: stored_projection_binds operation_verifies_def)
  qed simp
  have dr: "ow_state row \<in> {RESERVED, INTERRUPTED} \<longrightarrow> ?dr = None"
    "ow_state row \<in> {DATA_COMMITTED, PROJECTED} \<longrightarrow> ?dr \<noteq> None" "ow_state row = PROJECTED \<longleftrightarrow> ?pr \<noteq> None"
    and recovery: "if ending (ow_state row)
      then (\<exists>t. ow_interrupted_at row = Some (Aware t)) \<and> ow_disposition row \<noteq> None
      else ow_interrupted_at row = None \<and> ow_disposition row = None"
    using r unfolding row_ok_def by blast+
  have "if ow_state row \<in> {INTERRUPTED, MANUAL_REVIEW}
      then (case ow_interrupted_at row of None \<Rightarrow> False | Some t \<Rightarrow> aware t) \<and> ow_disposition row \<noteq> None
      else ow_interrupted_at row = None \<and> ow_disposition row = None"
    using recovery unfolding ending_def by (auto split: if_splits)
  moreover have "ow_state row = RESERVED \<longrightarrow> ?dr = None \<and> ?pr = None"
    "ow_state row = DATA_COMMITTED \<longrightarrow> ?dr \<noteq> None \<and> ?pr = None"
    "ow_state row = PROJECTED \<longrightarrow> ?dr \<noteq> None \<and> ?pr \<noteq> None"
    using dr by auto
  ultimately show ?thesis
    using data projection
    by (intro mk_operation_snapshot_ok; unfold row_snapshot_def operation_snapshot.simps) simp_all
qed

text \<open>The rows that a read joins, and the rows it selects by hash and state, give the same snapshot; both
  reads fail when the stored receipt does not verify.\<close>

lemma snapshot_of_joined_row:
  assumes ok: "journal_ok d j" and row: "map_of (j_operations j) k = Some row"
  shows "snapshot_from_rows (j_zone j) d row (map_of (j_receipts j) k) (map_of (j_projections j) k)
    = (if operation_verifies d j k then Inr (row_snapshot j k row) else Inl StorageError)"
proof -
  let ?dr = "map_of (j_receipts j) k" and ?pr = "map_of (j_projections j) k"
  have r: "row_ok d k row ?dr ?pr" by (rule journal_rows[OF ok row])
  have op: "operation_from_row row = Inr (ow_request row)" by (rule stored_operation[OF r])
  let ?read = "map_option (\<lambda>x. read_receipt (j_zone j) (rr_receipt x)) ?dr"
  have dr: "optional_res (data_receipt_from_row (j_zone j) d) ?dr
      = (if operation_verifies d j k then Inr ?read else Inl StorageError)"
    using r by (cases ?dr) (simp_all add: stored_receipt_read operation_verifies_def)
  have pr: "optional_res (projection_receipt_from_row (ow_request row)) ?pr = Inr ?pr"
    using r by (cases ?pr) (simp_all add: stored_projection_decodes)
  show ?thesis
  proof (cases "operation_verifies d j k")
    case True
    then have "map_option d ?read = ow_data_hash row"
      using r by (cases ?dr) (auto simp: row_ok_def operation_verifies_def receipt_verifies_def)
    then have hash: "checkr (map_option d ?read = ow_data_hash row) ValueError = Inr ()"
      unfolding res_simps .
    show ?thesis
      unfolding snapshot_from_rows_def op bindr_simps dr if_P[OF True] hash pr
      using snapshot_constructs[OF r True] unfolding row_snapshot_def by (simp add: decoded_def)
  next
    case False
    show ?thesis
      unfolding snapshot_from_rows_def op bindr_simps dr if_not_P[OF False] by (simp add: decoded_def)
  qed
qed

lemma snapshot_of_ok_row:
  assumes ok: "journal_ok d j" and row: "map_of (j_operations j) k = Some row"
  shows "snapshot_from_rows (j_zone j) d row
           (if ow_data_hash row \<noteq> None then map_of (j_receipts j) k else None)
           (if ow_state row = PROJECTED then map_of (j_projections j) k else None)
         = (if operation_verifies d j k then Inr (row_snapshot j k row) else Inl StorageError)"
proof -
  let ?dr = "map_of (j_receipts j) k" and ?pr = "map_of (j_projections j) k"
  have h: "map_option rr_hash ?dr = ow_data_hash row" and state: "ow_state row = PROJECTED \<longleftrightarrow> ?pr \<noteq> None"
    using journal_rows[OF ok row] unfolding row_ok_def by blast+
  have sel: "(if ow_data_hash row \<noteq> None then ?dr else None) = ?dr"
    unfolding h[symmetric] by simp
  have sel': "(if ow_state row = PROJECTED then ?pr else None) = ?pr" unfolding state by simp
  show ?thesis unfolding sel sel' by (rule snapshot_of_joined_row[OF ok row])
qed


section \<open>A run for the witnesses\<close>

text \<open>An operation is reserved, committed and projected; the digest of every receipt is one hash.\<close>

definition example_hash :: "char \<Rightarrow> string" where
  "example_hash c = ''sha256:'' @ replicate 64 c"

definition example_digest :: digest where
  "example_digest r = example_hash (CHR ''d'')"

text \<open>The sessions of the examples show every instant in UTC.\<close>

definition example_zone :: "int \<Rightarrow> int" where
  "example_zone t = 0"

definition example_request :: "char \<Rightarrow> operation_request" where
  "example_request c = \<lparr>or_operation_id = example_uuid c, or_organization_id = ''org'',
     or_project_id = example_uuid (CHR ''1''), or_operation_kind = ''load'', or_idempotency_key = [c],
     or_semantic_input_hash = example_hash (CHR ''0''), or_authorization_receipt_id = ''grant'',
     or_requested_by = \<lparr>actor_issuer = ''idp'', actor_subject_id = ''user'', actor_display_name = ''User''\<rparr>,
     or_requested_at = Aware 0\<rparr>"

definition example_receipt :: "char \<Rightarrow> int \<Rightarrow> data_receipt" where
  "example_receipt c t = \<lparr>dr_receipt_id = [c], dr_operation_id = example_uuid c, dr_organization_id = ''org'',
     dr_project_id = example_uuid (CHR ''1''), dr_workspace_id = Some (example_uuid (CHR ''2'')),
     dr_operation_kind = ''load'', dr_semantic_input_hash = example_hash (CHR ''0''),
     dr_fencing_token = Some 1, dr_evidence_hash = example_hash (CHR ''e''), dr_artifacts = [],
     dr_committed_at = Aware t, dr_committed_offset = 0\<rparr>"

definition example_projection :: "char \<Rightarrow> projection_receipt" where
  "example_projection c = \<lparr>pr_projection_receipt_id = [c], pr_operation_id = example_uuid c,
     pr_organization_id = ''org'', pr_project_id = example_uuid (CHR ''1''),
     pr_data_plane_receipt_hash = example_hash (CHR ''d''), pr_projection_hash = example_hash (CHR ''f''),
     pr_projection_revision = 1, pr_projected_at = Aware 9\<rparr>"

definition example_calls :: "journal_op list" where
  "example_calls = [Reserve (example_request (CHR ''a'')), RecordData (example_receipt (CHR ''a'') 5),
     RecordProjection (example_projection (CHR ''a''))]"

definition example_slot :: projection_slot where
  "example_slot = (''org'', example_uuid (CHR ''1''), ''load'')"


section \<open>Properties\<close>

text \<open>C12: recorded evidence is immutable.  Whatever calls follow, a reserved operation keeps its
  request, its state never moves back, an operation that is projected, interrupted or under manual
  review keeps its whole row, and every stored receipt stays as it was recorded.\<close>

theorem journal_evidence_is_immutable:
  "(\<forall>k row. map_of (j_operations (journal_after zone d as)) k = Some row \<longrightarrow>
      (\<exists>row'. map_of (j_operations (journal_after zone d (as @ bs))) k = Some row'
         \<and> ow_request row' = ow_request row \<and> state_rank (ow_state row) \<le> state_rank (ow_state row')
         \<and> (ow_state row \<in> {PROJECTED, INTERRUPTED, MANUAL_REVIEW} \<longrightarrow> row' = row)))
   \<and> (\<forall>k x. map_of (j_receipts (journal_after zone d as)) k = Some x \<longrightarrow>
        map_of (j_receipts (journal_after zone d (as @ bs))) k = Some x)
   \<and> (\<forall>k p. map_of (j_projections (journal_after zone d as)) k = Some p \<longrightarrow>
        map_of (j_projections (journal_after zone d (as @ bs))) k = Some p)"
  using reachable_evolves[of d as zone bs]
  unfolding journal_earlier_def dict_grows_def row_earlier_def by force

theorem journal_evidence_is_immutable_witness:
  "map_of (j_projections (journal_after example_zone example_digest (example_calls @ [Reserve (example_request (CHR ''b''))])))
     (operation_key (example_request (CHR ''a''))) = Some (example_projection (CHR ''a''))"
proof -
  have "map_of (j_projections (journal_after example_zone example_digest example_calls))
     (operation_key (example_request (CHR ''a''))) = Some (example_projection (CHR ''a''))"
    by code_simp
  then show ?thesis
    using journal_evidence_is_immutable[where zone = example_zone and d = example_digest and as = example_calls
        and bs = "[Reserve (example_request (CHR ''b''))]"] by blast
qed

text \<open>A read finds consistent evidence.  After any calls, reading an operation reports an
  invalid identifier, an unknown operation or another request under its key, it fails because the
  stored receipt does not verify in the time zone of the session, or it returns the snapshot of the
  stored row with exactly its receipts.\<close>

theorem get_finds_consistent_evidence:
  "case get_operation d r (journal_after zone d as) of
     Inl e \<Rightarrow> e \<in> {FoundationError, OperationNotFound, IdempotencyConflict}
       \<or> e = StorageError \<and> \<not> operation_verifies d (journal_after zone d as) (operation_key r)
   | Inr s \<Rightarrow> operation_verifies d (journal_after zone d as) (operation_key r) \<and> (\<exists>row. map_of (j_operations (journal_after zone d as)) (operation_key r) = Some row
       \<and> s = row_snapshot (journal_after zone d as) (operation_key r) row
       \<and> require_same_idempotent_request (ow_request row) r = Inr ())"
proof -
  let ?j = "journal_after zone d as" and ?k = "operation_key r"
  have ok: "journal_ok d ?j" by (rule reachable_journal_ok)
  show ?thesis
  proof (cases "map_of (j_operations ?j) ?k")
    case None
    then show ?thesis by (simp add: get_operation_def require_uuid_def)
  next
    case (Some row)
    have r: "row_ok d ?k row (map_of (j_receipts ?j) ?k) (map_of (j_projections ?j) ?k)"
      by (rule journal_rows[OF ok Some])
    have snap: "snapshot_from_rows (j_zone ?j) d row (if ow_data_hash row \<noteq> None then map_of (j_receipts ?j) ?k else None)
        (if ow_state row = PROJECTED then map_of (j_projections ?j) ?k else None)
        = (if operation_verifies d ?j ?k then Inr (row_snapshot ?j ?k row) else Inl StorageError)"
      by (rule snapshot_of_ok_row[OF ok Some])
    show ?thesis
      using Some unfolding get_operation_def Some option.case stored_operation[OF r] bindr_simps snap
      by (auto simp: require_uuid_def require_same_idempotent_request_def checkr_def)
  qed
qed

lemma projected_entry_key:
  assumes ok: "journal_ok d j" and e: "projected_entry j k slot c"
  shows "fst k = fst slot \<and> snd k = cr_operation_id c"
proof -
  obtain row x p where e': "map_of (j_operations j) k = Some row" "slot_of (ow_request row) = slot"
    "map_of (j_projections j) k = Some p" "map_of (j_receipts j) k = Some x"
    "c = candidate_row p (dr_committed_at (rr_receipt x))"
    using e unfolding projected_entry_def by blast
  then show ?thesis using journal_rows[OF ok e'(1)]
    by (auto simp: row_ok_def slot_of_def operation_key_def projection_key_def candidate_row_def)
qed

lemma projected_entry_unique: "projected_entry j k slot c \<Longrightarrow> projected_entry j k slot c' \<Longrightarrow> c = c'"
  by (auto simp: projected_entry_def)

text \<open>C13: the current projection is the latest one.  For every organization, project and kind the
  current row is exactly the candidate of the projected operation with the greatest commit time and,
  at equal times, the greatest identifier, in whatever order the receipts arrived.\<close>

theorem current_projection_is_latest:
  "map_of (j_current (journal_after zone d as)) slot = Some c \<longleftrightarrow>
     (\<exists>k. projected_entry (journal_after zone d as) k slot c)
   \<and> (\<forall>k' c'. projected_entry (journal_after zone d as) k' slot c' \<longrightarrow> current_key c' \<le> current_key c)"
proof -
  let ?j = "journal_after zone d as"
  have ok: "journal_ok d ?j" by (rule reachable_journal_ok)
  then have cur: "current_ok ?j" by (simp add: journal_ok_def)
  note key = projected_entry_key[OF ok] and same = projected_entry_unique
  show ?thesis
  proof
    assume m: "map_of (j_current ?j) slot = Some c"
    then show "(\<exists>k. projected_entry ?j k slot c)
      \<and> (\<forall>k' c'. projected_entry ?j k' slot c' \<longrightarrow> current_key c' \<le> current_key c)"
      using cur unfolding current_ok_def by (metis option.inject)
  next
    assume r: "(\<exists>k. projected_entry ?j k slot c)
      \<and> (\<forall>k' c'. projected_entry ?j k' slot c' \<longrightarrow> current_key c' \<le> current_key c)"
    then obtain k c' where k: "projected_entry ?j k slot c" "map_of (j_current ?j) slot = Some c'"
      "current_key c \<le> current_key c'"
      using cur unfolding current_ok_def by blast
    then obtain k' where k': "projected_entry ?j k' slot c'" using cur unfolding current_ok_def by blast
    then have "current_key c = current_key c'" using r k(3) by (meson antisym)
    then have "k = k'" using key[OF k(1)] key[OF k'] by (auto simp: current_key_def prod_eq_iff)
    then show "map_of (j_current ?j) slot = Some c" using same k k' by simp
  qed
qed

theorem current_projection_is_latest_witness:
  "\<exists>k. projected_entry (journal_after example_zone example_digest example_calls) k example_slot
     (candidate_row (example_projection (CHR ''a'')) (Aware 5))"
proof -
  have "map_of (j_current (journal_after example_zone example_digest example_calls)) example_slot
      = Some (candidate_row (example_projection (CHR ''a'')) (Aware 5))"
    by code_simp
  then show ?thesis using current_projection_is_latest by blast
qed

text \<open>C11: an idempotency key is created once.  When a reservation was created, every later
  reservation under its key, after any calls, raises or returns the first request as a replay and
  leaves the journal as it is.\<close>

theorem reservation_is_created_once:
  assumes "reserve_with_status r (journal_after zone d as) = Inr ((q, True), j)"
    and "build_request r = Inr r"
    and "idempotency_scope s = idempotency_scope r"
    and "reserve_with_status s (run_ops (journal_step d) bs j) = Inr ((q', created), j')"
  shows "q = r \<and> q' = r \<and> \<not> created \<and> j' = run_ops (journal_step d) bs j"
proof -
  let ?l = "run_ops (journal_step d) bs j"
  have ok: "journal_ok d (journal_after zone d as)" by (rule reachable_journal_ok)
  have j: "journal_ok d j" using reserve_ok[OF ok assms(2,1)] by simp
  have l: "journal_ok d ?l" "journal_earlier j ?l"
    using journal_runs.run_inv[OF j] journal_runs.run_earlier[OF j] by blast+
  have "distinct (map fst (j_operations (journal_after zone d as)))" using ok by (simp add: journal_ok_def)
  with assms(1) obtain row where row: "map_of (j_operations j) (operation_key r) = Some row"
    "ow_request row = r" "q = r"
    by (cases rule: reserve_cases) (auto simp: map_of_dict_set)
  obtain row' where row': "map_of (j_operations ?l) (operation_key r) = Some row'" "ow_request row' = r"
    using dict_growsD[OF _ row(1), of row_earlier "j_operations ?l"] l(2) row(2)
    by (auto simp: journal_earlier_def row_earlier_def)
  have "distinct (map fst (j_operations ?l))" using l(1) by (simp add: journal_ok_def)
  with assms(4) show ?thesis
  proof (cases rule: reserve_cases)
    case new
    then show ?thesis using operation_by_scope_None[OF new(4) row'(1)] row'(2) assms(3) by simp
  next
    case (replay k m)
    have "scopes_unique ?l" using l(1) by (simp add: journal_ok_def)
    then have "k = operation_key r"
      using replay(3,5) row' assms(3) unfolding scopes_unique_def by auto
    then have "ow_request m = r" using replay(3) row' by simp
    then show ?thesis
      using replay stored_operation[OF journal_rows[OF l(1) replay(3)]] row(3) by simp
  qed
qed

theorem reservation_is_created_once_witness:
  "\<exists>q created j'. reserve_with_status (example_request (CHR ''a''))
      (run_ops (journal_step example_digest) (tl example_calls)
        (journal_after example_zone example_digest (take 1 example_calls))) = Inr ((q, created), j')
    \<and> q = example_request (CHR ''a'') \<and> \<not> created"
proof -
  let ?r = "example_request (CHR ''a'')" and ?j = "journal_after example_zone example_digest (take 1 example_calls)"
  let ?again = "reserve_with_status ?r (run_ops (journal_step example_digest) (tl example_calls) ?j)"
  let ?first = "reserve_with_status ?r (journal_after example_zone example_digest [])"
  have created: "map_sum id fst ?first = Inr (?r, True)" and built: "build_request ?r = Inr ?r"
    and answered: "\<not> isl ?again"
    by code_simp+
  obtain j where j: "?first = Inr ((?r, True), j)" using created by (cases ?first) auto
  have "?j = j" using j built by (simp add: example_calls_def res_simps)
  then have "?first = Inr ((?r, True), ?j)" using j by simp
  moreover note built
  moreover from answered obtain q created j' where "?again = Inr ((q, created), j')"
    by (cases ?again) (auto simp: isl_def)
  ultimately show ?thesis
    using reservation_is_created_once[where zone = example_zone and d = example_digest and as = "[]" and r = ?r and s = ?r
        and bs = "tl example_calls"] by blast
qed

end
