(* ===== verification/Cross_Store_World.thy ===== *)
theory Cross_Store_World
imports Cross_Store_Laws Journal_Properties
begin

text \<open>
  The coordinator on the PostgreSQL journal and lease repository.  What lies outside the program (the
  data-plane command, the artifact store, the projection updater, the clock, the identifier source) is
  a record of parameters, and so are the other workers: after each outside call they may make any
  calls on the shared journal and lease tables.  The ports of this world satisfy the contract of
  \<open>Cross_Store_Laws\<close>, so its guarantees become properties of every run.
\<close>


section \<open>The world\<close>

record 'w outside =
  out_execute :: "operation_request \<Rightarrow> workspace_lease \<Rightarrow> 'w \<Rightarrow> data_receipt res \<times> 'w"
  out_find :: "operation_request \<Rightarrow> 'w \<Rightarrow> data_receipt option res \<times> 'w"
  out_verify :: "artifact_identity \<Rightarrow> 'w \<Rightarrow> unit res \<times> 'w"
  out_project :: "data_receipt \<Rightarrow> 'w \<Rightarrow> projection_receipt res \<times> 'w"
  out_boundary :: "boundary \<Rightarrow> 'w \<Rightarrow> unit res \<times> 'w"
  out_clock :: "'w \<Rightarrow> datetime res \<times> 'w"
  out_lease_id :: "'w \<Rightarrow> string \<times> 'w"
  out_others :: "'w \<Rightarrow> (journal_op list \<times> lease_op list) \<times> 'w"
  out_duration :: int
  out_digest :: digest

record 'w world =
  w_journal :: journal
  w_leases :: lease_system
  w_started :: "operation_request list"
  w_outside :: 'w

text \<open>A value is one its constructor accepts as it is.\<close>

definition constructed :: "('a \<Rightarrow> 'a res) \<Rightarrow> 'a \<Rightarrow> unit res" where
  "constructed mk x = bindr (mk x) (\<lambda>y. checkr (y = x) TypeError)"

definition on_journal :: "(journal \<Rightarrow> ('a \<times> journal) res) \<Rightarrow> ('a, 'w world) prog" where
  "on_journal f s = (case f (w_journal s) of Inl e \<Rightarrow> (Inl e, s) | Inr (x, j) \<Rightarrow> (Inr x, s\<lparr>w_journal := j\<rparr>))"

definition on_leases :: "(lease_table \<Rightarrow> (workspace_lease \<times> lease_table) res) \<Rightarrow> (workspace_lease, 'w world) prog"
where
  "on_leases f s = (case f (ls_table (w_leases s)) of Inl e \<Rightarrow> (Inl e, s)
     | Inr (l, table) \<Rightarrow> (Inr l, s\<lparr>w_leases := \<lparr>ls_table = table, ls_issued = l # ls_issued (w_leases s)\<rparr>\<rparr>))"

definition unit_call :: "journal res \<Rightarrow> (unit \<times> journal) res" where
  "unit_call m = bindr m (\<lambda>j. Inr ((), j))"

definition interfere :: "'w outside \<Rightarrow> journal_op list \<Rightarrow> lease_op list \<Rightarrow> 'w world \<Rightarrow> 'w world" where
  "interfere out js ls s = s\<lparr>w_journal := run_ops (journal_step (out_digest out)) js (w_journal s),
     w_leases := run_ops lease_step ls (w_leases s)\<rparr>"

text \<open>Only the coordinator raises its own two exception classes.\<close>

definition foreign :: "'a res \<Rightarrow> 'a res" where
  "foreign m = (case m of Inr x \<Rightarrow> Inr x
     | Inl e \<Rightarrow> Inl (if e \<in> {ManualReviewRequired, InterruptedOperation} then CallbackError else e))"

definition ask :: "'w outside \<Rightarrow> ('w \<Rightarrow> 'a res \<times> 'w) \<Rightarrow> ('a, 'w world) prog" where
  "ask out f s = (let (x, w) = f (w_outside s); ((js, ls), w') = out_others out w in
     (foreign x, (interfere out js ls s)\<lparr>w_outside := w'\<rparr>))"

definition ask_data_plane :: "'w outside \<Rightarrow> operation_request \<Rightarrow> workspace_lease \<Rightarrow> (data_receipt, 'w world) prog"
where
  "ask_data_plane out r l s = (let (x, t) = ask out (out_execute out r l) s in
     (x, t\<lparr>w_started := r # w_started t\<rparr>))"

definition ask_lease :: "'w outside \<Rightarrow> string \<Rightarrow> string \<Rightarrow> string \<Rightarrow> string \<Rightarrow> datetime \<Rightarrow> datetime
    \<Rightarrow> (workspace_lease, 'w world) prog" where
  "ask_lease out g p w h at expires s = (let (i, v) = out_lease_id out (w_outside s) in
     on_leases (acquire_lease i g p w h at expires) (s\<lparr>w_outside := v\<rparr>))"

definition world_ports :: "'w outside \<Rightarrow> 'w world ports" where
  "world_ports out = (let d = out_digest out in
    \<lparr>journal_reserve = \<lambda>r. on_journal (\<lambda>j. bindr (constructed build_request r) (\<lambda>_. reserve_with_status r j)),
     journal_get = \<lambda>r. on_journal (\<lambda>j. bindr (get_operation d r j) (\<lambda>m. Inr (m, j))),
     journal_record_data = \<lambda>r. on_journal (\<lambda>j. unit_call (bindr (constructed mk_data_receipt r)
       (\<lambda>_. record_data_plane_receipt d r j))),
     journal_record_projection = \<lambda>p. on_journal (\<lambda>j. unit_call (bindr (constructed mk_projection_receipt p)
       (\<lambda>_. record_projection_receipt d p j))),
     journal_interrupt = \<lambda>r t x. on_journal (\<lambda>j. unit_call (record_interruption r t x j)),
     journal_review = \<lambda>r t x. on_journal (\<lambda>j. unit_call (require_manual_review r t x j)),
     leases_acquire = ask_lease out,
     leases_release = \<lambda>l t. on_leases (release_stored l t),
     data_execute = ask_data_plane out,
     data_find = \<lambda>r. ask out (out_find out r),
     artifacts_verify = \<lambda>i. ask out (out_verify out i),
     projections_project = \<lambda>d. ask out (out_project out d),
     at_boundary = \<lambda>b. ask out (out_boundary out b),
     read_clock = ask out (out_clock out),
     lease_duration = out_duration out,
     receipt_digest = d\<rparr>)"


section \<open>The contract holds\<close>

definition world_ok :: "'w outside \<Rightarrow> 'w world \<Rightarrow> bool" where
  "world_ok out s = (journal_ok (out_digest out) (w_journal s) \<and> leases_ok (w_leases s))"

definition world_le :: "'w world \<Rightarrow> 'w world \<Rightarrow> bool" where
  "world_le s t = journal_earlier (w_journal s) (w_journal t)"

definition world_scopes :: "'w world \<Rightarrow> (string \<times> string) set" where
  "world_scopes s = {idempotency_scope (ow_request row) | k row. map_of (j_operations (w_journal s)) k = Some row}"

definition world_projected :: "'w world \<Rightarrow> operation_id \<Rightarrow> string \<Rightarrow> projection_receipt \<Rightarrow> bool" where
  "world_projected s k hash p = (\<exists>row. map_of (j_operations (w_journal s)) k = Some row
     \<and> ow_state row = PROJECTED \<and> ow_data_hash row = Some hash
     \<and> map_of (j_projections (w_journal s)) k = Some p)"

definition world_finished :: "'w world \<Rightarrow> operation_id \<Rightarrow> operation_state \<Rightarrow> bool" where
  "world_finished s k state = (\<exists>row. map_of (j_operations (w_journal s)) k = Some row \<and> ow_state row = state)"

abbreviation world_quiet :: "'w world \<Rightarrow> 'w world \<Rightarrow> bool" where
  "world_quiet s t \<equiv> world_le s t \<and> w_started t = w_started s"

lemma constructed_Inr [res_simps]: "constructed mk x = Inr u \<longleftrightarrow> mk x = Inr x"
  by (auto simp: constructed_def res_simps)

lemma keeps_on_journal:
  assumes "\<And>j x j'. journal_ok (out_digest out) j \<Longrightarrow> f j = Inr (x, j') \<Longrightarrow>
    journal_ok (out_digest out) j' \<and> journal_earlier j j'"
  shows "keeps (world_ok out) world_quiet (on_journal f)"
  unfolding keeps_def
proof (intro allI impI)
  fix s r t
  assume s: "world_ok out s" and run: "on_journal f s = (r, t)"
  show "world_ok out t \<and> world_le s t \<and> w_started t = w_started s"
  proof (cases "f (w_journal s)")
    case (Inl e)
    then show ?thesis using run s by (auto simp: on_journal_def world_le_def)
  next
    case (Inr y)
    obtain x j where y: "y = (x, j)" by fastforce
    then have "t = s\<lparr>w_journal := j\<rparr>" using run Inr by (auto simp: on_journal_def)
    then show ?thesis using assms[of "w_journal s" x j] s Inr y by (simp add: world_ok_def world_le_def)
  qed
qed

lemma on_journal_Inr: "on_journal f s = (Inr x, t) \<longleftrightarrow>
    (\<exists>j. f (w_journal s) = Inr (x, j) \<and> t = s\<lparr>w_journal := j\<rparr>)"
  by (auto simp: on_journal_def split: sum.splits prod.splits)

lemma unit_call_Inr [res_simps]: "unit_call m = Inr (u, j) \<longleftrightarrow> m = Inr j"
  by (auto simp: unit_call_def res_simps)

lemma keeps_on_leases:
  assumes "\<And>t l t'. f t = Inr (l, t') \<Longrightarrow> \<exists>a. lease_call a t = Inr (l, t')"
  shows "keeps (world_ok out) world_quiet (on_leases f)"
  unfolding keeps_def
proof (intro allI impI)
  fix s r t
  assume s: "world_ok out s" and run: "on_leases f s = (r, t)"
  show "world_ok out t \<and> world_le s t \<and> w_started t = w_started s"
  proof (cases "f (ls_table (w_leases s))")
    case (Inl e)
    then show ?thesis using run s by (auto simp: on_leases_def world_le_def)
  next
    case (Inr y)
    obtain l table where y: "y = (l, table)" by fastforce
    then obtain a where "lease_call a (ls_table (w_leases s)) = Inr (l, table)" using assms Inr by blast
    then have "lease_step a (w_leases s) = Inr \<lparr>ls_table = table, ls_issued = l # ls_issued (w_leases s)\<rparr>"
      by (simp add: lease_step_def)
    then have "leases_ok \<lparr>ls_table = table, ls_issued = l # ls_issued (w_leases s)\<rparr>"
      using s leases_ok_step unfolding world_ok_def by blast
    moreover have "t = s\<lparr>w_leases := \<lparr>ls_table = table, ls_issued = l # ls_issued (w_leases s)\<rparr>\<rparr>"
      using run Inr y by (auto simp: on_leases_def)
    ultimately show ?thesis using s by (simp add: world_ok_def world_le_def)
  qed
qed

lemma interfere_ok: "world_ok out s \<Longrightarrow> world_ok out (interfere out js ls s) \<and> world_quiet s (interfere out js ls s)"
  using journal_runs.run_inv journal_runs.run_earlier lease_runs.run_inv
  by (auto simp: world_ok_def world_le_def interfere_def)

lemma ask_result:
  assumes "ask out f s = (x, t)"
  obtains js ls w where "t = (interfere out js ls s)\<lparr>w_outside := w\<rparr>" "\<exists>y w. f (w_outside s) = (y, w) \<and> x = foreign y"
  using assms by (auto simp: ask_def Let_def split: prod.splits)

lemma world_outside [simp]: "world_ok out (s\<lparr>w_outside := w\<rparr>) = world_ok out s"
  "world_le s (t\<lparr>w_outside := w\<rparr>) = world_le s t" "world_le (s\<lparr>w_outside := w\<rparr>) t = world_le s t"
  "world_ok out (s\<lparr>w_started := rs\<rparr>) = world_ok out s" "world_le s (t\<lparr>w_started := rs\<rparr>) = world_le s t"
  by (simp_all add: world_ok_def world_le_def)

lemma keeps_ask: "keeps (world_ok out) world_quiet (ask out f)"
  unfolding keeps_def
proof (intro allI impI)
  fix s r t
  assume s: "world_ok out s" and run: "ask out f s = (r, t)"
  show "world_ok out t \<and> world_le s t \<and> w_started t = w_started s"
    using run by (rule ask_result) (use interfere_ok[OF s] in auto)
qed

lemma keeps_ask_lease: "keeps (world_ok out) world_quiet (ask_lease out g p w h a e)"
  unfolding keeps_def
proof (intro allI impI)
  fix s r t
  assume s: "world_ok out s" and run: "ask_lease out g p w h a e s = (r, t)"
  obtain i v where i: "out_lease_id out (w_outside s) = (i, v)" by fastforce
  have "keeps (world_ok out) world_quiet (on_leases (acquire_lease i g p w h a e))"
    by (rule keeps_on_leases) (metis lease_call.simps(1))
  moreover have "on_leases (acquire_lease i g p w h a e) (s\<lparr>w_outside := v\<rparr>) = (r, t)"
    using run i by (simp add: ask_lease_def)
  ultimately have "world_ok out t \<and> world_le (s\<lparr>w_outside := v\<rparr>) t \<and> w_started t = w_started (s\<lparr>w_outside := v\<rparr>)"
    using s by (blast dest: keepsD intro: world_outside[THEN iffD2])
  then show "world_ok out t \<and> world_le s t \<and> w_started t = w_started s" by simp
qed

lemma world_ports_simps:
  "journal_reserve (world_ports out) r =
     on_journal (\<lambda>j. bindr (constructed build_request r) (\<lambda>_. reserve_with_status r j))"
  "journal_get (world_ports out) r = on_journal (\<lambda>j. bindr (get_operation (out_digest out) r j) (\<lambda>m. Inr (m, j)))"
  "journal_record_data (world_ports out) d = on_journal (\<lambda>j. unit_call (bindr (constructed mk_data_receipt d)
       (\<lambda>_. record_data_plane_receipt (out_digest out) d j)))"
  "journal_record_projection (world_ports out) p = on_journal (\<lambda>j. unit_call
     (bindr (constructed mk_projection_receipt p) (\<lambda>_. record_projection_receipt (out_digest out) p j)))"
  "journal_interrupt (world_ports out) r t x = on_journal (\<lambda>j. unit_call (record_interruption r t x j))"
  "journal_review (world_ports out) r t x = on_journal (\<lambda>j. unit_call (require_manual_review r t x j))"
  "leases_acquire (world_ports out) = ask_lease out"
  "leases_release (world_ports out) l t = on_leases (release_stored l t)"
  "data_execute (world_ports out) = ask_data_plane out"
  "data_find (world_ports out) r = ask out (out_find out r)"
  "artifacts_verify (world_ports out) i = ask out (out_verify out i)"
  "projections_project (world_ports out) d = ask out (out_project out d)"
  "at_boundary (world_ports out) b = ask out (out_boundary out b)"
  "read_clock (world_ports out) = ask out (out_clock out)"
  "receipt_digest (world_ports out) = out_digest out"
  by (simp_all add: world_ports_def Let_def)

lemma get_row_snapshot:
  assumes ok: "journal_ok d j" and get: "get_operation d r j = Inr m"
  obtains row where "map_of (j_operations j) (operation_key r) = Some row"
    "m = row_snapshot j (operation_key r) row" "operation_verifies d j (operation_key r)"
proof -
  obtain row where row: "map_of (j_operations j) (operation_key r) = Some row"
    using get by (cases "map_of (j_operations j) (operation_key r)") (auto simp: get_operation_def res_simps)
  have "m = row_snapshot j (operation_key r) row" "operation_verifies d j (operation_key r)"
    using get snapshot_of_ok_row[OF ok row] row by (auto simp: get_operation_def res_simps split: if_splits)
  then show thesis using row that by blast
qed

lemma record_projection_stored:
  assumes ok: "journal_ok d j" and p: "mk_projection_receipt p = Inr p"
    and step: "record_projection_receipt d p j = Inr j'"
  shows "\<exists>row. map_of (j_operations j') (projection_key p) = Some row \<and> ow_state row = PROJECTED
    \<and> ow_data_hash row = Some (pr_data_plane_receipt_hash p)
    \<and> map_of (j_projections j') (projection_key p) = Some p"
  using step
proof (rule record_projection_cases)
  fix row :: operation_row and x :: receipt_row and r :: data_receipt
  let ?k = "projection_key p"
  assume row: "map_of (j_operations j) ?k = Some row" "or_project_id (ow_request row) = pr_project_id p"
      "ow_data_hash row = Some (pr_data_plane_receipt_hash p)" "map_of (j_receipts j) ?k = Some x"
    and rest: "case map_of (j_projections j) ?k of
         Some q \<Rightarrow> projection_row_matches q p
           \<and> advance_projection_current p (or_operation_kind (ow_request row)) (dr_committed_at r) j = Inr j'
       | None \<Rightarrow> ow_state row = DATA_COMMITTED \<and> projection_columns p
           \<and> advance_projection_current p (or_operation_kind (ow_request row)) (dr_committed_at r)
               (j\<lparr>j_operations := dict_set (j_operations j) ?k (row\<lparr>ow_state := PROJECTED\<rparr>),
                  j_projections := dict_set (j_projections j) ?k p\<rparr>) = Inr j'"
  have old: "row_ok d ?k row (Some x) (map_of (j_projections j) ?k)"
    using journal_rows[OF ok row(1)] row(4) by simp
  show ?thesis
  proof (cases "map_of (j_projections j) ?k")
    case (Some q)
    with rest have m: "projection_row_matches q p" by simp
    have q: "q = p" using stored_projection[OF _ m p _ row(2,3)] old Some by simp
    have st: "ow_state row = PROJECTED" using old Some by (simp add: row_ok_def)
    have "j_operations j' = j_operations j" "j_projections j' = j_projections j"
      using rest Some by (auto elim!: advance_cases)
    then show ?thesis using row(1,3) st Some q by auto
  next
    case None
    with rest have "j_operations j' = dict_set (j_operations j) ?k (row\<lparr>ow_state := PROJECTED\<rparr>)"
      "j_projections j' = dict_set (j_projections j) ?k p"
      by (auto elim!: advance_cases)
    then show ?thesis using row(3) by (simp add: map_of_dict_set)
  qed
qed

lemma record_recovery_stored:
  assumes "record_recovery_state r state t x j = Inr j'"
  shows "\<exists>row. map_of (j_operations j') (operation_key r) = Some row \<and> ow_state row = state"
proof (cases "map_of (j_operations j) (operation_key r)")
  case None
  then show ?thesis using assms by (simp add: record_recovery_state_def res_simps)
next
  case (Some row)
  then show ?thesis using assms
    by (cases "ow_state row = state") (auto simp: record_recovery_state_def res_simps map_of_dict_set)
qed

lemma world_le_trans: "world_le s t \<Longrightarrow> world_le t u \<Longrightarrow> world_le s u"
  unfolding world_le_def by (rule journal_earlier_trans)

lemma world_scopesI: "map_of (j_operations (w_journal s)) k = Some row \<Longrightarrow>
    idempotency_scope (ow_request row) = c \<Longrightarrow> c \<in> world_scopes s"
  by (auto simp: world_scopes_def)

lemma world_le_scopes: "world_le s t \<Longrightarrow> world_scopes s \<subseteq> world_scopes t"
  unfolding world_le_def journal_earlier_def world_scopes_def dict_grows_def row_earlier_def
  by clarify (metis (lifting))

lemma world_le_projected: "world_le s t \<Longrightarrow> world_projected s k h p \<Longrightarrow> world_projected t k h p"
  unfolding world_le_def journal_earlier_def world_projected_def dict_grows_def row_earlier_def
  by (metis state_rank.simps(3))

lemma quiet_world_ports:
  "keeps (world_ok out) world_quiet (journal_reserve (world_ports out) r)"
  "keeps (world_ok out) world_quiet (journal_get (world_ports out) r)"
  "keeps (world_ok out) world_quiet (journal_record_data (world_ports out) d)"
  "keeps (world_ok out) world_quiet (journal_record_projection (world_ports out) p)"
  "keeps (world_ok out) world_quiet (journal_interrupt (world_ports out) r t x)"
  "keeps (world_ok out) world_quiet (journal_review (world_ports out) r t x)"
  "keeps (world_ok out) world_quiet (leases_acquire (world_ports out) a b c h t t')"
  "keeps (world_ok out) world_quiet (leases_release (world_ports out) l t)"
  "keeps (world_ok out) world_quiet (data_find (world_ports out) r)"
  "keeps (world_ok out) world_quiet (artifacts_verify (world_ports out) i)"
  "keeps (world_ok out) world_quiet (projections_project (world_ports out) d)"
  "keeps (world_ok out) world_quiet (at_boundary (world_ports out) e)"
  "keeps (world_ok out) world_quiet (read_clock (world_ports out))"
  unfolding world_ports_simps
  by (auto intro!: keeps_on_journal keeps_on_leases keeps_ask keeps_ask_lease
      simp: res_simps ending_def record_interruption_def require_manual_review_def
      dest: reserve_ok record_data_ok record_projection_ok record_recovery_ok
      intro: exI[of _ "Release l t"])

lemma data_plane_world:
  assumes s: "world_ok out s" and run: "data_execute (world_ports out) r l s = (y, t)"
  shows "world_ok out t \<and> world_le s t \<and> w_started t = r # w_started s"
proof -
  obtain x u where u: "ask out (out_execute out r l) s = (x, u)" by fastforce
  then have "t = u\<lparr>w_started := r # w_started u\<rparr>"
    using run by (simp add: world_ports_simps ask_data_plane_def Let_def)
  then show ?thesis using keepsD[OF keeps_ask s u] by simp
qed

interpretation cross_store: cross_store_ports world_le "world_ports out" "world_ok out" world_scopes w_started
  world_projected world_finished for out
proof
  show "world_le s s" for s by (simp add: world_le_def)
  show "world_le s t \<Longrightarrow> world_le t u \<Longrightarrow> world_le s u" for s t u by (rule world_le_trans)
  show "world_le s t \<Longrightarrow> world_scopes s \<subseteq> world_scopes t" for s t by (rule world_le_scopes)
  show "world_le s t \<Longrightarrow> world_projected s k h p \<Longrightarrow> world_projected t k h p" for s t k h p
    by (rule world_le_projected)
  show "world_ok out s \<Longrightarrow> data_execute (world_ports out) r l s = (y, t) \<Longrightarrow>
      world_ok out t \<and> world_le s t \<and> w_started t = r # w_started s" for s r l y t
    by (rule data_plane_world)
  show "idempotency_scope q \<notin> world_scopes s \<and> idempotency_scope q \<in> world_scopes t"
    if s: "world_ok out s" and r: "journal_reserve (world_ports out) r s = (Inr (q, True), t)" for s r q t
  proof -
    obtain j where j: "reserve_with_status r (w_journal s) = Inr ((q, True), j)" "t = s\<lparr>w_journal := j\<rparr>"
      using r by (auto simp: world_ports_simps on_journal_Inr res_simps)
    have "distinct (map fst (j_operations (w_journal s)))" using s by (simp add: world_ok_def journal_ok_def)
    with j(1) show ?thesis
    proof (cases rule: reserve_cases)
      case new
      have "idempotency_scope r \<notin> world_scopes s"
        using operation_by_scope_None[OF new(4)] unfolding world_scopes_def by fastforce
      moreover obtain row where "map_of (j_operations (w_journal t)) (operation_key r) = Some row" "ow_request row = r"
        by (simp add: j(2) new(6) map_of_dict_set)
      then have "idempotency_scope r \<in> world_scopes t" using world_scopesI by blast
      ultimately show ?thesis using new(2) by simp
    qed simp
  qed
  show "operation_key (os_request m) = operation_key r"
    if s: "world_ok out s" and r: "journal_get (world_ports out) r s = (Inr m, t)" for s r m t
  proof -
    have j: "journal_ok (out_digest out) (w_journal s)"
      and g: "get_operation (out_digest out) r (w_journal s) = Inr m"
      using s r by (auto simp: world_ports_simps on_journal_Inr res_simps world_ok_def)
    from j g obtain row where row: "map_of (j_operations (w_journal s)) (operation_key r) = Some row"
      "m = row_snapshot (w_journal s) (operation_key r) row" by (rule get_row_snapshot)
    then show ?thesis using row_ok_key[OF journal_rows[OF j row(1)]] by (simp add: row_snapshot_def)
  qed
  show "world_projected t (operation_key r) (receipt_digest (world_ports out) d) p"
    if s: "world_ok out s" and r: "journal_get (world_ports out) r s = (Inr m, t)"
      and m: "os_state m = PROJECTED" "os_data_receipt m = Some d" "os_projection m = Some p" for s r m t d p
  proof -
    have j: "journal_ok (out_digest out) (w_journal s)" and g: "get_operation (out_digest out) r (w_journal s) = Inr m"
      and t: "t = s" using s r by (auto simp: world_ports_simps on_journal_Inr res_simps world_ok_def)
    from j g obtain row where row: "map_of (j_operations (w_journal s)) (operation_key r) = Some row"
      "m = row_snapshot (w_journal s) (operation_key r) row"
      and read: "operation_verifies (out_digest out) (w_journal s) (operation_key r)" by (rule get_row_snapshot)
    have "row_ok (out_digest out) (operation_key r) row (map_of (j_receipts (w_journal s)) (operation_key r))
        (map_of (j_projections (w_journal s)) (operation_key r))" by (rule journal_rows[OF j row(1)])
    then have "ow_data_hash row = Some (out_digest out d)"
      using row(2) m(2) read
      by (auto simp: row_snapshot_def row_ok_def operation_verifies_def receipt_verifies_def)
    then show ?thesis using row m t by (auto simp: world_projected_def row_snapshot_def world_ports_simps)
  qed
  show "world_finished t (operation_key r) (os_state m)"
    if s: "world_ok out s" and r: "journal_get (world_ports out) r s = (Inr m, t)"
      and m: "os_state m \<in> {INTERRUPTED, MANUAL_REVIEW}" for s r m t
  proof -
    have j: "journal_ok (out_digest out) (w_journal s)" and g: "get_operation (out_digest out) r (w_journal s) = Inr m"
      and t: "t = s" using s r by (auto simp: world_ports_simps on_journal_Inr res_simps world_ok_def)
    from j g obtain row where "map_of (j_operations (w_journal s)) (operation_key r) = Some row"
      "m = row_snapshot (w_journal s) (operation_key r) row" by (rule get_row_snapshot)
    then show ?thesis using t by (simp add: world_finished_def row_snapshot_def)
  qed
  show "world_projected t (projection_key p) (pr_data_plane_receipt_hash p) p"
    if s: "world_ok out s" and r: "journal_record_projection (world_ports out) p s = (Inr (), t)" for s p t
    using record_projection_stored[of "out_digest out" "w_journal s" p] s r
    by (auto simp: world_ports_simps on_journal_Inr res_simps world_ok_def world_projected_def)
  show "world_finished t (operation_key r) INTERRUPTED"
    if "world_ok out s" and r: "journal_interrupt (world_ports out) r at x s = (Inr (), t)" for s r at x t
    using r record_recovery_stored[of r INTERRUPTED]
    by (auto simp: world_ports_simps on_journal_Inr res_simps world_finished_def record_interruption_def)
  show "world_finished t (operation_key r) MANUAL_REVIEW"
    if "world_ok out s" and r: "journal_review (world_ports out) r at x s = (Inr (), t)" for s r at x t
    using r record_recovery_stored[of r MANUAL_REVIEW]
    by (auto simp: world_ports_simps on_journal_Inr res_simps world_finished_def require_manual_review_def)
qed (rule quiet_world_ports)+



section \<open>No false alarms\<close>

definition calm :: "'a res \<Rightarrow> bool" where
  "calm m = (m \<noteq> Inl ManualReviewRequired \<and> m \<noteq> Inl InterruptedOperation)"

lemma calm_basic:
  "calm (Inr x)" "e \<noteq> ManualReviewRequired \<and> e \<noteq> InterruptedOperation \<Longrightarrow> calm (Inl e)"
  "e \<noteq> ManualReviewRequired \<and> e \<noteq> InterruptedOperation \<Longrightarrow> calm (checkr c e)"
  by (auto simp: calm_def checkr_def)

lemma calm_bindr: "calm m \<Longrightarrow> (\<And>x. calm (f x)) \<Longrightarrow> calm (bindr m f)"
  by (cases m) (auto simp: calm_def)

lemma calm_option: "calm n \<Longrightarrow> (\<And>x. calm (g x)) \<Longrightarrow> calm (case opt of None \<Rightarrow> n | Some x \<Rightarrow> g x)"
  by (cases opt) auto

lemma calm_if: "calm m \<Longrightarrow> calm n \<Longrightarrow> calm (if c then m else n)"
  by simp

lemma calm_decoded: "calm m \<Longrightarrow> calm (decoded m)"
  by (auto simp: calm_def decoded_def split: sum.splits exn.splits)

lemma calm_optional_res: "(\<And>x. calm (g x)) \<Longrightarrow> calm (optional_res g opt)"
  by (cases opt) (auto intro: calm_bindr calm_basic)

lemma calm_let: "(\<And>x. calm (h x)) \<Longrightarrow> calm (let x = v in h x)"
  by simp

lemmas calm_rules = calm_basic calm_bindr calm_option calm_if calm_decoded calm_optional_res calm_let

lemma calm_required_text: "calm (required_text n s)"
  by (auto simp: calm_def dest: required_text_Inl)

lemma calm_constructors:
  "calm (build_request r)" "calm (mk_data_receipt d)" "calm (mk_projection_receipt p)"
  "calm (mk_workspace_lease l)" "calm (require_uuid u)"
  unfolding build_request_def mk_actor_identity_def mk_operation_request_def mk_data_receipt_def
    mk_projection_receipt_def mk_workspace_lease_def require_uuid_def
  by (auto intro!: calm_rules calm_required_text)

lemma calm_requires:
  "calm (require_same_idempotent_request r q)" "calm (require_operation d r)"
  "calm (require_data_plane_receipt g p d)" "calm (artifact_json xs)" "calm (is_active_at l t)"
  unfolding require_same_idempotent_request_def require_operation_def require_data_plane_receipt_def
    artifact_json_def is_active_at_def
  by (auto intro!: calm_rules)

lemma calm_snapshot: "calm (mk_operation_snapshot g m)"
  unfolding mk_operation_snapshot_def by (auto intro!: calm_rules calm_requires)

lemma calm_decoders: "calm (operation_from_row row)" "calm (data_receipt_from_row z g x)"
  "calm (projection_receipt_from_row r p)" "calm (snapshot_from_rows z g row dr pr)"
  unfolding operation_from_row_def data_receipt_from_row_def projection_receipt_from_row_def snapshot_from_rows_def
  by (auto intro!: calm_rules calm_constructors calm_snapshot)

lemma calm_journal:
  "calm (reserve_with_status r j)" "calm (get_operation g r j)" "calm (record_data_plane_receipt g d j)"
  "calm (advance_projection_current p kind t j)" "calm (record_recovery_state r st t x j)"
  unfolding reserve_with_status_def get_operation_def record_data_plane_receipt_def
    advance_projection_current_def record_recovery_state_def
  by (intro calm_rules calm_constructors calm_requires calm_decoders; simp)+

lemma calm_record_projection: "calm (record_projection_receipt g p j)"
  unfolding record_projection_receipt_def
  by (intro calm_rules calm_constructors calm_requires calm_decoders calm_journal; simp)

lemma calm_leases: "calm (acquire_lease i g p w h a e table)" "calm (release_stored l t table)"
proof -
  have store: "calm (store_lease l table)" for l table
    unfolding store_lease_def lease_from_row_def by (auto intro!: calm_rules simp: calm_def split: sum.splits)
  have fence: "calm (require_fencing_token l k t)" for l k t
    unfolding require_fencing_token_def by (intro calm_rules calm_requires; simp)
  have release: "calm (lease_release l k t)" for l k t
    unfolding lease_release_def by (intro calm_rules fence calm_constructors; simp)
  have uuids: "calm (lease_uuids l)" for l
    unfolding lease_uuids_def by (intro calm_rules calm_constructors)
  show "calm (acquire_lease i g p w h a e table)"
    unfolding acquire_lease_def by (intro calm_rules calm_constructors store; simp)
  show "calm (release_stored l t table)"
    unfolding release_stored_def by (intro calm_rules release uuids store; simp)
qed

lemma silent_on_journal: "(\<And>j. calm (f j)) \<Longrightarrow> silent (on_journal f)"
  by (auto simp: silent_def on_journal_def calm_def split: sum.splits)

lemma silent_on_leases: "(\<And>t. calm (f t)) \<Longrightarrow> silent (on_leases f)"
  by (auto simp: silent_def on_leases_def calm_def split: sum.splits)

lemma silent_ask: "silent (ask out f)"
  unfolding silent_def by (auto elim!: ask_result simp: foreign_def split: sum.splits if_splits)

lemma silent_ask_lease: "silent (ask_lease out g p w h a e)"
proof -
  have "silent (on_leases (acquire_lease i g p w h a e))" for i
    by (rule silent_on_leases) (rule calm_leases)
  then show ?thesis unfolding silent_def ask_lease_def by (auto split: prod.splits)
qed

lemma silent_ask_data_plane: "silent (ask_data_plane out r l)"
  using silent_ask[of out "out_execute out r l"]
  unfolding silent_def ask_data_plane_def by (auto split: prod.splits)

lemma calm_unit_call: "calm m \<Longrightarrow> calm (unit_call m)"
  unfolding unit_call_def by (intro calm_rules)

lemma calm_constructed: "calm (mk x) \<Longrightarrow> calm (constructed mk x)"
  unfolding constructed_def by (intro calm_rules; simp)

interpretation honest: honest_ports world_le "world_ports out" "world_ok out" world_scopes w_started
  world_projected world_finished for out
  by unfold_locales
    (auto simp: world_ports_simps record_interruption_def require_manual_review_def
      intro!: silent_on_journal silent_on_leases silent_ask silent_ask_lease silent_ask_data_plane
        calm_unit_call calm_constructed calm_constructors calm_journal calm_record_projection calm_leases
        calm_bindr calm_basic)

end
