(* ===== verification/Access_Control.thy ===== *)
theory Access_Control
imports Coordination
begin

text \<open>
  Who may do what: actors and capabilities (\<open>domain/shared/access.py\<close>), principals, organization
  scopes, project visibility and authorization receipts (\<open>domain/shared/tenancy.py\<close>), and the
  retention and deletion contracts (\<open>domain/shared/retention.py\<close>).  A frozen set is a list whose
  order and duplicates no operation reads.
\<close>


section \<open>Capabilities\<close>

datatype capability =
    PROJECT_CREATE | PROJECT_DELETE | PROJECT_EDIT | PROJECT_REGISTER | PROJECT_VIEW
  | RECIPE_CREATE | RECIPE_DELETE | RECIPE_VIEW | RECIPE_APPLY | RECIPE_PUBLISH
  | DATA_VERSION_CREATE | DATA_VERSION_EDIT | MIGRATION_RUN_CREATE | MIGRATION_RUN_EDIT
  | MIGRATION_WORKSPACE_CREATE | MIGRATION_WORKSPACE_EDIT | RECIPE_QUALIFY | CUTOVER_PLAN_QUALIFY
  | CUTOVER_SELECT | PRODUCTION_RUN_CREATE | PRODUCTION_RUN_ACTIVATE | LOCAL_STACK_INSPECT
  | LOCAL_STACK_START | LOCAL_STACK_STOP | SOURCE_INSPECT | SOURCE_CONFIGURE | SOURCE_SELECT
  | SOURCE_CAPTURE | PROTECTED_EVIDENCE_READ | PROTECTED_EVIDENCE_MANAGE | SCHEMA_DISCOVER
  | SCHEMA_GOVERN | MAPPING_EDIT | MAPPING_SUBMIT | COVERAGE_SCOPE | RESOLUTION_DECIDE
  | RESOLUTION_APPROVE | NORMALIZATION_DECIDE | NORMALIZATION_APPROVE | PREFLIGHT_RUN
  | EXPORT_PLAN_APPROVE | EXPORT_PLAN_EXECUTE | AUDIT_VIEW | PROJECT_ADMIN

record actor =
  ac_identity :: actor_identity
  ac_capabilities :: "capability list"
  ac_email :: string

definition mk_actor :: "actor \<Rightarrow> actor res" where
  "mk_actor a = bindr (checkr (length (strip (ac_email a)) \<le> 320) ValueError) (\<lambda>_.
     Inr (a\<lparr>ac_email := strip (ac_email a)\<rparr>))"

definition has_capability :: "actor \<Rightarrow> capability \<Rightarrow> bool" where
  "has_capability a c = (c \<in> set (ac_capabilities a) \<or> PROJECT_ADMIN \<in> set (ac_capabilities a))"

definition require_capability :: "actor \<Rightarrow> capability \<Rightarrow> string option \<Rightarrow> string option \<Rightarrow> unit res" where
  "require_capability a c project workspace =
     bindr (checkr (project = None \<or> workspace = None) PermissionError) (\<lambda>_.
     checkr (has_capability a c) PermissionError)"


section \<open>Principals and scopes\<close>

datatype principal_kind = LOCAL | CUSTOMER | PLATFORM

datatype authentication_method = LOCAL_LAUNCH | IMPODO_PASSWORD | OIDC

definition mk_organization_id :: "string \<Rightarrow> string res" where
  "mk_organization_id v = required_text 200 v"

record principal =
  pn_principal_id :: string
  pn_identity :: actor_identity
  pn_kind :: principal_kind
  pn_method :: authentication_method
  pn_authenticated_at :: datetime
  pn_organization_id :: "string option"
  pn_session_id :: string

definition mk_principal :: "principal \<Rightarrow> principal res" where
  "mk_principal p =
     bindr (required_text 200 (pn_principal_id p)) (\<lambda>principal_id.
     bindr (required_text 200 (pn_session_id p)) (\<lambda>session_id.
     bindr (checkr (aware (pn_authenticated_at p)) ValueError) (\<lambda>_.
     bindr (checkr (if pn_kind p \<in> {LOCAL, CUSTOMER} then pn_organization_id p \<noteq> None
                    else pn_organization_id p = None) ValueError) (\<lambda>_.
     Inr (p\<lparr>pn_principal_id := principal_id, pn_session_id := session_id\<rparr>)))))"

record request_scope =
  rs_organization_id :: string
  rs_principal_id :: string

definition mk_request_scope :: "request_scope \<Rightarrow> request_scope res" where
  "mk_request_scope s = bindr (required_text 200 (rs_principal_id s)) (\<lambda>principal_id.
     Inr (s\<lparr>rs_principal_id := principal_id\<rparr>))"

definition scope_for_principal :: "principal \<Rightarrow> string option \<Rightarrow> request_scope res" where
  "scope_for_principal p organization =
    (case (case organization of Some g \<Rightarrow> Some g | None \<Rightarrow> pn_organization_id p) of
       None \<Rightarrow> Inl ValueError
     | Some selected \<Rightarrow>
         bindr (checkr (pn_organization_id p = None \<or> pn_organization_id p = Some selected) ValueError) (\<lambda>_.
         mk_request_scope \<lparr>rs_organization_id = selected, rs_principal_id = pn_principal_id p\<rparr>))"

record project_visibility =
  pv_organization_id :: string
  pv_project_ids :: "string list"
  pv_organization_wide :: bool

definition mk_project_visibility :: "project_visibility \<Rightarrow> project_visibility res" where
  "mk_project_visibility v = bindr (mapr (required_text 200) (pv_project_ids v)) (\<lambda>ids.
     Inr (v\<lparr>pv_project_ids := remdups ids\<rparr>))"

definition visibility_allows :: "project_visibility \<Rightarrow> string \<Rightarrow> bool res" where
  "visibility_allows v project = bindr (required_text 200 project) (\<lambda>candidate.
     Inr (pv_organization_wide v \<or> candidate \<in> set (pv_project_ids v)))"


section \<open>Authorization receipts\<close>

record authorization_receipt =
  az_receipt_id :: string
  az_principal_id :: string
  az_identity :: actor_identity
  az_organization_id :: string
  az_capabilities :: "capability list"
  az_visibility :: project_visibility
  az_role_revision_ids :: "string list"
  az_grant_revision_ids :: "string list"
  az_policy_revision :: string
  az_issued_at :: datetime
  az_expires_at :: "datetime option"

definition identities :: "string list \<Rightarrow> string list res" where
  "identities vs = bindr (mapr (required_text 200) vs) (\<lambda>cleaned. Inr (sorted_set cleaned))"

definition mk_authorization_receipt :: "authorization_receipt \<Rightarrow> authorization_receipt res" where
  "mk_authorization_receipt a =
     bindr (required_text 200 (az_receipt_id a)) (\<lambda>receipt_id.
     bindr (required_text 200 (az_principal_id a)) (\<lambda>principal_id.
     bindr (required_text 200 (az_policy_revision a)) (\<lambda>policy_revision.
     bindr (checkr (pv_organization_id (az_visibility a) = az_organization_id a) ValueError) (\<lambda>_.
     bindr (identities (az_role_revision_ids a)) (\<lambda>roles.
     bindr (identities (az_grant_revision_ids a)) (\<lambda>grants.
     bindr (checkr (aware (az_issued_at a)) ValueError) (\<lambda>_.
     bindr (checkr (case az_expires_at a of None \<Rightarrow> True
       | Some t \<Rightarrow> aware t \<and> at_time (az_issued_at a) < at_time t) ValueError) (\<lambda>_.
     Inr (a\<lparr>az_receipt_id := receipt_id, az_principal_id := principal_id,
       az_policy_revision := policy_revision, az_role_revision_ids := roles,
       az_grant_revision_ids := grants\<rparr>)))))))))"

definition is_valid_at :: "authorization_receipt \<Rightarrow> datetime \<Rightarrow> bool res" where
  "is_valid_at a at = bindr (checkr (aware at) ValueError) (\<lambda>_.
     Inr (case az_expires_at a of None \<Rightarrow> True | Some t \<Rightarrow> at_time at < at_time t))"

definition authorizes :: "authorization_receipt \<Rightarrow> capability \<Rightarrow> datetime \<Rightarrow> string option \<Rightarrow> bool res" where
  "authorizes a c at project = bindr (is_valid_at a at) (\<lambda>valid.
     if \<not> valid then Inr False
     else if c \<notin> set (az_capabilities a) \<and> PROJECT_ADMIN \<notin> set (az_capabilities a) then Inr False
     else case project of None \<Rightarrow> Inr True | Some p \<Rightarrow> visibility_allows (az_visibility a) p)"

lemma authorizes_True:
  "authorizes a c at project = Inr True \<longleftrightarrow> aware at
     \<and> (case az_expires_at a of None \<Rightarrow> True | Some t \<Rightarrow> at_time at < at_time t)
     \<and> (c \<in> set (az_capabilities a) \<or> PROJECT_ADMIN \<in> set (az_capabilities a))
     \<and> (case project of None \<Rightarrow> True | Some p \<Rightarrow> visibility_allows (az_visibility a) p = Inr True)"
  by (auto simp: authorizes_def is_valid_at_def res_simps split: option.splits)


section \<open>Retention\<close>

datatype retention_mode =
  KEEP_UNTIL_MANUAL_DELETION | DELETE_AFTER_VERIFIED_ODOO_LOAD | DELETE_AFTER_INACTIVITY

datatype deletion_status = DELETION_COMPLETED | DELETION_FAILED

record retention_selection =
  rt_organization_id :: string
  rt_project_id :: string
  rt_mode :: retention_mode
  rt_revision :: int
  rt_selected_by :: actor_identity
  rt_selected_at :: datetime
  rt_warning_revision :: string
  rt_inactivity_days :: "int option"

definition mk_retention_selection :: "retention_selection \<Rightarrow> retention_selection res" where
  "mk_retention_selection r =
     bindr (required_text 200 (rt_project_id r)) (\<lambda>project_id.
     bindr (required_text 200 (rt_warning_revision r)) (\<lambda>warning_revision.
     bindr (checkr (1 \<le> rt_revision r) ValueError) (\<lambda>_.
     bindr (checkr (aware (rt_selected_at r)) ValueError) (\<lambda>_.
     bindr (checkr (if rt_mode r = DELETE_AFTER_INACTIVITY
         then (case rt_inactivity_days r of None \<Rightarrow> False | Some d \<Rightarrow> 1 \<le> d)
         else rt_inactivity_days r = None) ValueError) (\<lambda>_.
     Inr (r\<lparr>rt_project_id := project_id, rt_warning_revision := warning_revision\<rparr>))))))"

definition default_retention :: "string \<Rightarrow> string \<Rightarrow> actor_identity \<Rightarrow> datetime \<Rightarrow> string
    \<Rightarrow> retention_selection res" where
  "default_retention organization project by at warning = mk_retention_selection
     \<lparr>rt_organization_id = organization, rt_project_id = project, rt_mode = DELETE_AFTER_INACTIVITY,
      rt_revision = 1, rt_selected_by = by, rt_selected_at = at, rt_warning_revision = warning,
      rt_inactivity_days = Some 90\<rparr>"

record deletion_request =
  dq_deletion_request_id :: string
  dq_organization_id :: string
  dq_project_id :: string
  dq_retention_revision :: int
  dq_confirmation_hash :: string
  dq_requested_by :: actor_identity
  dq_requested_at :: datetime

definition mk_deletion_request :: "deletion_request \<Rightarrow> deletion_request res" where
  "mk_deletion_request d =
     bindr (required_text 200 (dq_deletion_request_id d)) (\<lambda>request_id.
     bindr (required_text 200 (dq_project_id d)) (\<lambda>project_id.
     bindr (checkr (1 \<le> dq_retention_revision d) ValueError) (\<lambda>_.
     bindr (checkr (sha256_hash (dq_confirmation_hash d)) ValueError) (\<lambda>_.
     bindr (checkr (aware (dq_requested_at d)) ValueError) (\<lambda>_.
     Inr (d\<lparr>dq_deletion_request_id := request_id, dq_project_id := project_id\<rparr>))))))"

record deletion_result =
  dl_deletion_request_id :: string
  dl_organization_id :: string
  dl_project_id :: string
  dl_status :: deletion_status
  dl_result_code :: string
  dl_completed_at :: datetime

definition mk_deletion_result :: "deletion_result \<Rightarrow> deletion_result res" where
  "mk_deletion_result d =
     bindr (required_text 200 (dl_deletion_request_id d)) (\<lambda>request_id.
     bindr (required_text 200 (dl_project_id d)) (\<lambda>project_id.
     bindr (required_text 200 (dl_result_code d)) (\<lambda>result_code.
     bindr (checkr (aware (dl_completed_at d)) ValueError) (\<lambda>_.
     Inr (d\<lparr>dl_deletion_request_id := request_id, dl_project_id := project_id,
       dl_result_code := result_code\<rparr>)))))"

record deletion_receipt =
  dp_deletion_receipt_id :: string
  dp_deletion_request_id :: string
  dp_organization_id :: string
  dp_project_id :: string
  dp_policy_revision :: string
  dp_completed_by :: actor_identity
  dp_completed_at :: datetime
  dp_customer_data_retained :: bool

definition mk_deletion_receipt :: "deletion_receipt \<Rightarrow> deletion_receipt res" where
  "mk_deletion_receipt d =
     bindr (required_text 200 (dp_deletion_receipt_id d)) (\<lambda>receipt_id.
     bindr (required_text 200 (dp_deletion_request_id d)) (\<lambda>request_id.
     bindr (required_text 200 (dp_project_id d)) (\<lambda>project_id.
     bindr (required_text 200 (dp_policy_revision d)) (\<lambda>policy_revision.
     bindr (checkr (aware (dp_completed_at d)) ValueError) (\<lambda>_.
     bindr (checkr (\<not> dp_customer_data_retained d) ValueError) (\<lambda>_.
     Inr (d\<lparr>dp_deletion_receipt_id := receipt_id, dp_deletion_request_id := request_id,
       dp_project_id := project_id, dp_policy_revision := policy_revision\<rparr>)))))))"

end
