(* ===== verification/Reconciliation.thy ===== *)
theory Reconciliation
imports Cross_Store_World Access_Control
begin

text \<open>
  Projection reconciliation: the query and page values (\<open>domain/shared/projection_reconciliation.py\<close>),
  the keyset pages of the journal (\<open>adapters/postgresql/coordination.py\<close>) and the service that governs
  scans and rebuilds (\<open>application/shared/projection_reconciliation.py\<close>).  A cursor is its decoded
  payload, or \<open>Unreadable\<close> for a text that base64 and JSON decoding reject.
\<close>


section \<open>Queries, items and pages\<close>

datatype recon_disposition = AWAITING_DATA_COMMIT | MISSING_PROJECTION | CURRENT | SUPERSEDED | NOT_REBUILDABLE

datatype recon_cursor =
    Unreadable
  | Payload (cursor_version: int) (cursor_organization: string) (cursor_project: string)
      (cursor_requested_at: datetime) (cursor_operation: string)

record recon_query =
  rq_page_size :: int
  rq_cursor :: "recon_cursor option"

definition mk_recon_query :: "recon_query \<Rightarrow> recon_query res" where
  "mk_recon_query q = bindr (checkr (1 \<le> rq_page_size q \<and> rq_page_size q \<le> 100) ValueError) (\<lambda>_. Inr q)"

record recon_item =
  ri_operation_id :: string
  ri_operation_kind :: string
  ri_requested_at :: datetime
  ri_state :: operation_state
  ri_disposition :: recon_disposition
  ri_data_hash :: "string option"
  ri_projection_hash :: "string option"
  ri_projection_revision :: "int option"

definition mk_recon_item :: "recon_item \<Rightarrow> recon_item res" where
  "mk_recon_item i =
     bindr (checkr (\<not> blank (ri_operation_id i) \<and> \<not> blank (ri_operation_kind i)) ValueError) (\<lambda>_.
     bindr (checkr (aware (ri_requested_at i)) ValueError) (\<lambda>_.
     bindr (checkr ((ri_projection_hash i = None) = (ri_projection_revision i = None)) ValueError) (\<lambda>_.
     bindr (checkr (case ri_projection_revision i of None \<Rightarrow> True | Some n \<Rightarrow> 1 \<le> n) ValueError) (\<lambda>_.
     Inr i))))"

record recon_page =
  rp_items :: "recon_item list"
  rp_next_cursor :: "recon_cursor option"

definition mk_recon_page :: "recon_page \<Rightarrow> recon_page res" where
  "mk_recon_page p = bindr (checkr (int (length (rp_items p)) \<le> 100) ValueError) (\<lambda>_. Inr p)"


section \<open>Keyset pages of the journal\<close>

definition decode_cursor :: "recon_cursor \<Rightarrow> string \<Rightarrow> string \<Rightarrow> (datetime \<times> string) res" where
  "decode_cursor c organization project = (case c of
     Unreadable \<Rightarrow> Inl CursorError
   | Payload version organization' project' at operation \<Rightarrow>
       bindr (checkr (version = 1 \<and> organization' = organization \<and> project' = project) CursorError) (\<lambda>_.
       bindr (checkr (aware at) CursorError) (\<lambda>_.
       bindr (checkr (is_uuid operation) CursorError) (\<lambda>_. Inr (at, operation)))))"

definition encode_cursor :: "string \<Rightarrow> string \<Rightarrow> datetime \<Rightarrow> string \<Rightarrow> recon_cursor" where
  "encode_cursor organization project at operation = Payload 1 organization project at operation"

text \<open>The order of the listing: request time, then identifier.\<close>

definition recon_key :: "operation_row \<Rightarrow> int \<times> string" where
  "recon_key row = (at_time (or_requested_at (ow_request row)), or_operation_id (ow_request row))"

definition project_rows :: "string \<Rightarrow> string \<Rightarrow> journal \<Rightarrow> operation_row list" where
  "project_rows organization project j = sort_key recon_key
     (filter (\<lambda>row. or_organization_id (ow_request row) = organization \<and> or_project_id (ow_request row) = project)
        (map snd (j_operations j)))"

definition rows_after :: "(datetime \<times> string) option \<Rightarrow> operation_row list \<Rightarrow> operation_row list" where
  "rows_after after rows = (case after of None \<Rightarrow> rows
     | Some (at, operation) \<Rightarrow> filter (\<lambda>row. (at_time at, operation) < recon_key row) rows)"

text \<open>The decoder turns the constructors' and validators' errors into a storage error.\<close>

definition row_decoded :: "'a res \<Rightarrow> 'a res" where
  "row_decoded m = (case m of Inl e \<Rightarrow> Inl (if e \<in> {ValueError, TypeError, FoundationError} then StorageError else e)
     | Inr x \<Rightarrow> Inr x)"

definition current_row_ok :: "current_row \<Rightarrow> string res" where
  "current_row_ok c =
     bindr (require_uuid (cr_operation_id c)) (\<lambda>_.
     bindr (checkr (sha256_text (cr_data_hash c)) FoundationError) (\<lambda>_.
     bindr (checkr (sha256_text (cr_projection_hash c)) FoundationError) (\<lambda>_.
     bindr (checkr (1 \<le> cr_revision c) ValueError) (\<lambda>_.
     bindr (checkr (aware (cr_committed_at c)) FoundationError) (\<lambda>_. Inr (cr_operation_id c))))))"

definition pointer_agrees :: "digest \<Rightarrow> current_row \<Rightarrow> data_receipt \<Rightarrow> projection_receipt \<Rightarrow> bool" where
  "pointer_agrees digest c d p = (cr_data_hash c = digest d \<and> cr_projection_hash c = pr_projection_hash p
     \<and> cr_revision c = pr_projection_revision p \<and> at_time (cr_committed_at c) = at_time (dr_committed_at d))"

definition reconciliation_snapshot :: "digest \<Rightarrow> operation_row \<Rightarrow> journal
    \<Rightarrow> (operation_snapshot \<times> string option) res" where
  "reconciliation_snapshot digest row j =
    (let k = operation_key (ow_request row);
         pointer = map_of (j_current j) (or_organization_id (ow_request row), or_project_id (ow_request row),
           or_operation_kind (ow_request row)) in
     row_decoded (bindr (snapshot_from_rows (j_zone j) digest row (map_of (j_receipts j) k) (map_of (j_projections j) k)) (\<lambda>s.
       bindr (optional_res current_row_ok pointer) (\<lambda>current.
       bindr (if os_state s = PROJECTED
              then (case (os_data_receipt s, os_projection s, pointer) of
                  (Some d, Some p, Some c) \<Rightarrow>
                    checkr (cr_operation_id c = or_operation_id (os_request s) \<longrightarrow> pointer_agrees digest c d p) ValueError
                | _ \<Rightarrow> Inl ValueError)
              else checkr (current \<noteq> Some (or_operation_id (os_request s))) ValueError) (\<lambda>_.
       Inr (s, current))))))"

definition disposition_of :: "operation_snapshot \<Rightarrow> string option \<Rightarrow> recon_disposition" where
  "disposition_of s current = (case os_state s of
     RESERVED \<Rightarrow> AWAITING_DATA_COMMIT
   | DATA_COMMITTED \<Rightarrow> MISSING_PROJECTION
   | PROJECTED \<Rightarrow> (if current = Some (or_operation_id (os_request s)) then CURRENT else SUPERSEDED)
   | _ \<Rightarrow> NOT_REBUILDABLE)"

definition reconciliation_item :: "digest \<Rightarrow> journal \<Rightarrow> operation_row \<Rightarrow> recon_item res" where
  "reconciliation_item digest j row = bindr (reconciliation_snapshot digest row j) (\<lambda>(s, current).
     mk_recon_item \<lparr>ri_operation_id = or_operation_id (os_request s),
       ri_operation_kind = or_operation_kind (os_request s), ri_requested_at = or_requested_at (os_request s),
       ri_state = os_state s, ri_disposition = disposition_of s current,
       ri_data_hash = map_option digest (os_data_receipt s),
       ri_projection_hash = map_option pr_projection_hash (os_projection s),
       ri_projection_revision = map_option pr_projection_revision (os_projection s)\<rparr>)"

definition list_reconciliation_page :: "digest \<Rightarrow> string \<Rightarrow> string \<Rightarrow> recon_query \<Rightarrow> journal \<Rightarrow> recon_page res"
where
  "list_reconciliation_page digest organization project q j =
     bindr (require_uuid project) (\<lambda>_.
     bindr (optional_res (\<lambda>c. decode_cursor c organization project) (rq_cursor q)) (\<lambda>after.
     let n = nat (rq_page_size q);
         rows = take (n + 1) (rows_after after (project_rows organization project j));
         page_rows = take n rows in
     bindr (mapr (reconciliation_item digest j) page_rows) (\<lambda>items.
     bindr (if n < length rows \<and> page_rows \<noteq> []
            then bindr (operation_from_row (last page_rows)) (\<lambda>l.
              Inr (Some (encode_cursor organization project (or_requested_at l) (or_operation_id l))))
            else Inr None) (\<lambda>next.
     mk_recon_page \<lparr>rp_items = items, rp_next_cursor = next\<rparr>))))"

definition get_reconciliation_snapshot :: "digest \<Rightarrow> string \<Rightarrow> string \<Rightarrow> string \<Rightarrow> journal
    \<Rightarrow> operation_snapshot res" where
  "get_reconciliation_snapshot digest organization project operation j =
     bindr (require_uuid project) (\<lambda>_. bindr (require_uuid operation) (\<lambda>_.
     case map_of (j_operations j) (organization, operation) of
       None \<Rightarrow> Inl OperationNotFound
     | Some row \<Rightarrow>
         if or_project_id (ow_request row) = project
         then bindr (reconciliation_snapshot digest row j) (\<lambda>(s, _). Inr s)
         else Inl OperationNotFound))"


section \<open>The service\<close>

definition visible_project_id :: "datetime \<Rightarrow> request_scope \<Rightarrow> authorization_receipt \<Rightarrow> capability \<Rightarrow> string
    \<Rightarrow> string res" where
  "visible_project_id now scope a c project =
     bindr (checkr (is_uuid project) ProjectionNotFound) (\<lambda>_.
     bindr (if rs_organization_id scope = az_organization_id a \<and> rs_principal_id scope = az_principal_id a
            then authorizes a c now (Some project) else Inr False) (\<lambda>allowed.
     if allowed then Inr project
     else Inl (if c = PROJECT_ADMIN then PermissionError else ProjectionNotFound)))"

definition scan_projections :: "digest \<Rightarrow> datetime \<Rightarrow> request_scope \<Rightarrow> authorization_receipt \<Rightarrow> string
    \<Rightarrow> recon_query \<Rightarrow> journal \<Rightarrow> recon_page res" where
  "scan_projections digest now scope a project q j =
     bindr (visible_project_id now scope a AUDIT_VIEW project) (\<lambda>p.
     list_reconciliation_page digest (rs_organization_id scope) p q j)"

definition not_found :: "'a res \<Rightarrow> 'a res" where
  "not_found m = (case m of
     Inl e \<Rightarrow> Inl (if e \<in> {FoundationError, OperationNotFound} then ProjectionNotFound else e)
   | Inr x \<Rightarrow> Inr x)"

definition rebuild_missing_projection :: "'w outside \<Rightarrow> datetime \<Rightarrow> request_scope \<Rightarrow> authorization_receipt
    \<Rightarrow> string \<Rightarrow> string \<Rightarrow> (cross_store_result, 'w world) prog" where
  "rebuild_missing_projection out now scope a project operation =
     seq (from_res (visible_project_id now scope a PROJECT_ADMIN project)) (\<lambda>p.
     seq (\<lambda>s. (not_found (bindr (require_uuid operation) (\<lambda>_.
            get_reconciliation_snapshot (out_digest out) (rs_organization_id scope) p operation (w_journal s))), s))
       (\<lambda>snapshot.
     if os_state snapshot \<noteq> DATA_COMMITTED then raise RebuildNotPermitted
     else recover (world_ports out) (os_request snapshot)))"

end
