(* ===== verification/Cross_Store_Properties.thy ===== *)
theory Cross_Store_Properties
imports Cross_Store_World
begin

text \<open>
  Every run of coordinators and other workers on one journal: the data plane is started at most once
  per idempotency key, returned evidence is durable, a projected operation is replayed from its
  receipts alone, and a stop is recorded before it is reported.
\<close>

datatype coord_op =
    Execute cross_store_command
  | Recover operation_request
  | Others "journal_op list" "lease_op list"

fun coord_step :: "'w outside \<Rightarrow> coord_op \<Rightarrow> 'w world \<Rightarrow> 'w world" where
  "coord_step out (Execute c) s = snd (seq (from_res (mk_command c)) (execute (world_ports out)) s)"
| "coord_step out (Recover r) s = snd (recover (world_ports out) r s)"
| "coord_step out (Others js ls) s = interfere out js ls s"

definition coord_run :: "'w outside \<Rightarrow> coord_op list \<Rightarrow> 'w world \<Rightarrow> 'w world" where
  "coord_run out ops s = fold (coord_step out) ops s"

text \<open>An empty database, whose sessions show timestamps in the given time zone.\<close>

definition first_world :: "(int \<Rightarrow> int) \<Rightarrow> 'w \<Rightarrow> 'w world" where
  "first_world zone w = \<lparr>w_journal = empty_journal zone, w_leases = empty_leases, w_started = [], w_outside = w\<rparr>"

lemma first_world_ok: "world_ok out (first_world zone w) \<and> cross_store.fresh (first_world zone w)"
  by (simp add: world_ok_def first_world_def journal_ok_empty leases_ok_empty cross_store.fresh_def)

lemma execute_command_fresh:
  assumes "world_ok out s" "cross_store.fresh s"
    "seq (from_res (mk_command c)) (execute (world_ports out)) s = (x, t)"
  shows "world_ok out t \<and> world_le s t \<and> cross_store.fresh t"
proof (cases "mk_command c")
  case (Inl e)
  then show ?thesis using assms by (auto simp: seq_def world_le_def)
next
  case (Inr d)
  then have "execute (world_ports out) d s = (x, t)" using assms(3) by (simp add: seq_def)
  then show ?thesis by (rule cross_store.execute_fresh[OF assms(1,2)])
qed

lemma coord_step_ok:
  assumes "world_ok out s" "cross_store.fresh s"
  shows "world_ok out (coord_step out a s) \<and> world_le s (coord_step out a s) \<and> cross_store.fresh (coord_step out a s)"
proof (cases a)
  case (Execute c)
  then show ?thesis using execute_command_fresh[OF assms, of c] by (simp add: prod_eq_iff)
next
  case (Recover r)
  have "world_ok out (snd (recover (world_ports out) r s)) \<and> world_quiet s (snd (recover (world_ports out) r s))"
    by (rule keepsD[OF cross_store.keeps_recover assms(1)]) (simp add: prod_eq_iff)
  then show ?thesis using Recover cross_store.fresh_quiet[OF assms(2)] by simp
next
  case (Others js ls)
  then show ?thesis using interfere_ok[OF assms(1), of js ls] cross_store.fresh_quiet[OF assms(2)] by simp
qed

lemma coord_run_ok:
  assumes "world_ok out s" "cross_store.fresh s"
  shows "world_ok out (coord_run out ops s) \<and> world_le s (coord_run out ops s) \<and> cross_store.fresh (coord_run out ops s)"
  using assms
proof (induction ops arbitrary: s)
  case Nil
  then show ?case by (simp add: coord_run_def world_le_def)
next
  case (Cons a ops)
  have step: "world_ok out (coord_step out a s)" "world_le s (coord_step out a s)" "cross_store.fresh (coord_step out a s)"
    using coord_step_ok[OF Cons.prems, of a] by blast+
  have "coord_run out (a # ops) s = coord_run out ops (coord_step out a s)" by (simp add: coord_run_def)
  then show ?case using Cons.IH[OF step(1,3)] step(2) world_le_trans by metis
qed

lemma reachable_run:
  "world_ok out (coord_run out ops (first_world zone w))" "cross_store.fresh (coord_run out ops (first_world zone w))"
  using coord_run_ok[OF first_world_ok[THEN conjunct1] first_world_ok[THEN conjunct2], of out ops] by simp_all

lemmas reachable_world = reachable_run(1)


section \<open>A world for the witnesses\<close>

text \<open>The outside is a clock that counts its readings; the data plane commits at once.\<close>

definition example_outside :: "int outside" where
  "example_outside = \<lparr>
     out_execute = (\<lambda>r l w. (Inr (example_receipt (CHR ''a'') w), w + 1)),
     out_find = (\<lambda>r w. (Inr None, w)), out_verify = (\<lambda>i w. (Inr (), w)),
     out_project = (\<lambda>d w. (Inr (example_projection (CHR ''a'')), w)),
     out_boundary = (\<lambda>b w. (Inr (), w)), out_clock = (\<lambda>w. (Inr (Aware w), w + 1)),
     out_lease_id = (\<lambda>w. (example_uuid (CHR ''b''), w)), out_others = (\<lambda>w. (([], []), w)),
     out_duration = 100, out_digest = example_digest\<rparr>"

definition example_command :: cross_store_command where
  "example_command = \<lparr>cc_request = example_request (CHR ''a''), cc_workspace_id = example_uuid (CHR ''2''),
     cc_holder_attempt_id = example_uuid (CHR ''b'')\<rparr>"

definition example_world :: "int world" where
  "example_world = snd (execute (world_ports example_outside) example_command (first_world example_zone 0))"

definition example_result :: cross_store_result where
  "example_result = \<lparr>cs_request = example_request (CHR ''a''), cs_data_receipt = example_receipt (CHR ''a'') 1,
     cs_projection = example_projection (CHR ''a''), cs_replayed = False\<rparr>"

lemma example_execution:
  "execute (world_ports example_outside) example_command (first_world example_zone 0) = (Inr example_result, example_world)"
proof -
  have "fst (execute (world_ports example_outside) example_command (first_world example_zone 0)) = Inr example_result"
    by code_simp
  then show ?thesis by (simp add: example_world_def prod_eq_iff)
qed

lemma example_interruption:
  "recover (world_ports example_outside) (example_request (CHR ''a''))
     (coord_run example_outside [Others [Reserve (example_request (CHR ''a''))] []] (first_world example_zone 0))
   = (Inl InterruptedOperation, snd (recover (world_ports example_outside) (example_request (CHR ''a''))
     (coord_run example_outside [Others [Reserve (example_request (CHR ''a''))] []] (first_world example_zone 0))))"
proof -
  have "fst (recover (world_ports example_outside) (example_request (CHR ''a''))
     (coord_run example_outside [Others [Reserve (example_request (CHR ''a''))] []] (first_world example_zone 0)))
    = Inl InterruptedOperation" by code_simp
  then show ?thesis by (simp only: prod_eq_iff fst_conv snd_conv simp_thms)
qed

lemma example_run:
  "coord_run example_outside [Execute example_command] (first_world example_zone 0) = example_world"
proof -
  have "mk_command example_command = Inr example_command" by code_simp
  then show ?thesis by (simp add: coord_run_def seq_def example_world_def)
qed

lemma example_projected:
  obtains row where
    "map_of (j_operations (w_journal example_world)) (operation_key (example_request (CHR ''a''))) = Some row"
    "ow_state row = PROJECTED"
proof -
  have "world_ok example_outside (first_world example_zone 0)" by (rule first_world_ok[THEN conjunct1])
  from cross_store.execute_durable[OF this example_execution] show thesis
    using that by (auto simp: world_ports_simps world_projected_def example_result_def)
qed


section \<open>Properties\<close>

text \<open>C16: the data plane is started at most once per idempotency key.  In every run of coordinators
  that execute and recover commands while other workers use the same journal and any collaborator
  fails at any point, no two requests passed to the data plane share an idempotency key.\<close>

theorem data_plane_started_once:
  "distinct (map idempotency_scope (w_started (coord_run out ops (first_world zone w))))"
proof -
  have "cross_store.fresh (coord_run out ops (first_world zone w))" by (rule reachable_run)
  then show ?thesis unfolding cross_store.fresh_def by simp
qed

text \<open>C17: a returned result is durable.  When a command returns, and after anything that happens
  later, its operation is stored as projected with the digest of the returned data receipt and with
  exactly the returned projection.\<close>

theorem returned_result_is_durable:
  assumes "execute (world_ports out) c (coord_run out as (first_world zone w)) = (Inr res, t)"
  shows "\<exists>row. map_of (j_operations (w_journal (coord_run out bs t))) (operation_key (cs_request res)) = Some row
    \<and> ow_state row = PROJECTED \<and> ow_data_hash row = Some (out_digest out (cs_data_receipt res))
    \<and> map_of (j_projections (w_journal (coord_run out bs t))) (operation_key (cs_request res))
        = Some (cs_projection res)"
proof -
  note s = reachable_run[of out as zone w]
  have t: "world_ok out t" "cross_store.fresh t"
    using cross_store.execute_fresh[OF s assms] by simp_all
  have "world_projected t (operation_key (cs_request res)) (out_digest out (cs_data_receipt res)) (cs_projection res)"
    using cross_store.execute_durable[OF s(1) assms] by (simp add: world_ports_simps)
  then have "world_projected (coord_run out bs t) (operation_key (cs_request res))
      (out_digest out (cs_data_receipt res)) (cs_projection res)"
    using world_le_projected[of t "coord_run out bs t"] coord_run_ok[OF t, of bs] by simp
  then show ?thesis by (simp add: world_projected_def)
qed

theorem returned_result_is_durable_witness:
  "\<exists>row. map_of (j_operations (w_journal example_world)) (operation_key (example_request (CHR ''a''))) = Some row
    \<and> ow_state row = PROJECTED
    \<and> map_of (j_projections (w_journal example_world)) (operation_key (example_request (CHR ''a'')))
        = Some (example_projection (CHR ''a''))"
  using returned_result_is_durable[of example_outside example_command "[]" example_zone 0 example_result example_world "[]"]
    example_execution
  by (auto simp: coord_run_def example_result_def)

text \<open>A projected operation is replayed from its receipts.  Recovering it returns the stored
  request, the data receipt with its commit time in the sessions' zone, and the projection, marked as
  a replay, without asking any collaborator and without changing anything.\<close>

theorem projected_operation_replays:
  assumes "map_of (j_operations (w_journal (coord_run out ops (first_world zone w)))) k = Some row"
    and "ow_state row = PROJECTED"
  shows "\<exists>x p. map_of (j_receipts (w_journal (coord_run out ops (first_world zone w)))) k = Some x
    \<and> map_of (j_projections (w_journal (coord_run out ops (first_world zone w)))) k = Some p
    \<and> recover (world_ports out) (ow_request row) (coord_run out ops (first_world zone w))
      = (Inr \<lparr>cs_request = ow_request row,
           cs_data_receipt = read_receipt (j_zone (w_journal (coord_run out ops (first_world zone w)))) (rr_receipt x),
           cs_projection = p, cs_replayed = True\<rparr>, coord_run out ops (first_world zone w))"
proof -
  let ?s = "coord_run out ops (first_world zone w)"
  let ?j = "w_journal ?s" and ?d = "out_digest out"
  have ok: "journal_ok ?d ?j" using reachable_world[of out ops zone w] by (simp add: world_ok_def)
  have r: "row_ok ?d k row (map_of (j_receipts ?j) k) (map_of (j_projections ?j) k)"
    by (rule journal_rows[OF ok assms(1)])
  obtain x p where x: "map_of (j_receipts ?j) k = Some x" "map_of (j_projections ?j) k = Some p"
    using r assms(2) by (auto simp: row_ok_def)
  have key: "operation_key (ow_request row) = k" and uuid: "is_uuid (or_operation_id (ow_request row))"
    using r by (auto simp: row_ok_def operation_key_def)
  have same: "require_same_idempotent_request (ow_request row) (ow_request row) = Inr ()"
    by (simp add: require_same_idempotent_request_def res_simps)
  have read: "operation_verifies ?d ?j k" by (rule projected_operation_verifies[OF ok assms])
  then have verified: "receipt_verifies ?d (j_zone ?j) x" using x by (simp add: operation_verifies_def)
  have "get_operation ?d (ow_request row) ?j = Inr (row_snapshot ?j k row)"
    using snapshot_of_ok_row[OF ok assms(1)] assms(1) uuid read
    unfolding get_operation_def key
    by (simp add: stored_operation[OF r] same require_uuid_def)
  then have get: "journal_get (world_ports out) (ow_request row) ?s = (Inr (row_snapshot ?j k row), ?s)"
    by (simp add: world_ports_simps on_journal_def)
  have "result_from_snapshot ?d (row_snapshot ?j k row) True = Inr \<lparr>cs_request = ow_request row,
      cs_data_receipt = read_receipt (j_zone ?j) (rr_receipt x), cs_projection = p, cs_replayed = True\<rparr>"
    using r x stored_receipt_belongs[of ?d k row x] stored_projection_binds[of ?d k row x p "j_zone ?j"] verified
    by (simp add: result_from_snapshot_def required_data_receipt_def row_snapshot_def mk_result_def)
  then have "recover (world_ports out) (ow_request row) ?s = (Inr \<lparr>cs_request = ow_request row,
      cs_data_receipt = read_receipt (j_zone ?j) (rr_receipt x), cs_projection = p, cs_replayed = True\<rparr>, ?s)"
    using get assms(2) by (simp add: recover_def seq_def row_snapshot_def world_ports_simps(15))
  then show ?thesis using x by blast
qed

theorem projected_operation_replays_witness:
  "\<exists>row res. map_of (j_operations (w_journal example_world)) (operation_key (example_request (CHR ''a''))) = Some row
    \<and> recover (world_ports example_outside) (ow_request row) example_world = (Inr res, example_world) \<and> cs_replayed res"
proof -
  obtain row where row:
    "map_of (j_operations (w_journal example_world)) (operation_key (example_request (CHR ''a''))) = Some row"
    "ow_state row = PROJECTED" by (rule example_projected)
  show ?thesis
    using projected_operation_replays[OF _ row(2), of example_outside "[Execute example_command]" example_zone 0, unfolded example_run,
        OF row(1)] row(1) by fastforce
qed

text \<open>a stop is recorded before it is reported.  When a recovery raises the manual
  review or the interruption error, the journal holds the operation in exactly that state, and nothing
  that happens later takes it out of it.\<close>

theorem stops_are_recorded:
  assumes "e \<in> {ManualReviewRequired, InterruptedOperation}"
    and "recover (world_ports out) r (coord_run out as (first_world zone w)) = (Inl e, t)"
  shows "\<exists>row. map_of (j_operations (w_journal t)) (operation_key r) = Some row
    \<and> ow_state row = (if e = ManualReviewRequired then MANUAL_REVIEW else INTERRUPTED)
    \<and> map_of (j_operations (w_journal (coord_run out bs t))) (operation_key r) = Some row"
proof -
  note s = reachable_run[of out as zone w]
  have t: "world_ok out t" "cross_store.fresh t"
    using keepsD[OF cross_store.keeps_recover s(1) assms(2)] cross_store.fresh_quiet[OF s(2), of t] by simp_all
  have "world_finished t (operation_key r) (if e = ManualReviewRequired then MANUAL_REVIEW else INTERRUPTED)"
    using honest.reports_recover[of out r] s(1) assms unfolding honest.reports_def by auto
  then obtain row where row: "map_of (j_operations (w_journal t)) (operation_key r) = Some row"
    "ow_state row = (if e = ManualReviewRequired then MANUAL_REVIEW else INTERRUPTED)"
    unfolding world_finished_def by blast
  have "journal_earlier (w_journal t) (w_journal (coord_run out bs t))"
    using coord_run_ok[OF t, of bs] by (simp add: world_le_def)
  then obtain row' where "map_of (j_operations (w_journal (coord_run out bs t))) (operation_key r) = Some row'"
    "row_earlier row row'"
    using dict_growsD[OF _ row(1), of row_earlier "j_operations (w_journal (coord_run out bs t))"]
    by (auto simp: journal_earlier_def)
  moreover have "state_rank (ow_state row) = 2" using row(2) by simp
  ultimately show ?thesis using row by (auto simp: row_earlier_def)
qed

theorem stops_are_recorded_witness:
  "\<exists>row. map_of (j_operations (w_journal (snd (recover (world_ports example_outside) (example_request (CHR ''a''))
     (coord_run example_outside [Others [Reserve (example_request (CHR ''a''))] []] (first_world example_zone 0))))))
     (operation_key (example_request (CHR ''a''))) = Some row \<and> ow_state row = INTERRUPTED"
  using stops_are_recorded[OF _ example_interruption, of "[]"] by auto

text \<open>The same holds for a command, at the key of the request the journal reserved or replayed.\<close>

lemma execution_stops_are_recorded:
  assumes "execute (world_ports out) c (coord_run out as (first_world zone w)) = (Inl e, t)"
    and "e \<in> {ManualReviewRequired, InterruptedOperation}"
  shows "\<exists>q b u. journal_reserve (world_ports out) (cc_request c) (coord_run out as (first_world zone w)) = (Inr (q, b), u)
    \<and> world_finished t (operation_key q) (if e = ManualReviewRequired then MANUAL_REVIEW else INTERRUPTED)"
  by (rule honest.execute_reports[OF reachable_run(1) assms])

end
