(* ===== verification/Reconciliation_Properties.thy ===== *)
theory Reconciliation_Properties
imports Reconciliation Cross_Store_Properties
begin

text \<open>
  What reconciliation shows of the journal: following the cursors lists every operation of a project
  exactly once and in order, each with the disposition its stored row has, unless the receipt of one
  of them does not verify in the time zone of the sessions, when the listing fails; and a rebuild runs
  only for an authorized, visible operation whose projection is missing.
\<close>


section \<open>Stored rows verify\<close>

lemma row_decoded_Inr [res_simps]: "row_decoded m = Inr x \<longleftrightarrow> m = Inr x"
  by (auto simp: row_decoded_def split: sum.splits)

lemma current_pointer:
  assumes ok: "journal_ok d j" and c: "map_of (j_current j) slot = Some c"
  shows "projected_entry j (fst slot, cr_operation_id c) slot c" "current_row_ok c = Inr (cr_operation_id c)"
proof -
  obtain k where k: "projected_entry j k slot c" using ok c unfolding journal_ok_def current_ok_def by blast
  then obtain row x p where e: "map_of (j_operations j) k = Some row" "map_of (j_receipts j) k = Some x"
    "map_of (j_projections j) k = Some p" "c = candidate_row p (dr_committed_at (rr_receipt x))"
    unfolding projected_entry_def by blast
  have r: "row_ok d k row (Some x) (Some p)" using journal_rows[OF ok e(1)] e(2,3) by simp
  have key: "k = (fst slot, cr_operation_id c)" using projected_entry_key[OF ok k] by (simp add: prod_eq_iff)
  have "is_uuid (cr_operation_id c)" using r key by (simp add: row_ok_def)
  moreover have "projection_columns p" "mk_data_receipt (rr_receipt x) = Inr (rr_receipt x)"
    using r by (simp_all add: row_ok_def)
  ultimately have "current_row_ok c = Inr (cr_operation_id c)"
    by (auto simp: current_row_ok_def e(4) candidate_row_def require_uuid_def projection_columns_def
        bigint_column_def mk_data_receipt_def res_simps)
  then show "current_row_ok c = Inr (cr_operation_id c)" .
  show "projected_entry j (fst slot, cr_operation_id c) slot c" using k key by simp
qed

text \<open>The disposition a stored row has.\<close>

definition row_disposition :: "journal \<Rightarrow> operation_row \<Rightarrow> recon_disposition" where
  "row_disposition j row = (case ow_state row of
     RESERVED \<Rightarrow> AWAITING_DATA_COMMIT
   | DATA_COMMITTED \<Rightarrow> MISSING_PROJECTION
   | PROJECTED \<Rightarrow> (if map_option cr_operation_id (map_of (j_current j) (slot_of (ow_request row)))
         = Some (or_operation_id (ow_request row)) then CURRENT else SUPERSEDED)
   | _ \<Rightarrow> NOT_REBUILDABLE)"

lemma reconciliation_snapshot_ok:
  assumes ok: "journal_ok d j" and row: "map_of (j_operations j) k = Some row"
  shows "reconciliation_snapshot d row j = (if operation_verifies d j k then Inr (row_snapshot j k row,
      map_option cr_operation_id (map_of (j_current j) (slot_of (ow_request row))))
    else Inl StorageError)"
proof -
  let ?slot = "slot_of (ow_request row)"
  let ?pointer = "map_of (j_current j) ?slot" and ?s = "row_snapshot j k row"
  have r: "row_ok d k row (map_of (j_receipts j) k) (map_of (j_projections j) k)" by (rule journal_rows[OF ok row])
  have key: "operation_key (ow_request row) = k" by (rule row_ok_key[OF r])
  have snap: "snapshot_from_rows (j_zone j) d row (map_of (j_receipts j) k) (map_of (j_projections j) k)
      = (if operation_verifies d j k then Inr ?s else Inl StorageError)"
    by (rule snapshot_of_joined_row[OF ok row])
  have current: "optional_res current_row_ok ?pointer = Inr (map_option cr_operation_id ?pointer)"
    by (cases ?pointer) (simp_all add: current_pointer(2)[OF ok])
  have same: "c = candidate_row p (dr_committed_at (rr_receipt x))"
    if "?pointer = Some c" "cr_operation_id c = or_operation_id (ow_request row)"
      "map_of (j_receipts j) k = Some x" "map_of (j_projections j) k = Some p" for c x p
  proof -
    have "projected_entry j k ?slot c" using current_pointer(1)[OF ok that(1)] that(2) key by (simp add: slot_of_def operation_key_def)
    then show ?thesis using that(3,4) by (auto simp: projected_entry_def)
  qed
  have agree: "(if os_state ?s = PROJECTED
              then (case (os_data_receipt ?s, os_projection ?s, ?pointer) of
                  (Some d', Some p, Some c) \<Rightarrow>
                    checkr (cr_operation_id c = or_operation_id (os_request ?s) \<longrightarrow> pointer_agrees d c d' p) ValueError
                | _ \<Rightarrow> Inl ValueError)
              else checkr (map_option cr_operation_id ?pointer \<noteq> Some (or_operation_id (os_request ?s))) ValueError)
      = Inr ()" if read: "operation_verifies d j k"
  proof (cases "ow_state row = PROJECTED")
    case True
    obtain x p where x: "map_of (j_receipts j) k = Some x" "map_of (j_projections j) k = Some p"
      using r True by (auto simp: row_ok_def)
    have "projected_entry j k ?slot (candidate_row p (dr_committed_at (rr_receipt x)))"
      using row True x by (simp add: projected_entry_def)
    then obtain c where c: "?pointer = Some c" using ok unfolding journal_ok_def current_ok_def by blast
    let ?read = "read_receipt (j_zone j) (rr_receipt x)"
    have hash: "d ?read = pr_data_plane_receipt_hash p"
      using r x read by (auto simp: row_ok_def operation_verifies_def receipt_verifies_def)
    have "cr_operation_id c = or_operation_id (ow_request row) \<longrightarrow> pointer_agrees d c ?read p"
    proof
      assume "cr_operation_id c = or_operation_id (ow_request row)"
      note same[OF c this x]
      then show "pointer_agrees d c ?read p" using hash by (simp add: pointer_agrees_def candidate_row_def)
    qed
    then show ?thesis using True x c by (simp add: row_snapshot_def checkr_def)
  next
    case False
    have "cr_operation_id c \<noteq> or_operation_id (ow_request row)" if c: "?pointer = Some c" for c
    proof
      assume id: "cr_operation_id c = or_operation_id (ow_request row)"
      have "projected_entry j k ?slot c" using current_pointer(1)[OF ok c] id key by (simp add: slot_of_def operation_key_def)
      then show False using row False by (simp add: projected_entry_def)
    qed
    then show ?thesis using False by (cases ?pointer) (auto simp: row_snapshot_def checkr_def)
  qed
  have slot: "(or_organization_id (ow_request row), or_project_id (ow_request row), or_operation_kind (ow_request row))
      = ?slot" by (simp add: slot_of_def)
  show ?thesis
  proof (cases "operation_verifies d j k")
    case True
    show ?thesis
      unfolding reconciliation_snapshot_def Let_def key slot snap if_P[OF True] bindr_simps current agree[OF True]
      by (simp add: row_decoded_def)
  next
    case False
    show ?thesis
      unfolding reconciliation_snapshot_def Let_def key slot snap if_not_P[OF False] bindr_simps
      by (simp add: row_decoded_def)
  qed
qed

definition row_item :: "digest \<Rightarrow> journal \<Rightarrow> operation_row \<Rightarrow> recon_item" where
  "row_item d j row = (let s = row_snapshot j (operation_key (ow_request row)) row in
    \<lparr>ri_operation_id = or_operation_id (ow_request row), ri_operation_kind = or_operation_kind (ow_request row),
     ri_requested_at = or_requested_at (ow_request row), ri_state = ow_state row,
     ri_disposition = row_disposition j row, ri_data_hash = map_option d (os_data_receipt s),
     ri_projection_hash = map_option pr_projection_hash (os_projection s),
     ri_projection_revision = map_option pr_projection_revision (os_projection s)\<rparr>)"

lemma reconciliation_item_ok:
  assumes ok: "journal_ok d j" and row: "map_of (j_operations j) k = Some row"
  shows "reconciliation_item d j row = (if operation_verifies d j k then Inr (row_item d j row) else Inl StorageError)"
proof -
  have r: "row_ok d k row (map_of (j_receipts j) k) (map_of (j_projections j) k)" by (rule journal_rows[OF ok row])
  have key: "operation_key (ow_request row) = k" by (rule row_ok_key[OF r])
  have b: "build_request (ow_request row) = Inr (ow_request row)" using r by (simp add: row_ok_def)
  have "\<not> blank (or_operation_id (ow_request row))" "\<not> blank (or_operation_kind (ow_request row))"
    "aware (or_requested_at (ow_request row))"
    using b by (auto simp: build_request_def mk_operation_request_def res_simps blank_def)
  moreover have "case map_of (j_projections j) k of None \<Rightarrow> True | Some p \<Rightarrow> 1 \<le> pr_projection_revision p"
    using r by (auto simp: row_ok_def projection_columns_def bigint_column_def split: option.splits)
  ultimately show ?thesis
  proof (cases "operation_verifies d j k")
    case True
    then show ?thesis
      using \<open>\<not> blank (or_operation_id (ow_request row))\<close> \<open>\<not> blank (or_operation_kind (ow_request row))\<close>
        \<open>aware (or_requested_at (ow_request row))\<close>
        \<open>case map_of (j_projections j) k of None \<Rightarrow> True | Some p \<Rightarrow> 1 \<le> pr_projection_revision p\<close>
      unfolding reconciliation_item_def reconciliation_snapshot_ok[OF ok row] if_P[OF True] bindr_simps prod.case
        mk_recon_item_def
      by (cases "map_of (j_projections j) k"; cases "ow_state row")
        (auto simp: row_item_def row_snapshot_def key disposition_of_def row_disposition_def)
  next
    case False
    then show ?thesis by (simp add: reconciliation_item_def reconciliation_snapshot_ok[OF ok row])
  qed
qed

text \<open>The receipt of an operation, if it has one, verifies in the time zone of the sessions.\<close>

definition row_verifies :: "digest \<Rightarrow> journal \<Rightarrow> operation_row \<Rightarrow> bool" where
  "row_verifies d j row = operation_verifies d j (operation_key (ow_request row))"

lemma reconciliation_item_of_row:
  assumes ok: "journal_ok d j" and row: "map_of (j_operations j) k = Some row"
  shows "reconciliation_item d j row = (if row_verifies d j row then Inr (row_item d j row) else Inl StorageError)"
  using reconciliation_item_ok[OF ok row] row_ok_key[OF journal_rows[OF ok row]] by (simp add: row_verifies_def)


section \<open>Pages\<close>

lemma rows_after_strict:
  assumes "sorted_wrt (\<lambda>a b. f a < (f b :: 'b::linorder)) (xs @ x # ys)"
  shows "filter (\<lambda>r. f x < f r) (xs @ x # ys) = ys"
  using assms by (auto simp: sorted_wrt_append filter_empty_conv dest: less_asym intro!: filter_True)

lemma project_rows_stored:
  assumes "row \<in> set (project_rows g p j)" "journal_ok d j"
  obtains k where "map_of (j_operations j) k = Some row" "or_organization_id (ow_request row) = g"
    "or_project_id (ow_request row) = p"
proof -
  obtain k where k: "(k, row) \<in> set (j_operations j)" "or_organization_id (ow_request row) = g"
    "or_project_id (ow_request row) = p"
    using assms(1) by (auto simp: project_rows_def)
  then have "map_of (j_operations j) k = Some row" using assms(2) by (simp add: journal_ok_def)
  then show thesis using that k by blast
qed

lemma strict_project_rows:
  assumes ok: "journal_ok d j"
  shows "sorted_wrt (\<lambda>a b. recon_key a < recon_key b) (project_rows g p j)"
proof -
  let ?P = "\<lambda>row. or_organization_id (ow_request row) = g \<and> or_project_id (ow_request row) = p"
  let ?rows = "filter ?P (map snd (j_operations j))"
  have keys: "k = operation_key (ow_request row)" if "(k, row) \<in> set (j_operations j)" for k row
  proof -
    have "map_of (j_operations j) k = Some row" using that ok by (simp add: journal_ok_def)
    then show ?thesis using row_ok_key[OF journal_rows[OF ok]] by blast
  qed
  have dist: "distinct (map fst (j_operations j))" using ok by (simp add: journal_ok_def)
  have "map fst (filter (\<lambda>e. ?P (snd e)) (j_operations j))
      = map (\<lambda>row. (g, or_operation_id (ow_request row))) ?rows"
  proof -
    have "map (\<lambda>row. (g, or_operation_id (ow_request row))) ?rows
        = map (\<lambda>e. (g, or_operation_id (ow_request (snd e)))) (filter (\<lambda>e. ?P (snd e)) (j_operations j))"
      by (simp add: filter_map o_def)
    also have "\<dots> = map fst (filter (\<lambda>e. ?P (snd e)) (j_operations j))"
      using keys by (intro map_cong refl) (auto simp: operation_key_def)
    finally show ?thesis by simp
  qed
  moreover have "distinct (map fst (filter (\<lambda>e. ?P (snd e)) (j_operations j)))"
    using dist by (rule distinct_map_filter)
  ultimately have "distinct (map (\<lambda>row. (g, or_operation_id (ow_request row))) ?rows)" by simp
  then have "distinct (map recon_key ?rows)"
    by (auto simp: distinct_map recon_key_def inj_on_def)
  then have "distinct (map recon_key (project_rows g p j))"
    by (metis (no_types, lifting) project_rows_def mset_map mset_sort mset_eq_imp_distinct_iff)
  moreover have "sorted (map recon_key (project_rows g p j))" by (simp add: project_rows_def)
  ultimately have "sorted_wrt (<) (map recon_key (project_rows g p j))" by (simp add: strict_sorted_iff)
  then show ?thesis by (simp add: sorted_wrt_map)
qed

text \<open>Following the cursors from a start position.\<close>

fun scan_pages :: "digest \<Rightarrow> string \<Rightarrow> string \<Rightarrow> int \<Rightarrow> journal \<Rightarrow> nat \<Rightarrow> recon_cursor option
    \<Rightarrow> recon_item list res" where
  "scan_pages d g p n j 0 cursor = Inl RuntimeError"
| "scan_pages d g p n j (Suc fuel) cursor =
    bindr (list_reconciliation_page d g p \<lparr>rq_page_size = n, rq_cursor = cursor\<rparr> j) (\<lambda>page.
    case rp_next_cursor page of
      None \<Rightarrow> Inr (rp_items page)
    | Some c \<Rightarrow> bindr (scan_pages d g p n j fuel (Some c)) (\<lambda>rest. Inr (rp_items page @ rest)))"

text \<open>The page that starts after \<open>before\<close> in the list of rows.\<close>

lemma page_of_rest:
  assumes ok: "journal_ok d j" and n: "1 \<le> n" "n \<le> 100" and p: "is_uuid p"
    and after: "optional_res (\<lambda>c. decode_cursor c g p) cursor = Inr after"
    and rest: "rows_after after (project_rows g p j) = rest" and sub: "set rest \<subseteq> set (project_rows g p j)"
  shows "list_reconciliation_page d g p \<lparr>rq_page_size = n, rq_cursor = cursor\<rparr> j
    = (if list_all (row_verifies d j) (take (nat n) rest)
       then Inr \<lparr>rp_items = map (row_item d j) (take (nat n) rest),
        rp_next_cursor = (if nat n < length rest then
          (let l = ow_request (rest ! (nat n - 1)) in Some (encode_cursor g p (or_requested_at l) (or_operation_id l)))
          else None)\<rparr>
       else Inl StorageError)"
proof -
  let ?n = "nat n"
  have n1: "1 \<le> ?n" using n(1) by simp
  have items: "mapr (reconciliation_item d j) (take ?n rest)
      = (if list_all (row_verifies d j) (take ?n rest) then Inr (map (row_item d j) (take ?n rest)) else Inl StorageError)"
  proof (rule mapr_one_error)
    fix row
    assume "row \<in> set (take ?n rest)"
    then have "row \<in> set (project_rows g p j)" using sub in_set_takeD by fastforce
    then obtain k where "map_of (j_operations j) k = Some row" using ok by (rule project_rows_stored)
    then show "reconciliation_item d j row = (if row_verifies d j row then Inr (row_item d j row) else Inl StorageError)"
      by (rule reconciliation_item_of_row[OF ok])
  qed
  have decode: "operation_from_row row = Inr (ow_request row)" if "row \<in> set rest" for row
  proof -
    have "row \<in> set (project_rows g p j)" using sub that by blast
    then obtain k where "map_of (j_operations j) k = Some row" using ok by (rule project_rows_stored)
    then show ?thesis using stored_operation journal_rows[OF ok] by blast
  qed
  have len: "length (take ?n rest) \<le> 100" using n by simp
  have cond: "?n < length (take (?n + 1) rest) \<longleftrightarrow> ?n < length rest" by auto
  have take: "take ?n (take (?n + 1) rest) = take ?n rest" by (simp add: min_def)
  have last: "last (take ?n rest) = rest ! (?n - 1)" "take ?n rest \<noteq> []" if "?n < length rest"
  proof -
    show "take ?n rest \<noteq> []" using that n1 by auto
    then show "last (take ?n rest) = rest ! (?n - 1)" using that by (simp add: last_conv_nth min_def)
  qed
  have next_ok: "(if ?n < length rest \<and> take ?n rest \<noteq> []
            then bindr (operation_from_row (last (take ?n rest))) (\<lambda>l.
              Inr (Some (encode_cursor g p (or_requested_at l) (or_operation_id l))))
            else Inr None)
      = Inr (if ?n < length rest then (let l = ow_request (rest ! (?n - 1)) in
          Some (encode_cursor g p (or_requested_at l) (or_operation_id l))) else None)"
    using last decode[of "rest ! (?n - 1)"] by (auto simp: Let_def)
  show ?thesis
    unfolding list_reconciliation_page_def require_uuid_def recon_query.simps Let_def after rest take cond
      bindr_simps bindr_checkr items if_P[OF p] next_ok[unfolded Let_def]
    using len by (simp add: mk_recon_page_def)
qed

lemma scan_of_rest:
  assumes ok: "journal_ok d j" and n: "1 \<le> n" "n \<le> 100" and p: "is_uuid p"
  shows "project_rows g p j = before @ rest
    \<Longrightarrow> optional_res (\<lambda>c. decode_cursor c g p) cursor = Inr after
    \<Longrightarrow> rows_after after (project_rows g p j) = rest \<Longrightarrow> length rest < fuel
    \<Longrightarrow> scan_pages d g p n j fuel cursor
      = (if list_all (row_verifies d j) rest then Inr (map (row_item d j) rest) else Inl StorageError)"
proof (induction fuel arbitrary: before rest cursor after)
  case 0
  then show ?case by simp
next
  case (Suc fuel)
  note rows = Suc.prems(1)
  have page: "list_reconciliation_page d g p \<lparr>rq_page_size = n, rq_cursor = cursor\<rparr> j
    = (if list_all (row_verifies d j) (take (nat n) rest)
       then Inr \<lparr>rp_items = map (row_item d j) (take (nat n) rest),
        rp_next_cursor = (if nat n < length rest then
          (let l = ow_request (rest ! (nat n - 1)) in Some (encode_cursor g p (or_requested_at l) (or_operation_id l)))
          else None)\<rparr>
       else Inl StorageError)"
    by (rule page_of_rest[OF ok n p Suc.prems(2,3)]) (simp add: rows)
  show ?case
  proof (cases "nat n < length rest")
    case False
    then show ?thesis using page by simp
  next
    case True
    let ?i = "nat n - 1"
    let ?row = "rest ! ?i"
    let ?l = "ow_request ?row"
    have i: "?i < length rest" "nat n = Suc ?i" using True n by linarith+
    have split: "rest = take ?i rest @ ?row # drop (nat n) rest" using id_take_nth_drop[OF i(1)] i(2) by simp
    then have rows': "project_rows g p j = (before @ take ?i rest) @ ?row # drop (nat n) rest" using rows by simp
    have "?row \<in> set (project_rows g p j)" unfolding rows' by simp
    then obtain k where k: "map_of (j_operations j) k = Some ?row" using ok by (rule project_rows_stored)
    have "build_request ?l = Inr ?l" using journal_rows[OF ok k] by (simp add: row_ok_def)
    then have "aware (or_requested_at ?l)" by (auto simp: build_request_def mk_operation_request_def res_simps)
    moreover have "is_uuid (or_operation_id ?l)"
      using journal_rows[OF ok k] by (auto simp: row_ok_def operation_key_def)
    ultimately have l: "aware (or_requested_at ?l)" "is_uuid (or_operation_id ?l)" by blast+
    let ?at = "(or_requested_at ?l, or_operation_id ?l)"
    have decode: "decode_cursor (encode_cursor g p (or_requested_at ?l) (or_operation_id ?l)) g p = Inr ?at"
      using l by (simp add: decode_cursor_def encode_cursor_def checkr_def)
    have after: "rows_after (Some ?at) (project_rows g p j) = drop (nat n) rest"
      using rows_after_strict[of recon_key "before @ take ?i rest" ?row "drop (nat n) rest"]
        strict_project_rows[OF ok, of g p]
      unfolding rows' by (simp add: rows_after_def recon_key_def)
    have "scan_pages d g p n j fuel (Some (encode_cursor g p (or_requested_at ?l) (or_operation_id ?l)))
        = (if list_all (row_verifies d j) (drop (nat n) rest) then Inr (map (row_item d j) (drop (nat n) rest))
           else Inl StorageError)"
    proof (rule Suc.IH[where before = "before @ take (nat n) rest" and after = "Some ?at"])
      show "project_rows g p j = (before @ take (nat n) rest) @ drop (nat n) rest" using rows by simp
      show "optional_res (\<lambda>c. decode_cursor c g p)
          (Some (encode_cursor g p (or_requested_at ?l) (or_operation_id ?l))) = Inr (Some ?at)"
        unfolding optional_res.simps decode by simp
      show "rows_after (Some ?at) (project_rows g p j) = drop (nat n) rest" by (rule after)
      show "length (drop (nat n) rest) < fuel" using Suc.prems(4) True n by simp
    qed
    moreover have "list_all (row_verifies d j) rest \<longleftrightarrow>
        list_all (row_verifies d j) (take (nat n) rest) \<and> list_all (row_verifies d j) (drop (nat n) rest)"
      by (metis append_take_drop_id list_all_append)
    ultimately show ?thesis using page True by (simp add: Let_def flip: map_append)
  qed
qed


section \<open>Properties\<close>

text \<open>The operation has no receipt, or one whose commit time was recorded at the offset that the
  sessions' time zone has at that instant.\<close>

definition recorded_in_zone :: "journal \<Rightarrow> operation_row \<Rightarrow> bool" where
  "recorded_in_zone j row = (case map_of (j_receipts j) (operation_key (ow_request row)) of None \<Rightarrow> True
     | Some x \<Rightarrow> dr_committed_offset (rr_receipt x) = j_zone j (at_time (dr_committed_at (rr_receipt x))))"

lemma row_verifies_when:
  assumes ok: "journal_ok d j" and row: "map_of (j_operations j) k = Some row"
    and fine: "recorded_in_zone j row \<or> ow_state row = PROJECTED"
  shows "row_verifies d j row"
proof -
  have key: "operation_key (ow_request row) = k" by (rule row_ok_key[OF journal_rows[OF ok row]])
  from fine show ?thesis
  proof
    assume "recorded_in_zone j row"
    then have "operation_verifies d j k"
      by (intro session_zone_verifies[OF ok row]) (simp add: recorded_in_zone_def key)
    then show ?thesis by (simp add: row_verifies_def key)
  next
    assume "ow_state row = PROJECTED"
    then show ?thesis using projected_operation_verifies[OF ok row] by (simp add: row_verifies_def key)
  qed
qed

text \<open>C18: following the cursors lists every operation of the project exactly once and in order.
  For every reachable journal, page size and project, the pages end after at most one page per
  operation and together are the items of the project's operations in order of request time and
  identifier: no operation is lost or listed twice.  The scan raises, a storage error, exactly when the
  receipt of some operation of the project, read in the time zone of the sessions, does not have the
  digest it was stored with; an operation that is projected, has no receipt, or whose receipt was
  committed at the offset of that zone never makes it raise.\<close>

theorem every_operation_is_listed_once:
  assumes "1 \<le> n" "n \<le> 100" "is_uuid p"
  shows "scan_pages d g p n (journal_after zone d as) (Suc (length (project_rows g p (journal_after zone d as)))) None
      = (if list_all (row_verifies d (journal_after zone d as)) (project_rows g p (journal_after zone d as))
         then Inr (map (row_item d (journal_after zone d as)) (project_rows g p (journal_after zone d as)))
         else Inl StorageError)
    \<and> (\<forall>row \<in> set (project_rows g p (journal_after zone d as)).
         recorded_in_zone (journal_after zone d as) row \<or> ow_state row = PROJECTED
           \<longrightarrow> row_verifies d (journal_after zone d as) row)
    \<and> sorted_wrt (\<lambda>a b. recon_key a < recon_key b) (project_rows g p (journal_after zone d as))
    \<and> (\<forall>row. row \<in> set (project_rows g p (journal_after zone d as)) \<longleftrightarrow>
         map_of (j_operations (journal_after zone d as)) (g, or_operation_id (ow_request row)) = Some row
         \<and> or_project_id (ow_request row) = p)"
proof (intro conjI allI ballI impI)
  let ?j = "journal_after zone d as"
  have ok: "journal_ok d ?j" by (rule reachable_journal_ok)
  show "scan_pages d g p n ?j (Suc (length (project_rows g p ?j))) None
      = (if list_all (row_verifies d ?j) (project_rows g p ?j) then Inr (map (row_item d ?j) (project_rows g p ?j))
         else Inl StorageError)"
    by (rule scan_of_rest[OF ok assms, where before = "[]" and after = None]) (simp_all add: rows_after_def)
  show "sorted_wrt (\<lambda>a b. recon_key a < recon_key b) (project_rows g p ?j)"
    by (rule strict_project_rows[OF ok])
  show "row_verifies d ?j row"
    if listed: "row \<in> set (project_rows g p ?j)" and fine: "recorded_in_zone ?j row \<or> ow_state row = PROJECTED" for row
  proof -
    obtain k where "map_of (j_operations ?j) k = Some row" using listed ok by (rule project_rows_stored)
    then show ?thesis using fine by (rule row_verifies_when[OF ok])
  qed
  fix row :: operation_row
  let ?r = "ow_request row"
  show "row \<in> set (project_rows g p ?j) \<longleftrightarrow>
      map_of (j_operations ?j) (g, or_operation_id ?r) = Some row \<and> or_project_id ?r = p"
  proof
    assume "row \<in> set (project_rows g p ?j)"
    then obtain k where k: "map_of (j_operations ?j) k = Some row" "or_organization_id ?r = g" "or_project_id ?r = p"
      using ok by (rule project_rows_stored)
    then show "map_of (j_operations ?j) (g, or_operation_id ?r) = Some row \<and> or_project_id ?r = p"
      using row_ok_key[OF journal_rows[OF ok k(1)]] by (auto simp: operation_key_def)
  next
    assume r: "map_of (j_operations ?j) (g, or_operation_id ?r) = Some row \<and> or_project_id ?r = p"
    then have m: "map_of (j_operations ?j) (g, or_operation_id ?r) = Some row" by blast
    have "or_organization_id ?r = g"
      using row_ok_key[OF journal_rows[OF ok m]] by (simp add: operation_key_def)
    then show "row \<in> set (project_rows g p ?j)" using r map_of_SomeD[OF m] by (force simp: project_rows_def)
  qed
qed

theorem every_operation_is_listed_once_witness:
  "\<exists>items. scan_pages example_digest (fst example_slot) (fst (snd example_slot)) 1
      (journal_after example_zone example_digest example_calls) 2 None = Inr items"
proof -
  let ?rows = "project_rows (fst example_slot) (fst (snd example_slot)) (journal_after example_zone example_digest example_calls)"
  have "is_uuid (fst (snd example_slot))" "length ?rows = 1"
    and fine: "list_all (\<lambda>row. ow_state row = PROJECTED) ?rows" by code_simp+
  moreover note every = every_operation_is_listed_once[of 1 "fst (snd example_slot)" example_digest
      "fst example_slot" example_calls example_zone]
  ultimately have "list_all (row_verifies example_digest (journal_after example_zone example_digest example_calls)) ?rows"
    by (simp add: list_all_iff)
  then show ?thesis using every \<open>is_uuid (fst (snd example_slot))\<close> \<open>length ?rows = 1\<close>
    by (simp add: numeral_2_eq_2)
qed

text \<open>C19: the disposition tells what a rebuild may do.  The item of a stored operation is built unless
  its receipt, read in the time zone of the sessions, does not have the digest it was stored with, when
  it is a storage error; an operation that is projected, has no receipt, or whose receipt was committed
  at the offset of that zone has its item.  An item says missing projection exactly when the operation has committed data and no projection, and
  current exactly when the operation's own projection is the current one of its organization,
  project and kind.\<close>

theorem dispositions_are_exact:
  assumes "map_of (j_operations (journal_after zone d as)) k = Some row"
  shows "(recorded_in_zone (journal_after zone d as) row \<or> ow_state row = PROJECTED
      \<longrightarrow> row_verifies d (journal_after zone d as) row)
    \<and> reconciliation_item d (journal_after zone d as) row
      = (if row_verifies d (journal_after zone d as) row then Inr (row_item d (journal_after zone d as) row)
         else Inl StorageError)
    \<and> (ri_disposition (row_item d (journal_after zone d as) row) = MISSING_PROJECTION \<longleftrightarrow> ow_state row = DATA_COMMITTED)
    \<and> (ri_disposition (row_item d (journal_after zone d as) row) = CURRENT \<longleftrightarrow>
        (\<exists>c. map_of (j_current (journal_after zone d as)) (slot_of (ow_request row)) = Some c
          \<and> projected_entry (journal_after zone d as) k (slot_of (ow_request row)) c))"
proof (intro conjI impI)
  let ?j = "journal_after zone d as" and ?slot = "slot_of (ow_request row)"
  have ok: "journal_ok d ?j" by (rule reachable_journal_ok)
  have key: "k = operation_key (ow_request row)" using row_ok_key[OF journal_rows[OF ok assms]] by simp
  show "row_verifies d ?j row" if "recorded_in_zone ?j row \<or> ow_state row = PROJECTED"
    by (rule row_verifies_when[OF ok assms that])
  show "reconciliation_item d ?j row = (if row_verifies d ?j row then Inr (row_item d ?j row) else Inl StorageError)"
    by (rule reconciliation_item_of_row[OF ok assms])
  show "ri_disposition (row_item d ?j row) = MISSING_PROJECTION \<longleftrightarrow> ow_state row = DATA_COMMITTED"
    by (cases "ow_state row") (simp_all add: row_item_def Let_def row_disposition_def)
  have "projected_entry ?j k ?slot c \<longleftrightarrow>
      ow_state row = PROJECTED \<and> cr_operation_id c = or_operation_id (ow_request row)"
    if c: "map_of (j_current ?j) ?slot = Some c" for c
  proof
    assume e: "projected_entry ?j k ?slot c"
    then show "ow_state row = PROJECTED \<and> cr_operation_id c = or_operation_id (ow_request row)"
      using projected_entry_key[OF ok e] assms key by (auto simp: projected_entry_def operation_key_def)
  next
    assume "ow_state row = PROJECTED \<and> cr_operation_id c = or_operation_id (ow_request row)"
    then show "projected_entry ?j k ?slot c"
      using current_pointer(1)[OF ok c] key by (simp add: operation_key_def slot_of_def)
  qed
  then show "ri_disposition (row_item d ?j row) = CURRENT \<longleftrightarrow>
      (\<exists>c. map_of (j_current ?j) ?slot = Some c \<and> projected_entry ?j k ?slot c)"
    by (cases "ow_state row"; cases "map_of (j_current ?j) ?slot")
      (auto simp: row_item_def Let_def row_disposition_def)
qed

theorem dispositions_are_exact_witness:
  "\<exists>row i. map_of (j_operations (journal_after example_zone example_digest (take 2 example_calls)))
        (operation_key (example_request (CHR ''a''))) = Some row
    \<and> reconciliation_item example_digest (journal_after example_zone example_digest (take 2 example_calls)) row = Inr i
    \<and> ri_disposition i = MISSING_PROJECTION"
proof -
  let ?j = "journal_after example_zone example_digest (take 2 example_calls)"
  let ?found = "map_of (j_operations ?j) (operation_key (example_request (CHR ''a'')))"
  have "map_option (\<lambda>row. (ow_state row, recorded_in_zone ?j row)) ?found = Some (DATA_COMMITTED, True)"
    by code_simp
  then obtain row where row: "?found = Some row" "ow_state row = DATA_COMMITTED" "recorded_in_zone ?j row" by auto
  note exact = dispositions_are_exact[OF row(1)]
  have "row_verifies example_digest ?j row" using exact row(3) by blast
  then have "reconciliation_item example_digest ?j row = Inr (row_item example_digest ?j row)" using exact by presburger
  moreover have "ri_disposition (row_item example_digest ?j row) = MISSING_PROJECTION" using exact row(2) by blast
  ultimately show ?thesis using row(1) by blast
qed

text \<open>C20: a receipt of another zone is never read again.  When the stored receipt of an operation does not
  verify in the time zone of the sessions, then after any later calls it still does not: the operation
  is never projected, and reading it and building its item are storage errors.\<close>

theorem receipt_of_another_zone_is_stuck:
  assumes row: "map_of (j_operations (journal_after zone d as)) k = Some row"
    and unread: "\<not> row_verifies d (journal_after zone d as) row"
  shows "\<exists>row'. map_of (j_operations (journal_after zone d (as @ bs))) k = Some row'
    \<and> ow_request row' = ow_request row \<and> ow_state row' \<in> {DATA_COMMITTED, MANUAL_REVIEW}
    \<and> get_operation d (ow_request row) (journal_after zone d (as @ bs)) = Inl StorageError
    \<and> reconciliation_item d (journal_after zone d (as @ bs)) row' = Inl StorageError"
proof -
  let ?i = "journal_after zone d as" and ?j = "journal_after zone d (as @ bs)"
  have i: "journal_ok d ?i" and ok: "journal_ok d ?j" by (rule reachable_journal_ok)+
  have key: "operation_key (ow_request row) = k" by (rule row_ok_key[OF journal_rows[OF i row]])
  obtain x where x: "map_of (j_receipts ?i) k = Some x" "\<not> receipt_verifies d (j_zone ?i) x"
    using unread key by (auto simp: row_verifies_def operation_verifies_def split: option.splits)
  have later: "journal_earlier ?i ?j" by (rule reachable_evolves)
  then have zone: "j_zone ?j = j_zone ?i" and kept: "map_of (j_receipts ?j) k = Some x"
    using dict_growsD[OF _ x(1), of "(=)" "j_receipts ?j"] by (auto simp: journal_earlier_def)
  obtain row' where row': "map_of (j_operations ?j) k = Some row'" "ow_request row' = ow_request row"
    using dict_growsD[OF _ row, of row_earlier "j_operations ?j"] later
    by (auto simp: journal_earlier_def row_earlier_def)
  have unread': "\<not> operation_verifies d ?j k" using x(2) kept zone by (simp add: operation_verifies_def)
  have r: "row_ok d k row' (map_of (j_receipts ?j) k) (map_of (j_projections ?j) k)" by (rule journal_rows[OF ok row'(1)])
  have "ow_state row' \<noteq> PROJECTED" using projected_operation_verifies[OF ok row'(1)] unread' by blast
  moreover have "ow_state row' \<notin> {RESERVED, INTERRUPTED}" using r kept by (auto simp: row_ok_def)
  ultimately have state: "ow_state row' \<in> {DATA_COMMITTED, MANUAL_REVIEW}" by (cases "ow_state row'") simp_all
  have uuid: "is_uuid (or_operation_id (ow_request row))" using r key by (auto simp: row_ok_def operation_key_def)
  have same: "require_same_idempotent_request (ow_request row) (ow_request row) = Inr ()"
    by (simp add: require_same_idempotent_request_def res_simps)
  have "get_operation d (ow_request row) ?j = Inl StorageError"
    using snapshot_of_ok_row[OF ok row'(1)] uuid unread' row'
    unfolding get_operation_def key
    by (simp add: stored_operation[OF r] same require_uuid_def)
  moreover have "reconciliation_item d ?j row' = Inl StorageError"
    using reconciliation_item_ok[OF ok row'(1)] unread' by simp
  ultimately show ?thesis using row' state by blast
qed

text \<open>The digest of this example tells offsets apart, and the receipt was committed at the offset 3600.\<close>

definition offset_digest :: digest where
  "offset_digest r = example_hash (if dr_committed_offset r = 0 then CHR ''d'' else CHR ''c'')"

theorem receipt_of_another_zone_is_stuck_witness:
  "\<exists>row. map_of (j_operations (journal_after example_zone offset_digest ([Reserve (example_request (CHR ''a'')),
        RecordData (example_receipt (CHR ''a'') 5\<lparr>dr_committed_offset := 3600\<rparr>)] @
        [RecordProjection (example_projection (CHR ''a''))]))) (operation_key (example_request (CHR ''a''))) = Some row
    \<and> ow_state row \<in> {DATA_COMMITTED, MANUAL_REVIEW}"
proof -
  let ?as = "[Reserve (example_request (CHR ''a'')), RecordData (example_receipt (CHR ''a'') 5\<lparr>dr_committed_offset := 3600\<rparr>)]"
  let ?j = "journal_after example_zone offset_digest ?as"
  let ?found = "map_of (j_operations ?j) (operation_key (example_request (CHR ''a'')))"
  have "map_option (row_verifies offset_digest ?j) ?found = Some False" by code_simp
  then obtain row where "?found = Some row" "\<not> row_verifies offset_digest ?j row" by auto
  from receipt_of_another_zone_is_stuck[OF this, of "[RecordProjection (example_projection (CHR ''a''))]"]
  show ?thesis by blast
qed

lemma visible_project_id_Inr:
  "visible_project_id now sc a c p = Inr q \<longleftrightarrow> q = p \<and> is_uuid p
     \<and> rs_organization_id sc = az_organization_id a \<and> rs_principal_id sc = az_principal_id a
     \<and> authorizes a c now (Some p) = Inr True"
  by (auto simp: visible_project_id_def res_simps split: if_splits)

lemma recon_snapshot_found:
  assumes ok: "journal_ok d j"
  shows "get_reconciliation_snapshot d g p oid j = Inr m \<longleftrightarrow>
    is_uuid p \<and> is_uuid oid \<and> operation_verifies d j (g, oid) \<and> (\<exists>row. map_of (j_operations j) (g, oid) = Some row
      \<and> or_project_id (ow_request row) = p \<and> m = row_snapshot j (g, oid) row)"
proof (cases "map_of (j_operations j) (g, oid)")
  case None
  then show ?thesis by (auto simp: get_reconciliation_snapshot_def res_simps)
next
  case (Some row)
  then show ?thesis
    using reconciliation_snapshot_ok[OF ok Some] by (auto simp: get_reconciliation_snapshot_def res_simps)
qed

text \<open>C21: a rebuild is authorized and uses only the committed receipt.  When a rebuild returns, the
  caller's receipt grants project administration of the visible project at that time, the operation
  belonged to the caller's organization and to the project and had committed data without a
  projection; it is now projected from exactly that data receipt, and the data plane was not started.\<close>

theorem rebuild_is_authorized:
  assumes "rebuild_missing_projection out now sc a p oid (coord_run out ops (first_world zone w)) = (Inr res, t)"
  shows "authorizes a PROJECT_ADMIN now (Some p) = Inr True
    \<and> rs_organization_id sc = az_organization_id a \<and> rs_principal_id sc = az_principal_id a
    \<and> (\<exists>row row'. map_of (j_operations (w_journal (coord_run out ops (first_world zone w)))) (rs_organization_id sc, oid) = Some row
        \<and> or_project_id (ow_request row) = p \<and> ow_state row = DATA_COMMITTED
        \<and> ow_data_hash row = Some (out_digest out (cs_data_receipt res))
        \<and> map_of (j_operations (w_journal t)) (rs_organization_id sc, oid) = Some row'
        \<and> ow_state row' = PROJECTED \<and> ow_data_hash row' = ow_data_hash row)
    \<and> w_started t = w_started (coord_run out ops (first_world zone w))"
proof -
  let ?s = "coord_run out ops (first_world zone w)"
  let ?j = "w_journal ?s"
  have s: "world_ok out ?s" by (rule reachable_world)
  then have ok: "journal_ok (out_digest out) ?j" by (simp add: world_ok_def)
  obtain q m where q: "visible_project_id now sc a PROJECT_ADMIN p = Inr q"
    and m: "not_found (bindr (require_uuid oid) (\<lambda>_.
        get_reconciliation_snapshot (out_digest out) (rs_organization_id sc) q oid ?j)) = Inr m"
    and state: "os_state m = DATA_COMMITTED"
    and run: "recover (world_ports out) (os_request m) ?s = (Inr res, t)"
    using assms by (auto simp: rebuild_missing_projection_def seq_Inr split: if_splits)
  have p: "q = p" "authorizes a PROJECT_ADMIN now (Some p) = Inr True"
    "rs_organization_id sc = az_organization_id a" "rs_principal_id sc = az_principal_id a"
    using q by (simp_all add: visible_project_id_Inr)
  have "get_reconciliation_snapshot (out_digest out) (rs_organization_id sc) p oid ?j = Inr m"
    using m p(1) by (auto simp: not_found_def bindr_Inr split: sum.splits)
  then obtain row where row: "map_of (j_operations ?j) (rs_organization_id sc, oid) = Some row"
    "or_project_id (ow_request row) = p" "m = row_snapshot ?j (rs_organization_id sc, oid) row"
    unfolding recon_snapshot_found[OF ok] by blast
  have r: "row_ok (out_digest out) (rs_organization_id sc, oid) row
      (map_of (j_receipts ?j) (rs_organization_id sc, oid)) (map_of (j_projections ?j) (rs_organization_id sc, oid))"
    by (rule journal_rows[OF ok row(1)])
  have key: "operation_key (os_request m) = (rs_organization_id sc, oid)" and committed: "ow_state row = DATA_COMMITTED"
    using row(3) state row_ok_key[OF r] by (simp_all add: row_snapshot_def)
  have quiet: "world_ok out t" "world_le ?s t" "w_started t = w_started ?s"
    using keepsD[OF cross_store.keeps_recover s run] by simp_all
  have "world_projected t (rs_organization_id sc, oid) (out_digest out (cs_data_receipt res)) (cs_projection res)"
    using cross_store.recover_durable[OF s run] key by (simp add: world_ports_simps)
  then obtain row' where row': "map_of (j_operations (w_journal t)) (rs_organization_id sc, oid) = Some row'"
    "ow_state row' = PROJECTED" "ow_data_hash row' = Some (out_digest out (cs_data_receipt res))"
    unfolding world_projected_def by blast
  obtain x where x: "map_of (j_receipts ?j) (rs_organization_id sc, oid) = Some x" "ow_data_hash row = Some (rr_hash x)"
    using r committed unfolding row_ok_def by fastforce
  have "map_of (j_receipts (w_journal t)) (rs_organization_id sc, oid) = Some x"
    using quiet(2) dict_growsD[OF _ x(1), of "(=)" "j_receipts (w_journal t)"]
    by (auto simp: world_le_def journal_earlier_def)
  moreover have "row_ok (out_digest out) (rs_organization_id sc, oid) row'
      (map_of (j_receipts (w_journal t)) (rs_organization_id sc, oid))
      (map_of (j_projections (w_journal t)) (rs_organization_id sc, oid))"
    using quiet(1) by (intro journal_rows[OF _ row'(1)]) (simp add: world_ok_def)
  ultimately have "ow_data_hash row' = ow_data_hash row" using x(2) by (auto simp: row_ok_def)
  then show ?thesis using p row committed row' quiet(3) by auto
qed

text \<open>A receipt that grants the administration of the example project.\<close>

definition example_grant :: authorization_receipt where
  "example_grant = \<lparr>az_receipt_id = ''grant'', az_principal_id = ''user'',
     az_identity = or_requested_by (example_request (CHR ''a'')), az_organization_id = ''org'',
     az_capabilities = [PROJECT_ADMIN],
     az_visibility = \<lparr>pv_organization_id = ''org'', pv_project_ids = [fst (snd example_slot)],
       pv_organization_wide = False\<rparr>,
     az_role_revision_ids = [], az_grant_revision_ids = [], az_policy_revision = ''1'',
     az_issued_at = Aware 0, az_expires_at = Some (Aware 100)\<rparr>"

definition example_rebuild :: "int world \<Rightarrow> cross_store_result res \<times> int world" where
  "example_rebuild = rebuild_missing_projection example_outside (Aware 7) \<lparr>rs_organization_id = ''org'', rs_principal_id = ''user''\<rparr>
     example_grant (fst (snd example_slot)) (example_uuid (CHR ''a''))"

theorem rebuild_is_authorized_witness:
  "\<exists>row' res. map_of (j_operations (w_journal (snd (example_rebuild
        (coord_run example_outside [Others (take 2 example_calls) []] (first_world example_zone 0))))))
      (''org'', example_uuid (CHR ''a'')) = Some row' \<and> ow_state row' = PROJECTED
    \<and> ow_data_hash row' = Some (example_digest res)"
proof -
  let ?s = "coord_run example_outside [Others (take 2 example_calls) []] (first_world example_zone 0)"
  have "\<not> isl (fst (example_rebuild ?s))" by code_simp
  then obtain res t where run: "example_rebuild ?s = (Inr res, t)" by (cases "example_rebuild ?s"; cases "fst (example_rebuild ?s)") (auto simp: isl_def)
  have "out_digest example_outside = example_digest" by (simp add: example_outside_def)
  then show ?thesis
    using rebuild_is_authorized[OF run[unfolded example_rebuild_def]] unfolding run by auto
qed

end
