(* ===== verification/Jobs.thy ===== *)
theory Jobs
imports Access_Control Lease_Store
begin

text \<open>
  Jobs: the portable job values and their lifecycle (\<open>domain/shared/jobs.py\<close>), the inline dispatcher
  (\<open>adapters/jobs/inline.py\<close>) whose work runs between two locked sections, and the durable
  submission of a final review (\<open>application/preflight_durable_jobs.py\<close>,
  \<open>application/preflight_attempts.py\<close>).
\<close>


section \<open>Job records\<close>

datatype job_kind = SOURCE_INSPECTION | NORMALIZATION | PREFLIGHT | REPORT

datatype job_status = JOB_QUEUED | JOB_RUNNING | JOB_SUCCEEDED | JOB_FAILED | JOB_CANCELLED

record job_request =
  jq_job_id :: string
  jq_workspace_id :: string
  jq_kind :: job_kind
  jq_idempotency_key :: string
  jq_input_hash :: string
  jq_requested_by :: actor_identity
  jq_requested_at :: datetime

definition mk_job_request :: "job_request \<Rightarrow> job_request res" where
  "mk_job_request r =
     bindr (checkr (\<not> blank (jq_job_id r) \<and> \<not> blank (jq_workspace_id r)
       \<and> \<not> blank (jq_idempotency_key r)) ValueError) (\<lambda>_.
     bindr (checkr (sha256_hash (jq_input_hash r)) ValueError) (\<lambda>_.
     bindr (checkr (aware (jq_requested_at r)) ValueError) (\<lambda>_. Inr r)))"

record job_record =
  jr_request :: job_request
  jr_status :: job_status
  jr_version :: int
  jr_started_at :: "datetime option"
  jr_finished_at :: "datetime option"
  jr_result_artifact_ids :: "string list"
  jr_failure_code :: string

definition new_job :: "job_request \<Rightarrow> job_record" where
  "new_job r = \<lparr>jr_request = r, jr_status = JOB_QUEUED, jr_version = 1, jr_started_at = None,
     jr_finished_at = None, jr_result_artifact_ids = [], jr_failure_code = []\<rparr>"

definition require_status :: "job_record \<Rightarrow> job_status \<Rightarrow> unit res" where
  "require_status j expected = checkr (jr_status j = expected) ValueError"

definition start_job :: "job_record \<Rightarrow> datetime \<Rightarrow> job_record res" where
  "start_job j at = bindr (require_status j JOB_QUEUED) (\<lambda>_. bindr (checkr (aware at) ValueError) (\<lambda>_.
     Inr (j\<lparr>jr_status := JOB_RUNNING, jr_version := jr_version j + 1, jr_started_at := Some at\<rparr>)))"

definition succeed_job :: "job_record \<Rightarrow> datetime \<Rightarrow> string list \<Rightarrow> job_record res" where
  "succeed_job j at artifact_ids =
     bindr (require_status j JOB_RUNNING) (\<lambda>_. bindr (checkr (aware at) ValueError) (\<lambda>_.
     Inr (j\<lparr>jr_status := JOB_SUCCEEDED, jr_version := jr_version j + 1, jr_finished_at := Some at,
       jr_result_artifact_ids := artifact_ids\<rparr>)))"

definition fail_job :: "job_record \<Rightarrow> datetime \<Rightarrow> string \<Rightarrow> job_record res" where
  "fail_job j at failure_code =
     bindr (require_status j JOB_RUNNING) (\<lambda>_. bindr (checkr (aware at) ValueError) (\<lambda>_.
     bindr (checkr (\<not> blank failure_code \<and> length failure_code \<le> 200) ValueError) (\<lambda>_.
     Inr (j\<lparr>jr_status := JOB_FAILED, jr_version := jr_version j + 1, jr_finished_at := Some at,
       jr_failure_code := failure_code\<rparr>))))"


section \<open>The inline dispatcher\<close>

text \<open>The two dictionaries under the lock, and, to speak of concurrent callers, the frames that run
  their work between the two locked sections and the requests whose work was started.\<close>

record dispatcher =
  jd_by_job_id :: "(string \<times> job_record) list"
  jd_by_idempotency :: "(string \<times> string) list"
  jd_frames :: "job_record list"
  jd_started :: "job_request list"

definition empty_dispatcher :: dispatcher where
  "empty_dispatcher = \<lparr>jd_by_job_id = [], jd_by_idempotency = [], jd_frames = [], jd_started = []\<rparr>"

datatype admission = Existing job_record | Admitted job_record

definition same_job :: "job_request \<Rightarrow> job_request \<Rightarrow> bool" where
  "same_job original r = (jq_workspace_id original = jq_workspace_id r \<and> jq_kind original = jq_kind r
     \<and> jq_input_hash original = jq_input_hash r \<and> jq_requested_by original = jq_requested_by r)"

text \<open>The first locked section of \<open>dispatch\<close>.\<close>

definition admit :: "job_request \<Rightarrow> datetime \<Rightarrow> dispatcher \<Rightarrow> (admission \<times> dispatcher) res" where
  "admit r at d = (case map_of (jd_by_idempotency d) (jq_idempotency_key r) of
     Some existing_id \<Rightarrow>
       (case map_of (jd_by_job_id d) existing_id of
          None \<Rightarrow> Inl LookupError
        | Some existing \<Rightarrow>
            if same_job (jr_request existing) r then Inr (Existing existing, d) else Inl ValueError)
   | None \<Rightarrow>
       if map_of (jd_by_job_id d) (jq_job_id r) \<noteq> None then Inl ValueError
       else bindr (start_job (new_job r) at) (\<lambda>running.
         Inr (Admitted running, d\<lparr>
           jd_by_job_id := dict_set (jd_by_job_id d) (jq_job_id r) running,
           jd_by_idempotency := dict_set (jd_by_idempotency d) (jq_idempotency_key r) (jq_job_id r)\<rparr>)))"

text \<open>The work returns artifact identifiers or raises; then the second locked section stores the
  outcome.  The name of the exception's class is the failure code.\<close>

datatype work_outcome = Produced "string list" | Raised string

definition settle_work :: "job_record \<Rightarrow> work_outcome \<Rightarrow> datetime \<Rightarrow> dispatcher \<Rightarrow> (job_record \<times> dispatcher) res"
where
  "settle_work running outcome at d =
     bindr (case outcome of Raised class_name \<Rightarrow> fail_job running at class_name
            | Produced artifact_ids \<Rightarrow> succeed_job running at artifact_ids) (\<lambda>finished.
     Inr (finished, d\<lparr>jd_by_job_id := dict_set (jd_by_job_id d) (jq_job_id (jr_request running)) finished\<rparr>))"

definition get_job :: "string \<Rightarrow> dispatcher \<Rightarrow> job_record res" where
  "get_job job_id d = (case map_of (jd_by_job_id d) job_id of None \<Rightarrow> Inl LookupError | Some j \<Rightarrow> Inr j)"

text \<open>The interleavings of concurrent callers: a call enters, a frame's work ends, or a frame is lost
  (an exception outside \<open>Exception\<close>).\<close>

datatype job_op =
    Dispatch job_request datetime
  | WorkEnds job_record work_outcome datetime
  | WorkLost job_record

fun job_step :: "job_op \<Rightarrow> dispatcher \<Rightarrow> dispatcher res" where
  "job_step (Dispatch r at) d = bindr (admit r at d) (\<lambda>(a, d'). Inr (case a of
     Existing _ \<Rightarrow> d'
   | Admitted running \<Rightarrow> d'\<lparr>jd_frames := running # jd_frames d', jd_started := r # jd_started d'\<rparr>))"
| "job_step (WorkEnds running outcome at) d =
     (if running \<notin> set (jd_frames d) then Inl LookupError
      else let d' = d\<lparr>jd_frames := remove1 running (jd_frames d)\<rparr> in
        Inr (case settle_work running outcome at d' of Inl _ \<Rightarrow> d' | Inr (_, d'') \<Rightarrow> d''))"
| "job_step (WorkLost running) d = Inr (d\<lparr>jd_frames := remove1 running (jd_frames d)\<rparr>)"


section \<open>Durable jobs\<close>

datatype durable_job_state =
    DURABLE_QUEUED | DURABLE_RUNNING | DURABLE_REVIEW_REQUIRED | DURABLE_SUCCEEDED | DURABLE_FAILED
  | DURABLE_CANCELLED | DURABLE_INTERRUPTED

datatype durable_job_kind =
    KIND_SOURCE_INSPECTION | KIND_ODOO_CAPTURE | KIND_PREPARATION | KIND_PREFLIGHT
  | KIND_RECIPE_APPLICATION | KIND_REPORT_CREATION | KIND_LOAD | KIND_CORRECTION | KIND_RECONCILIATION
  | KIND_GOVERNED_DELETION

record durable_job_request =
  dj_job_id :: string
  dj_operation_id :: string
  dj_organization_id :: string
  dj_project_id :: string
  dj_workspace_id :: "string option"
  dj_job_kind :: durable_job_kind
  dj_idempotency_key :: string
  dj_semantic_input_hash :: string
  dj_manifest_hash :: string
  dj_authorization_receipt_id :: string
  dj_authorization_revision :: int
  dj_requested_by :: actor_identity
  dj_requested_at :: datetime

definition mk_durable_job_request :: "durable_job_request \<Rightarrow> durable_job_request res" where
  "mk_durable_job_request r =
     bindr (checkr (\<not> blank (dj_job_id r) \<and> \<not> blank (dj_operation_id r) \<and> \<not> blank (dj_project_id r)
       \<and> \<not> blank (dj_idempotency_key r) \<and> \<not> blank (dj_authorization_receipt_id r)) ValueError) (\<lambda>_.
     bindr (checkr (case dj_workspace_id r of None \<Rightarrow> True | Some w \<Rightarrow> \<not> blank w) ValueError) (\<lambda>_.
     bindr (checkr (sha256_hash (dj_semantic_input_hash r)) ValueError) (\<lambda>_.
     bindr (checkr (sha256_hash (dj_manifest_hash r)) ValueError) (\<lambda>_.
     bindr (checkr (1 \<le> dj_authorization_revision r) ValueError) (\<lambda>_.
     bindr (checkr (aware (dj_requested_at r)) ValueError) (\<lambda>_. Inr r))))))"

record attempt_identity =
  at_attempt_id :: string
  at_job_id :: string
  at_attempt_number :: int
  at_fencing_token :: int

definition mk_attempt_identity :: "attempt_identity \<Rightarrow> attempt_identity res" where
  "mk_attempt_identity a =
     bindr (checkr (\<not> blank (at_attempt_id a) \<and> \<not> blank (at_job_id a)) ValueError) (\<lambda>_.
     bindr (checkr (1 \<le> at_attempt_number a \<and> 1 \<le> at_fencing_token a) ValueError) (\<lambda>_. Inr a))"

record durable_job_attempt =
  da_identity :: attempt_identity
  da_worker_id :: string
  da_started_at :: datetime
  da_heartbeat_at :: datetime
  da_finished_at :: "datetime option"
  da_failure_code :: string
  da_result_receipt_hash :: string

definition mk_durable_job_attempt :: "durable_job_attempt \<Rightarrow> durable_job_attempt res" where
  "mk_durable_job_attempt a =
     bindr (checkr (\<not> blank (da_worker_id a) \<and> length (da_worker_id a) \<le> 200) ValueError) (\<lambda>_.
     bindr (checkr (aware (da_started_at a) \<and> aware (da_heartbeat_at a)
       \<and> at_time (da_started_at a) \<le> at_time (da_heartbeat_at a)) ValueError) (\<lambda>_.
     bindr (checkr (case da_finished_at a of None \<Rightarrow> True
       | Some t \<Rightarrow> aware t \<and> at_time (da_started_at a) \<le> at_time t) ValueError) (\<lambda>_.
     bindr (checkr (length (da_failure_code a) \<le> 200) ValueError) (\<lambda>_.
     bindr (checkr (da_result_receipt_hash a = [] \<or> sha256_hash (da_result_receipt_hash a)) ValueError) (\<lambda>_.
     bindr (checkr (da_failure_code a = [] \<or> da_result_receipt_hash a = []) ValueError) (\<lambda>_.
     bindr (checkr (da_finished_at a = None \<longrightarrow> da_failure_code a = [] \<and> da_result_receipt_hash a = [])
       ValueError) (\<lambda>_. Inr a)))))))"

text \<open>\<open>_DURABLE_JOB_TRANSITIONS\<close>.\<close>

fun durable_transitions :: "durable_job_state \<Rightarrow> durable_job_state list" where
  "durable_transitions DURABLE_QUEUED = [DURABLE_RUNNING, DURABLE_CANCELLED]"
| "durable_transitions DURABLE_RUNNING = [DURABLE_REVIEW_REQUIRED, DURABLE_SUCCEEDED, DURABLE_FAILED,
     DURABLE_CANCELLED, DURABLE_INTERRUPTED]"
| "durable_transitions _ = []"

record state_transition =
  tr_transition_id :: string
  tr_attempt :: attempt_identity
  tr_from_state :: durable_job_state
  tr_to_state :: durable_job_state
  tr_expected_revision :: int
  tr_resulting_revision :: int
  tr_occurred_at :: datetime
  tr_reason_code :: string
  tr_recovery_decision_id :: string

definition mk_state_transition :: "state_transition \<Rightarrow> state_transition res" where
  "mk_state_transition t =
     bindr (checkr (\<not> blank (tr_transition_id t)) ValueError) (\<lambda>_.
     bindr (checkr (tr_from_state t \<noteq> tr_to_state t) ValueError) (\<lambda>_.
     bindr (checkr (tr_to_state t \<in> set (durable_transitions (tr_from_state t))) ValueError) (\<lambda>_.
     bindr (checkr (1 \<le> tr_expected_revision t) ValueError) (\<lambda>_.
     bindr (checkr (tr_resulting_revision t = tr_expected_revision t + 1) ValueError) (\<lambda>_.
     bindr (checkr (aware (tr_occurred_at t)) ValueError) (\<lambda>_.
     bindr (checkr (length (tr_reason_code t) \<le> 200) ValueError) (\<lambda>_.
     bindr (checkr (tr_to_state t = DURABLE_INTERRUPTED \<longrightarrow> \<not> blank (tr_recovery_decision_id t)) ValueError) (\<lambda>_.
     bindr (checkr (tr_recovery_decision_id t = [] \<or> tr_to_state t \<in>
       {DURABLE_INTERRUPTED, DURABLE_REVIEW_REQUIRED, DURABLE_SUCCEEDED}) ValueError) (\<lambda>_. Inr t)))))))))"

record job_progress =
  pg_attempt :: attempt_identity
  pg_phase_code :: string
  pg_completed_units :: int
  pg_total_units :: "int option"
  pg_updated_at :: datetime

definition mk_job_progress :: "job_progress \<Rightarrow> job_progress res" where
  "mk_job_progress p =
     bindr (checkr (\<not> blank (pg_phase_code p) \<and> length (pg_phase_code p) \<le> 200) ValueError) (\<lambda>_.
     bindr (checkr (0 \<le> pg_completed_units p) ValueError) (\<lambda>_.
     bindr (checkr (case pg_total_units p of None \<Rightarrow> True
       | Some units \<Rightarrow> 0 \<le> units \<and> pg_completed_units p \<le> units) ValueError) (\<lambda>_.
     bindr (checkr (aware (pg_updated_at p)) ValueError) (\<lambda>_. Inr p))))"

record job_cancellation =
  jc_cancellation_id :: string
  jc_attempt :: attempt_identity
  jc_requested_by :: actor_identity
  jc_requested_at :: datetime
  jc_reason_code :: string

definition mk_job_cancellation :: "job_cancellation \<Rightarrow> job_cancellation res" where
  "mk_job_cancellation c =
     bindr (checkr (\<not> blank (jc_cancellation_id c)) ValueError) (\<lambda>_.
     bindr (checkr (\<not> blank (jc_reason_code c) \<and> length (jc_reason_code c) \<le> 200) ValueError) (\<lambda>_.
     bindr (checkr (aware (jc_requested_at c)) ValueError) (\<lambda>_. Inr c)))"

datatype cancellation_disposition =
    CANCEL_ACCEPTED | CANCEL_DEFERRED_UNSAFE_BOUNDARY | CANCEL_COMPLETED_BEFORE_STOP | CANCEL_REJECTED_TERMINAL

record cancellation_receipt =
  cn_cancellation_id :: string
  cn_attempt :: attempt_identity
  cn_disposition :: cancellation_disposition
  cn_disposed_at :: datetime

definition mk_cancellation_receipt :: "cancellation_receipt \<Rightarrow> cancellation_receipt res" where
  "mk_cancellation_receipt c =
     bindr (checkr (\<not> blank (cn_cancellation_id c)) ValueError) (\<lambda>_.
     bindr (checkr (aware (cn_disposed_at c)) ValueError) (\<lambda>_. Inr c))"


section \<open>Recovery of an expired attempt\<close>

datatype receipt_check_status =
    CHECK_NO_COMMITTED_RECEIPT | CHECK_MATCHED_COMMITTED_RECEIPT | CHECK_RECEIPT_MISMATCH | CHECK_UNAVAILABLE

record receipt_check =
  rk_check_id :: string
  rk_attempt :: attempt_identity
  rk_operation_id :: string
  rk_status :: receipt_check_status
  rk_attempt_expired_at :: datetime
  rk_checked_at :: datetime
  rk_data_plane_receipt_hash :: string

definition receipt_observed :: "receipt_check_status \<Rightarrow> bool" where
  "receipt_observed s = (s \<in> {CHECK_MATCHED_COMMITTED_RECEIPT, CHECK_RECEIPT_MISMATCH})"

definition mk_receipt_check :: "receipt_check \<Rightarrow> receipt_check res" where
  "mk_receipt_check k =
     bindr (checkr (\<not> blank (rk_check_id k) \<and> \<not> blank (rk_operation_id k)) ValueError) (\<lambda>_.
     bindr (checkr (aware (rk_attempt_expired_at k) \<and> aware (rk_checked_at k)) ValueError) (\<lambda>_.
     bindr (checkr (at_time (rk_attempt_expired_at k) \<le> at_time (rk_checked_at k)) ValueError) (\<lambda>_.
     bindr (checkr (if receipt_observed (rk_status k) then sha256_hash (rk_data_plane_receipt_hash k)
       else rk_data_plane_receipt_hash k = []) ValueError) (\<lambda>_. Inr k))))"

datatype recovery_action = INTERRUPT_RETRYABLE | COMPLETE_FROM_RECEIPT | REVIEW_REQUIRED

record job_recovery_decision =
  rd_decision_id :: string
  rd_receipt_check :: receipt_check
  rd_disposition :: recovery_action
  rd_decided_at :: datetime
  rd_reason_code :: string

fun allowed_action :: "receipt_check_status \<Rightarrow> recovery_action" where
  "allowed_action CHECK_NO_COMMITTED_RECEIPT = INTERRUPT_RETRYABLE"
| "allowed_action CHECK_MATCHED_COMMITTED_RECEIPT = COMPLETE_FROM_RECEIPT"
| "allowed_action CHECK_RECEIPT_MISMATCH = REVIEW_REQUIRED"
| "allowed_action CHECK_UNAVAILABLE = REVIEW_REQUIRED"

definition mk_job_recovery_decision :: "job_recovery_decision \<Rightarrow> job_recovery_decision res" where
  "mk_job_recovery_decision r =
     bindr (checkr (\<not> blank (rd_decision_id r)) ValueError) (\<lambda>_.
     bindr (checkr (aware (rd_decided_at r)) ValueError) (\<lambda>_.
     bindr (checkr (at_time (rk_checked_at (rd_receipt_check r)) \<le> at_time (rd_decided_at r)) ValueError) (\<lambda>_.
     bindr (checkr (\<not> blank (rd_reason_code r) \<and> length (rd_reason_code r) \<le> 200) ValueError) (\<lambda>_.
     bindr (checkr (rd_disposition r = allowed_action (rk_status (rd_receipt_check r))) ValueError) (\<lambda>_.
     Inr r)))))"

record job_interruption =
  jn_interruption_id :: string
  jn_attempt :: attempt_identity
  jn_recovery_decision :: job_recovery_decision
  jn_interrupted_at :: datetime
  jn_reason_code :: string

definition mk_job_interruption :: "job_interruption \<Rightarrow> job_interruption res" where
  "mk_job_interruption i =
     bindr (checkr (\<not> blank (jn_interruption_id i)) ValueError) (\<lambda>_.
     bindr (checkr (jn_attempt i = rk_attempt (rd_receipt_check (jn_recovery_decision i))) ValueError) (\<lambda>_.
     bindr (checkr (rd_disposition (jn_recovery_decision i) = INTERRUPT_RETRYABLE) ValueError) (\<lambda>_.
     bindr (checkr (\<not> blank (jn_reason_code i) \<and> length (jn_reason_code i) \<le> 200) ValueError) (\<lambda>_.
     bindr (checkr (aware (jn_interrupted_at i)) ValueError) (\<lambda>_.
     bindr (checkr (at_time (rd_decided_at (jn_recovery_decision i)) \<le> at_time (jn_interrupted_at i)) ValueError)
       (\<lambda>_. Inr i))))))"

record job_result =
  js_result_id :: string
  js_attempt :: attempt_identity
  js_data_plane_receipt_hash :: string
  js_result_artifact_ids :: "string list"
  js_completed_at :: datetime

definition mk_job_result :: "job_result \<Rightarrow> job_result res" where
  "mk_job_result r =
     bindr (checkr (\<not> blank (js_result_id r)) ValueError) (\<lambda>_.
     bindr (checkr (sha256_hash (js_data_plane_receipt_hash r)) ValueError) (\<lambda>_.
     bindr (checkr (list_all (\<lambda>i. \<not> blank i) (sorted_set (js_result_artifact_ids r))) ValueError) (\<lambda>_.
     bindr (checkr (aware (js_completed_at r)) ValueError) (\<lambda>_.
     Inr (r\<lparr>js_result_artifact_ids := sorted_set (js_result_artifact_ids r)\<rparr>)))))"


section \<open>The durable submission of a final review\<close>

record comparison_request =
  pf_operation_id :: string
  pf_project_id :: string
  pf_workspace_id :: string
  pf_semantic_input_hash :: string
  pf_workspace_revision :: int
  pf_data_version_id :: string
  pf_migration_run_id :: string
  pf_recipe_application_id :: "string option"
  pf_requested_at :: datetime
  pf_read_credential_binding_hash :: string

definition mk_comparison_request :: "comparison_request \<Rightarrow> comparison_request res" where
  "mk_comparison_request r =
     bindr (mapr require_uuid [pf_operation_id r, pf_project_id r, pf_workspace_id r, pf_data_version_id r,
       pf_migration_run_id r]) (\<lambda>_.
     bindr (checkr (case pf_recipe_application_id r of None \<Rightarrow> True | Some i \<Rightarrow> is_uuid i) FoundationError) (\<lambda>_.
     bindr (checkr (sha256_text (pf_semantic_input_hash r)) FoundationError) (\<lambda>_.
     bindr (checkr (pf_read_credential_binding_hash r = [] \<or> sha256_text (pf_read_credential_binding_hash r))
       FoundationError) (\<lambda>_.
     bindr (checkr (1 \<le> pf_workspace_revision r) FoundationError) (\<lambda>_.
     bindr (checkr (aware (pf_requested_at r)) FoundationError) (\<lambda>_. Inr r))))))"

record comparison_receipt =
  pc_operation_id :: string
  pc_workspace_id :: string
  pc_preflight_run_id :: string
  pc_frozen_input_hash :: string
  pc_requirement_plan_hash :: string
  pc_result_hash :: string
  pc_manifest_hash :: string
  pc_execution_snapshot_hash :: string

definition mk_comparison_receipt :: "comparison_receipt \<Rightarrow> comparison_receipt res" where
  "mk_comparison_receipt r =
     bindr (mapr require_uuid [pc_operation_id r, pc_workspace_id r, pc_preflight_run_id r]) (\<lambda>_.
     bindr (checkr (list_all sha256_text [pc_frozen_input_hash r, pc_requirement_plan_hash r, pc_result_hash r,
       pc_manifest_hash r]) FoundationError) (\<lambda>_.
     bindr (checkr (pc_execution_snapshot_hash r = [] \<or> sha256_text (pc_execution_snapshot_hash r))
       FoundationError) (\<lambda>_. Inr r)))"

record preflight_submission =
  ps_comparison :: comparison_request
  ps_job_id :: string
  ps_idempotency_key :: string
  ps_command_manifest_hash :: string
  ps_authorization :: authorization_receipt
  ps_authorization_revision :: int

definition to_job_request :: "preflight_submission \<Rightarrow> durable_job_request res" where
  "to_job_request s =
    (let c = ps_comparison s; a = ps_authorization s in
     bindr (checkr (at_time (az_issued_at a) \<le> at_time (pf_requested_at c)) PermissionError) (\<lambda>_.
     bindr (authorizes a PREFLIGHT_RUN (pf_requested_at c) (Some (pf_project_id c))) (\<lambda>allowed.
     bindr (checkr allowed PermissionError) (\<lambda>_.
     mk_durable_job_request \<lparr>dj_job_id = ps_job_id s, dj_operation_id = pf_operation_id c,
       dj_organization_id = az_organization_id a, dj_project_id = pf_project_id c,
       dj_workspace_id = Some (pf_workspace_id c), dj_job_kind = KIND_PREFLIGHT,
       dj_idempotency_key = ps_idempotency_key s, dj_semantic_input_hash = pf_semantic_input_hash c,
       dj_manifest_hash = ps_command_manifest_hash s, dj_authorization_receipt_id = az_receipt_id a,
       dj_authorization_revision = ps_authorization_revision s, dj_requested_by = az_identity a,
       dj_requested_at = pf_requested_at c\<rparr>))))"

text \<open>The service over a job control whose \<open>enqueue\<close> is a parameter.\<close>

definition enqueue_preflight :: "(durable_job_request \<Rightarrow> 's \<Rightarrow> durable_job_request res \<times> 's)
    \<Rightarrow> preflight_submission \<Rightarrow> 's \<Rightarrow> durable_job_request res \<times> 's" where
  "enqueue_preflight enqueue s st = (case to_job_request s of
     Inl e \<Rightarrow> (Inl e, st)
   | Inr requested \<Rightarrow> (case enqueue requested st of
       (Inl e, st') \<Rightarrow> (Inl e, st')
     | (Inr accepted, st') \<Rightarrow> (if accepted \<noteq> requested then Inl RuntimeError else Inr accepted, st')))"

end
