(* ===== verification/Job_Properties.thy ===== *)
theory Job_Properties
imports Jobs
begin

text \<open>
  What jobs promise, for every interleaving of callers and works: the work of an idempotency key is
  started once and later calls get its record, a stored record is one of three shapes and settles at
  most once; and for durable jobs, that every chain of transitions ends and that an interruption is
  proven by a check that found no committed receipt.
\<close>


section \<open>The invariant of the dispatcher\<close>

definition record_ok :: "job_record \<Rightarrow> bool" where
  "record_ok j \<longleftrightarrow> (\<exists>t. jr_started_at j = Some (Aware t)) \<and> (case jr_status j of
     JOB_RUNNING \<Rightarrow> jr_version j = 2 \<and> jr_finished_at j = None \<and> jr_result_artifact_ids j = []
       \<and> jr_failure_code j = []
   | JOB_SUCCEEDED \<Rightarrow> jr_version j = 3 \<and> (\<exists>t. jr_finished_at j = Some (Aware t)) \<and> jr_failure_code j = []
   | JOB_FAILED \<Rightarrow> jr_version j = 3 \<and> (\<exists>t. jr_finished_at j = Some (Aware t)) \<and> jr_result_artifact_ids j = []
       \<and> \<not> blank (jr_failure_code j) \<and> length (jr_failure_code j) \<le> 200
   | _ \<Rightarrow> False)"

abbreviation job_id_of :: "job_record \<Rightarrow> string" where
  "job_id_of j \<equiv> jq_job_id (jr_request j)"

abbreviation key_of :: "job_record \<Rightarrow> string" where
  "key_of j \<equiv> jq_idempotency_key (jr_request j)"

definition records_ok :: "dispatcher \<Rightarrow> bool" where
  "records_ok d \<longleftrightarrow> (\<forall>i j. map_of (jd_by_job_id d) i = Some j \<longrightarrow>
     job_id_of j = i \<and> record_ok j \<and> map_of (jd_by_idempotency d) (key_of j) = Some i \<and> jr_request j \<in> set (jd_started d))"

definition frames_ok :: "dispatcher \<Rightarrow> bool" where
  "frames_ok d \<longleftrightarrow> distinct (map job_id_of (jd_frames d))
     \<and> (\<forall>j\<in>set (jd_frames d). jr_status j = JOB_RUNNING \<and> map_of (jd_by_job_id d) (job_id_of j) = Some j)"

definition started_ok :: "dispatcher \<Rightarrow> bool" where
  "started_ok d \<longleftrightarrow> distinct (map jq_idempotency_key (jd_started d)) \<and> distinct (map jq_job_id (jd_started d))
     \<and> (\<forall>r\<in>set (jd_started d). \<exists>j. map_of (jd_by_job_id d) (jq_job_id r) = Some j \<and> jr_request j = r)"

definition keys_ok :: "dispatcher \<Rightarrow> bool" where
  "keys_ok d \<longleftrightarrow> (\<forall>k i. map_of (jd_by_idempotency d) k = Some i \<longrightarrow>
     (\<exists>j. map_of (jd_by_job_id d) i = Some j \<and> key_of j = k))"

definition dispatcher_ok :: "dispatcher \<Rightarrow> bool" where
  "dispatcher_ok d \<longleftrightarrow> records_ok d \<and> frames_ok d \<and> started_ok d \<and> keys_ok d"

definition record_earlier :: "job_record \<Rightarrow> job_record \<Rightarrow> bool" where
  "record_earlier j j' \<longleftrightarrow> j' = j \<or> jr_status j = JOB_RUNNING \<and> jr_request j' = jr_request j
     \<and> jr_started_at j' = jr_started_at j \<and> jr_status j' \<in> {JOB_SUCCEEDED, JOB_FAILED}"

definition dispatcher_earlier :: "dispatcher \<Rightarrow> dispatcher \<Rightarrow> bool" where
  "dispatcher_earlier d d' \<longleftrightarrow> dict_grows record_earlier (jd_by_job_id d) (jd_by_job_id d')
     \<and> dict_grows (=) (jd_by_idempotency d) (jd_by_idempotency d')"

lemma record_earlier_trans: "record_earlier a b \<Longrightarrow> record_earlier b c \<Longrightarrow> record_earlier a c"
  by (auto simp: record_earlier_def)

lemma dispatcher_earlier_refl: "dispatcher_earlier d d"
  by (simp add: dispatcher_earlier_def dict_grows_refl record_earlier_def)

lemma dispatcher_earlier_trans:
  "dispatcher_earlier a b \<Longrightarrow> dispatcher_earlier b c \<Longrightarrow> dispatcher_earlier a c"
  unfolding dispatcher_earlier_def by (blast intro: dict_grows_trans record_earlier_trans)

lemma dispatcher_ok_empty: "dispatcher_ok empty_dispatcher"
  by (simp add: dispatcher_ok_def records_ok_def frames_ok_def started_ok_def keys_ok_def empty_dispatcher_def)

text \<open>The two sections under the lock.\<close>

lemma admit_cases:
  assumes "admit r at d = Inr (a, d')"
  obtains (replayed) i j where "map_of (jd_by_idempotency d) (jq_idempotency_key r) = Some i"
      "map_of (jd_by_job_id d) i = Some j" "same_job (jr_request j) r" "a = Existing j" "d' = d"
  | (admitted) j t where "map_of (jd_by_idempotency d) (jq_idempotency_key r) = None"
      "map_of (jd_by_job_id d) (jq_job_id r) = None" "at = Aware t"
      "j = (new_job r)\<lparr>jr_status := JOB_RUNNING, jr_version := 2, jr_started_at := Some (Aware t)\<rparr>"
      "a = Admitted j" "d' = d\<lparr>jd_by_job_id := dict_set (jd_by_job_id d) (jq_job_id r) j,
         jd_by_idempotency := dict_set (jd_by_idempotency d) (jq_idempotency_key r) (jq_job_id r)\<rparr>"
proof (cases "map_of (jd_by_idempotency d) (jq_idempotency_key r)")
  case (Some i)
  then obtain j where j: "map_of (jd_by_job_id d) i = Some j" using assms by (cases "map_of (jd_by_job_id d) i") (simp_all add: admit_def)
  with Some assms have "same_job (jr_request j) r \<and> a = Existing j \<and> d' = d"
    by (cases "same_job (jr_request j) r") (simp_all add: admit_def)
  with Some j show thesis by (intro replayed) simp_all
next
  case None
  let ?running = "\<lambda>t. (new_job r)\<lparr>jr_status := JOB_RUNNING, jr_version := 2, jr_started_at := Some (Aware t)\<rparr>"
  have start: "start_job (new_job r) x = (case x of Aware t \<Rightarrow> Inr (?running t) | Naive _ \<Rightarrow> Inl ValueError)" for x
    by (cases x) (simp_all add: start_job_def require_status_def new_job_def)
  have free: "map_of (jd_by_job_id d) (jq_job_id r) = None"
    using assms None by (cases "map_of (jd_by_job_id d) (jq_job_id r)") (simp_all add: admit_def)
  show thesis
  proof (cases at)
    case (Aware t)
    then show thesis using assms None free by (intro admitted[of t "?running t"]) (simp_all add: admit_def start)
  next
    case (Naive t)
    then show thesis using assms None free by (simp add: admit_def start)
  qed
qed

lemma settle_cases:
  assumes "settle_work j outcome at d = Inr (j', d')" and "record_ok j"
  shows "record_ok j' \<and> record_earlier j j' \<and> jr_request j' = jr_request j
    \<and> d' = d\<lparr>jd_by_job_id := dict_set (jd_by_job_id d) (job_id_of j) j'\<rparr>"
proof (cases outcome)
  case (Produced ids)
  then obtain t where j: "jr_status j = JOB_RUNNING" "j' = j\<lparr>jr_status := JOB_SUCCEEDED, jr_version := jr_version j + 1,
      jr_finished_at := Some (Aware t), jr_result_artifact_ids := ids\<rparr>"
      "d' = d\<lparr>jd_by_job_id := dict_set (jd_by_job_id d) (job_id_of j) j'\<rparr>"
    using assms(1) by (cases at) (auto simp: settle_work_def succeed_job_def require_status_def res_simps split: if_splits)
  show ?thesis using assms(2) unfolding j by (simp add: record_ok_def record_earlier_def j(1))
next
  case (Raised name)
  then obtain t where j: "jr_status j = JOB_RUNNING" "j' = j\<lparr>jr_status := JOB_FAILED, jr_version := jr_version j + 1,
      jr_finished_at := Some (Aware t), jr_failure_code := name\<rparr>" "\<not> blank name" "length name \<le> 200"
      "d' = d\<lparr>jd_by_job_id := dict_set (jd_by_job_id d) (job_id_of j) j'\<rparr>"
    using assms(1) by (cases at) (auto simp: settle_work_def fail_job_def require_status_def res_simps split: if_splits)
  show ?thesis using assms(2) j(3,4) unfolding j(2,5) by (simp add: record_ok_def record_earlier_def j(1))
qed

lemma admit_ok:
  assumes ok: "dispatcher_ok d" and new: "map_of (jd_by_idempotency d) (jq_idempotency_key r) = None"
    "map_of (jd_by_job_id d) (jq_job_id r) = None"
    and j: "jr_request j = r" "record_ok j" "jr_status j = JOB_RUNNING"
  shows "dispatcher_ok (d\<lparr>jd_by_job_id := dict_set (jd_by_job_id d) (jq_job_id r) j,
      jd_by_idempotency := dict_set (jd_by_idempotency d) (jq_idempotency_key r) (jq_job_id r),
      jd_frames := j # jd_frames d, jd_started := r # jd_started d\<rparr>)"
proof -
  have d: "records_ok d" "frames_ok d" "started_ok d" "keys_ok d" using ok by (simp_all add: dispatcher_ok_def)
  have key: "jq_idempotency_key r \<noteq> key_of j'" if "map_of (jd_by_job_id d) i = Some j'" for i j'
    using d(1) that new(1) by (auto simp: records_ok_def)
  have started: "jq_idempotency_key r \<noteq> jq_idempotency_key q" "jq_job_id r \<noteq> jq_job_id q"
    if "q \<in> set (jd_started d)" for q
    using d(3) that new(2) key by (fastforce simp: started_ok_def)+
  show ?thesis
    unfolding dispatcher_ok_def
  proof (intro conjI)
    show "records_ok (d\<lparr>jd_by_job_id := dict_set (jd_by_job_id d) (jq_job_id r) j,
      jd_by_idempotency := dict_set (jd_by_idempotency d) (jq_idempotency_key r) (jq_job_id r),
      jd_frames := j # jd_frames d, jd_started := r # jd_started d\<rparr>)"
      using d(1) j by (auto simp: records_ok_def map_of_dict_set) (metis key)
    show "frames_ok (d\<lparr>jd_by_job_id := dict_set (jd_by_job_id d) (jq_job_id r) j,
      jd_by_idempotency := dict_set (jd_by_idempotency d) (jq_idempotency_key r) (jq_job_id r),
      jd_frames := j # jd_frames d, jd_started := r # jd_started d\<rparr>)"
      using d(2) new(2) j by (auto simp: frames_ok_def map_of_dict_set)
    show "started_ok (d\<lparr>jd_by_job_id := dict_set (jd_by_job_id d) (jq_job_id r) j,
      jd_by_idempotency := dict_set (jd_by_idempotency d) (jq_idempotency_key r) (jq_job_id r),
      jd_frames := j # jd_frames d, jd_started := r # jd_started d\<rparr>)"
      using d(3) started j(1) by (auto simp: started_ok_def map_of_dict_set) (metis started(2))
    show "keys_ok (d\<lparr>jd_by_job_id := dict_set (jd_by_job_id d) (jq_job_id r) j,
      jd_by_idempotency := dict_set (jd_by_idempotency d) (jq_idempotency_key r) (jq_job_id r),
      jd_frames := j # jd_frames d, jd_started := r # jd_started d\<rparr>)"
      using d(4) new j(1) by (fastforce simp: keys_ok_def map_of_dict_set)
  qed
qed

lemma drop_frame_ok: "dispatcher_ok d \<Longrightarrow> dispatcher_ok (d\<lparr>jd_frames := remove1 j (jd_frames d)\<rparr>)"
proof -
  assume ok: "dispatcher_ok d"
  have "distinct (map job_id_of (remove1 j fs))" if "distinct (map job_id_of fs)" for fs
    using that by (induction fs) (auto dest: set_remove1_subset[THEN subsetD])
  then show ?thesis
    using ok by (auto simp: dispatcher_ok_def records_ok_def frames_ok_def started_ok_def keys_ok_def
        dest: set_remove1_subset[THEN subsetD])
qed

lemma settle_ok:
  assumes ok: "dispatcher_ok d" and j: "map_of (jd_by_job_id d) (job_id_of j) = Some j"
    and j': "record_ok j'" "jr_request j' = jr_request j" and frames: "\<And>f. f \<in> set (jd_frames d) \<Longrightarrow> job_id_of f \<noteq> job_id_of j"
  shows "dispatcher_ok (d\<lparr>jd_by_job_id := dict_set (jd_by_job_id d) (job_id_of j) j'\<rparr>)"
proof -
  have d: "records_ok d" "frames_ok d" "started_ok d" "keys_ok d" using ok by (simp_all add: dispatcher_ok_def)
  have "records_ok (d\<lparr>jd_by_job_id := dict_set (jd_by_job_id d) (job_id_of j) j'\<rparr>)"
    unfolding records_ok_def
  proof (intro allI impI)
    fix i x
    assume "map_of (jd_by_job_id (d\<lparr>jd_by_job_id := dict_set (jd_by_job_id d) (job_id_of j) j'\<rparr>)) i = Some x"
    then have x: "if i = job_id_of j then x = j' else map_of (jd_by_job_id d) i = Some x"
      by (simp add: map_of_dict_set split: if_splits)
    have "job_id_of x = i \<and> record_ok x \<and> map_of (jd_by_idempotency d) (key_of x) = Some i
        \<and> jr_request x \<in> set (jd_started d)"
      using d(1) j j' x unfolding records_ok_def by (cases "i = job_id_of j") metis+
    then show "job_id_of x = i \<and> record_ok x
      \<and> map_of (jd_by_idempotency (d\<lparr>jd_by_job_id := dict_set (jd_by_job_id d) (job_id_of j) j'\<rparr>)) (key_of x) = Some i
      \<and> jr_request x \<in> set (jd_started (d\<lparr>jd_by_job_id := dict_set (jd_by_job_id d) (job_id_of j) j'\<rparr>))"
      by simp
  qed
  moreover have "frames_ok (d\<lparr>jd_by_job_id := dict_set (jd_by_job_id d) (job_id_of j) j'\<rparr>)"
    using d(2) frames by (simp add: frames_ok_def map_of_dict_set)
  moreover have "started_ok (d\<lparr>jd_by_job_id := dict_set (jd_by_job_id d) (job_id_of j) j'\<rparr>)"
  proof -
    have "\<exists>x. map_of (dict_set (jd_by_job_id d) (job_id_of j) j') (jq_job_id r) = Some x \<and> jr_request x = r"
      if r: "r \<in> set (jd_started d)" for r
    proof -
      obtain x where x: "map_of (jd_by_job_id d) (jq_job_id r) = Some x" "jr_request x = r"
        using d(3) r unfolding started_ok_def by blast
      show ?thesis
      proof (cases "jq_job_id r = job_id_of j")
        case True
        then have "x = j" using x(1) j by simp
        then have "jr_request j' = r" using x(2) j'(2) by simp
        moreover have "map_of (dict_set (jd_by_job_id d) (job_id_of j) j') (jq_job_id r) = Some j'"
          unfolding map_of_dict_set True by simp
        ultimately show ?thesis by blast
      next
        case False
        then show ?thesis using x by (simp add: map_of_dict_set)
      qed
    qed
    then show ?thesis using d(3) unfolding started_ok_def by (intro conjI ballI) simp_all
  qed
  moreover have "keys_ok (d\<lparr>jd_by_job_id := dict_set (jd_by_job_id d) (job_id_of j) j'\<rparr>)"
  proof -
    have "\<exists>x. map_of (dict_set (jd_by_job_id d) (job_id_of j) j') i = Some x \<and> key_of x = k"
      if i: "map_of (jd_by_idempotency d) k = Some i" for k i
    proof -
      obtain x where x: "map_of (jd_by_job_id d) i = Some x" "key_of x = k"
        using d(4) i unfolding keys_ok_def by blast
      then show ?thesis using j j'(2) by (cases "i = job_id_of j") (auto simp: map_of_dict_set)
    qed
    then show ?thesis by (simp add: keys_ok_def)
  qed
  ultimately show ?thesis by (simp add: dispatcher_ok_def)
qed

lemma admit_earlier:
  assumes "map_of (jd_by_idempotency d) k = None" "map_of (jd_by_job_id d) i = None"
  shows "dispatcher_earlier d (d\<lparr>jd_by_job_id := dict_set (jd_by_job_id d) i j,
      jd_by_idempotency := dict_set (jd_by_idempotency d) k i, jd_frames := fs, jd_started := rs\<rparr>)"
  unfolding dispatcher_earlier_def using assms by (auto intro!: dict_grows_set simp: record_earlier_def)

lemma admit_step_ok:
  assumes ok: "dispatcher_ok d" and step: "job_step (Dispatch r at) d = Inr d'"
  shows "dispatcher_ok d' \<and> dispatcher_earlier d d'"
proof -
  obtain a e where a: "admit r at d = Inr (a, e)"
    "d' = (case a of Existing _ \<Rightarrow> e
      | Admitted running \<Rightarrow> e\<lparr>jd_frames := running # jd_frames e, jd_started := r # jd_started e\<rparr>)"
    using step by (auto simp: res_simps)
  from a(1) show ?thesis
  proof (cases rule: admit_cases)
    case replayed
    then show ?thesis using a(2) ok dispatcher_earlier_refl by simp
  next
    case (admitted j t)
    have "jr_request j = r" "record_ok j" "jr_status j = JOB_RUNNING"
      unfolding admitted(4) by (simp_all add: new_job_def record_ok_def)
    then show ?thesis
      using a(2) admitted(5,6) admit_ok[OF ok admitted(1,2)] admit_earlier[OF admitted(1,2)] by simp
  qed
qed

lemma ends_step_ok:
  assumes ok: "dispatcher_ok d" and step: "job_step (WorkEnds j outcome at) d = Inr d'"
  shows "dispatcher_ok d' \<and> dispatcher_earlier d d'"
proof -
  let ?e = "d\<lparr>jd_frames := remove1 j (jd_frames d)\<rparr>"
  have j: "j \<in> set (jd_frames d)" and d': "d' = (case settle_work j outcome at ?e of Inl _ \<Rightarrow> ?e | Inr (_, x) \<Rightarrow> x)"
    using step by (auto simp: Let_def split: if_splits)
  have e: "dispatcher_ok ?e" "dispatcher_earlier d ?e"
    using drop_frame_ok[OF ok] dispatcher_earlier_refl[of d] by (simp_all add: dispatcher_earlier_def)
  have frames: "distinct (map job_id_of (jd_frames d))" and stored: "map_of (jd_by_job_id d) (job_id_of j) = Some j"
    using ok j by (auto simp: dispatcher_ok_def frames_ok_def)
  have "record_ok j" using ok stored by (auto simp: dispatcher_ok_def records_ok_def)
  show ?thesis
  proof (cases "settle_work j outcome at ?e")
    case (Inl x)
    then show ?thesis using e d' by simp
  next
    case (Inr x)
    then obtain j' e' where x: "settle_work j outcome at ?e = Inr (j', e')" by (cases x) auto
    note c = settle_cases[OF x \<open>record_ok j\<close>]
    have "job_id_of f \<noteq> job_id_of j" if "f \<in> set (remove1 j (jd_frames d))" for f
    proof -
      have "distinct (jd_frames d)" using frames by (simp add: distinct_map)
      then have "f \<in> set (jd_frames d)" "f \<noteq> j" using that by auto
      then show ?thesis using frames j by (auto simp: distinct_map dest: inj_onD)
    qed
    then have "dispatcher_ok e'" using settle_ok[OF e(1)] stored c by simp
    moreover have "dispatcher_earlier d e'"
      using c stored by (auto simp: dispatcher_earlier_def dict_grows_refl intro!: dict_grows_set)
        (simp_all add: record_earlier_def)
    ultimately show ?thesis using d' x by simp
  qed
qed

lemma lost_step_ok:
  assumes "dispatcher_ok d" "job_step (WorkLost j) d = Inr d'"
  shows "dispatcher_ok d' \<and> dispatcher_earlier d d'"
  using assms drop_frame_ok dispatcher_earlier_refl[of d] by (auto simp: dispatcher_earlier_def)

lemma job_step_ok: "dispatcher_ok d \<Longrightarrow> job_step a d = Inr d' \<Longrightarrow> dispatcher_ok d' \<and> dispatcher_earlier d d'"
  by (cases a) (use admit_step_ok ends_step_ok lost_step_ok in blast)+

interpretation job_runs: evolving_lifecycle job_step dispatcher_ok dispatcher_earlier
  by unfold_locales (use job_step_ok dispatcher_earlier_refl dispatcher_earlier_trans in blast)+

abbreviation dispatcher_after :: "job_op list \<Rightarrow> dispatcher" where
  "dispatcher_after as \<equiv> run_ops job_step as empty_dispatcher"

lemma reachable_dispatcher: "dispatcher_ok (dispatcher_after as)"
  by (rule job_runs.run_inv[OF dispatcher_ok_empty])

lemma reachable_dispatcher_evolves: "dispatcher_earlier (dispatcher_after as) (dispatcher_after (as @ bs))"
  unfolding run_ops_append by (rule job_runs.run_earlier[OF reachable_dispatcher])

section \<open>Chains of durable transitions\<close>

text \<open>The transitions recorded for one job from a state and a revision on: each is constructed, starts
  in the state and at the revision its predecessor produced.\<close>

fun transition_chain :: "durable_job_state \<Rightarrow> int \<Rightarrow> state_transition list \<Rightarrow> bool" where
  "transition_chain state revision [] = True"
| "transition_chain state revision (t # ts) = (mk_state_transition t = Inr t \<and> tr_from_state t = state
     \<and> tr_expected_revision t = revision \<and> transition_chain (tr_to_state t) (tr_resulting_revision t) ts)"

fun steps_left :: "durable_job_state \<Rightarrow> nat" where
  "steps_left DURABLE_QUEUED = 2" | "steps_left DURABLE_RUNNING = 1" | "steps_left _ = 0"

lemma transition_progress:
  "mk_state_transition t = Inr t \<Longrightarrow> steps_left (tr_to_state t) < steps_left (tr_from_state t)
    \<and> tr_resulting_revision t = tr_expected_revision t + 1
    \<and> (tr_to_state t = DURABLE_INTERRUPTED \<longrightarrow> \<not> blank (tr_recovery_decision_id t))"
  by (cases "tr_from_state t") (auto simp: mk_state_transition_def res_simps split: if_splits)

definition example_job :: "string \<Rightarrow> job_request" where
  "example_job i = \<lparr>jq_job_id = i, jq_workspace_id = ''w'', jq_kind = REPORT, jq_idempotency_key = ''k'',
     jq_input_hash = ''sha256:'' @ replicate 64 (CHR ''0''),
     jq_requested_by = \<lparr>actor_issuer = ''idp'', actor_subject_id = ''user'', actor_display_name = ''User''\<rparr>,
     jq_requested_at = Aware 0\<rparr>"

definition example_running :: job_record where
  "example_running = (new_job (example_job ''1''))\<lparr>jr_status := JOB_RUNNING, jr_version := 2,
     jr_started_at := Some (Aware 1)\<rparr>"

definition example_transition :: "durable_job_state \<Rightarrow> durable_job_state \<Rightarrow> int \<Rightarrow> string \<Rightarrow> state_transition" where
  "example_transition s s' n decision = \<lparr>tr_transition_id = ''t'',
     tr_attempt = \<lparr>at_attempt_id = ''a'', at_job_id = ''j'', at_attempt_number = 1, at_fencing_token = 1\<rparr>,
     tr_from_state = s, tr_to_state = s', tr_expected_revision = n, tr_resulting_revision = n + 1,
     tr_occurred_at = Aware 0, tr_reason_code = [], tr_recovery_decision_id = decision\<rparr>"

definition example_check :: receipt_check where
  "example_check = \<lparr>rk_check_id = ''c'',
     rk_attempt = \<lparr>at_attempt_id = ''a'', at_job_id = ''j'', at_attempt_number = 1, at_fencing_token = 1\<rparr>,
     rk_operation_id = ''o'', rk_status = CHECK_NO_COMMITTED_RECEIPT, rk_attempt_expired_at = Aware 1,
     rk_checked_at = Aware 2, rk_data_plane_receipt_hash = []\<rparr>"

definition example_decision :: job_recovery_decision where
  "example_decision = \<lparr>rd_decision_id = ''d'', rd_receipt_check = example_check,
     rd_disposition = INTERRUPT_RETRYABLE, rd_decided_at = Aware 3, rd_reason_code = ''EXPIRED''\<rparr>"

definition example_interruption_value :: job_interruption where
  "example_interruption_value = \<lparr>jn_interruption_id = ''i'', jn_attempt = rk_attempt example_check,
     jn_recovery_decision = example_decision, jn_interrupted_at = Aware 4, jn_reason_code = ''EXPIRED''\<rparr>"


section \<open>Properties\<close>

text \<open>C22: the work of a job runs once.  However calls and works interleave, no two works are started
  for the same idempotency key or the same job identifier, and the record of a job is the record of a
  request whose work was started.\<close>

theorem job_work_starts_once:
  "distinct (map jq_idempotency_key (jd_started (dispatcher_after as)))
   \<and> distinct (map jq_job_id (jd_started (dispatcher_after as)))
   \<and> (\<forall>i. map_option jr_request (map_of (jd_by_job_id (dispatcher_after as)) i)
        = List.find (\<lambda>r. jq_job_id r = i) (jd_started (dispatcher_after as)))"
proof -
  let ?d = "dispatcher_after as"
  have ok: "records_ok ?d" "started_ok ?d" using reachable_dispatcher[of as] by (simp_all add: dispatcher_ok_def)
  have "map_option jr_request (map_of (jd_by_job_id ?d) i) = List.find (\<lambda>r. jq_job_id r = i) (jd_started ?d)" for i
  proof (cases "List.find (\<lambda>r. jq_job_id r = i) (jd_started ?d)")
    case None
    then have "\<forall>r\<in>set (jd_started ?d). jq_job_id r \<noteq> i" by (simp add: find_None_iff)
    then have "map_of (jd_by_job_id ?d) i = None" using ok(1) unfolding records_ok_def by (metis not_None_eq)
    then show ?thesis using None by simp
  next
    case (Some r)
    then have "r \<in> set (jd_started ?d)" "jq_job_id r = i" using find_SomeD by fastforce+
    then show ?thesis using ok(2) Some unfolding started_ok_def by fastforce
  qed
  then show ?thesis using ok(2) unfolding started_ok_def by blast
qed

text \<open>C23: a job record settles at most once.  A stored record is running at version 2 without outcome,
  or succeeded at version 3 without failure code, or failed at version 3 with a short code and without
  artifacts; a later state of the dispatcher keeps its request and start, and once it has an outcome
  it never changes.\<close>

theorem job_records_settle_once:
  assumes "map_of (jd_by_job_id (dispatcher_after as)) i = Some j"
  shows "record_ok j \<and> (\<exists>j'. map_of (jd_by_job_id (dispatcher_after (as @ bs))) i = Some j'
    \<and> record_ok j' \<and> jr_request j' = jr_request j \<and> jr_started_at j' = jr_started_at j
    \<and> (j' = j \<or> jr_status j = JOB_RUNNING \<and> jr_version j' = jr_version j + 1))"
proof -
  have stored: "record_ok x" if "map_of (jd_by_job_id (dispatcher_after cs)) i = Some x" for cs x
    using reachable_dispatcher[of cs] that unfolding dispatcher_ok_def records_ok_def by blast
  have "dict_grows record_earlier (jd_by_job_id (dispatcher_after as)) (jd_by_job_id (dispatcher_after (as @ bs)))"
    using reachable_dispatcher_evolves[of as bs] by (simp add: dispatcher_earlier_def)
  then obtain j' where j': "map_of (jd_by_job_id (dispatcher_after (as @ bs))) i = Some j'" "record_earlier j j'"
    using assms dict_growsD by fast
  have ok: "record_ok j" "record_ok j'" using stored assms j'(1) by blast+
  have "jr_request j' = jr_request j \<and> jr_started_at j' = jr_started_at j
    \<and> (j' = j \<or> jr_status j = JOB_RUNNING \<and> jr_version j' = jr_version j + 1)"
  proof (cases "j' = j")
    case False
    then show ?thesis using j'(2) ok by (cases "jr_status j'") (simp_all add: record_earlier_def record_ok_def)
  qed simp
  then show ?thesis using ok j'(1) by blast
qed

theorem job_records_settle_once_witness:
  "\<exists>j'. map_of (jd_by_job_id (dispatcher_after ([Dispatch (example_job ''1'') (Aware 1)]
      @ [WorkEnds example_running (Produced [''a'']) (Aware 2)]))) ''1'' = Some j' \<and> jr_request j' = example_job ''1''"
proof -
  have "map_of (jd_by_job_id (dispatcher_after [Dispatch (example_job ''1'') (Aware 1)])) ''1'' = Some example_running"
    by code_simp
  moreover have "jr_request example_running = example_job ''1''" by (simp add: example_running_def new_job_def)
  ultimately show ?thesis
    using job_records_settle_once[of "[Dispatch (example_job ''1'') (Aware 1)]" "''1''" example_running
        "[WorkEnds example_running (Produced [''a'']) (Aware 2)]"] by metis
qed

text \<open>a repeated job gets the first record.  When a call was admitted, every later call under its
  idempotency key, whatever happened in between, changes nothing and either raises or returns the
  record of the first request, which is the same job for the same requester.\<close>

theorem repeated_job_gets_first_record:
  assumes "job_step (Dispatch r at) (dispatcher_after as) = Inr d" and "admit r at (dispatcher_after as) = Inr (Admitted j, e)"
    and "jq_idempotency_key q = jq_idempotency_key r" and "admit q at' (run_ops job_step bs d) = Inr (a, d')"
  shows "\<exists>j'. a = Existing j' \<and> jr_request j' = r \<and> same_job r q \<and> d' = run_ops job_step bs d"
proof -
  let ?l = "run_ops job_step bs d"
  have d: "dispatcher_ok d" using job_step_ok[OF reachable_dispatcher assms(1)] by simp
  have l: "dispatcher_ok ?l" "dispatcher_earlier d ?l"
    using job_runs.run_inv[OF d] job_runs.run_earlier[OF d] by blast+
  have k: "map_of (jd_by_idempotency d) (jq_idempotency_key r) = Some (jq_job_id r)"
    "map_of (jd_by_job_id d) (jq_job_id r) = Some j" "jr_request j = r"
    using assms(1,2) by (cases rule: admit_cases[OF assms(2)]; auto simp: map_of_dict_set new_job_def)+
  obtain j' where j': "map_of (jd_by_job_id ?l) (jq_job_id r) = Some j'" "record_earlier j j'"
    using l(2) k(2) unfolding dispatcher_earlier_def by (blast dest: dict_growsD)
  have i: "map_of (jd_by_idempotency ?l) (jq_idempotency_key r) = Some (jq_job_id r)"
    using l(2) k(1) unfolding dispatcher_earlier_def by (blast dest: dict_growsD)
  have r: "jr_request j' = r" using j'(2) k(3) by (auto simp: record_earlier_def)
  from assms(4) show ?thesis
    by (cases rule: admit_cases) (use assms(3) i j' r in auto)
qed

theorem repeated_job_gets_first_record_witness:
  "\<exists>j'. admit (example_job ''2'') (Aware 5) (dispatcher_after [Dispatch (example_job ''1'') (Aware 1)])
    = Inr (Existing j', dispatcher_after [Dispatch (example_job ''1'') (Aware 1)]) \<and> jr_request j' = example_job ''1''"
proof -
  let ?d = "dispatcher_after [Dispatch (example_job ''1'') (Aware 1)]"
  let ?e = "snd (projr (admit (example_job ''1'') (Aware 1) (dispatcher_after [])))"
  have s: "job_step (Dispatch (example_job ''1'') (Aware 1)) (dispatcher_after []) = Inr ?d" by code_simp
  have a: "admit (example_job ''1'') (Aware 1) (dispatcher_after []) = Inr (Admitted example_running, ?e)" by code_simp
  have k: "jq_idempotency_key (example_job ''2'') = jq_idempotency_key (example_job ''1'')" by code_simp
  have "admit (example_job ''2'') (Aware 5) (run_ops job_step [] ?d) = Inr (Existing example_running, ?d)" by code_simp
  from repeated_job_gets_first_record[OF s a k this] this show ?thesis by auto
qed

text \<open>C24: durable transitions end.  A chain of recorded transitions from the queued state has at most two
  edges, its revisions advance by one each, and no edge follows a state other than queued or running;
  an edge to the interrupted state names a recovery decision.\<close>

theorem transition_chains_end:
  assumes "transition_chain state revision ts"
  shows "length ts \<le> steps_left state
    \<and> map tr_expected_revision ts = map (\<lambda>i. revision + int i) [0..<length ts]
    \<and> (\<forall>t\<in>set ts. tr_from_state t \<in> {DURABLE_QUEUED, DURABLE_RUNNING}
        \<and> (tr_to_state t = DURABLE_INTERRUPTED \<longrightarrow> \<not> blank (tr_recovery_decision_id t)))"
  using assms
proof (induction state revision ts rule: transition_chain.induct)
  case (2 state revision t ts)
  have t: "mk_state_transition t = Inr t" "tr_from_state t = state" "tr_expected_revision t = revision"
    and rest: "transition_chain (tr_to_state t) (tr_resulting_revision t) ts"
    using "2.prems" by simp_all
  note p = transition_progress[OF t(1)] and ih = "2.IH"[OF rest]
  have "map (\<lambda>i. revision + int i) [0..<length (t # ts)] = revision # map (\<lambda>i. tr_resulting_revision t + int i) [0..<length ts]"
    using p t(3) by (simp add: upt_conv_Cons map_Suc_upt[symmetric] o_def del: upt_Suc map_Suc_upt)
  moreover have "state \<in> {DURABLE_QUEUED, DURABLE_RUNNING}" using p t(2) by (cases state) simp_all
  ultimately show ?case using p ih t by auto
qed simp

theorem transition_chains_end_witness:
  "length [example_transition DURABLE_QUEUED DURABLE_RUNNING 1 [],
     example_transition DURABLE_RUNNING DURABLE_INTERRUPTED 2 ''d''] \<le> steps_left DURABLE_QUEUED"
proof -
  have "transition_chain DURABLE_QUEUED 1 [example_transition DURABLE_QUEUED DURABLE_RUNNING 1 [],
     example_transition DURABLE_RUNNING DURABLE_INTERRUPTED 2 ''d'']" by code_simp
  from transition_chains_end[OF this] show ?thesis by blast
qed

text \<open>an interruption is proven.  A constructed interruption carries a decision whose receipt check
  belongs to the same attempt, ran after the attempt expired, found no committed receipt and holds no
  receipt hash; expiry, check, decision and interruption follow each other in time.\<close>

theorem interruption_is_proven:
  assumes "mk_job_interruption i = Inr i" "mk_job_recovery_decision (jn_recovery_decision i) = Inr (jn_recovery_decision i)"
    "mk_receipt_check (rd_receipt_check (jn_recovery_decision i)) = Inr (rd_receipt_check (jn_recovery_decision i))"
  shows "rk_attempt (rd_receipt_check (jn_recovery_decision i)) = jn_attempt i
    \<and> rk_status (rd_receipt_check (jn_recovery_decision i)) = CHECK_NO_COMMITTED_RECEIPT
    \<and> rk_data_plane_receipt_hash (rd_receipt_check (jn_recovery_decision i)) = []
    \<and> sorted [at_time (rk_attempt_expired_at (rd_receipt_check (jn_recovery_decision i))),
        at_time (rk_checked_at (rd_receipt_check (jn_recovery_decision i))),
        at_time (rd_decided_at (jn_recovery_decision i)), at_time (jn_interrupted_at i)]"
proof -
  let ?k = "rd_receipt_check (jn_recovery_decision i)"
  have "allowed_action (rk_status ?k) = INTERRUPT_RETRYABLE"
    using assms(1,2) by (auto simp: mk_job_interruption_def mk_job_recovery_decision_def split: if_splits)
  then have "rk_status ?k = CHECK_NO_COMMITTED_RECEIPT" by (cases "rk_status ?k") simp_all
  then show ?thesis
    using assms by (auto simp: mk_job_interruption_def mk_job_recovery_decision_def mk_receipt_check_def
        receipt_observed_def split: if_splits)
qed

theorem interruption_is_proven_witness:
  "rk_status (rd_receipt_check (jn_recovery_decision example_interruption_value)) = CHECK_NO_COMMITTED_RECEIPT"
proof -
  have "mk_job_interruption example_interruption_value = Inr example_interruption_value"
    "mk_job_recovery_decision (jn_recovery_decision example_interruption_value)
      = Inr (jn_recovery_decision example_interruption_value)"
    "mk_receipt_check (rd_receipt_check (jn_recovery_decision example_interruption_value))
      = Inr (rd_receipt_check (jn_recovery_decision example_interruption_value))"
    by code_simp+
  from interruption_is_proven[OF this] show ?thesis by blast
qed

end
