(* ===== verification/Portable_Values.thy ===== *)
theory Portable_Values
imports Texts
begin

text \<open>
  Portable values (\<open>domain/shared/models.py\<close>): the typed values of a prepared record, their rendering as
  JSON (\<open>portable_value\<close>), the canonical JSON text used for ordering and hashing, the restoration
  (\<open>restore_portable_value\<close>), and the guard against numeric Odoo identifiers.  Texts are over characters
  below 256; a decimal is finite; a date and time is in UTC or naive; the keys of a mapping are texts.
  \<open>Decimal\<close> and \<open>fromisoformat\<close> read the notations the program writes: exponents, infinities and other
  ISO forms are left out.
\<close>


section \<open>Canonical JSON\<close>

datatype json =
    JNull
  | JBool bool
  | JInt int
  | JText string
  | JArray "json list"
  | JObject "(string \<times> json) list"

text \<open>\<open>json.dumps(..., ensure_ascii=False, sort_keys=True, separators=(",", ":"))\<close>.\<close>

definition escape_char :: "char \<Rightarrow> string" where
  "escape_char c = (let n = of_char c :: nat in
     if n = 34 \<or> n = 92 then [CHR 0x5C, c]
     else if n = 10 then CHR 0x5C # ''n'' else if n = 13 then CHR 0x5C # ''r''
     else if n = 9 then CHR 0x5C # ''t'' else if n = 8 then CHR 0x5C # ''b''
     else if n = 12 then CHR 0x5C # ''f''
     else if n < 32 then CHR 0x5C # ''u00'' @ [hex_char (n div 16), hex_char (n mod 16)]
     else [c])"

definition quoted :: "string \<Rightarrow> string" where
  "quoted s = CHR 0x22 # concat (map escape_char s) @ [CHR 0x22]"

fun canonical_json_text :: "json \<Rightarrow> string" where
  "canonical_json_text JNull = ''null''"
| "canonical_json_text (JBool b) = (if b then ''true'' else ''false'')"
| "canonical_json_text (JInt i) = int_text i"
| "canonical_json_text (JText s) = quoted s"
| "canonical_json_text (JArray js) = ''['' @ commas (map canonical_json_text js) @ '']''"
| "canonical_json_text (JObject kvs) = ''{'' @ commas (map (\<lambda>(k, t). quoted k @ '':'' @ t)
     (sort_key fst (map (\<lambda>(k, j). (k, canonical_json_text j)) kvs))) @ ''}''"


section \<open>Values\<close>

text \<open>A finite \<open>Decimal\<close>: sign, coefficient and exponent.\<close>

datatype decimal_value = Dec (dec_negative: bool) (dec_coefficient: nat) (dec_exponent: int)

datatype pdate = Date (date_year: nat) (date_month: nat) (date_day: nat)

datatype ptime = Time (time_hour: nat) (time_minute: nat) (time_second: nat) (time_micro: nat)

datatype pvalue =
    PNone
  | PBool bool
  | PInt int
  | PText string
  | PDecimal decimal_value
  | PDate pdate
  | PMoment (moment_aware: bool) (moment_date: pdate) (moment_time: ptime)
  | PLogical (lg_origin: string) (lg_key: "pvalue list") (lg_dataset: "string option") (lg_model: "string option")
      (lg_target_fields: "string list") (lg_target_scope_fields: "string list") (lg_scope: "pvalue list")
      (lg_incoming_key: "pvalue list option")
  | PBusiness (bs_model: string) (bs_key: "pvalue list") (bs_scope: "pvalue list")
      (bs_target_fields: "string list") (bs_target_scope_fields: "string list")
  | PTuple "pvalue list"
  | PList "pvalue list"
  | PSet "pvalue list"
  | PMap "(string \<times> pvalue) list"

text \<open>\<open>format(value, "f")\<close>.\<close>

definition decimal_text :: "decimal_value \<Rightarrow> string" where
  "decimal_text d =
    (let digits = decimal (dec_coefficient d);
         exponent = (if dec_coefficient d = 0 \<and> 0 < dec_exponent d then 0 else dec_exponent d);
         dot = exponent + int (length digits);
         whole = (if dot < 0 then ''0''
                  else if int (length digits) < dot then digits @ replicate (nat (dot - int (length digits))) (CHR ''0'')
                  else if dot = 0 then ''0'' else take (nat dot) digits);
         fraction = (if dot < 0 then replicate (nat (- dot)) (CHR ''0'') @ digits
                     else if int (length digits) < dot then [] else drop (nat dot) digits) in
     (if dec_negative d then ''-'' else []) @ whole @ (if fraction = [] then [] else CHR ''.'' # fraction))"

fun date_text :: "pdate \<Rightarrow> string" where
  "date_text (Date y m d) = padded 4 y @ ''-'' @ padded 2 m @ ''-'' @ padded 2 d"

fun time_text :: "ptime \<Rightarrow> string" where
  "time_text (Time h m s u) = padded 2 h @ '':'' @ padded 2 m @ '':'' @ padded 2 s
     @ (if u = 0 then [] else CHR ''.'' # padded 6 u)"

text \<open>\<open>isoformat()\<close> of the moment in UTC, a naive one taken as UTC, with \<open>Z\<close> for the offset.\<close>

definition moment_text :: "pdate \<Rightarrow> ptime \<Rightarrow> string" where
  "moment_text d t = date_text d @ ''T'' @ time_text t @ ''Z''"

definition text_array :: "string list \<Rightarrow> json" where
  "text_array ss = JArray (map JText ss)"

definition typed_value :: "string \<Rightarrow> string \<Rightarrow> json" where
  "typed_value type_name v = JObject [(''type'', JText type_name), (''value'', JText v)]"

text \<open>An entry that is written only for a non-empty tuple, or for a value that is not \<open>None\<close>.\<close>

definition texts_entry :: "string \<Rightarrow> string list \<Rightarrow> (string \<times> json) list" where
  "texts_entry k ss = (if ss = [] then [] else [(k, text_array ss)])"

definition optional_entry :: "string \<Rightarrow> json option \<Rightarrow> (string \<times> json) list" where
  "optional_entry k v = (case v of None \<Rightarrow> [] | Some j \<Rightarrow> [(k, j)])"

fun portable_value :: "pvalue \<Rightarrow> json" where
  "portable_value PNone = JNull"
| "portable_value (PBool b) = JBool b"
| "portable_value (PInt i) = JInt i"
| "portable_value (PText s) = JText s"
| "portable_value (PDecimal d) = typed_value ''decimal'' (decimal_text d)"
| "portable_value (PDate d) = typed_value ''date'' (date_text d)"
| "portable_value (PMoment _ d t) = typed_value ''datetime'' (moment_text d t)"
| "portable_value (PBusiness model key scope target_fields target_scope_fields) = JObject
     ([(''model'', JText model), (''key'', JArray (map portable_value key)),
       (''scope'', JArray (map portable_value scope))]
      @ texts_entry ''target_fields'' target_fields @ texts_entry ''target_scope_fields'' target_scope_fields)"
| "portable_value (PLogical origin key dataset model target_fields target_scope_fields scope incoming_key) = JObject
     ([(''origin'', JText origin), (''key'', JArray (map portable_value key)),
       (''scope'', JArray (map portable_value scope))]
      @ optional_entry ''dataset'' (map_option JText dataset) @ optional_entry ''model'' (map_option JText model)
      @ texts_entry ''target_fields'' target_fields @ texts_entry ''target_scope_fields'' target_scope_fields
      @ optional_entry ''incoming_key'' (map_option (\<lambda>vs. JArray (map portable_value vs)) incoming_key))"
| "portable_value (PTuple vs) = JArray (map portable_value vs)"
| "portable_value (PList vs) = JArray (map portable_value vs)"
| "portable_value (PSet vs) = JArray (sort_key canonical_json_text (map portable_value vs))"
| "portable_value (PMap kvs) = JObject (sort_key fst (map (\<lambda>(k, v). (k, portable_value v)) kvs))"

text \<open>\<open>canonical_json_bytes(portable_value(v))\<close>: UTF-8 keeps the order and the identity of texts.\<close>

definition canonical_key :: "pvalue \<Rightarrow> string" where
  "canonical_key v = canonical_json_text (portable_value v)"


section \<open>Restoration\<close>

text \<open>\<open>Decimal(raw)\<close> for a numeral with an optional sign and fraction.\<close>

definition read_decimal :: "string \<Rightarrow> decimal_value res" where
  "read_decimal raw =
    (let t = filter (\<lambda>c. c \<noteq> CHR ''_'') (strip raw);
         negative = (take 1 t = ''-'');
         body = (if take 1 t = ''-'' \<or> take 1 t = ''+'' then drop 1 t else t);
         whole = takeWhile is_digit body;
         rest = dropWhile is_digit body;
         fraction = (if take 1 rest = ''.'' then drop 1 rest else []) in
     if (rest = [] \<or> take 1 rest = ''.'') \<and> list_all is_digit fraction \<and> whole @ fraction \<noteq> []
     then Inr (Dec negative (nat_of_digits (whole @ fraction)) (- int (length fraction)))
     else Inl ArithmeticError)"

definition leap_year :: "nat \<Rightarrow> bool" where
  "leap_year y = (y mod 4 = 0 \<and> (y mod 100 \<noteq> 0 \<or> y mod 400 = 0))"

definition days_in_month :: "nat \<Rightarrow> nat \<Rightarrow> nat" where
  "days_in_month y m = (if m = 2 then (if leap_year y then 29 else 28)
     else if m \<in> {4, 6, 9, 11} then 30 else 31)"

definition valid_date :: "nat \<Rightarrow> nat \<Rightarrow> nat \<Rightarrow> bool" where
  "valid_date y m d = (1 \<le> y \<and> y \<le> 9999 \<and> 1 \<le> m \<and> m \<le> 12 \<and> 1 \<le> d \<and> d \<le> days_in_month y m)"

definition digits_at :: "nat \<Rightarrow> nat \<Rightarrow> string \<Rightarrow> bool" where
  "digits_at i n s = (length (take n (drop i s)) = n \<and> list_all is_digit (take n (drop i s)))"

definition number_at :: "nat \<Rightarrow> nat \<Rightarrow> string \<Rightarrow> nat" where
  "number_at i n s = nat_of_digits (take n (drop i s))"

definition read_date :: "string \<Rightarrow> pdate res" where
  "read_date s =
    (if length s = 10 \<and> digits_at 0 4 s \<and> s ! 4 = CHR ''-'' \<and> digits_at 5 2 s \<and> s ! 7 = CHR ''-'' \<and> digits_at 8 2 s
       \<and> valid_date (number_at 0 4 s) (number_at 5 2 s) (number_at 8 2 s)
     then Inr (Date (number_at 0 4 s) (number_at 5 2 s) (number_at 8 2 s)) else Inl ValueError)"

definition read_time :: "string \<Rightarrow> ptime res" where
  "read_time s =
    (let fraction = drop 8 s in
     if digits_at 0 2 s \<and> take 1 (drop 2 s) = '':'' \<and> digits_at 3 2 s \<and> take 1 (drop 5 s) = '':'' \<and> digits_at 6 2 s
       \<and> (fraction = [] \<or> length fraction = 7 \<and> take 1 fraction = ''.'' \<and> digits_at 1 6 fraction)
       \<and> number_at 0 2 s < 24 \<and> number_at 3 2 s < 60 \<and> number_at 6 2 s < 60
     then Inr (Time (number_at 0 2 s) (number_at 3 2 s) (number_at 6 2 s) (number_at 1 6 fraction))
     else Inl ValueError)"

text \<open>A text without the final \<open>Z\<close> has no time zone and is rejected.\<close>

definition read_moment :: "string \<Rightarrow> (pdate \<times> ptime) res" where
  "read_moment s =
     bindr (checkr (s \<noteq> [] \<and> last s = CHR ''Z'' \<and> take 1 (drop 10 s) = ''T'') ValueError) (\<lambda>_.
     bindr (read_date (take 10 s)) (\<lambda>d. bindr (read_time (drop 11 (butlast s))) (\<lambda>t. Inr (d, t))))"

text \<open>\<open>str(x)\<close> of a JSON scalar; the text of a list or mapping is left out.\<close>

fun str_of :: "json \<Rightarrow> string res" where
  "str_of JNull = Inr ''None''"
| "str_of (JBool b) = Inr (if b then ''True'' else ''False'')"
| "str_of (JInt i) = Inr (int_text i)"
| "str_of (JText s) = Inr s"
| "str_of _ = Inl RuntimeError"

fun truthy :: "json \<Rightarrow> bool" where
  "truthy JNull = False"
| "truthy (JBool b) = b"
| "truthy (JInt i) = (i \<noteq> 0)"
| "truthy (JText s) = (s \<noteq> [])"
| "truthy (JArray js) = (js \<noteq> [])"
| "truthy (JObject kvs) = (kvs \<noteq> [])"

definition restore_typed :: "string \<Rightarrow> string \<Rightarrow> pvalue res" where
  "restore_typed value_type raw =
    (if value_type = ''decimal'' then bindr (read_decimal raw) (\<lambda>d. Inr (PDecimal d))
     else if value_type = ''date'' then bindr (read_date raw) (\<lambda>d. Inr (PDate d))
     else if value_type = ''datetime'' then bindr (read_moment raw) (\<lambda>(d, t). Inr (PMoment True d t))
     else Inl ValueError)"

text \<open>The entries of a mapping with the restoration of each item, which only a used item forces.\<close>

type_synonym entries = "(string \<times> json \<times> pvalue res) list"

definition entry :: "entries \<Rightarrow> string \<Rightarrow> (json \<times> pvalue res) option" where
  "entry es k = map_of es k"

definition tuple_entry :: "entries \<Rightarrow> string \<Rightarrow> pvalue list res" where
  "tuple_entry es k = (case entry es k of None \<Rightarrow> Inl LookupError
     | Some (_, r) \<Rightarrow> bindr r (\<lambda>v. case v of PTuple vs \<Rightarrow> Inr vs | _ \<Rightarrow> Inl ValueError))"

definition text_entry :: "entries \<Rightarrow> string \<Rightarrow> string res" where
  "text_entry es k = (case entry es k of None \<Rightarrow> Inl LookupError | Some (j, _) \<Rightarrow> str_of j)"

text \<open>\<open>str(value[k]) if value.get(k) else None\<close>.\<close>

definition optional_text_entry :: "entries \<Rightarrow> string \<Rightarrow> string option res" where
  "optional_text_entry es k = (case entry es k of None \<Rightarrow> Inr None
     | Some (j, _) \<Rightarrow> if truthy j then bindr (str_of j) (\<lambda>s. Inr (Some s)) else Inr None)"

text \<open>\<open>tuple(str(item) for item in restored)\<close>; the text of a typed item or reference is left out.\<close>

fun pvalue_text :: "pvalue \<Rightarrow> string res" where
  "pvalue_text PNone = Inr ''None''"
| "pvalue_text (PBool b) = Inr (if b then ''True'' else ''False'')"
| "pvalue_text (PInt i) = Inr (int_text i)"
| "pvalue_text (PText s) = Inr s"
| "pvalue_text _ = Inl RuntimeError"

definition restored_texts :: "entries \<Rightarrow> string \<Rightarrow> string list res" where
  "restored_texts es k = (if entry es k = None then Inr []
     else bindr (tuple_entry es k) (mapr pvalue_text))"

text \<open>\<open>tuple(str(field) for field in value.get(k, ()))\<close> over the item as it was read.\<close>

definition raw_texts :: "entries \<Rightarrow> string \<Rightarrow> string list res" where
  "raw_texts es k = (case entry es k of None \<Rightarrow> Inr []
     | Some (JArray js, _) \<Rightarrow> mapr str_of js
     | Some (JText s, _) \<Rightarrow> Inr (map (\<lambda>c. [c]) s)
     | Some (JObject kvs, _) \<Rightarrow> Inr (map fst kvs)
     | Some _ \<Rightarrow> Inl TypeError)"

definition incoming_entry :: "entries \<Rightarrow> pvalue list option res" where
  "incoming_entry es = (case entry es ''incoming_key'' of None \<Rightarrow> Inr None
     | Some (JNull, _) \<Rightarrow> Inr None
     | Some _ \<Rightarrow> bindr (tuple_entry es ''incoming_key'') (\<lambda>vs. Inr (Some vs)))"

definition restore_logical :: "entries \<Rightarrow> pvalue res" where
  "restore_logical es =
     bindr (tuple_entry es ''key'') (\<lambda>key. bindr (tuple_entry es ''scope'') (\<lambda>scope.
     bindr (restored_texts es ''target_fields'') (\<lambda>target_fields.
     bindr (restored_texts es ''target_scope_fields'') (\<lambda>target_scope_fields.
     bindr (incoming_entry es) (\<lambda>incoming_key.
     bindr (text_entry es ''origin'') (\<lambda>origin.
     bindr (optional_text_entry es ''dataset'') (\<lambda>dataset.
     bindr (optional_text_entry es ''model'') (\<lambda>model.
     Inr (PLogical origin key dataset model target_fields target_scope_fields scope incoming_key)))))))))"

definition restore_business :: "entries \<Rightarrow> pvalue res" where
  "restore_business es =
     bindr (tuple_entry es ''key'') (\<lambda>key. bindr (tuple_entry es ''scope'') (\<lambda>scope.
     bindr (text_entry es ''model'') (\<lambda>model.
     bindr (raw_texts es ''target_fields'') (\<lambda>target_fields.
     bindr (raw_texts es ''target_scope_fields'') (\<lambda>target_scope_fields.
     Inr (PBusiness model key scope target_fields target_scope_fields))))))"

definition logical_keys :: "string list" where
  "logical_keys = [''origin'', ''key'', ''scope'']"

definition logical_options :: "string list" where
  "logical_options = [''dataset'', ''model'', ''target_fields'', ''target_scope_fields'', ''incoming_key'']"

definition business_keys :: "string list" where
  "business_keys = [''model'', ''key'', ''scope'']"

definition business_options :: "string list" where
  "business_options = [''target_fields'', ''target_scope_fields'']"

definition restore_object :: "entries \<Rightarrow> pvalue res" where
  "restore_object es =
    (let keys = set (map fst es) in
     if keys = set [''type'', ''value'']
     then bindr (text_entry es ''type'') (\<lambda>t. bindr (text_entry es ''value'') (restore_typed t))
     else if set logical_keys \<subseteq> keys \<and> keys \<subseteq> set (logical_keys @ logical_options) then restore_logical es
     else if set business_keys \<subseteq> keys \<and> keys \<subseteq> set (business_keys @ business_options) then restore_business es
     else bindr (mapr (\<lambda>(k, _, r). bindr r (\<lambda>v. Inr (k, v))) (sort_key fst es)) (\<lambda>kvs. Inr (PMap kvs)))"

fun restore_portable_value :: "json \<Rightarrow> pvalue res" where
  "restore_portable_value JNull = Inr PNone"
| "restore_portable_value (JBool b) = Inr (PBool b)"
| "restore_portable_value (JInt i) = Inr (PInt i)"
| "restore_portable_value (JText s) = Inr (PText s)"
| "restore_portable_value (JArray js) = bindr (mapr id (map restore_portable_value js)) (\<lambda>vs. Inr (PTuple vs))"
| "restore_portable_value (JObject kvs) =
     restore_object (map (\<lambda>(k, j). (k, j, restore_portable_value j)) kvs)"


section \<open>The guard against numeric identifiers\<close>

text \<open>\<open>str.casefold\<close> below 256.\<close>

definition fold_char :: "char \<Rightarrow> string" where
  "fold_char c = (let n = of_char c :: nat in
     if 65 \<le> n \<and> n \<le> 90 \<or> 192 \<le> n \<and> n \<le> 222 \<and> n \<noteq> 215 then [char_of (n + 32)]
     else if n = 223 then ''ss'' else [c])"

definition casefold :: "string \<Rightarrow> string" where
  "casefold s = concat (map fold_char s)"

definition forbidden_key :: "string \<Rightarrow> bool" where
  "forbidden_key k = (casefold k \<in> set [''odoo_id'', ''odoo_ids'', ''record_id'', ''record_ids''])"

fun json_weight :: "json \<Rightarrow> nat" where
  "json_weight (JArray js) = Suc (sum_list (map json_weight js))"
| "json_weight (JObject kvs) = Suc (sum_list (map (\<lambda>(k, j). json_weight j) kvs))"
| "json_weight _ = 1"

text \<open>The loop over the pending values; the last value pushed is the next one popped.\<close>

function guard_loop :: "json list \<Rightarrow> unit res" where
  "guard_loop [] = Inr ()"
| "guard_loop (current # pending) = (case current of
     JObject kvs \<Rightarrow> if list_ex (\<lambda>(k, j). forbidden_key k) kvs then Inl ValueError
       else guard_loop (rev (map snd kvs) @ pending)
   | JArray js \<Rightarrow> guard_loop (rev js @ pending)
   | _ \<Rightarrow> guard_loop pending)"
  by pat_completeness auto

termination
  by (relation "measure (\<lambda>js. sum_list (map json_weight js))")
    (auto simp: rev_map[symmetric] sum_list_rev o_def case_prod_unfold)

definition assert_no_numeric_odoo_ids :: "json \<Rightarrow> unit res" where
  "assert_no_numeric_odoo_ids value = guard_loop [value]"

end
