(* ===== verification/Canonical_Text.thy ===== *)
theory Canonical_Text
imports Portable_Values
begin

text \<open>
  The canonical JSON text determines the value up to the order of the keys: every text can be read back
  from the front of any longer text, so no two values share one.
\<close>


section \<open>The canonical text determines the value\<close>

text \<open>The order of keys does not matter: the text is that of the value with its keys sorted.\<close>

fun key_sorted :: "json \<Rightarrow> json" where
  "key_sorted (JArray js) = JArray (map key_sorted js)"
| "key_sorted (JObject kvs) = JObject (sort_key fst (map (\<lambda>(k, j). (k, key_sorted j)) kvs))"
| "key_sorted j = j"

text \<open>Reading one escaped character back.\<close>

definition hex_value :: "char \<Rightarrow> nat" where
  "hex_value c = (let n = of_char c in if n < 58 then n - 48 else n - 87)"

fun unescape :: "string \<Rightarrow> char \<times> string" where
  "unescape (c # e # s) = (if c \<noteq> CHR 0x5C then (c, e # s)
     else if e = CHR ''n'' then (CHR 0x0A, s) else if e = CHR ''r'' then (CHR 0x0D, s)
     else if e = CHR ''t'' then (CHR 0x09, s) else if e = CHR ''b'' then (CHR 0x08, s)
     else if e = CHR ''f'' then (CHR 0x0C, s)
     else if e = CHR ''u'' then (char_of (16 * hex_value (s ! 2) + hex_value (s ! 3)), drop 4 s)
     else (e, s))"
| "unescape [c] = (c, [])"
| "unescape [] = (CHR 0x00, [])"

lemma hex_value_char: "n < 16 \<Longrightarrow> hex_value (hex_char n) = n"
  by (auto simp: hex_value_def hex_char_def)

lemma unescape_escape: "unescape (escape_char c @ s) = (c, s)"
proof -
  define n :: nat where "n = of_char c"
  have c: "c = char_of n" by (simp add: n_def)
  consider "n \<in> {34, 92, 10, 13, 9, 8, 12}" | "n < 32" "n \<notin> {10, 13, 9, 8, 12}" | "32 \<le> n" "n \<notin> {34, 92}"
    by fastforce
  then show ?thesis
  proof cases
    case 1
    then have "c \<in> {CHR 0x22, CHR 0x5C, CHR 0x0A, CHR 0x0D, CHR 0x09, CHR 0x08, CHR 0x0C}"
      by (simp add: n_def flip: of_char_eq_iff[where 'a = nat])
    then show ?thesis by (elim insertE emptyE) (simp_all add: escape_char_def)
  next
    case 2
    then have "hex_value (hex_char (n div 16)) = n div 16" "hex_value (hex_char (n mod 16)) = n mod 16"
      by (intro hex_value_char; simp)+
    then have "16 * hex_value (hex_char (n div 16)) + hex_value (hex_char (n mod 16)) = n" by simp
    then show ?thesis using 2 by (simp add: escape_char_def Let_def n_def[symmetric] c[symmetric])
  next
    case 3
    then have "c \<noteq> CHR 0x5C" by (auto simp: n_def)
    then show ?thesis using 3 by (cases s) (auto simp: escape_char_def Let_def n_def[symmetric])
  qed
qed

lemma escape_char_hd: "escape_char c \<noteq> [] \<and> hd (escape_char c) \<noteq> CHR 0x22"
proof -
  have "c \<noteq> CHR 0x22" if "of_char c \<noteq> (34::nat)" using that by auto
  then show ?thesis by (auto simp: escape_char_def Let_def)
qed

lemma escape_char_front: "escape_char c @ u \<noteq> CHR 0x22 # v"
  using escape_char_hd[of c] by (cases "escape_char c") simp_all

lemma quoted_decode: "quoted a @ r = quoted b @ s \<Longrightarrow> a = b \<and> r = s"
proof -
  have "concat (map escape_char a) @ CHR 0x22 # r = concat (map escape_char b) @ CHR 0x22 # s \<Longrightarrow> a = b \<and> r = s"
  proof (induction a arbitrary: b)
    case Nil
    then show ?case using escape_char_front by (cases b) (simp_all, metis)
  next
    case (Cons x a)
    show ?case
    proof (cases b)
      case Nil
      then show ?thesis using Cons.prems escape_char_front by simp
    next
      case (Cons y b')
      then have "escape_char x @ (concat (map escape_char a) @ CHR 0x22 # r)
          = escape_char y @ (concat (map escape_char b') @ CHR 0x22 # s)" using Cons.prems by simp
      then have "x = y \<and> concat (map escape_char a) @ CHR 0x22 # r = concat (map escape_char b') @ CHR 0x22 # s"
        using unescape_escape by (metis prod.inject)
      then show ?thesis using Cons.IH Cons by blast
    qed
  qed
  then show "quoted a @ r = quoted b @ s \<Longrightarrow> a = b \<and> r = s" by (simp add: quoted_def)
qed

definition stops :: "string \<Rightarrow> bool" where
  "stops r \<longleftrightarrow> r = [] \<or> \<not> is_digit (hd r)"

lemma decimal_decode:
  assumes "decimal m @ r = decimal n @ s" "stops r" "stops s"
  shows "m = n \<and> r = s"
proof -
  have "takeWhile is_digit (decimal k @ u) = decimal k" if "stops u" for k u
    using that decimal_read(2)[of k] by (cases u) (auto simp: stops_def list_all_iff takeWhile_append)
  then have "decimal m = decimal n" using assms by metis
  then show ?thesis using assms(1) by simp
qed

lemma int_text_decode:
  assumes "int_text i @ r = int_text j @ s" "stops r" "stops s"
  shows "i = j \<and> r = s"
proof (cases "i < 0"; cases "j < 0")
  assume n: "i < 0" "j < 0"
  then have "decimal (nat (- i)) @ r = decimal (nat (- j)) @ s" using assms(1) by (simp add: int_text_def)
  from decimal_decode[OF this assms(2,3)] show ?thesis using n by (simp add: eq_nat_nat_iff)
next
  assume n: "\<not> i < 0" "\<not> j < 0"
  then have "decimal (nat i) @ r = decimal (nat j) @ s" using assms(1) by (simp add: int_text_def)
  from decimal_decode[OF this assms(2,3)] show ?thesis using n by (simp add: eq_nat_nat_iff)
next
  assume "i < 0" "\<not> j < 0"
  then show ?thesis using assms(1) decimal_hd[of "nat j"] by (cases "decimal (nat j)") (simp_all add: int_text_def)
next
  assume "\<not> i < 0" "j < 0"
  then show ?thesis using assms(1) decimal_hd[of "nat i"] by (cases "decimal (nat i)") (simp_all add: int_text_def)
qed

definition items_tail :: "('a \<Rightarrow> string) \<Rightarrow> 'a list \<Rightarrow> string \<Rightarrow> string" where
  "items_tail f xs r = (if xs = [] then r else CHR '','' # commas (map f xs) @ r)"

lemma commas_front: "commas (map f (x # xs)) @ r = f x @ items_tail f xs r"
  by (cases xs) (simp_all add: items_tail_def)

text \<open>A list of texts that can each be read back is read back, up to a closing character.\<close>

lemma commas_decode:
  assumes read: "\<And>x y r s. x \<in> set xs \<Longrightarrow> f x @ r = f y @ s \<Longrightarrow> stops r \<Longrightarrow> stops s \<Longrightarrow> h x = h y \<and> r = s"
    and first: "\<And>x. f x \<noteq> [] \<and> hd (f x) \<noteq> c"
    and close: "\<not> is_digit c" "c \<noteq> CHR '',''"
    and eq: "commas (map f xs) @ c # r = commas (map f ys) @ c # s"
  shows "map h xs = map h ys \<and> r = s"
  using read eq
proof (induction xs arbitrary: ys)
  case Nil
  show ?case
  proof (cases ys)
    case (Cons y ys')
    then have "c # r = f y @ items_tail f ys' (c # s)" using Nil.prems(2) unfolding Cons commas_front by simp
    then show ?thesis using first[of y] by (cases "f y") simp_all
  qed (use Nil.prems in simp)
next
  case (Cons x xs)
  have stop: "stops (c # u)" "stops (CHR '','' # u)" for u
    using close(1) by (simp_all add: stops_def is_digit_def less_eq_char_def)
  then have stop_tail: "stops (items_tail f zs (c # u))" for zs u by (simp add: items_tail_def)
  show ?case
  proof (cases ys)
    case Nil
    then have "f x @ items_tail f xs (c # r) = c # s" using Cons.prems(2) unfolding commas_front by simp
    then show ?thesis using first[of x] by (cases "f x") simp_all
  next
    case ys: (Cons y ys')
    have eq: "f x @ items_tail f xs (c # r) = f y @ items_tail f ys' (c # s)"
      using Cons.prems(2) unfolding ys commas_front .
    have "h x = h y \<and> items_tail f xs (c # r) = items_tail f ys' (c # s)"
      by (rule Cons.prems(1)[where x = x and y = y]) (simp, rule eq, (rule stop_tail)+)
    then have x: "h x = h y" "items_tail f xs (c # r) = items_tail f ys' (c # s)" by blast+
    have "map h xs = map h ys' \<and> r = s"
    proof (cases "xs = [] \<or> ys' = []")
      case True
      then show ?thesis using x(2) close(2) by (auto simp: items_tail_def split: if_splits)
    next
      case False
      then have "commas (map f xs) @ c # r = commas (map f ys') @ c # s" using x(2) by (simp add: items_tail_def)
      moreover have "h z = h w \<and> u = v" if "z \<in> set xs" "f z @ u = f w @ v" "stops u" "stops v" for z w u v
        by (rule Cons.prems(1)[OF _ that(2-4)]) (simp add: that(1))
      ultimately show ?thesis by (intro Cons.IH)
    qed
    then show ?thesis using x(1) ys by simp
  qed
qed

text \<open>No two kinds of value start with the same character.\<close>

lemma text_first:
  "canonical_json_text j \<noteq> [] \<and> hd (canonical_json_text j) \<noteq> CHR '']'' \<and> hd (canonical_json_text j) \<noteq> CHR ''}''"
proof (cases j)
  case (JInt i)
  then show ?thesis
    using decimal_read(2)[of "nat i"] decimal_read(2)[of "nat (- i)"]
    by (cases "decimal (nat i)") (auto simp: int_text_def dest!: is_digit_code)
qed (simp_all add: quoted_def)

lemma int_text_first: "hd (int_text i) = CHR ''-'' \<or> is_digit (hd (int_text i))"
  using decimal_read(2)[of "nat i"] by (cases "decimal (nat i)") (auto simp: int_text_def)

fun json_first :: "json \<Rightarrow> nat" where
  "json_first JNull = 0" | "json_first (JBool b) = (if b then 1 else 2)" | "json_first (JInt i) = 3"
| "json_first (JText s) = 4" | "json_first (JArray js) = 5" | "json_first (JObject kvs) = 6"

definition char_class :: "char \<Rightarrow> nat" where
  "char_class c = (if c = CHR ''n'' then 0 else if c = CHR ''t'' then 1 else if c = CHR ''f'' then 2
     else if c = CHR 0x22 then 4 else if c = CHR ''['' then 5 else if c = CHR ''{'' then 6 else 3)"

lemma text_class: "char_class (hd (canonical_json_text j)) = json_first j"
proof (cases j)
  case (JInt i)
  then show ?thesis using int_text_first[of i] by (auto simp: char_class_def dest!: is_digit_code)
qed (simp_all add: quoted_def char_class_def)

lemma same_class:
  assumes "canonical_json_text i @ r = canonical_json_text j @ s"
  shows "json_first i = json_first j"
  using assms text_first[of i] text_first[of j] by (metis hd_append2 text_class)

abbreviation sorted_entries :: "(string \<times> json) list \<Rightarrow> (string \<times> json) list" where
  "sorted_entries kvs \<equiv> sort_key fst kvs"

lemma sort_key_pairs: "sort_key fst (map (\<lambda>(k, j). (k, f j)) kvs) = map (\<lambda>(k, j). (k, f j)) (sort_key fst kvs)"
  by (simp add: sort_key_map case_prod_unfold)

definition entry_text :: "string \<times> json \<Rightarrow> string" where
  "entry_text = (\<lambda>(k, j). quoted k @ '':'' @ canonical_json_text j)"

lemma object_text: "canonical_json_text (JObject kvs) = ''{'' @ commas (map entry_text (sorted_entries kvs)) @ ''}''"
proof -
  have "map (\<lambda>(k, t). quoted k @ '':'' @ t) (sort_key fst (map (\<lambda>(k, j). (k, canonical_json_text j)) kvs))
      = map entry_text (sorted_entries kvs)"
    unfolding sort_key_pairs by (simp add: entry_text_def case_prod_unfold)
  then show ?thesis by simp
qed

lemma object_sorted: "key_sorted (JObject kvs) = JObject (map (\<lambda>(k, j). (k, key_sorted j)) (sorted_entries kvs))"
  by (simp add: sort_key_pairs)

lemma text_decode:
  "canonical_json_text i @ r = canonical_json_text j @ s \<Longrightarrow> stops r \<Longrightarrow> stops s
    \<Longrightarrow> key_sorted i = key_sorted j \<and> r = s"
proof (induction i arbitrary: j r s rule: canonical_json_text.induct)
  case 1
  then have "j = JNull" using same_class[OF "1.prems"(1)] by (cases j) (simp_all split: if_splits)
  then show ?case using "1.prems" by simp
next
  case (2 b)
  then have "j = JBool b" using same_class[OF "2.prems"(1)] by (cases j) (simp_all split: if_splits)
  then show ?case using "2.prems" by simp
next
  case (3 n)
  then obtain m where j: "j = JInt m" using same_class[OF "3.prems"(1)] by (cases j) (simp_all split: if_splits)
  then show ?case using int_text_decode[of n r m s] "3.prems" by simp
next
  case (4 t)
  then obtain u where j: "j = JText u" using same_class[OF "4.prems"(1)] by (cases j) (simp_all split: if_splits)
  then show ?case using quoted_decode[of t r u s] "4.prems" by simp
next
  case (5 js)
  then obtain ks where j: "j = JArray ks" using same_class[OF "5.prems"(1)] by (cases j) (simp_all split: if_splits)
  have "map key_sorted js = map key_sorted ks \<and> r = s"
  proof (rule commas_decode[where f = canonical_json_text and c = "CHR '']''"])
    show "commas (map canonical_json_text js) @ CHR '']'' # r = commas (map canonical_json_text ks) @ CHR '']'' # s"
      using "5.prems"(1) j by simp
    show "canonical_json_text x \<noteq> [] \<and> hd (canonical_json_text x) \<noteq> CHR '']''" for x using text_first[of x] by blast
    show "key_sorted x = key_sorted y \<and> u = v"
      if "x \<in> set js" "canonical_json_text x @ u = canonical_json_text y @ v" "stops u" "stops v" for x y u v
      using "5.IH"[OF that] .
  qed (simp_all add: is_digit_def less_eq_char_def)
  then show ?case using j by simp
next
  case (6 kvs)
  then obtain ks where j: "j = JObject ks" using same_class[OF "6.prems"(1)] by (cases j) (simp_all split: if_splits)
  have "map (\<lambda>(k, j). (k, key_sorted j)) (sorted_entries kvs) = map (\<lambda>(k, j). (k, key_sorted j)) (sorted_entries ks) \<and> r = s"
  proof (rule commas_decode[where f = entry_text and c = "CHR ''}''"])
    show "commas (map entry_text (sorted_entries kvs)) @ CHR ''}'' # r = commas (map entry_text (sorted_entries ks)) @ CHR ''}'' # s"
      using "6.prems"(1) unfolding j object_text by simp
    show "entry_text x \<noteq> [] \<and> hd (entry_text x) \<noteq> CHR ''}''" for x
      by (simp add: entry_text_def quoted_def split: prod.split)
    show "(case x of (k, j) \<Rightarrow> (k, key_sorted j)) = (case y of (k, j) \<Rightarrow> (k, key_sorted j)) \<and> u = v"
      if x: "x \<in> set (sorted_entries kvs)" and eq: "entry_text x @ u = entry_text y @ v" and stop: "stops u" "stops v" for x y u v
    proof -
      obtain k i' l j' where p: "x = (k, i')" "y = (l, j')" by (cases x; cases y)
      have "k = l \<and> '':'' @ canonical_json_text i' @ u = '':'' @ canonical_json_text j' @ v"
        using eq by (intro quoted_decode) (simp add: entry_text_def p)
      then have "k = l" "canonical_json_text i' @ u = canonical_json_text j' @ v" by simp_all
      then show ?thesis using "6.IH"[OF _ p(1)[symmetric] _ stop] x p by simp
    qed
  qed (simp_all add: is_digit_def less_eq_char_def)
  then show ?case unfolding j object_sorted by simp
qed

lemma text_key_sorted: "canonical_json_text (key_sorted j) = canonical_json_text j"
proof (induction j rule: key_sorted.induct)
  case (1 js)
  then show ?case by (simp add: o_def cong: map_cong)
next
  case (2 kvs)
  have idem: "sort_key fst (sort_key fst xs) = sort_key fst xs" for xs :: "(string \<times> string) list"
    by (rule sort_key_id_if_sorted) simp
  have "map (\<lambda>(k, j). (k, canonical_json_text j)) (sort_key fst (map (\<lambda>(k, j). (k, key_sorted j)) kvs))
      = sort_key fst (map (\<lambda>(k, j). (k, canonical_json_text j)) (map (\<lambda>(k, j). (k, key_sorted j)) kvs))"
    by (rule sort_key_pairs[symmetric])
  also have "map (\<lambda>(k, j). (k, canonical_json_text j)) (map (\<lambda>(k, j). (k, key_sorted j)) kvs)
      = map (\<lambda>(k, j). (k, canonical_json_text j)) kvs"
    using 2 by (auto simp: case_prod_unfold)
  finally show ?case by (simp only: key_sorted.simps canonical_json_text.simps idem)
qed simp_all

lemma same_text_same_value:
  assumes "canonical_json_text i = canonical_json_text j"
  shows "key_sorted i = key_sorted j"
  using text_decode[of i "[]" j "[]"] assms by (simp add: stops_def)

text \<open>C26: the canonical text determines the value.  Two JSON values have the same canonical text, and so
  the same bytes under every hash, exactly when they are equal up to the order of the keys of their
  objects.\<close>

theorem canonical_text_determines_value:
  "canonical_json_text i = canonical_json_text j \<longleftrightarrow> key_sorted i = key_sorted j"
proof
  assume "canonical_json_text i = canonical_json_text j"
  then show "key_sorted i = key_sorted j" by (rule same_text_same_value)
next
  assume "key_sorted i = key_sorted j"
  then show "canonical_json_text i = canonical_json_text j" by (metis text_key_sorted)
qed

end
