(* ===== verification/Portable_Properties.thy ===== *)
theory Portable_Properties
imports Canonical_Text
begin

text \<open>
  What the portable rendering promises: a value is restored up to the forms the rendering itself merges.
\<close>


section \<open>Reading what was written\<close>

lemma strip_words: "s \<noteq> [] \<Longrightarrow> \<not> is_space (hd s) \<Longrightarrow> \<not> is_space (last s) \<Longrightarrow> strip s = s"
proof -
  have drop: "xs \<noteq> [] \<Longrightarrow> \<not> is_space (hd xs) \<Longrightarrow> dropWhile is_space xs = xs" for xs
    by (cases xs) simp_all
  assume s: "s \<noteq> []" "\<not> is_space (hd s)" "\<not> is_space (last s)"
  then have "dropWhile is_space (rev s) = rev s" by (intro drop) (simp_all add: hd_rev)
  then show ?thesis using drop[of s] s by (simp add: strip_def)
qed

lemma digit_not_special [simp]:
  "is_digit c \<Longrightarrow> \<not> is_space c" "is_digit c \<Longrightarrow> c \<noteq> CHR ''_''" "is_digit c \<Longrightarrow> c \<noteq> CHR ''-''"
  "is_digit c \<Longrightarrow> c \<noteq> CHR ''+''" "is_digit c \<Longrightarrow> c \<noteq> CHR ''.''"
  by (auto dest!: is_digit_code simp: is_space_def Let_def)

lemma takeWhile_digits: "list_all is_digit w \<Longrightarrow> \<not> is_digit c \<Longrightarrow>
    takeWhile is_digit (w @ c # f) = w \<and> dropWhile is_digit (w @ c # f) = c # f"
  by (simp add: list_all_iff takeWhile_tail dropWhile_append3)

lemma takeWhile_all_digits: "list_all is_digit w \<Longrightarrow> takeWhile is_digit w = w \<and> dropWhile is_digit w = []"
  by (simp add: list_all_iff takeWhile_eq_all_conv)

lemma not_digit_sign [simp]: "\<not> is_digit (CHR ''.'')" "\<not> is_digit (CHR ''-'')"
  by (auto dest: is_digit_code)

lemma read_decimal_parts:
  assumes w: "list_all is_digit w" "w \<noteq> []" and f: "list_all is_digit f"
  shows "read_decimal ((if n then ''-'' else []) @ w @ (if f = [] then [] else CHR ''.'' # f))
    = Inr (Dec n (nat_of_digits (w @ f)) (- int (length f)))"
proof -
  let ?t = "(if n then ''-'' else []) @ w @ (if f = [] then [] else CHR ''.'' # f)"
  have d: "is_digit (hd w)" "is_digit (last w)" "f \<noteq> [] \<Longrightarrow> is_digit (last f)"
    using w f by (simp_all add: list_all_iff)
  have "strip ?t = ?t"
    using w(2) d by (intro strip_words) (auto simp: hd_append last_append is_space_def[of "CHR ''-''"])
  moreover have "filter (\<lambda>c. c \<noteq> CHR ''_'') ?t = ?t"
    using w f by (auto simp: filter_id_conv list_all_iff)
  moreover have "take 1 (w @ r) \<noteq> ''-'' \<and> take 1 (w @ r) \<noteq> ''+''" for r using w(2) d(1) by (cases w) auto
  moreover have "takeWhile is_digit (w @ (if f = [] then [] else CHR ''.'' # f)) = w"
    "dropWhile is_digit (w @ (if f = [] then [] else CHR ''.'' # f)) = (if f = [] then [] else CHR ''.'' # f)"
    using takeWhile_digits[OF w(1) not_digit_sign(1), of f] takeWhile_all_digits[OF w(1)] by simp_all
  ultimately show ?thesis
    using w f by (cases n) (simp_all add: read_decimal_def Let_def split del: if_split, simp_all add: list_all_iff)
qed

definition plain_decimal :: "decimal_value \<Rightarrow> decimal_value" where
  "plain_decimal d = (if dec_exponent d \<le> 0 then d
     else Dec (dec_negative d) (dec_coefficient d * 10 ^ nat (dec_exponent d)) 0)"

lemma nat_of_digits_append_zeros: "nat_of_digits (s @ replicate k (CHR ''0'')) = nat_of_digits s * 10 ^ k"
proof (induction k)
  case (Suc k)
  have "s @ replicate (Suc k) (CHR ''0'') = (s @ replicate k (CHR ''0'')) @ [CHR ''0'']"
    by (simp add: replicate_append_same)
  then show ?case using Suc by (simp add: nat_of_digits_snoc digit_of_def del: replicate.simps append_assoc)
qed simp

lemma read_decimal_text: "read_decimal (decimal_text d) = Inr (plain_decimal d)"
proof -
  obtain n c e where d: "d = Dec n c e" by (cases d)
  let ?ds = "decimal c"
  define ex where "ex = (if c = 0 \<and> 0 < e then 0 else e)"
  define dot where "dot = ex + int (length ?ds)"
  define w where "w = (if dot < 0 then ''0''
      else if int (length ?ds) < dot then ?ds @ replicate (nat (dot - int (length ?ds))) (CHR ''0'')
      else if dot = 0 then ''0'' else take (nat dot) ?ds)"
  define f where "f = (if dot < 0 then replicate (nat (- dot)) (CHR ''0'') @ ?ds
      else if int (length ?ds) < dot then [] else drop (nat dot) ?ds)"
  have shape: "decimal_text d = (if n then ''-'' else []) @ w @ (if f = [] then [] else CHR ''.'' # f)"
    by (simp add: decimal_text_def Let_def d w_def f_def dot_def ex_def)
  have zero: "list_all is_digit (replicate k (CHR ''0''))" for k by (simp add: list_all_iff is_digit_def)
  have "list_all is_digit w" "list_all is_digit f" "w \<noteq> []"
    using decimal_read(2)[of c] zero set_take_subset[of "nat dot" ?ds] set_drop_subset[of "nat dot" ?ds]
    by (auto simp: w_def f_def list_all_iff is_digit_def[of "CHR ''0''"])
  note read = read_decimal_parts[OF this(1,3,2), of n, folded shape]
  have "Dec n (nat_of_digits (w @ f)) (- int (length f)) = plain_decimal d"
  proof (cases "0 < ex")
    case True
    then have e: "ex = e" "0 < e" "int (length ?ds) < dot" "\<not> dot < 0" by (auto simp: ex_def dot_def split: if_splits)
    then show ?thesis by (simp add: w_def f_def plain_decimal_def d nat_of_digits_append_zeros dot_def)
  next
    case False
    have p: "plain_decimal d = Dec n c ex" using False by (auto simp: plain_decimal_def d ex_def)
    show ?thesis
    proof (cases "dot < 0")
      case True
      have one: "nat_of_digits (CHR ''0'' # s) = nat_of_digits s" for s
        using nat_of_digits_zeros[of 1 s] by simp
      from True have "nat_of_digits (w @ f) = c" "length f = nat (- dot) + length ?ds"
        by (simp_all add: w_def f_def one nat_of_digits_zeros)
      then show ?thesis using p True by (simp add: dot_def)
    next
      case nonneg: False
      have "dot \<le> int (length ?ds)" using False by (simp add: dot_def)
      moreover have "nat_of_digits (CHR ''0'' # s) = nat_of_digits s" for s
        using nat_of_digits_zeros[of 1 s] by simp
      ultimately have "nat_of_digits (w @ f) = c" "int (length f) = - ex"
        using nonneg by (auto simp: w_def f_def dot_def)
      then show ?thesis using p by simp
    qed
  qed
  then show ?thesis using read by simp
qed


fun date_ok :: "pdate \<Rightarrow> bool" where
  "date_ok (Date y m d) = valid_date y m d"

fun time_ok :: "ptime \<Rightarrow> bool" where
  "time_ok (Time h m s u) = (h < 24 \<and> m < 60 \<and> s < 60 \<and> u < 1000000)"

lemma days_bound: "days_in_month y m \<le> 31"
  by (simp add: days_in_month_def)

lemma date_widths:
  assumes "valid_date y m d"
  shows "length (padded 4 y) = 4 \<and> length (padded 2 m) = 2 \<and> length (padded 2 d) = 2"
proof -
  have "y < 10 ^ 4" "m < 10 ^ 2" "d < 10 ^ 2"
    using assms days_bound[of y m] by (auto simp: valid_date_def)
  then show ?thesis by (simp only: length_padded[of _ 4] length_padded[of _ 2] zero_less_numeral)
qed

lemma length_date_text: "date_ok d \<Longrightarrow> length (date_text d) = 10"
  by (cases d) (simp add: date_widths)

lemma read_date_text:
  assumes "date_ok d"
  shows "read_date (date_text d) = Inr d"
proof (cases d)
  case (Date y m dd)
  have v: "valid_date y m dd" using assms Date by simp
  note date_widths[OF v]
  then show ?thesis
    using v by (simp add: Date read_date_def digits_at_def number_at_def nth_append)
qed

lemma read_time_text:
  assumes "time_ok t"
  shows "read_time (time_text t) = Inr t"
proof (cases t)
  case (Time h m sec u)
  have v: "h < 10 ^ 2" "m < 10 ^ 2" "sec < 10 ^ 2" "u < 10 ^ 6" "h < 24" "m < 60" "sec < 60"
    using assms Time by simp_all
  have l: "length (padded 2 h) = 2" "length (padded 2 m) = 2" "length (padded 2 sec) = 2" "length (padded 6 u) = 6"
    by (simp_all only: length_padded[OF v(1)] length_padded[OF v(2)] length_padded[OF v(3)] length_padded[OF v(4)]
        zero_less_numeral)
  show ?thesis
  proof (cases "u = 0")
    case True
    then show ?thesis
      using v l by (simp add: Time read_time_def digits_at_def number_at_def nat_of_digits_def)
        (simp add: nat_of_digits_def[symmetric])
  next
    case False
    then show ?thesis
      using v l by (simp add: Time read_time_def digits_at_def number_at_def)
  qed
qed

lemma read_moment_text:
  assumes "date_ok d" "time_ok t"
  shows "read_moment (moment_text d t) = Inr (d, t)"
  using length_date_text[OF assms(1)] read_date_text[OF assms(1)] read_time_text[OF assms(2)]
  by (simp add: read_moment_def moment_text_def butlast_append nth_append)


section \<open>The round trip\<close>

text \<open>A value the rendering keeps readable: valid dates and times, and no mapping whose keys are those of
  a typed value or of a reference.\<close>

definition plain_keys :: "string list \<Rightarrow> bool" where
  "plain_keys ks \<longleftrightarrow> distinct ks \<and> set ks \<noteq> set [''type'', ''value'']
     \<and> \<not> (set logical_keys \<subseteq> set ks \<and> set ks \<subseteq> set (logical_keys @ logical_options))
     \<and> \<not> (set business_keys \<subseteq> set ks \<and> set ks \<subseteq> set (business_keys @ business_options))"

fun readable :: "pvalue \<Rightarrow> bool" where
  "readable (PDate d) = date_ok d"
| "readable (PMoment _ d t) = (date_ok d \<and> time_ok t)"
| "readable (PLogical _ key _ _ _ _ scope incoming_key) = (list_all readable key \<and> list_all readable scope
     \<and> (case incoming_key of None \<Rightarrow> True | Some vs \<Rightarrow> list_all readable vs))"
| "readable (PBusiness _ key scope _ _) = (list_all readable key \<and> list_all readable scope)"
| "readable (PTuple vs) = list_all readable vs"
| "readable (PList vs) = list_all readable vs"
| "readable (PSet vs) = list_all readable vs"
| "readable (PMap kvs) = (plain_keys (map fst kvs) \<and> list_all (\<lambda>(k, v). readable v) kvs)"
| "readable _ = True"

text \<open>What comes back: lists and sets as tuples, a naive moment in UTC, a decimal without positive
  exponent, an empty dataset or model as absent, a mapping in key order.\<close>

definition nonempty :: "string option \<Rightarrow> string option" where
  "nonempty s = (if s = Some [] then None else s)"

fun restored :: "pvalue \<Rightarrow> pvalue" where
  "restored (PDecimal d) = PDecimal (plain_decimal d)"
| "restored (PMoment _ d t) = PMoment True d t"
| "restored (PLogical origin key dataset model tf tsf scope incoming_key) =
     PLogical origin (map restored key) (nonempty dataset) (nonempty model) tf tsf (map restored scope)
       (map_option (map restored) incoming_key)"
| "restored (PBusiness model key scope tf tsf) = PBusiness model (map restored key) (map restored scope) tf tsf"
| "restored (PTuple vs) = PTuple (map restored vs)"
| "restored (PList vs) = PTuple (map restored vs)"
| "restored (PSet vs) = PTuple (map snd (sort_key fst (map (\<lambda>v. (canonical_key v, restored v)) vs)))"
| "restored (PMap kvs) = PMap (sort_key fst (map (\<lambda>(k, v). (k, restored v)) kvs))"
| "restored v = v"

text \<open>The values of a prepared record: scalars, tuples and references as the program builds them.\<close>

fun prepared :: "pvalue \<Rightarrow> bool" where
  "prepared (PDecimal d) = (dec_exponent d \<le> 0)"
| "prepared (PDate d) = date_ok d"
| "prepared (PMoment zone d t) = (zone \<and> date_ok d \<and> time_ok t)"
| "prepared (PLogical _ key dataset model _ _ scope incoming_key) = (list_all prepared key \<and> list_all prepared scope
     \<and> dataset \<noteq> Some [] \<and> model \<noteq> Some [] \<and> (case incoming_key of None \<Rightarrow> True | Some vs \<Rightarrow> list_all prepared vs))"
| "prepared (PBusiness _ key scope _ _) = (list_all prepared key \<and> list_all prepared scope)"
| "prepared (PTuple vs) = list_all prepared vs"
| "prepared (PList _) = False"
| "prepared (PSet _) = False"
| "prepared (PMap _) = False"
| "prepared _ = True"

lemma prepared_readable: "prepared v \<Longrightarrow> readable v \<and> restored v = v"
proof (induction v rule: prepared.induct)
  case (1 d)
  then show ?case by (simp add: plain_decimal_def)
next
  case (4 origin key dataset model tf tsf scope incoming_key)
  then show ?case by (auto simp: list_all_iff nonempty_def intro: map_idI split: option.splits)
qed (auto simp: list_all_iff intro: map_idI)

lemma map_of_optional_entry [simp]: "map_of (optional_entry k v) = (\<lambda>x. if x = k then v else None)"
  by (auto simp: optional_entry_def split: option.splits)

lemma map_of_texts_entry [simp]:
  "map_of (texts_entry k ss) = (\<lambda>x. if x = k \<and> ss \<noteq> [] then Some (text_array ss) else None)"
  by (auto simp: texts_entry_def)

abbreviation restored_entries :: "(string \<times> json) list \<Rightarrow> entries" where
  "restored_entries kvs \<equiv> map (\<lambda>(k, j). (k, j, restore_portable_value j)) kvs"

lemma entry_restored: "entry (restored_entries kvs) k = map_option (\<lambda>j. (j, restore_portable_value j)) (map_of kvs k)"
proof -
  have "restored_entries kvs = map (\<lambda>(k, j). (k, (\<lambda>j. (j, restore_portable_value j)) j)) kvs" by simp
  then show ?thesis unfolding entry_def by (simp only: map_of_map o_apply)
qed

lemma keys_restored: "set (map fst (restored_entries kvs)) = fst ` set kvs"
  by (force simp: image_iff)

lemma keys_optional: "fst ` set (optional_entry k v) \<subseteq> {k}" "fst ` set (texts_entry k ss) \<subseteq> {k}"
  by (auto simp: optional_entry_def texts_entry_def split: option.splits)

lemma restore_array: "(\<And>v. v \<in> set vs \<Longrightarrow> restore_portable_value (portable_value v) = Inr (restored v)) \<Longrightarrow>
    restore_portable_value (JArray (map portable_value vs)) = Inr (PTuple (map restored vs))"
  by (simp add: mapr_map o_def mapr_total[where g = "restored"])

lemma restore_texts: "restore_portable_value (text_array ss) = Inr (PTuple (map PText ss))"
  by (simp add: text_array_def mapr_map o_def mapr_total[where g = PText])

lemma texts_read: "mapr pvalue_text (map PText ss) = Inr ss" "mapr str_of (map JText ss) = Inr ss"
  by (simp_all add: mapr_map mapr_total[where g = id])

lemma restore_business_value:
  assumes "\<And>v. v \<in> set key \<union> set scope \<Longrightarrow> restore_portable_value (portable_value v) = Inr (restored v)"
  shows "restore_portable_value (portable_value (PBusiness model key scope tf tsf))
    = Inr (restored (PBusiness model key scope tf tsf))"
proof -
  define kvs where "kvs = [(''model'', JText model), (''key'', JArray (map portable_value key)),
       (''scope'', JArray (map portable_value scope))] @ texts_entry ''target_fields'' tf
      @ texts_entry ''target_scope_fields'' tsf"
  have keys: "fst ` set kvs = set business_keys \<union> fst ` set (texts_entry ''target_fields'' tf)
      \<union> fst ` set (texts_entry ''target_scope_fields'' tsf)"
    by (auto simp: kvs_def business_keys_def)
  have options: "fst ` set (texts_entry ''target_fields'' tf) \<union> fst ` set (texts_entry ''target_scope_fields'' tsf)
      \<subseteq> set business_options"
    using keys_optional(2)[of "''target_fields''" tf] keys_optional(2)[of "''target_scope_fields''" tsf]
    by (auto simp: business_options_def)
  have restore: "restore_portable_value (JArray (map portable_value key)) = Inr (PTuple (map restored key))"
    "restore_portable_value (JArray (map portable_value scope)) = Inr (PTuple (map restored scope))"
    using assms by (intro restore_array; blast)+
  have typed: "''model'' \<notin> set [''type'', ''value'']" by simp
  have "''origin'' \<notin> set business_keys" "''origin'' \<notin> set business_options" "''model'' \<in> set business_keys"
    "''origin'' \<in> set logical_keys" by (simp_all add: business_keys_def business_options_def logical_keys_def)
  then have "\<not> set logical_keys \<subseteq> fst ` set kvs" "''model'' \<in> fst ` set kvs"
    using options unfolding keys by blast+
  moreover from this(2) have "fst ` set kvs \<noteq> set [''type'', ''value'']" using typed by metis
  moreover have "set business_keys \<subseteq> fst ` set kvs" "fst ` set kvs \<subseteq> set (business_keys @ business_options)"
    using options unfolding keys set_append by blast+
  ultimately have "restore_object (restored_entries kvs) = restore_business (restored_entries kvs)"
    unfolding restore_object_def Let_def keys_restored by simp
  also have "\<dots> = Inr (PBusiness model (map restored key) (map restored scope) tf tsf)"
  proof -
    have e: "entry (restored_entries kvs) ''key'' = Some (JArray (map portable_value key), Inr (PTuple (map restored key)))"
      "entry (restored_entries kvs) ''scope'' = Some (JArray (map portable_value scope), Inr (PTuple (map restored scope)))"
      "entry (restored_entries kvs) ''model'' = Some (JText model, Inr (PText model))"
      "entry (restored_entries kvs) ''target_fields''
        = (if tf = [] then None else Some (text_array tf, restore_portable_value (text_array tf)))"
      "entry (restored_entries kvs) ''target_scope_fields''
        = (if tsf = [] then None else Some (text_array tsf, restore_portable_value (text_array tsf)))"
      unfolding entry_restored using restore by (simp_all add: kvs_def map_add_def del: restore_portable_value.simps(5,6))
    have "raw_texts (restored_entries kvs) ''target_fields'' = Inr tf"
      "raw_texts (restored_entries kvs) ''target_scope_fields'' = Inr tsf"
      by (simp_all add: raw_texts_def e text_array_def texts_read del: restore_portable_value.simps)
    then show ?thesis by (simp add: restore_business_def tuple_entry_def text_entry_def e)
  qed
  finally show ?thesis by (simp add: kvs_def)
qed

lemma restore_logical_value:
  assumes "\<And>v. v \<in> set key \<union> set scope \<Longrightarrow> restore_portable_value (portable_value v) = Inr (restored v)"
    and "\<And>v vs. incoming_key = Some vs \<Longrightarrow> v \<in> set vs \<Longrightarrow> restore_portable_value (portable_value v) = Inr (restored v)"
  shows "restore_portable_value (portable_value (PLogical origin key dataset model tf tsf scope incoming_key))
    = Inr (restored (PLogical origin key dataset model tf tsf scope incoming_key))"
proof -
  let ?incoming = "map_option (\<lambda>vs. JArray (map portable_value vs)) incoming_key"
  define kvs where "kvs = [(''origin'', JText origin), (''key'', JArray (map portable_value key)),
       (''scope'', JArray (map portable_value scope))]
      @ optional_entry ''dataset'' (map_option JText dataset) @ optional_entry ''model'' (map_option JText model)
      @ texts_entry ''target_fields'' tf @ texts_entry ''target_scope_fields'' tsf
      @ optional_entry ''incoming_key'' ?incoming"
  have options: "fst ` set (optional_entry ''dataset'' (map_option JText dataset)) \<subseteq> set logical_options"
    "fst ` set (optional_entry ''model'' (map_option JText model)) \<subseteq> set logical_options"
    "fst ` set (texts_entry ''target_fields'' tf) \<subseteq> set logical_options"
    "fst ` set (texts_entry ''target_scope_fields'' tsf) \<subseteq> set logical_options"
    "fst ` set (optional_entry ''incoming_key'' ?incoming) \<subseteq> set logical_options"
    by (rule order_trans[OF keys_optional(1)] order_trans[OF keys_optional(2)], simp add: logical_options_def)+
  have all_keys: "fst ` set kvs = set logical_keys \<union> fst ` set (optional_entry ''dataset'' (map_option JText dataset))
      \<union> fst ` set (optional_entry ''model'' (map_option JText model)) \<union> fst ` set (texts_entry ''target_fields'' tf)
      \<union> fst ` set (texts_entry ''target_scope_fields'' tsf) \<union> fst ` set (optional_entry ''incoming_key'' ?incoming)"
    by (simp add: kvs_def image_Un logical_keys_def Un_assoc)
  have keys: "set logical_keys \<subseteq> fst ` set kvs" "fst ` set kvs \<subseteq> set (logical_keys @ logical_options)"
    unfolding all_keys set_append by (intro le_supI1 order_refl, intro Un_least)
      (rule le_supI1[OF order_refl] | rule le_supI2, rule options)+
  have restore: "restore_portable_value (JArray (map portable_value key)) = Inr (PTuple (map restored key))"
    "restore_portable_value (JArray (map portable_value scope)) = Inr (PTuple (map restored scope))"
    "\<And>vs. incoming_key = Some vs \<Longrightarrow>
      restore_portable_value (JArray (map portable_value vs)) = Inr (PTuple (map restored vs))"
    using assms by (intro restore_array; blast)+
  have "''origin'' \<in> fst ` set kvs" using keys(1) by (simp add: logical_keys_def)
  moreover have "''origin'' \<notin> set [''type'', ''value'']" by simp
  ultimately have "fst ` set kvs \<noteq> set [''type'', ''value'']" by metis
  then have "restore_object (restored_entries kvs) = restore_logical (restored_entries kvs)"
    using keys unfolding restore_object_def Let_def keys_restored by simp
  also have "\<dots> = Inr (restored (PLogical origin key dataset model tf tsf scope incoming_key))"
  proof -
    have e: "entry (restored_entries kvs) ''key'' = Some (JArray (map portable_value key), Inr (PTuple (map restored key)))"
      "entry (restored_entries kvs) ''scope'' = Some (JArray (map portable_value scope), Inr (PTuple (map restored scope)))"
      "entry (restored_entries kvs) ''origin'' = Some (JText origin, Inr (PText origin))"
      "entry (restored_entries kvs) ''dataset'' = map_option (\<lambda>d. (JText d, Inr (PText d))) dataset"
      "entry (restored_entries kvs) ''model'' = map_option (\<lambda>d. (JText d, Inr (PText d))) model"
      "entry (restored_entries kvs) ''target_fields''
        = (if tf = [] then None else Some (text_array tf, Inr (PTuple (map PText tf))))"
      "entry (restored_entries kvs) ''target_scope_fields''
        = (if tsf = [] then None else Some (text_array tsf, Inr (PTuple (map PText tsf))))"
      "entry (restored_entries kvs) ''incoming_key''
        = map_option (\<lambda>vs. (JArray (map portable_value vs), Inr (PTuple (map restored vs)))) incoming_key"
      unfolding entry_restored using restore restore_texts
      by (cases incoming_key; simp add: kvs_def map_add_def del: restore_portable_value.simps(5,6) split: option.split)+
    have "optional_text_entry (restored_entries kvs) ''dataset'' = Inr (nonempty dataset)"
      "optional_text_entry (restored_entries kvs) ''model'' = Inr (nonempty model)"
      by (cases dataset; cases model; simp add: optional_text_entry_def e nonempty_def)+
    moreover have "restored_texts (restored_entries kvs) ''target_fields'' = Inr tf"
      "restored_texts (restored_entries kvs) ''target_scope_fields'' = Inr tsf"
      by (simp_all add: restored_texts_def tuple_entry_def e texts_read)
    ultimately show ?thesis
      by (cases incoming_key) (simp_all add: restore_logical_def incoming_entry_def tuple_entry_def text_entry_def e)
  qed
  finally show ?thesis by (simp add: kvs_def)
qed

lemma restore_map_value:
  assumes plain: "plain_keys (map fst kvs)"
    and items: "\<And>k v. (k, v) \<in> set kvs \<Longrightarrow> restore_portable_value (portable_value v) = Inr (restored v)"
  shows "restore_portable_value (portable_value (PMap kvs)) = Inr (restored (PMap kvs))"
proof -
  let ?p = "map (\<lambda>(k, v). (k, portable_value v)) (sort_key fst kvs)"
  have sort: "sort_key fst (map (\<lambda>(k, v). (k, f v)) kvs) = map (\<lambda>(k, v). (k, f v)) (sort_key fst kvs)"
    for f :: "pvalue \<Rightarrow> 'a"
    by (simp add: sort_key_map case_prod_unfold)
  have keys: "fst ` set ?p = set (map fst kvs)" by (force simp: image_iff)
  have sorted: "sort_key fst (restored_entries ?p) = restored_entries ?p"
  proof -
    have "sorted (map fst (restored_entries ?p))"
      using sorted_sort_key[of fst kvs] by (simp add: o_def case_prod_unfold)
    then show ?thesis by (rule sort_key_id_if_sorted)
  qed
  have "restore_object (restored_entries ?p)
      = bindr (mapr (\<lambda>(k, _, r). bindr r (\<lambda>v. Inr (k, v))) (restored_entries ?p)) (\<lambda>kvs. Inr (PMap kvs))"
    using plain unfolding restore_object_def Let_def keys_restored keys sorted plain_keys_def by auto
  moreover have "mapr (\<lambda>(k, _, r). bindr r (\<lambda>v. Inr (k, v))) (restored_entries ?p)
      = Inr (map (\<lambda>(k, v). (k, restored v)) (sort_key fst kvs))"
    unfolding map_map mapr_map
    by (rule mapr_total) (use items in \<open>auto simp: case_prod_unfold\<close>)
  ultimately show ?thesis using sort[of portable_value] sort[of restored] by simp
qed

lemma restore_set_value:
  assumes "\<And>v. v \<in> set vs \<Longrightarrow> restore_portable_value (portable_value v) = Inr (restored v)"
  shows "restore_portable_value (portable_value (PSet vs)) = Inr (restored (PSet vs))"
proof -
  have "sort_key canonical_json_text (map portable_value vs) = map portable_value (sort_key canonical_key vs)"
    by (simp add: sort_key_map canonical_key_def[abs_def])
  moreover have "map snd (sort_key fst (map (\<lambda>v. (canonical_key v, restored v)) vs))
      = map restored (sort_key canonical_key vs)"
    by (simp add: sort_key_map o_def)
  moreover have "restore_portable_value (JArray (map portable_value (sort_key canonical_key vs)))
      = Inr (PTuple (map restored (sort_key canonical_key vs)))"
    using assms by (intro restore_array) simp
  ultimately show ?thesis by simp
qed

lemma restore_readable: "readable v \<Longrightarrow> restore_portable_value (portable_value v) = Inr (restored v)"
proof (induction v rule: readable.induct)
  case (3 origin key dataset model tf tsf scope incoming_key)
  then show ?case by (intro restore_logical_value) (auto simp: list_all_iff)
next
  case (4 model key scope tf tsf)
  then show ?case by (intro restore_business_value) (auto simp: list_all_iff)
next
  case (5 vs)
  then show ?case using restore_array[of vs] by (simp add: list_all_iff)
next
  case (6 vs)
  then show ?case using restore_array[of vs] by (simp add: list_all_iff)
next
  case (7 vs)
  then show ?case by (intro restore_set_value) (simp add: list_all_iff)
next
  case (8 kvs)
  then show ?case by (intro restore_map_value) (auto simp: list_all_iff)
qed (simp_all add: typed_value_def restore_object_def text_entry_def entry_def restore_typed_def read_decimal_text
    read_date_text read_moment_text)


section \<open>Canonical keys\<close>

text \<open>An object whose keys are distinct, with no object where a reference has its field names.\<close>

fun is_object :: "json \<Rightarrow> bool" where
  "is_object (JObject _) = True" | "is_object _ = False"

fun tidy :: "json \<Rightarrow> bool" where
  "tidy (JArray js) = list_all tidy js"
| "tidy (JObject kvs) = (distinct (map fst kvs) \<and> list_all (\<lambda>(k, j). tidy j) kvs
     \<and> list_all (\<lambda>(k, j). k \<in> set business_options \<longrightarrow> \<not> is_object j) kvs)"
| "tidy _ = True"

lemma key_sorted_scalar [simp]:
  "str_of (key_sorted j) = str_of j" "truthy (key_sorted j) = truthy j" "key_sorted j = JNull \<longleftrightarrow> j = JNull"
proof -
  have "sort_key fst xs = [] \<longleftrightarrow> xs = []" for xs :: "(string \<times> json) list"
    by (metis mset_sort mset_zero_iff_right)
  then show "truthy (key_sorted j) = truthy j" by (cases j) simp_all
qed (cases j; simp)+

lemma distinct_sort_key: "distinct (map fst (sort_key fst kvs)) \<longleftrightarrow> distinct (map fst kvs)"
  by (metis mset_map mset_sort mset_eq_imp_distinct_iff)

lemma map_of_sort_key: "distinct (map fst kvs) \<Longrightarrow> map_of (sort_key fst kvs) = map_of kvs"
  by (simp add: map_of_inject_set distinct_sort_key)

text \<open>The entries of an object and of the same object with sorted keys.\<close>

definition same_entries :: "entries \<Rightarrow> entries \<Rightarrow> bool" where
  "same_entries es' es \<longleftrightarrow> (\<forall>k. entry es' k = map_option (\<lambda>(j, r). (key_sorted j, r)) (entry es k))"

lemma same_entryD:
  "same_entries es' es \<Longrightarrow> entry es' k = map_option (\<lambda>(j, r). (key_sorted j, r)) (entry es k)"
  by (simp add: same_entries_def)

lemma same_text_entry: "same_entries es' es \<Longrightarrow> text_entry es' k = text_entry es k"
  by (auto simp: text_entry_def same_entryD split: option.split)

lemma same_optional_entry: "same_entries es' es \<Longrightarrow> optional_text_entry es' k = optional_text_entry es k"
  by (auto simp: optional_text_entry_def same_entryD split: option.split)

lemma same_tuple_entry: "same_entries es' es \<Longrightarrow> tuple_entry es' k = tuple_entry es k"
  by (auto simp: tuple_entry_def same_entryD split: option.split)

lemma same_restored_texts: "same_entries es' es \<Longrightarrow> restored_texts es' k = restored_texts es k"
  by (simp add: restored_texts_def same_tuple_entry same_entryD)

lemma same_raw_texts:
  assumes "same_entries es' es" "\<And>j r. entry es k = Some (j, r) \<Longrightarrow> \<not> is_object j"
  shows "raw_texts es' k = raw_texts es k"
proof (cases "entry es k")
  case (Some x)
  obtain j r where x: "x = (j, r)" by (cases x)
  then have e: "entry es k = Some (j, r)" "entry es' k = Some (key_sorted j, r)"
    using Some same_entryD[OF assms(1), of k] by simp_all
  show ?thesis using assms(2)[OF e(1)] by (cases j) (simp_all add: raw_texts_def e mapr_map)
qed (simp add: raw_texts_def same_entryD[OF assms(1)])

lemma same_incoming:
  assumes same: "same_entries es' es"
  shows "incoming_entry es' = incoming_entry es"
proof (cases "entry es ''incoming_key''")
  case (Some x)
  then show ?thesis using same_entryD[OF same, of "''incoming_key''"] same_tuple_entry[OF same, of "''incoming_key''"]
    by (cases x; cases "fst x") (simp_all add: incoming_entry_def)
qed (simp add: incoming_entry_def same_entryD[OF same])

lemma same_restored_object:
  assumes same: "same_entries es' es" and keys: "set (map fst es') = set (map fst es)"
    and mapping: "map (\<lambda>(k, _, r). (k, r)) (sort_key fst es') = map (\<lambda>(k, _, r). (k, r)) (sort_key fst es)"
    and fields: "\<And>k j r. k \<in> set business_options \<Longrightarrow> entry es k = Some (j, r) \<Longrightarrow> \<not> is_object j"
  shows "restore_object es' = restore_object es"
proof -
  have raw: "raw_texts es' k = raw_texts es k" if "k \<in> set business_options" for k
    using fields[OF that] by (rule same_raw_texts[OF same])
  have logical: "restore_logical es' = restore_logical es"
    unfolding restore_logical_def same_tuple_entry[OF same] same_restored_texts[OF same] same_incoming[OF same]
      same_text_entry[OF same] same_optional_entry[OF same] ..
  have business: "restore_business es' = restore_business es"
    unfolding restore_business_def same_tuple_entry[OF same] same_text_entry[OF same]
    by (simp add: raw business_options_def)
  have pairs: "mapr (\<lambda>(k, _, r). bindr r (\<lambda>v. Inr (k, v))) (sort_key fst xs)
      = mapr (\<lambda>(k, r). bindr r (\<lambda>v. Inr (k, v))) (map (\<lambda>(k, _, r). (k, r)) (sort_key fst xs))" for xs :: entries
    unfolding mapr_map by (simp add: case_prod_unfold)
  show ?thesis
    unfolding restore_object_def keys same_text_entry[OF same] logical business pairs mapping ..
qed

lemma restore_key_sorted: "tidy j \<Longrightarrow> restore_portable_value (key_sorted j) = restore_portable_value j"
proof (induction j rule: key_sorted.induct)
  case (1 js)
  then have "map (\<lambda>j. restore_portable_value (key_sorted j)) js = map restore_portable_value js"
    by (simp add: list_all_iff)
  then show ?case by (simp only: key_sorted.simps restore_portable_value.simps map_map o_def)
next
  case (2 kvs)
  let ?sorted = "sort_key fst (map (\<lambda>(k, j). (k, key_sorted j)) kvs)"
  have restore: "restore_portable_value (key_sorted j) = restore_portable_value j" if "(k, j) \<in> set kvs" for k j
    using 2 that by (fastforce simp: list_all_iff)
  have dist: "distinct (map fst kvs)" "distinct (map fst (map (\<lambda>(k, j). (k, key_sorted j)) kvs))"
    using "2.prems" by (simp_all add: o_def case_prod_unfold)
  have lookup: "map_of ?sorted k = map_option key_sorted (map_of kvs k)" for k
    unfolding map_of_sort_key[OF dist(2)] by (simp add: map_of_map)
  have "restore_object (restored_entries ?sorted) = restore_object (restored_entries kvs)"
  proof (rule same_restored_object)
    show "same_entries (restored_entries ?sorted) (restored_entries kvs)"
      unfolding same_entries_def entry_restored lookup
      using restore by (auto simp: map_option_case split: option.split dest: map_of_SomeD)
    show "set (map fst (restored_entries ?sorted)) = set (map fst (restored_entries kvs))"
      unfolding keys_restored by (force simp: image_iff)
    show "map (\<lambda>(k, _, r). (k, r)) (sort_key fst (restored_entries ?sorted))
        = map (\<lambda>(k, _, r). (k, r)) (sort_key fst (restored_entries kvs))"
    proof -
      have "sort_key fst (restored_entries ?sorted) = restored_entries ?sorted"
        unfolding sort_key_pairs[of "\<lambda>j. (j, restore_portable_value j)"]
        by (simp add: sort_key_id_if_sorted)
      moreover have "sort_key fst (restored_entries kvs) = restored_entries (sort_key fst kvs)"
        by (rule sort_key_pairs)
      moreover have "?sorted = map (\<lambda>(k, j). (k, key_sorted j)) (sort_key fst kvs)" by (rule sort_key_pairs)
      ultimately show ?thesis using restore by (auto simp: case_prod_unfold)
    qed
    show "\<not> is_object j" if "k \<in> set business_options" "entry (restored_entries kvs) k = Some (j, r)" for k j r
      using that "2.prems" unfolding entry_restored by (auto simp: list_all_iff dest!: map_of_SomeD)
  qed
  then show ?case by simp
qed simp_all

lemma tidy_text_array: "tidy (text_array ss)"
  by (simp add: text_array_def list_all_iff)

lemma optional_entry_keys [simp]:
  "map fst (optional_entry k v) = (if v = None then [] else [k])" "map fst (texts_entry k ss) = (if ss = [] then [] else [k])"
  by (auto simp: optional_entry_def texts_entry_def split: option.splits)

lemma tidy_logical:
  assumes "list_all tidy (map portable_value key)" "list_all tidy (map portable_value scope)"
    "\<And>vs. incoming_key = Some vs \<Longrightarrow> list_all tidy (map portable_value vs)"
  shows "tidy (portable_value (PLogical origin key dataset model tf tsf scope incoming_key))"
proof -
  have plain: "list_all (\<lambda>(k, j). tidy j) (optional_entry k (map_option JText s))"
    "list_all (\<lambda>(k, j). k \<in> set business_options \<longrightarrow> \<not> is_object j) (optional_entry k (map_option JText s))" for k s
    by (auto simp: optional_entry_def split: option.splits)
  have texts: "list_all (\<lambda>(k, j). tidy j) (texts_entry k ss)"
    "list_all (\<lambda>(k, j). k \<in> set business_options \<longrightarrow> \<not> is_object j) (texts_entry k ss)" for k ss
    by (simp_all add: texts_entry_def tidy_text_array) (simp add: text_array_def)
  have incoming: "list_all (\<lambda>(k, j). tidy j) (optional_entry k (map_option (\<lambda>vs. JArray (map portable_value vs)) incoming_key))"
    "list_all (\<lambda>(k, j). k \<in> set business_options \<longrightarrow> \<not> is_object j)
      (optional_entry k (map_option (\<lambda>vs. JArray (map portable_value vs)) incoming_key))" for k
    using assms(3) by (auto simp: optional_entry_def split: option.splits)
  show ?thesis
    using assms(1,2) plain texts incoming by (simp del: set_map)
qed

lemma tidy_business:
  assumes "list_all tidy (map portable_value key)" "list_all tidy (map portable_value scope)"
  shows "tidy (portable_value (PBusiness model key scope tf tsf))"
proof -
  have texts: "list_all (\<lambda>(k, j). tidy j) (texts_entry k ss)"
    "list_all (\<lambda>(k, j). k \<in> set business_options \<longrightarrow> \<not> is_object j) (texts_entry k ss)" for k ss
    by (simp_all add: texts_entry_def tidy_text_array) (simp add: text_array_def)
  show ?thesis using assms texts by (simp del: set_map)
qed

lemma prepared_tidy: "prepared v \<Longrightarrow> tidy (portable_value v)"
proof (induction v rule: prepared.induct)
  case (4 origin key dataset model tf tsf scope incoming_key)
  then show ?case by (intro tidy_logical) (auto simp: list_all_iff)
next
  case (5 model key scope tf tsf)
  then show ?case by (intro tidy_business) (auto simp: list_all_iff)
qed (simp_all add: list_all_iff typed_value_def)

text \<open>A prepared value the witnesses use: a reference by a decimal and a date.\<close>

definition example_value :: pvalue where
  "example_value = PTuple [PText ''A'', PLogical ''incoming'' [PDecimal (Dec True 125 (-2)), PDate (Date 2024 2 29)]
     (Some ''orders'') None [''code''] [] [PNone] None]"


section \<open>The guard\<close>

text \<open>A value that has a forbidden key at any depth.\<close>

fun mentions_id :: "json \<Rightarrow> bool" where
  "mentions_id (JArray js) = list_ex mentions_id js"
| "mentions_id (JObject kvs) = list_ex (\<lambda>(k, j). forbidden_key k \<or> mentions_id j) kvs"
| "mentions_id _ = False"

lemma guard_loop_mentions: "guard_loop js = (if list_ex mentions_id js then Inl ValueError else Inr ())"
proof (induction js rule: guard_loop.induct)
  case (2 current pending)
  have either: "list_ex (\<lambda>(k, j). forbidden_key k \<or> mentions_id j) kvs
      \<longleftrightarrow> list_ex (\<lambda>(k, j). forbidden_key k) kvs \<or> list_ex mentions_id (map snd kvs)" for kvs
    by (induction kvs) auto
  show ?case
    using 2 by (cases current) (simp_all add: either)
qed simp


section \<open>Properties\<close>

text \<open>C25: prepared values survive the round trip.  Every prepared value (scalars, tuples and references
  as the program builds them) is restored exactly from its portable rendering; any readable value is
  restored up to the forms the rendering merges: lists and sets become tuples, a naive moment is in UTC,
  a decimal has no positive exponent, an empty dataset or model is absent.\<close>

theorem portable_round_trip:
  assumes "readable v"
  shows "restore_portable_value (portable_value v) = Inr (restored v) \<and> (prepared v \<longrightarrow> restored v = v)"
  using restore_readable[OF assms] prepared_readable by blast

theorem portable_round_trip_witness:
  "restore_portable_value (portable_value example_value) = Inr example_value"
proof -
  have "readable example_value" "prepared example_value" by code_simp+
  with portable_round_trip[OF this(1)] show ?thesis by simp
qed

text \<open>canonical keys identify prepared values.  Two prepared values have the same canonical bytes,
  which the program uses as index and sort keys, exactly when they are the same value.\<close>

theorem canonical_keys_identify_values:
  assumes "prepared v" "prepared w"
  shows "canonical_key v = canonical_key w \<longleftrightarrow> v = w"
proof
  assume "canonical_key v = canonical_key w"
  then have "key_sorted (portable_value v) = key_sorted (portable_value w)"
    unfolding canonical_key_def by (rule same_text_same_value)
  then have "restore_portable_value (portable_value v) = restore_portable_value (portable_value w)"
    using restore_key_sorted[OF prepared_tidy[OF assms(1)]] restore_key_sorted[OF prepared_tidy[OF assms(2)]] by simp
  then show "v = w"
    using restore_readable prepared_readable assms by (metis sum.inject(2))
qed simp

theorem canonical_keys_identify_values_witness:
  "canonical_key example_value \<noteq> canonical_key (PTuple [PText ''A''])"
proof -
  have "prepared example_value" "prepared (PTuple [PText ''A''])" by code_simp+
  then show ?thesis using canonical_keys_identify_values[of example_value "PTuple [PText ''A'']"]
    by (simp add: example_value_def)
qed

text \<open>C27: the guard loop is the recursive check.  The worklist loop that protects portable artifacts
  raises exactly for the values that have a forbidden key at some depth.\<close>

theorem guard_equals_recursive_check:
  "assert_no_numeric_odoo_ids j = (if mentions_id j then Inl ValueError else Inr ())"
  by (simp add: assert_no_numeric_odoo_ids_def guard_loop_mentions)

end
