(* ===== verification/Odoo_Domain.thy ===== *)
theory Odoo_Domain
imports Portable_Values
begin

text \<open>
  Odoo search domains as the read planner builds them (\<open>domain/execution/planner.py\<close>): prefix operators
  and leaves, and the documented meaning of a domain, evaluated from the right with a stack.  What a leaf
  selects is a parameter.
\<close>

datatype domain_item =
    Operator string
  | Leaf (leaf_field: string) (leaf_operator: string) (leaf_value: pvalue)

type_synonym domain = "domain_item list"

text \<open>The value an item is in Python: a text, or a list of three.\<close>

fun item_value :: "domain_item \<Rightarrow> pvalue" where
  "item_value (Operator s) = PText s"
| "item_value (Leaf f s v) = PList [PText f, PText s, v]"

definition and_terms :: "domain \<Rightarrow> domain" where
  "and_terms terms = (if length terms \<le> 1 then terms
     else replicate (length terms - 1) (Operator ''&'') @ terms)"

definition or_expressions :: "domain list \<Rightarrow> domain" where
  "or_expressions es = (if length es = 1 then hd es
     else replicate (length es - 1) (Operator ''|'') @ concat es)"

definition expression_terms :: "domain \<Rightarrow> domain" where
  "expression_terms e = dropWhile (\<lambda>i. i = Operator ''&'') e"

definition combine_domains :: "domain \<Rightarrow> domain \<Rightarrow> domain" where
  "combine_domains left right = (if left = [] then right else if right = [] then left else left @ right)"


section \<open>Meaning\<close>

type_synonym selection = "string \<Rightarrow> string \<Rightarrow> pvalue \<Rightarrow> bool"

fun apply_item :: "selection \<Rightarrow> domain_item \<Rightarrow> bool list option \<Rightarrow> bool list option" where
  "apply_item sel (Leaf f s v) (Some st) = Some (sel f s v # st)"
| "apply_item sel (Operator s) (Some (a # b # st)) =
     (if s = ''&'' then Some ((a \<and> b) # st) else if s = ''|'' then Some ((a \<or> b) # st)
      else if s = ''!'' then Some ((\<not> a) # b # st) else None)"
| "apply_item sel (Operator s) (Some [a]) = (if s = ''!'' then Some [\<not> a] else None)"
| "apply_item sel (Operator s) (Some []) = None"
| "apply_item sel _ None = None"

definition run_domain :: "selection \<Rightarrow> domain \<Rightarrow> bool list \<Rightarrow> bool list option" where
  "run_domain sel d st = foldr (apply_item sel) d (Some st)"

text \<open>The expressions of a domain are joined by an implicit conjunction; a malformed domain has no meaning.\<close>

definition selects :: "selection \<Rightarrow> domain \<Rightarrow> bool option" where
  "selects sel d = map_option (list_all id) (run_domain sel d [])"

text \<open>A domain that is one expression of the given value.\<close>

definition expression :: "selection \<Rightarrow> domain \<Rightarrow> bool \<Rightarrow> bool" where
  "expression sel d b \<longleftrightarrow> (\<forall>st. run_domain sel d st = Some (b # st))"

lemma run_domain_Nil [simp]: "run_domain sel [] st = Some st"
  by (simp add: run_domain_def)

lemma run_domain_append:
  "run_domain sel (d @ e) st = (case run_domain sel e st of None \<Rightarrow> None | Some st' \<Rightarrow> run_domain sel d st')"
proof -
  have "foldr (apply_item sel) d None = None" by (induction d) simp_all
  then show ?thesis by (simp add: run_domain_def split: option.split)
qed

lemma run_domain_Cons:
  "run_domain sel (i # d) st = apply_item sel i (run_domain sel d st)"
  by (simp add: run_domain_def)

lemma expression_leaf: "expression sel [Leaf f s v] (sel f s v)"
  by (simp add: expression_def run_domain_Cons)

lemma run_operators:
  assumes "s = ''&'' \<and> f = (\<and>) \<or> s = ''|'' \<and> f = (\<or>)"
  shows "run_domain sel (replicate (length bs) (Operator s)) (b # bs @ st) = Some (foldl f b bs # st)"
proof (induction bs arbitrary: b)
  case (Cons a bs)
  have "replicate (length (a # bs)) (Operator s) = replicate (length bs) (Operator s) @ [Operator s]"
    by (simp add: replicate_append_same)
  moreover have "run_domain sel [Operator s] (b # (a # bs) @ st) = Some (f b a # bs @ st)"
    using assms by (auto simp: run_domain_Cons)
  ultimately show ?case using Cons.IH[of "f b a"] by (simp add: run_domain_append)
qed simp

lemma foldl_connectives: "foldl (\<and>) b bs \<longleftrightarrow> b \<and> list_all id bs" "foldl (\<or>) b bs \<longleftrightarrow> b \<or> list_ex id bs"
  by (induction bs arbitrary: b) auto

lemma run_expressions:
  assumes "list_all2 (expression sel) es bs"
  shows "run_domain sel (concat es) st = Some (bs @ st)"
  using assms
proof (induction es arbitrary: bs)
  case (Cons e es)
  then obtain b bs' where b: "bs = b # bs'" "expression sel e b" "list_all2 (expression sel) es bs'"
    by (auto simp: list_all2_Cons1)
  then show ?case using Cons.IH[OF b(3)] by (simp add: run_domain_append expression_def)
qed simp

text \<open>The two connectives over any non-empty list of expressions.\<close>

lemma expression_or:
  assumes "list_all2 (expression sel) es bs" "es \<noteq> []"
  shows "expression sel (or_expressions es) (list_ex id bs)"
proof (cases "length es = 1")
  case True
  then obtain e b where "es = [e]" "bs = [b]" using assms(1) by (auto simp: length_Suc_conv list_all2_Cons1)
  then show ?thesis using assms(1) by (simp add: or_expressions_def)
next
  case False
  obtain b bs' where b: "bs = b # bs'" using assms by (cases bs) simp_all
  then have "length bs' = length es - 1" using list_all2_lengthD[OF assms(1)] by simp
  then show ?thesis
    using run_operators[of "''|''" "(\<or>)" sel bs' b] run_expressions[OF assms(1)] False b
    by (auto simp: expression_def or_expressions_def run_domain_append foldl_connectives)
qed

lemma expression_and:
  assumes "list_all (\<lambda>t. \<exists>f s v. t = Leaf f s v) terms" "terms \<noteq> []"
  shows "expression sel (and_terms terms) (list_all (\<lambda>t. sel (leaf_field t) (leaf_operator t) (leaf_value t)) terms)"
proof -
  let ?bs = "map (\<lambda>t. sel (leaf_field t) (leaf_operator t) (leaf_value t)) terms"
  have "list_all2 (expression sel) (map (\<lambda>t. [t]) terms) ?bs"
    using assms(1) by (induction terms) (auto intro: expression_leaf)
  from run_expressions[OF this] have run: "run_domain sel terms st = Some (?bs @ st)" for st
    by (simp add: concat_map_singleton)
  obtain b bs where b: "?bs = b # bs" using assms(2) by (cases terms) simp_all
  then have "length bs = length terms - 1" by (metis length_map length_tl list.sel(3))
  then have "run_domain sel (and_terms terms) st = Some (foldl (\<and>) b bs # st)" for st
    using run run_operators[of "''&''" "(\<and>)" sel bs b] b
    by (cases "length terms \<le> 1") (auto simp: and_terms_def run_domain_append)
  moreover have "foldl (\<and>) b bs = list_all id ?bs" unfolding b by (simp add: foldl_connectives)
  ultimately show ?thesis by (simp add: expression_def list.pred_map o_def)
qed

lemma selects_expression: "expression sel d b \<Longrightarrow> selects sel d = Some b"
  by (simp add: expression_def selects_def)

text \<open>Values below those a domain leaves are not touched by it.\<close>

lemma run_domain_below:
  "run_domain sel d st = Some s \<Longrightarrow> run_domain sel d (st @ rest) = Some (s @ rest)"
proof (induction d arbitrary: s)
  case (Cons i d)
  then obtain s' where s': "run_domain sel d st = Some s'" "apply_item sel i (Some s') = Some s"
    by (cases "run_domain sel d st") (auto simp: run_domain_Cons)
  have "apply_item sel i (Some (s' @ rest)) = Some (s @ rest)"
    using s'(2) by (cases "(sel, i, Some s')" rule: apply_item.cases; cases rest) (auto split: if_splits)
  then show ?case using Cons.IH[OF s'(1)] by (simp add: run_domain_Cons)
qed simp

lemma selects_combined:
  assumes "selects sel d = Some b" "expression sel e c"
  shows "selects sel (combine_domains d e) = Some (b \<and> c)"
proof -
  obtain s where s: "run_domain sel d [] = Some s" "b = list_all id s"
    using assms(1) by (auto simp: selects_def)
  have "e \<noteq> []" using assms(2) by (auto simp: expression_def)
  moreover have "run_domain sel (d @ e) [] = Some (s @ [c])"
    using run_domain_below[OF s(1), of "[c]"] assms(2) by (simp add: run_domain_append expression_def)
  ultimately show ?thesis
    using s assms(2) by (cases "d = []") (auto simp: combine_domains_def selects_def expression_def)
qed

end
