(* ===== verification/Domain_Chunks.thy ===== *)
theory Domain_Chunks
imports Odoo_Domain
begin

text \<open>
  Bounded domains over business keys (\<open>_key_domain_chunks\<close> and \<open>_casefold_key_domain_chunks\<close> of
  \<open>domain/execution/planner.py\<close>).  A Python set of keys keeps the first of equal ones, where \<open>1\<close>, \<open>True\<close> and
  \<open>Decimal("1.0")\<close> are equal; \<open>python_form\<close> is the same for equal values.  Keys that differ but have the same
  canonical text (a naive and an aware moment) stay in the order they came.
\<close>


section \<open>Equality of Python values\<close>

fun reduced_decimal :: "bool \<Rightarrow> nat \<Rightarrow> int \<Rightarrow> decimal_value" where
  "reduced_decimal negative c e = (if c = 0 then Dec False 0 0
     else if c mod 10 = 0 then reduced_decimal negative (c div 10) (e + 1) else Dec negative c e)"

declare reduced_decimal.simps [simp del]

fun python_form :: "pvalue \<Rightarrow> pvalue" where
  "python_form (PBool b) = PDecimal (reduced_decimal False (if b then 1 else 0) 0)"
| "python_form (PInt i) = PDecimal (reduced_decimal (i < 0) (nat \<bar>i\<bar>) 0)"
| "python_form (PDecimal d) = PDecimal (reduced_decimal (dec_negative d) (dec_coefficient d) (dec_exponent d))"
| "python_form (PLogical origin key dataset model tf tsf scope ik) =
     PLogical origin (map python_form key) dataset model tf tsf (map python_form scope) (map_option (map python_form) ik)"
| "python_form (PBusiness model key scope tf tsf) = PBusiness model (map python_form key) (map python_form scope) tf tsf"
| "python_form (PTuple vs) = PTuple (map python_form vs)"
| "python_form (PList vs) = PList (map python_form vs)"
| "python_form v = v"

fun keep_first :: "('a \<Rightarrow> 'b) \<Rightarrow> 'a list \<Rightarrow> 'a list" where
  "keep_first f [] = []"
| "keep_first f (x # xs) = x # filter (\<lambda>y. f y \<noteq> f x) (keep_first f xs)"

lemma keep_first_subset: "set (keep_first f xs) \<subseteq> set xs"
  by (induction xs) auto

lemma keep_first_covers: "x \<in> set xs \<Longrightarrow> \<exists>y \<in> set (keep_first f xs). f y = f x"
  by (induction xs) fastforce+

lemma keep_first_distinct: "distinct (map f (keep_first f xs))"
  by (induction xs) (auto simp: distinct_map inj_on_def)


section \<open>Batches\<close>

text \<open>\<open>[xs[start : start + n] for start in range(0, len(xs), n)]\<close>.\<close>

function batches :: "nat \<Rightarrow> 'a list \<Rightarrow> 'a list list" where
  "batches n xs = (if xs = [] \<or> n = 0 then [] else take n xs # batches n (drop n xs))"
  by pat_completeness auto
termination by (relation "measure (length \<circ> snd)") auto

declare batches.simps [simp del]

lemma batches_concat: "0 < n \<Longrightarrow> concat (batches n xs) = xs"
  by (induction n xs rule: batches.induct) (subst batches.simps, auto)

lemma batches_bounds: "b \<in> set (batches n xs) \<Longrightarrow> b \<noteq> [] \<and> length b \<le> n \<and> 0 < n"
proof (induction n xs rule: batches.induct)
  case (1 n xs)
  have "batches n xs = (if xs = [] \<or> n = 0 then [] else take n xs # batches n (drop n xs))"
    by (rule batches.simps)
  then show ?case using 1 by (auto split: if_splits)
qed

lemma batches_Nil_iff: "0 < n \<Longrightarrow> batches n xs = [] \<longleftrightarrow> xs = []"
  by (subst batches.simps) simp

lemma batches_members: "0 < n \<Longrightarrow> (\<exists>b \<in> set (batches n xs). x \<in> set b) \<longleftrightarrow> x \<in> set xs"
  using batches_concat[of n xs] by (metis UN_iff set_concat)


section \<open>Domains over keys\<close>

definition complete_key :: "string list \<Rightarrow> pvalue list \<Rightarrow> bool" where
  "complete_key fields key = (length key = length fields \<and> list_all (\<lambda>v. v \<noteq> PNone) key)"

definition unique_keys :: "pvalue list list \<Rightarrow> pvalue list list" where
  "unique_keys keys = sort_key (canonical_key \<circ> PTuple) (keep_first (map python_form) keys)"

definition key_terms :: "string list \<Rightarrow> pvalue list \<Rightarrow> domain" where
  "key_terms fields key = map (\<lambda>(f, v). Leaf f ''='' v) (zip fields key)"

definition key_batch_domain :: "string list \<Rightarrow> pvalue list list \<Rightarrow> domain" where
  "key_batch_domain fields batch =
    (if length fields = 1 then [Leaf (hd fields) ''in'' (PList (map hd batch))]
     else or_expressions (map (\<lambda>key. and_terms (key_terms fields key)) batch))"

definition key_domain_chunks :: "string list \<Rightarrow> pvalue list list \<Rightarrow> nat \<Rightarrow> domain list" where
  "key_domain_chunks fields keys chunk_size =
    (let unique = unique_keys (filter (complete_key fields) keys) in
     if fields = [] \<or> unique = [] then [] else map (key_batch_domain fields) (batches chunk_size unique))"

fun is_text :: "pvalue \<Rightarrow> bool" where
  "is_text (PText s) = True"
| "is_text _ = False"

definition casefold_terms :: "string list \<Rightarrow> pvalue list \<Rightarrow> domain" where
  "casefold_terms fields key =
     map (\<lambda>(f, v). Leaf f (if is_text v then ''=ilike'' else ''='') v) (zip fields key)"

definition casefold_key_domain_chunks :: "string list \<Rightarrow> pvalue list list \<Rightarrow> nat \<Rightarrow> domain list" where
  "casefold_key_domain_chunks fields keys chunk_size =
    (let unique = unique_keys (filter (\<lambda>key. complete_key fields key \<and> list_ex is_text key) keys) in
     if fields = [] \<or> unique = [] then []
     else map (\<lambda>batch. or_expressions (map (\<lambda>key. and_terms (casefold_terms fields key)) batch))
            (batches chunk_size unique))"


section \<open>What the domains select\<close>

text \<open>The documented meaning of the operators: \<open>=\<close> compares Python values, \<open>in\<close> is some \<open>=\<close>, and values with one
  rendering are not told apart.\<close>

definition lawful :: "selection \<Rightarrow> bool" where
  "lawful sel \<longleftrightarrow> (\<forall>f v w. python_form v = python_form w \<longrightarrow> sel f ''='' v = sel f ''='' w)
     \<and> (\<forall>f vs. sel f ''in'' (PList vs) = list_ex (\<lambda>v. sel f ''='' v) vs)
     \<and> (\<forall>f op v w. canonical_key v = canonical_key w \<longrightarrow> sel f op v = sel f op w)"

definition matches_key :: "selection \<Rightarrow> string list \<Rightarrow> pvalue list \<Rightarrow> bool" where
  "matches_key sel fields key \<longleftrightarrow> list_all2 (\<lambda>f v. sel f ''='' v) fields key"

lemma unique_keys_sound: "key \<in> set (unique_keys keys) \<Longrightarrow> key \<in> set keys"
  using keep_first_subset by (fastforce simp: unique_keys_def)

lemma unique_keys_Nil_iff [simp]: "unique_keys keys = [] \<longleftrightarrow> keys = []"
  by (cases keys) (auto simp: unique_keys_def)

lemma unique_keys_cover:
  assumes "key \<in> set keys"
  obtains key' where "key' \<in> set (unique_keys keys)" "map python_form key' = map python_form key"
  using keep_first_covers[OF assms, of "map python_form"] by (auto simp: unique_keys_def)

lemma matches_key_form:
  assumes "lawful sel" "map python_form key' = map python_form key" "matches_key sel fields key"
  shows "matches_key sel fields key'"
  using assms(3,2) unfolding matches_key_def
proof (induction arbitrary: key' rule: list_all2_induct)
  case (Cons f fs v vs)
  then obtain v' vs' where v': "key' = v' # vs'" "python_form v' = python_form v" "map python_form vs' = map python_form vs"
    by auto
  then have "sel f ''='' v'" using Cons.hyps(1) assms(1) unfolding lawful_def by blast
  then show ?case using Cons.IH[OF v'(3)] v'(1) by simp
qed simp

lemma zip_terms:
  assumes "length key = length fields"
  shows "list_all (\<lambda>t. sel (leaf_field t) (leaf_operator t) (leaf_value t))
      (map (\<lambda>(f, v). Leaf f (op v) v) (zip fields key)) \<longleftrightarrow> list_all2 (\<lambda>f v. sel f (op v) v) fields key"
  using assms by (auto simp: list_all_iff list_all2_iff)

lemma expression_terms_list:
  assumes "fields \<noteq> []" "length key = length fields"
  shows "expression sel (and_terms (map (\<lambda>(f, v). Leaf f (op v) v) (zip fields key)))
    (list_all2 (\<lambda>f v. sel f (op v) v) fields key)"
proof -
  let ?terms = "map (\<lambda>(f, v). Leaf f (op v) v) (zip fields key)"
  have "?terms \<noteq> []" using assms by (cases fields; cases key) auto
  moreover have "list_all (\<lambda>t. \<exists>f s v. t = Leaf f s v) ?terms" by (simp add: list_all_iff split_beta)
  ultimately have "expression sel (and_terms ?terms)
      (list_all (\<lambda>t. sel (leaf_field t) (leaf_operator t) (leaf_value t)) ?terms)"
    by (intro expression_and)
  then show ?thesis unfolding zip_terms[OF assms(2)] .
qed

lemma expression_batch:
  assumes "fields \<noteq> []" "batch \<noteq> []" "\<forall>key \<in> set batch. length key = length fields"
  shows "expression sel (or_expressions (map (\<lambda>key. and_terms (map (\<lambda>(f, v). Leaf f (op v) v) (zip fields key))) batch))
    (list_ex (\<lambda>key. list_all2 (\<lambda>f v. sel f (op v) v) fields key) batch)"
proof -
  have "list_all2 (expression sel) (map (\<lambda>key. and_terms (map (\<lambda>(f, v). Leaf f (op v) v) (zip fields key))) batch)
      (map (\<lambda>key. list_all2 (\<lambda>f v. sel f (op v) v) fields key) batch)"
    using assms(3) expression_terms_list[OF assms(1)] by (auto simp: list_all2_conv_all_nth)
  from expression_or[OF this] show ?thesis using assms(2) by (simp add: list_ex_iff)
qed

lemma expression_key_batch:
  assumes "lawful sel" "fields \<noteq> []" "batch \<noteq> []" "\<forall>key \<in> set batch. length key = length fields"
  shows "expression sel (key_batch_domain fields batch) (list_ex (matches_key sel fields) batch)"
proof (cases "length fields = 1")
  case False
  then show ?thesis
    using expression_batch[OF assms(2-4), of sel "\<lambda>_. ''=''"]
    by (simp add: key_batch_domain_def key_terms_def matches_key_def[abs_def])
next
  case True
  then obtain f where f: "fields = [f]" by (auto simp: length_Suc_conv)
  have "sel f ''in'' (PList (map hd batch)) = list_ex (\<lambda>v. sel f ''='' v) (map hd batch)"
    using assms(1) unfolding lawful_def by blast
  also have "\<dots> = list_ex (matches_key sel fields) batch"
    using assms(4) unfolding f list_ex_iff matches_key_def
    by (auto simp: length_Suc_conv Bex_def) (metis list.sel(1) list_all2_Cons list_all2_Nil)+
  finally have "sel f ''in'' (PList (map hd batch)) = list_ex (matches_key sel fields) batch" .
  then show ?thesis using expression_leaf[of sel f "''in''" "PList (map hd batch)"] True f
    by (simp add: key_batch_domain_def)
qed

lemma key_chunk_batches:
  assumes "chunk \<in> set (key_domain_chunks fields keys n)"
  obtains batch where "batch \<in> set (batches n (unique_keys (filter (complete_key fields) keys)))" "fields \<noteq> []"
    "chunk = key_batch_domain fields batch" "batch \<noteq> []" "length batch \<le> n"
    "\<forall>key \<in> set batch. complete_key fields key \<and> key \<in> set keys"
proof -
  obtain batch where b: "batch \<in> set (batches n (unique_keys (filter (complete_key fields) keys)))"
      "chunk = key_batch_domain fields batch" "fields \<noteq> []"
    using assms by (auto simp: key_domain_chunks_def Let_def split: if_splits)
  have n: "batch \<noteq> []" "length batch \<le> n" "0 < n" using batches_bounds[OF b(1)] by simp_all
  have "complete_key fields key \<and> key \<in> set keys" if "key \<in> set batch" for key
    using batches_members[OF n(3)] b(1) that unique_keys_sound[of key] by fastforce
  then show thesis using that[OF b(1,3,2) n(1,2)] by blast
qed

text \<open>Each chunk is a well-formed domain that selects the records with one of its keys.\<close>

lemma key_chunk_expression:
  assumes "lawful sel" "chunk \<in> set (key_domain_chunks fields keys n)"
  obtains b where "expression sel chunk b"
    "b \<longrightarrow> (\<exists>key \<in> set keys. complete_key fields key \<and> matches_key sel fields key)"
proof -
  obtain batch where batch: "fields \<noteq> []" "chunk = key_batch_domain fields batch" "batch \<noteq> []"
      "\<forall>key \<in> set batch. complete_key fields key \<and> key \<in> set keys"
    using key_chunk_batches[OF assms(2)] by metis
  then have "expression sel chunk (list_ex (matches_key sel fields) batch)"
    using expression_key_batch[OF assms(1), of fields batch] by (simp add: complete_key_def)
  then show thesis by (rule that) (use batch(4) in \<open>auto simp: list_ex_iff\<close>)
qed

lemma key_chunk_covers:
  assumes "lawful sel" "0 < n" "fields \<noteq> []" "key \<in> set keys" "complete_key fields key" "matches_key sel fields key"
  obtains chunk where "chunk \<in> set (key_domain_chunks fields keys n)" "expression sel chunk True"
proof -
  let ?unique = "unique_keys (filter (complete_key fields) keys)"
  obtain key' where key': "key' \<in> set ?unique" "map python_form key' = map python_form key"
    using unique_keys_cover[of key "filter (complete_key fields) keys"] assms(4,5) by auto
  then obtain batch where batch: "batch \<in> set (batches n ?unique)" "key' \<in> set batch"
    using iffD2[OF batches_members[OF assms(2)] key'(1)] by (elim bexE)
  have complete: "complete_key fields k" if "k \<in> set batch" for k
  proof -
    have "k \<in> set ?unique" using that batch(1) batches_members[OF assms(2), of ?unique k] by blast
    then show ?thesis using unique_keys_sound[of k] by fastforce
  qed
  have "list_ex (matches_key sel fields) batch"
    using matches_key_form[OF assms(1) key'(2) assms(6)] batch(2) by (auto simp: list_ex_iff)
  moreover have "expression sel (key_batch_domain fields batch) (list_ex (matches_key sel fields) batch)"
    using expression_key_batch[OF assms(1,3)] batches_bounds[OF batch(1)] complete by (simp add: complete_key_def)
  moreover have "?unique \<noteq> []" using key'(1) by (metis empty_iff list.set(1))
  then have "key_batch_domain fields batch \<in> set (key_domain_chunks fields keys n)"
    unfolding key_domain_chunks_def Let_def using batch(1) assms(3) by (simp del: unique_keys_Nil_iff)
  ultimately show thesis using that by simp
qed

lemma expression_unique: "expression sel d b \<Longrightarrow> expression sel d c \<Longrightarrow> b = c"
  by (simp add: expression_def)

lemma selects_unique: "expression sel d b \<Longrightarrow> selects sel d = Some c \<longleftrightarrow> b = c"
  using selects_expression[of sel d b] by auto

lemma expression_nonempty: "expression sel d b \<Longrightarrow> d \<noteq> []"
  by (auto simp: expression_def)

lemma casefold_chunk_expression:
  assumes "chunk \<in> set (casefold_key_domain_chunks fields keys n)"
  shows "\<exists>b. expression sel chunk b"
proof -
  let ?unique = "unique_keys (filter (\<lambda>key. complete_key fields key \<and> list_ex is_text key) keys)"
  obtain batch where b: "fields \<noteq> []" "batch \<in> set (batches n ?unique)"
      "chunk = or_expressions (map (\<lambda>key. and_terms (casefold_terms fields key)) batch)"
    using assms by (auto simp: casefold_key_domain_chunks_def Let_def split: if_splits)
  then have n: "batch \<noteq> []" "0 < n" using batches_bounds[OF b(2)] by simp_all
  have "length key = length fields" if "key \<in> set batch" for key
    using batches_members[OF n(2)] b(2) that unique_keys_sound[of key] by (fastforce simp: complete_key_def)
  then show ?thesis
    using expression_batch[OF b(1) n(1), of sel "\<lambda>v. if is_text v then ''=ilike'' else ''=''"] b(3)
    unfolding casefold_terms_def by blast
qed

end
