(* ===== verification/Profile.thy ===== *)
theory Profile
imports Odoo_Domain
begin

text \<open>
  The contracts of a mapping profile (\<open>domain/recipe/profile.py\<close>): each constructor validates its values and
  raises \<open>ValueError\<close> on a contradiction (pydantic's \<open>ValidationError\<close> is one).  The location of a source
  file (\<open>SourceSpec\<close>) is left out.
\<close>

datatype scalar_type = String_Type | Integer_Type | Decimal_Type | Boolean_Type | Date_Type | Datetime_Type

datatype target_mode = Upsert | Create_Only | Reference_Only | Odoo_Pinned_Update

datatype on_existing = Block_Existing | Unchanged_Existing

datatype null_policy = Distinct_Nulls | Equivalent_Nulls | Ignore_Source_Null

datatype scope_null_policy = Reject_Null | Explicit_Scope_Null | Zero_As_Scope_Null

definition value_check :: "bool \<Rightarrow> unit res" where
  "value_check ok = checkr ok ValueError"


section \<open>Targets and scalar fields\<close>

record target_spec =
  ts_model :: string
  ts_mode :: target_mode
  ts_on_existing :: "on_existing option"

definition mk_target_spec :: "target_spec \<Rightarrow> target_spec res" where
  "mk_target_spec t =
     bindr (value_check (3 \<le> length (ts_model t))) (\<lambda>_.
     bindr (value_check (\<not> (ts_mode t = Create_Only \<and> ts_on_existing t = None))) (\<lambda>_.
     bindr (value_check (\<not> (ts_mode t \<noteq> Create_Only \<and> ts_on_existing t \<noteq> None))) (\<lambda>_. Inr t)))"

record normalization_spec =
  ns_trim :: bool
  ns_collapse_whitespace :: bool
  ns_casefold :: bool
  ns_empty_as_null :: bool
  ns_decimal_places :: "int option"
  ns_timezone :: string

definition mk_normalization_spec :: "normalization_spec \<Rightarrow> normalization_spec res" where
  "mk_normalization_spec n =
     bindr (value_check (case ns_decimal_places n of None \<Rightarrow> True | Some p \<Rightarrow> 0 \<le> p \<and> p \<le> 18)) (\<lambda>_. Inr n)"

record field_spec =
  fs_source :: string
  fs_formula :: string
  fs_type :: scalar_type
  fs_required :: bool
  fs_required_on_create :: bool
  fs_compare :: bool
  fs_validate_only :: bool
  fs_compare_only :: "bool option"
  fs_normalize :: normalization_spec
  fs_null_policy :: null_policy

definition max_formula_length :: nat where
  "max_formula_length = 1000"

definition mk_field_spec :: "field_spec \<Rightarrow> field_spec res" where
  "mk_field_spec f =
     bindr (value_check (fs_source f \<noteq> [] \<and> length (fs_formula f) \<le> max_formula_length)) (\<lambda>_.
     bindr (value_check (\<not> (fs_validate_only f \<and> fs_compare f))) (\<lambda>_.
     bindr (value_check (\<not> (fs_compare_only f = Some True \<and> (\<not> fs_validate_only f \<or> fs_compare f)))) (\<lambda>_.
     bindr (value_check (\<not> (fs_type f \<noteq> Decimal_Type \<and> ns_decimal_places (fs_normalize f) \<noteq> None))) (\<lambda>_. Inr f))))"


section \<open>Resolvers\<close>

datatype origin = Incoming | Target | Target_Then_Incoming

fun origin_text :: "origin \<Rightarrow> string" where
  "origin_text Incoming = ''incoming''"
| "origin_text Target = ''target''"
| "origin_text Target_Then_Incoming = ''target_then_incoming''"

record resolve_spec =
  rs_dataset :: "string option"
  rs_target_source_fields :: "string list"
  rs_target_model :: "string option"
  rs_target_fields :: "string list"
  rs_target_scope_fields :: "string list"
  rs_target_value_mappings :: "(string \<times> string) list option"
  rs_incoming_projection_field :: "string option"

definition mk_resolve_spec :: "resolve_spec \<Rightarrow> resolve_spec res" where
  "mk_resolve_spec r =
    (let incoming = rs_dataset r \<noteq> None; target = rs_target_model r \<noteq> None in
     bindr (value_check (incoming \<or> target)) (\<lambda>_.
     bindr (value_check (\<not> (incoming \<and> rs_target_source_fields r = []))) (\<lambda>_.
     bindr (value_check (\<not> (incoming \<and> \<not> target \<and> (rs_target_fields r \<noteq> [] \<or> rs_target_scope_fields r \<noteq> [])))) (\<lambda>_.
     bindr (value_check (\<not> (target \<and> rs_target_fields r = []))) (\<lambda>_.
     bindr (case rs_target_value_mappings r of None \<Rightarrow> Inr () | Some ms \<Rightarrow>
       bindr (value_check (incoming \<and> target)) (\<lambda>_.
       bindr (value_check (length (rs_target_fields r) = 1 \<and> rs_target_scope_fields r = [])) (\<lambda>_.
       value_check (distinct (map fst ms) \<and> (\<forall>(source, target_value) \<in> set ms. source \<noteq> [] \<and> target_value \<noteq> [])))))
       (\<lambda>_.
     bindr (case rs_incoming_projection_field r of None \<Rightarrow> Inr () | Some p \<Rightarrow>
       bindr (value_check (incoming \<and> target)) (\<lambda>_. value_check (strip p \<noteq> []))) (\<lambda>_. Inr r)))))))"

definition resolve_origin :: "resolve_spec \<Rightarrow> origin" where
  "resolve_origin r = (if rs_dataset r \<noteq> None \<and> rs_target_model r \<noteq> None then Target_Then_Incoming
     else if rs_dataset r \<noteq> None then Incoming else Target)"

text \<open>The dataset of a resolver as the code looks it up; \<open>str(None)\<close> is \<open>None\<close>.\<close>

definition resolver_dataset_name :: "resolve_spec \<Rightarrow> string" where
  "resolver_dataset_name r = (case rs_dataset r of None \<Rightarrow> ''None'' | Some name \<Rightarrow> name)"

text \<open>The fields a target lookup reads: the key, then its scope.\<close>

definition resolved_fields :: "resolve_spec \<Rightarrow> string list" where
  "resolved_fields r = rs_target_fields r @ rs_target_scope_fields r"


section \<open>Relations\<close>

datatype relation_kind = Many2one | Many2many

datatype value_source = Source_Values | Constant_Existing

datatype blank_action = Source_Rules | Leave_Blank

datatype missing_policy = Error_On | Warning_On

datatype relation_operation = Replace_Links | Add_Links | Remove_Links

record relation_spec =
  rl_kind :: relation_kind
  rl_source_fields :: "string list"
  rl_resolve :: resolve_spec
  rl_value_source :: value_source
  rl_constant_key_values :: "string list"
  rl_constant_scope_values :: "string list"
  rl_blank_source_values :: "string list"
  rl_blank_source_action :: blank_action
  rl_blank_create_values :: "string list option"
  rl_compare :: bool
  rl_validate_only :: bool
  rl_required :: bool
  rl_required_on_create :: bool
  rl_on_missing :: missing_policy
  rl_on_ambiguous :: missing_policy
  rl_operation :: relation_operation
  rl_separator :: string
  rl_null_policy :: null_policy

definition check_blank_rules :: "relation_spec \<Rightarrow> unit res" where
  "check_blank_rules r =
     bindr (value_check (\<not> (rl_blank_source_values r \<noteq> [] \<and> (rl_kind r \<noteq> Many2one \<or> rl_value_source r \<noteq> Source_Values
       \<or> length (rl_source_fields r) \<noteq> 1 \<or> rl_required r \<or> rl_required_on_create r)))) (\<lambda>_.
     bindr (value_check (\<not> (rl_blank_source_values r \<noteq> [] \<and> rl_null_policy r = Ignore_Source_Null))) (\<lambda>_.
     case rl_blank_create_values r of None \<Rightarrow> Inr () | Some vs \<Rightarrow>
       value_check (\<not> (rl_kind r \<noteq> Many2one \<or> rl_validate_only r \<or> rl_required r \<or> rl_value_source r \<noteq> Source_Values
         \<or> resolve_origin (rl_resolve r) \<noteq> Target \<or> rl_blank_source_values r \<noteq> []
         \<or> rs_target_model (rl_resolve r) \<in> {None, Some []}
         \<or> (vs \<noteq> [] \<and> (length vs \<noteq> length (rs_target_fields (rl_resolve r)) + length (rs_target_scope_fields (rl_resolve r))
              \<or> (\<exists>v \<in> set vs. strip v = [])))))))"

definition check_value_source :: "relation_spec \<Rightarrow> unit res" where
  "check_value_source r =
    (if rl_value_source r = Source_Values then
       bindr (value_check (rl_source_fields r \<noteq> [])) (\<lambda>_.
       value_check (rl_constant_key_values r = [] \<and> rl_constant_scope_values r = []))
     else
       bindr (value_check (rl_source_fields r = [])) (\<lambda>_.
       bindr (value_check (resolve_origin (rl_resolve r) = Target)) (\<lambda>_.
       bindr (value_check (length (rl_constant_key_values r) = length (rs_target_fields (rl_resolve r)))) (\<lambda>_.
       bindr (value_check (length (rl_constant_scope_values r) = length (rs_target_scope_fields (rl_resolve r)))) (\<lambda>_.
       value_check (\<not> (rl_constant_key_values r = []
         \<or> (\<exists>v \<in> set (rl_constant_key_values r @ rl_constant_scope_values r). strip v = []))))))))"

definition mk_relation_spec :: "relation_spec \<Rightarrow> relation_spec res" where
  "mk_relation_spec r =
     bindr (check_blank_rules r) (\<lambda>_.
     bindr (check_value_source r) (\<lambda>_.
     bindr (value_check (\<not> (rl_validate_only r \<and> rl_compare r))) (\<lambda>_.
     bindr (value_check (\<not> (rl_kind r = Many2one \<and> rl_operation r \<noteq> Replace_Links))) (\<lambda>_.
     bindr (value_check (\<not> (rl_kind r = Many2many \<and> rl_value_source r = Source_Values
       \<and> length (rl_source_fields r) \<noteq> 1))) (\<lambda>_.
     bindr (value_check (\<not> (rl_value_source r = Constant_Existing \<and> rl_operation r \<noteq> Replace_Links))) (\<lambda>_.
     bindr (value_check (\<not> ((rl_compare r \<or> rl_required r \<or> rl_required_on_create r) \<and> rl_on_missing r \<noteq> Error_On))) (\<lambda>_.
     bindr (value_check (\<not> (rl_compare r \<and> rl_on_ambiguous r \<noteq> Error_On))) (\<lambda>_. Inr r))))))))"

text \<open>\<open>blank_create_reference\<close> (\<open>domain/preparation/create_relationships.py\<close>): the lookup of the existing record
  that a blank value creates a link to.\<close>

definition blank_create_reference :: "relation_spec \<Rightarrow> pvalue option" where
  "blank_create_reference r = (case rl_blank_create_values r of
     None \<Rightarrow> None
   | Some vs \<Rightarrow> if vs = [] then None else
       (let resolve = rl_resolve r; width = length (rs_target_fields resolve) in
        Some (PLogical ''target'' (map PText (take width vs)) None (rs_target_model resolve)
          (rs_target_fields resolve) (rs_target_scope_fields resolve) (map PText (drop width vs)) None)))"


section \<open>Identities and datasets\<close>

record identity_component =
  ic_source_fields :: "string list"
  ic_target_fields :: "string list"
  ic_type :: scalar_type
  ic_normalize :: normalization_spec
  ic_resolve :: "resolve_spec option"
  ic_null_policy :: scope_null_policy

definition mk_identity_component :: "identity_component \<Rightarrow> identity_component res" where
  "mk_identity_component c =
     bindr (value_check (ic_source_fields c \<noteq> [] \<and> ic_target_fields c \<noteq> [])) (\<lambda>_.
     bindr (value_check (\<not> (ic_resolve c = None \<and> length (ic_source_fields c) \<noteq> length (ic_target_fields c)))) (\<lambda>_.
     bindr (value_check (\<not> (ic_resolve c \<noteq> None \<and> length (ic_target_fields c) \<noteq> 1))) (\<lambda>_.
     bindr (value_check (\<not> (ic_null_policy c \<noteq> Reject_Null \<and> ic_resolve c = None))) (\<lambda>_. Inr c))))"

record target_identity_spec =
  ti_components :: "identity_component list"
  ti_scope :: "identity_component list"

definition mk_target_identity_spec :: "target_identity_spec \<Rightarrow> target_identity_spec res" where
  "mk_target_identity_spec t =
     bindr (value_check (\<not> (\<exists>c \<in> set (ti_components t). ic_null_policy c \<noteq> Reject_Null))) (\<lambda>_. Inr t)"

record dataset_spec =
  ds_name :: string
  ds_target :: target_spec
  ds_source_identity :: "string list"
  ds_target_identity :: target_identity_spec
  ds_fields :: "(string \<times> field_spec) list"
  ds_relations :: "(string \<times> relation_spec) list"
  ds_target_domain :: domain

text \<open>\<open>^[a-z][a-z0-9_]*$\<close> and \<open>^[a-z][a-z0-9_-]*$\<close>.\<close>

definition dataset_name :: "string \<Rightarrow> bool" where
  "dataset_name s = (case s of [] \<Rightarrow> False
     | c # cs \<Rightarrow> is_lower c \<and> list_all (\<lambda>d. is_lower d \<or> is_digit d \<or> d = CHR ''_'') cs)"

definition profile_name :: "string \<Rightarrow> bool" where
  "profile_name s = (case s of [] \<Rightarrow> False
     | c # cs \<Rightarrow> is_lower c \<and> list_all (\<lambda>d. is_lower d \<or> is_digit d \<or> d = CHR ''_'' \<or> d = CHR ''-'') cs)"

definition mk_dataset_spec :: "dataset_spec \<Rightarrow> dataset_spec res" where
  "mk_dataset_spec d =
    (let pinned = (ts_mode (ds_target d) = Odoo_Pinned_Update);
         identity = ds_target_identity d in
     bindr (value_check (dataset_name (ds_name d))) (\<lambda>_.
     bindr (value_check (\<not> (\<exists>f \<in> set (map fst (ds_fields d)). f \<in> set (map fst (ds_relations d))))) (\<lambda>_.
     bindr (value_check (\<not> (pinned \<and> (ds_source_identity d \<noteq> [] \<or> ti_components identity \<noteq> []
       \<or> ti_scope identity \<noteq> [] \<or> ds_relations d \<noteq> [])))) (\<lambda>_.
     bindr (value_check (\<not> (\<not> pinned \<and> (ds_source_identity d = [] \<or> ti_components identity = [])))) (\<lambda>_. Inr d)))))"

text \<open>The identity components and the scope, in the order the code joins them, and every resolver of a dataset.\<close>

definition identity_parts :: "dataset_spec \<Rightarrow> identity_component list" where
  "identity_parts d = ti_components (ds_target_identity d) @ ti_scope (ds_target_identity d)"

definition resolvers :: "dataset_spec \<Rightarrow> resolve_spec list" where
  "resolvers d = List.map_filter ic_resolve (identity_parts d) @ map (rl_resolve \<circ> snd) (ds_relations d)"

definition dataset_target_fields :: "dataset_spec \<Rightarrow> string list" where
  "dataset_target_fields d = map fst (ds_fields d) @ map fst (ds_relations d)
     @ concat (map ic_target_fields (identity_parts d))"

text \<open>\<open>dataset(name)\<close> of a profile or a compiled plan; \<open>KeyError\<close> is a \<open>LookupError\<close>.\<close>

definition find_dataset :: "dataset_spec list \<Rightarrow> string \<Rightarrow> dataset_spec res" where
  "find_dataset ds name = (case List.find (\<lambda>d. ds_name d = name) ds of None \<Rightarrow> Inl LookupError | Some d \<Rightarrow> Inr d)"


section \<open>Validated values\<close>

text \<open>What holds of a value its constructor returned, with the values it contains.\<close>

definition resolve_ok :: "resolve_spec \<Rightarrow> bool" where
  "resolve_ok r \<longleftrightarrow> mk_resolve_spec r = Inr r"

definition component_ok :: "identity_component \<Rightarrow> bool" where
  "component_ok c \<longleftrightarrow> mk_identity_component c = Inr c \<and> (\<forall>r. ic_resolve c = Some r \<longrightarrow> resolve_ok r)"

definition relation_ok :: "relation_spec \<Rightarrow> bool" where
  "relation_ok r \<longleftrightarrow> mk_relation_spec r = Inr r \<and> resolve_ok (rl_resolve r)"

definition dataset_ok :: "dataset_spec \<Rightarrow> bool" where
  "dataset_ok d \<longleftrightarrow> mk_dataset_spec d = Inr d \<and> mk_target_identity_spec (ds_target_identity d) = Inr (ds_target_identity d)
     \<and> (\<forall>c \<in> set (identity_parts d). component_ok c) \<and> (\<forall>(_, r) \<in> set (ds_relations d). relation_ok r)
     \<and> distinct (map fst (ds_fields d)) \<and> distinct (map fst (ds_relations d))"

lemma value_check_Inr [res_simps]: "value_check ok = Inr () \<longleftrightarrow> ok"
  by (simp add: value_check_def res_simps)

end
