(* ===== verification/Dataset_Graph.thy ===== *)
theory Dataset_Graph
imports Profile
begin

text \<open>
  Dependencies between datasets (\<open>domain/relationship_dependencies.py\<close>) and the validation of a dataset graph
  (\<open>validate_dataset_graph\<close> and \<open>ProfileDocument\<close> of \<open>domain/recipe/profile.py\<close>), for compiled datasets.  The
  depth-first search of \<open>required_cross_dataset_cycle\<close> keeps the code's visited set, active path and order;
  its fuel bounds the depth of the path by the number of datasets.
\<close>


section \<open>Edges\<close>

datatype dependency_strength = Hard | Deferrable

datatype dependency_source = Target_Identity | Target_Scope | Relationship

fun strength_text :: "dependency_strength \<Rightarrow> string" where
  "strength_text Hard = ''hard''"
| "strength_text Deferrable = ''deferrable''"

fun source_text :: "dependency_source \<Rightarrow> string" where
  "source_text Target_Identity = ''target_identity''"
| "source_text Target_Scope = ''target_scope''"
| "source_text Relationship = ''relationship''"

datatype dataset_dependency_edge = Dependency (owner_dataset: string) (dependency_dataset: string)
  (target_field: string) (edge_source: dependency_source) (edge_strength: dependency_strength)

definition is_self_reference :: "dataset_dependency_edge \<Rightarrow> bool" where
  "is_self_reference e = (owner_dataset e = dependency_dataset e)"

text \<open>Edges in the order of \<open>_edge_sort_key\<close>.\<close>

definition edge_sort_key :: "dataset_dependency_edge \<Rightarrow> string \<times> string \<times> string \<times> string \<times> string" where
  "edge_sort_key e = (owner_dataset e, dependency_dataset e, source_text (edge_source e), target_field e,
     strength_text (edge_strength e))"

lemma source_text_inject [simp]: "source_text a = source_text b \<longleftrightarrow> a = b"
  by (cases a; cases b) simp_all

lemma strength_text_inject [simp]: "strength_text a = strength_text b \<longleftrightarrow> a = b"
  by (cases a; cases b) simp_all

lemma edge_sort_key_inject [simp]: "edge_sort_key e = edge_sort_key e' \<longleftrightarrow> e = e'"
  by (cases e; cases e') (auto simp: edge_sort_key_def)

instantiation dataset_dependency_edge :: linorder
begin

definition less_eq_dataset_dependency_edge :: "dataset_dependency_edge \<Rightarrow> dataset_dependency_edge \<Rightarrow> bool" where
  "less_eq_dataset_dependency_edge e e' = (edge_sort_key e \<le> edge_sort_key e')"

definition less_dataset_dependency_edge :: "dataset_dependency_edge \<Rightarrow> dataset_dependency_edge \<Rightarrow> bool" where
  "less_dataset_dependency_edge e e' = (edge_sort_key e < edge_sort_key e')"

instance
proof
  fix a b c :: dataset_dependency_edge
  show "(a < b) = (a \<le> b \<and> \<not> b \<le> a)" 
    by (simp add: less_eq_dataset_dependency_edge_def less_dataset_dependency_edge_def less_le_not_le)
  show "a \<le> a" by (simp add: less_eq_dataset_dependency_edge_def)
  show "a \<le> b \<Longrightarrow> b \<le> c \<Longrightarrow> a \<le> c" unfolding less_eq_dataset_dependency_edge_def by (rule order_trans)
  show "a \<le> b \<Longrightarrow> b \<le> a \<Longrightarrow> a = b" unfolding less_eq_dataset_dependency_edge_def by (metis antisym edge_sort_key_inject)
  show "a \<le> b \<or> b \<le> a" unfolding less_eq_dataset_dependency_edge_def by (rule linear)
qed

end

text \<open>\<open>_incoming_dataset(_resolver(...))\<close>: an empty name is no dataset.\<close>

definition incoming_dataset :: "resolve_spec option \<Rightarrow> string option" where
  "incoming_dataset r = (case r of None \<Rightarrow> None
     | Some rs \<Rightarrow> (case rs_dataset rs of Some name \<Rightarrow> if name = [] then None else Some name | None \<Rightarrow> None))"

definition component_target_field :: "identity_component \<Rightarrow> string" where
  "component_target_field c = commas (ic_target_fields c)"

definition component_edges :: "string \<Rightarrow> dependency_source \<Rightarrow> identity_component list \<Rightarrow> dataset_dependency_edge list" where
  "component_edges owner source cs = List.map_filter (\<lambda>c. map_option (\<lambda>dep.
     Dependency owner dep (component_target_field c) source Hard) (incoming_dataset (ic_resolve c))) cs"

definition relation_edges :: "string \<Rightarrow> string list \<Rightarrow> (string \<times> relation_spec) list \<Rightarrow> dataset_dependency_edge list" where
  "relation_edges owner captured rels = List.map_filter (\<lambda>(field, rel). map_option (\<lambda>dep.
     Dependency owner dep field Relationship
       (if rl_required_on_create rel \<or> field \<in> set captured then Hard else Deferrable))
     (incoming_dataset (Some (rl_resolve rel)))) rels"

definition dataset_edges :: "(string \<times> string list) list \<Rightarrow> dataset_spec \<Rightarrow> dataset_dependency_edge list res" where
  "dataset_edges captured d =
    (if ds_name d = [] then Inl ValueError
     else Inr (component_edges (ds_name d) Target_Identity (ti_components (ds_target_identity d))
       @ component_edges (ds_name d) Target_Scope (ti_scope (ds_target_identity d))
       @ relation_edges (ds_name d) (dict_get captured (ts_model (ds_target d)) []) (ds_relations d)))"

definition extract_dataset_dependency_edges ::
    "dataset_spec list \<Rightarrow> (string \<times> string list) list \<Rightarrow> dataset_dependency_edge list res" where
  "extract_dataset_dependency_edges ds captured =
     bindr (mapr (dataset_edges captured) ds) (\<lambda>es. Inr (sorted_set (concat es)))"

definition dependency_sets_by_owner :: "dataset_dependency_edge list \<Rightarrow> (string \<times> string list) list" where
  "dependency_sets_by_owner edges =
    (let result = fold (\<lambda>e d. dict_add d (owner_dataset e) (dependency_dataset e)) edges [] in
     map (\<lambda>(owner, deps). (owner, sorted_set deps)) (sort_key fst result))"


section \<open>Search for a required cycle\<close>

definition hard_graph :: "dataset_dependency_edge list \<Rightarrow> string list \<Rightarrow> (string \<times> string list) list" where
  "hard_graph edges known =
     fold (\<lambda>e g. if edge_strength e = Hard \<and> \<not> is_self_reference e \<and> owner_dataset e \<in> set known
                    \<and> dependency_dataset e \<in> set known
                 then dict_add g (owner_dataset e) (dependency_dataset e) else g)
       edges (map (\<lambda>n. (n, [])) (remdups known))"

record search_state =
  se_visited :: "string list"
  se_active :: "(string \<times> nat) list"
  se_path :: "string list"

text \<open>\<open>visit\<close>: the recursive calls of the dependencies run while none has found a cycle.\<close>

fun visit :: "nat \<Rightarrow> (string \<times> string list) list \<Rightarrow> string \<Rightarrow> search_state \<Rightarrow> (string list option \<times> search_state) option"
  and visit_all :: "nat \<Rightarrow> (string \<times> string list) list \<Rightarrow> string list \<Rightarrow> search_state
    \<Rightarrow> (string list option \<times> search_state) option" where
  "visit 0 g name st = None"
| "visit (Suc n) g name st =
    (case map_of (se_active st) name of
       Some start \<Rightarrow> Some (Some (drop start (se_path st) @ [name]), st)
     | None \<Rightarrow>
       if name \<in> set (se_visited st) then Some (None, st)
       else (case visit_all n g (sort (dict_get g name []))
               (st\<lparr>se_active := dict_set (se_active st) name (length (se_path st)), se_path := se_path st @ [name]\<rparr>) of
           None \<Rightarrow> None
         | Some (Some cycle, st') \<Rightarrow> Some (Some cycle, st')
         | Some (None, st') \<Rightarrow> Some (None, st'\<lparr>se_path := butlast (se_path st'),
             se_active := AList.delete name (se_active st'), se_visited := List.insert name (se_visited st')\<rparr>)))"
| "visit_all n g [] st = Some (None, st)"
| "visit_all n g (name # names) st =
    (case visit n g name st of
       None \<Rightarrow> None
     | Some (Some cycle, st') \<Rightarrow> Some (Some cycle, st')
     | Some (None, st') \<Rightarrow> visit_all n g names st')"

text \<open>The outer value is \<open>None\<close> only when the fuel runs out.\<close>

definition required_cross_dataset_cycle :: "dataset_dependency_edge list \<Rightarrow> string list \<Rightarrow> string list option option" where
  "required_cross_dataset_cycle edges known =
     map_option fst (visit_all (Suc (length (remdups known))) (hard_graph edges known) (sorted_set known)
       \<lparr>se_visited = [], se_active = [], se_path = []\<rparr>)"


section \<open>The search is exact\<close>

definition hard_relation :: "dataset_dependency_edge list \<Rightarrow> string list \<Rightarrow> (string \<times> string) set" where
  "hard_relation edges known = {(owner_dataset e, dependency_dataset e) | e. e \<in> set edges \<and> edge_strength e = Hard
     \<and> owner_dataset e \<noteq> dependency_dataset e \<and> owner_dataset e \<in> set known \<and> dependency_dataset e \<in> set known}"

lemma dict_rel_add: "dict_rel (dict_add d k x) = insert (k, x) (dict_rel d)"
  by (auto simp: dict_rel_iff dict_get_add split: if_splits)

lemma hard_graph_relation: "dict_rel (hard_graph edges known) = hard_relation edges known"
proof -
  let ?f = "\<lambda>e g. if edge_strength e = Hard \<and> \<not> is_self_reference e \<and> owner_dataset e \<in> set known
      \<and> dependency_dataset e \<in> set known then dict_add g (owner_dataset e) (dependency_dataset e) else g"
  have "dict_rel (fold ?f edges g) = dict_rel g \<union> hard_relation edges known" for g
    by (induction edges arbitrary: g) (auto simp: hard_relation_def dict_rel_add is_self_reference_def)
  moreover have "dict_rel (map (\<lambda>n. (n, [])) (remdups known)) = ({} :: (string \<times> string) set)"
    by (auto simp: dict_rel_iff)
  ultimately show ?thesis by (simp add: hard_graph_def)
qed

definition closed_walk :: "(string \<times> string) set \<Rightarrow> string list \<Rightarrow> bool" where
  "closed_walk G c \<longleftrightarrow> 2 \<le> length c \<and> hd c = last c \<and> distinct (tl c) \<and> successively (\<lambda>a b. (a, b) \<in> G) c"

lemma successively_trancl:
  "successively (\<lambda>a b. (a, b) \<in> G) c \<Longrightarrow> 2 \<le> length c \<Longrightarrow> (hd c, last c) \<in> G\<^sup>+"
proof (induction c)
  case (Cons a c)
  then obtain b bs where c: "c = b # bs" by (cases c) simp_all
  show ?case
  proof (cases bs)
    case Nil
    then show ?thesis using Cons.prems(1) c by auto
  next
    case (Cons b' bs')
    then show ?thesis using Cons.IH Cons.prems(1) c by (auto intro: trancl_into_trancl2)
  qed
qed simp

lemma closed_walk_cycle: "closed_walk G c \<Longrightarrow> (hd c, hd c) \<in> G\<^sup>+"
  by (metis closed_walk_def successively_trancl)

text \<open>The state between two calls: the active path, and visited datasets from which no cycle is reachable.\<close>

definition search_ok :: "(string \<times> string) set \<Rightarrow> search_state \<Rightarrow> bool" where
  "search_ok G st \<longleftrightarrow> distinct (se_path st)
     \<and> (\<forall>m i. map_of (se_active st) m = Some i \<longleftrightarrow> i < length (se_path st) \<and> se_path st ! i = m)
     \<and> successively (\<lambda>a b. (a, b) \<in> G) (se_path st)
     \<and> set (se_path st) \<inter> set (se_visited st) = {}
     \<and> (\<forall>v \<in> set (se_visited st). G `` {v} \<subseteq> set (se_visited st) \<and> (v, v) \<notin> G\<^sup>+)"

definition reaches :: "(string \<times> string) set \<Rightarrow> search_state \<Rightarrow> string \<Rightarrow> bool" where
  "reaches G st m \<longleftrightarrow> se_path st = [] \<or> (last (se_path st), m) \<in> G"

definition search_finished :: "(string \<times> string) set \<Rightarrow> string set \<Rightarrow> search_state \<Rightarrow> string list option \<times> search_state \<Rightarrow> bool" where
  "search_finished G ms st r \<longleftrightarrow> (case r of
     (Some c, _) \<Rightarrow> closed_walk G c
   | (None, st') \<Rightarrow> search_ok G st' \<and> se_path st' = se_path st \<and> map_of (se_active st') = map_of (se_active st)
       \<and> ms \<union> set (se_visited st) \<subseteq> set (se_visited st'))"

lemma search_okD:
  assumes "search_ok G st"
  shows "distinct (se_path st)" "successively (\<lambda>a b. (a, b) \<in> G) (se_path st)"
    "set (se_path st) \<inter> set (se_visited st) = {}"
    "map_of (se_active st) m = Some i \<longleftrightarrow> i < length (se_path st) \<and> se_path st ! i = m"
    "v \<in> set (se_visited st) \<Longrightarrow> G `` {v} \<subseteq> set (se_visited st)"
    "v \<in> set (se_visited st) \<Longrightarrow> (v, v) \<notin> G\<^sup>+"
  using assms unfolding search_ok_def by blast+

lemma search_active_iff:
  assumes "search_ok G st"
  shows "map_of (se_active st) m = None \<longleftrightarrow> m \<notin> set (se_path st)"
  using search_okD(4)[OF assms] by (metis in_set_conv_nth not_None_eq)

lemma found_walk:
  assumes "search_ok G st" "reaches G st name" "map_of (se_active st) name = Some start"
  shows "closed_walk G (drop start (se_path st) @ [name])"
proof -
  note path = search_okD[OF assms(1)]
  have start: "start < length (se_path st)" "se_path st ! start = name"
    using path(4) assms(3) by blast+
  then obtain rest where rest: "drop start (se_path st) = name # rest"
    by (metis Cons_nth_drop_Suc)
  have split: "se_path st = take start (se_path st) @ name # rest"
    using rest append_take_drop_id[of start "se_path st"] by simp
  have "distinct (name # rest)" by (metis split path(1) distinct_append)
  moreover have "successively (\<lambda>a b. (a, b) \<in> G) (name # rest)"
    by (metis split path(2) successively_append_iff)
  moreover have "last (name # rest) = last (se_path st)" using split by (metis last_appendR list.distinct(1))
  moreover have "se_path st \<noteq> []" using start by auto
  then have "(last (se_path st), name) \<in> G" using assms(2) by (simp add: reaches_def)
  ultimately have "successively (\<lambda>a b. (a, b) \<in> G) ((name # rest) @ [name])" "distinct (rest @ [name])"
    unfolding successively_append_iff by auto
  then show ?thesis by (simp add: closed_walk_def rest)
qed

lemma search_enter:
  assumes "search_ok G st" "reaches G st name" "name \<notin> set (se_path st)" "name \<notin> set (se_visited st)"
  shows "search_ok G (st\<lparr>se_active := dict_set (se_active st) name (length (se_path st)),
    se_path := se_path st @ [name]\<rparr>)"
proof -
  note path = search_okD[OF assms(1)]
  have "map_of (dict_set (se_active st) name (length (se_path st))) m = Some i
      \<longleftrightarrow> i < length (se_path st @ [name]) \<and> (se_path st @ [name]) ! i = m" for m i
  proof (cases "m = name")
    case True
    then show ?thesis using assms(3) by (auto simp: map_of_dict_set nth_append less_Suc_eq)
  next
    case False
    then show ?thesis using path(4)[of m i] by (auto simp: map_of_dict_set nth_append less_Suc_eq)
  qed
  moreover have "successively (\<lambda>a b. (a, b) \<in> G) (se_path st @ [name])"
    using path(2) assms(2) by (auto simp: successively_append_iff reaches_def)
  ultimately show ?thesis
    using path assms(3,4) by (simp add: search_ok_def)
qed

lemma closed_reach:
  assumes "(a, b) \<in> G\<^sup>*" "a \<in> V" "\<And>v. v \<in> V \<Longrightarrow> G `` {v} \<subseteq> V"
  shows "b \<in> V"
  using assms(1,2) by (induction rule: rtrancl_induct) (use assms(3) in auto)

lemma search_leave:
  assumes "search_ok G st'" "se_path st' = path @ [name]" "G `` {name} \<subseteq> set (se_visited st')"
    "map_of (se_active st') = m(name \<mapsto> i)" "m name = None"
  shows "search_ok G (st'\<lparr>se_path := butlast (se_path st'), se_active := AList.delete name (se_active st'),
      se_visited := List.insert name (se_visited st')\<rparr>)"
    "map_of (AList.delete name (se_active st')) = m"
proof -
  note ok = search_okD[OF assms(1)]
  show m: "map_of (AList.delete name (se_active st')) = m"
    using assms(4,5) by (simp add: delete_conv' fun_eq_iff)
  have fresh: "name \<notin> set (se_visited st')" using ok(3) assms(2) by auto
  have "(name, name) \<notin> G\<^sup>+"
  proof
    assume "(name, name) \<in> G\<^sup>+"
    then obtain s where "(name, s) \<in> G" "(s, name) \<in> G\<^sup>*" by (meson tranclD)
    then show False using closed_reach[of s name G "set (se_visited st')"] ok(5) assms(3) fresh by blast
  qed
  moreover have "m k = Some j \<longleftrightarrow> j < length path \<and> path ! j = k" for k j
    using ok(4)[of k j] ok(1) assms(2,4,5) nth_mem[of j path] by (auto simp: nth_append split: if_splits)
  moreover have "G `` {v} \<subseteq> set (List.insert name (se_visited st')) \<and> (v, v) \<notin> G\<^sup>+"
    if "v \<in> set (List.insert name (se_visited st'))" for v
    using that calculation(1) ok(5,6)[of v] assms(3) by (cases "v = name") auto
  ultimately show "search_ok G (st'\<lparr>se_path := butlast (se_path st'), se_active := AList.delete name (se_active st'),
      se_visited := List.insert name (se_visited st')\<rparr>)"
    using ok(1,2,3) assms(2) unfolding search_ok_def
    by (simp add: m successively_append_iff Int_commute)
qed

lemma reaches_same_path: "se_path st' = se_path st \<Longrightarrow> reaches G st' m \<longleftrightarrow> reaches G st m"
  by (simp add: reaches_def)

lemma visit_finished:
  "visit n g name st = Some r \<Longrightarrow> search_ok (dict_rel g) st \<Longrightarrow> reaches (dict_rel g) st name
    \<Longrightarrow> search_finished (dict_rel g) {name} st r"
  "visit_all n g names st = Some r \<Longrightarrow> search_ok (dict_rel g) st \<Longrightarrow> (\<forall>m \<in> set names. reaches (dict_rel g) st m)
    \<Longrightarrow> search_finished (dict_rel g) (set names) st r"
proof (induction n g name st and n g names st arbitrary: r and r rule: visit_visit_all.induct)
  case (2 n g name st)
  note ok = 2(3)
  show ?case
  proof (cases "map_of (se_active st) name")
    case (Some start)
    then show ?thesis using 2(2) found_walk[OF ok 2(4) Some] by (auto simp: search_finished_def)
  next
    case None
    show ?thesis
    proof (cases "name \<in> set (se_visited st)")
      case True
      then show ?thesis using 2(2) ok None by (auto simp: search_finished_def)
    next
      case False
      let ?st = "st\<lparr>se_active := dict_set (se_active st) name (length (se_path st)), se_path := se_path st @ [name]\<rparr>"
      have enter: "search_ok (dict_rel g) ?st"
        using search_enter[OF ok 2(4) _ False] search_active_iff[OF ok] None by simp
      have "\<forall>m \<in> set (sort (dict_get g name [])). reaches (dict_rel g) ?st m"
        by (simp add: reaches_def dict_rel_iff)
      then obtain r' where r': "visit_all n g (sort (dict_get g name [])) ?st = Some r'"
          "search_finished (dict_rel g) (set (dict_get g name [])) ?st r'"
        using 2(1)[OF None False _ enter] 2(2) None False by (auto split: option.splits)
      show ?thesis
      proof (cases "fst r'")
        case (Some c)
        then show ?thesis using r' 2(2) None False by (cases r') (auto simp: search_finished_def split: option.splits)
      next
        case nothing: None
        then obtain st' where st': "r' = (None, st')" by (cases r') simp
        have fin: "search_ok (dict_rel g) st'" "se_path st' = se_path st @ [name]"
            "map_of (se_active st') = (map_of (se_active st))(name \<mapsto> length (se_path st))"
            "set (dict_get g name []) \<subseteq> set (se_visited st')" "set (se_visited st) \<subseteq> set (se_visited st')"
          using r'(2) by (auto simp: search_finished_def st' map_of_dict_set)
        then have image: "dict_rel g `` {name} \<subseteq> set (se_visited st')" by (auto simp: dict_rel_iff)
        show ?thesis
          using 2(2) None False r'(1) st' search_leave[OF fin(1,2) image fin(3) None] fin(2,5)
          by (auto simp: search_finished_def)
      qed
    qed
  qed
next
  case (4 n g name names st)
  obtain r1 where r1: "visit n g name st = Some r1" "search_finished (dict_rel g) {name} st r1"
    using 4(1)[of _] 4(3,4,5) by (cases "visit n g name st") auto
  show ?case
  proof (cases r1)
    case (Pair c st')
    show ?thesis
    proof (cases c)
      case (Some w)
      then show ?thesis using 4(3) r1 Pair by (auto simp: search_finished_def)
    next
      case None
      have fin: "search_ok (dict_rel g) st'" "se_path st' = se_path st"
          "map_of (se_active st') = map_of (se_active st)" "insert name (set (se_visited st)) \<subseteq> set (se_visited st')"
        using r1(2) Pair None by (auto simp: search_finished_def)
      have "search_finished (dict_rel g) (set names) st' r"
        using 4(2)[of "(c, st')" c st' r] r1(1) Pair None 4(3,5) fin(1) reaches_same_path[OF fin(2)] by simp
      then show ?thesis using fin by (auto simp: search_finished_def split: option.splits)
    qed
  qed
qed (auto simp: search_finished_def)

lemma visit_fuel:
  fixes N :: "string set"
  assumes "finite N" "snd ` dict_rel g \<subseteq> N"
  shows "search_ok (dict_rel g) st \<Longrightarrow> set (se_path st) \<subseteq> N \<Longrightarrow> reaches (dict_rel g) st name \<Longrightarrow> name \<in> N
      \<Longrightarrow> card N < n + length (se_path st) \<Longrightarrow> visit n g name st \<noteq> None"
    "search_ok (dict_rel g) st \<Longrightarrow> set (se_path st) \<subseteq> N \<Longrightarrow> \<forall>m \<in> set names. reaches (dict_rel g) st m \<and> m \<in> N
      \<Longrightarrow> card N < n + length (se_path st) \<Longrightarrow> visit_all n g names st \<noteq> None"
  using assms(2)
proof (induction n g name st and n g names st rule: visit_visit_all.induct)
  case (1 g name st)
  have "length (se_path st) = card (set (se_path st))" using search_okD(1)[OF 1(1)] by (simp add: distinct_card)
  also have "\<dots> \<le> card N" using 1(2) assms(1) by (simp add: card_mono)
  finally show ?case using 1(5) by simp
next
  case (2 n g name st)
  show ?case
  proof (cases "map_of (se_active st) name = None \<and> name \<notin> set (se_visited st)")
    case True
    let ?st = "st\<lparr>se_active := dict_set (se_active st) name (length (se_path st)), se_path := se_path st @ [name]\<rparr>"
    have "search_ok (dict_rel g) ?st"
      using search_enter[OF 2(2,4)] search_active_iff[OF 2(2)] True by simp
    moreover have "reaches (dict_rel g) ?st m \<and> m \<in> N" if "m \<in> set (dict_get g name [])" for m
    proof -
      have edge: "(name, m) \<in> dict_rel g" using that by (simp add: dict_rel_iff)
      then show ?thesis using subsetD[OF 2(7) image_eqI[OF _ edge]] by (simp add: reaches_def)
    qed
    ultimately have "visit_all n g (sort (dict_get g name [])) ?st \<noteq> None"
      using True 2(3,5,6,7) by (intro 2(1)) simp_all
    then show ?thesis using True by (auto split: option.splits)
  qed (auto split: option.splits)
next
  case (4 n g name names st)
  have "visit n g name st \<noteq> None" by (rule 4(1)) (use 4(3-7) in simp_all)
  then obtain c st' where r1: "visit n g name st = Some (c, st')" by auto
  show ?case
  proof (cases c)
    case None
    have "search_finished (dict_rel g) {name} st (None, st')"
      using visit_finished(1)[OF r1 4(3)] 4(5) None by simp
    then have fin: "search_ok (dict_rel g) st'" "se_path st' = se_path st" by (auto simp: search_finished_def)
    have "visit_all n g names st' \<noteq> None"
      by (rule 4(2)[of "(c, st')", OF _ _ None]) (use r1 None fin reaches_same_path[OF fin(2)] 4(4-7) in simp_all)
    then show ?thesis using r1 None by simp
  qed (simp add: r1)
qed auto

text \<open>The search always returns.  It finds nothing exactly when the hard references between distinct known
  datasets have no cycle, and otherwise returns a closed walk along them that passes through no dataset twice.\<close>

lemma cycle_search:
  "case required_cross_dataset_cycle edges known of
     Some None \<Rightarrow> acyclic (hard_relation edges known)
   | Some (Some c) \<Rightarrow> closed_walk (hard_relation edges known) c
   | None \<Rightarrow> False"
proof -
  let ?G = "hard_relation edges known" and ?g = "hard_graph edges known"
  let ?st = "\<lparr>se_visited = [], se_active = [], se_path = []\<rparr>"
  have start: "search_ok ?G ?st" "\<And>m. reaches ?G ?st m" by (simp_all add: search_ok_def reaches_def)
  have known: "snd ` ?G \<subseteq> set known" "fst ` ?G \<subseteq> set known" by (auto simp: hard_relation_def)
  have "visit_all (Suc (length (remdups known))) ?g (sorted_set known) ?st \<noteq> None"
    using visit_fuel(2)[of "set known" ?g ?st "sorted_set known"] start known
    by (simp add: hard_graph_relation sorted_set_def length_remdups_card_conv)
  then obtain r st' where r: "visit_all (Suc (length (remdups known))) ?g (sorted_set known) ?st = Some (r, st')"
    by auto
  then have fin: "search_finished ?G (set known) ?st (r, st')"
    using visit_finished(2)[OF r] start by (simp add: hard_graph_relation sorted_set_def)
  show ?thesis
  proof (cases r)
    case (Some c)
    then show ?thesis using fin r by (simp add: required_cross_dataset_cycle_def search_finished_def)
  next
    case None
    then have ok: "search_ok ?G st'" "set known \<subseteq> set (se_visited st')" using fin by (auto simp: search_finished_def)
    have "(v, v) \<notin> ?G\<^sup>+" for v
    proof
      assume cycle: "(v, v) \<in> ?G\<^sup>+"
      then have "v \<in> set known" using known(2) by (force dest: tranclD)
      then show False using cycle search_okD(6)[OF ok(1)] ok(2) by blast
    qed
    then show ?thesis using r None by (simp add: required_cross_dataset_cycle_def acyclic_def)
  qed
qed


section \<open>Validation of a dataset graph\<close>

definition check_scope_nulls :: "dataset_spec \<Rightarrow> unit res" where
  "check_scope_nulls d = value_check (\<not> (\<exists>c \<in> set (ti_scope (ds_target_identity d)). ic_null_policy c \<noteq> Reject_Null
     \<and> (map_option rs_dataset (ic_resolve c) \<noteq> Some (Some (ds_name d))
        \<or> ic_null_policy c = Zero_As_Scope_Null \<and> length (ic_source_fields c) \<noteq> 1)))"

definition check_resolved_fields :: "(string \<times> dataset_spec) list \<Rightarrow> dataset_spec \<Rightarrow> unit res" where
  "check_resolved_fields by_name d = value_check (\<not> (\<exists>r \<in> set (resolvers d).
     case rs_dataset r of None \<Rightarrow> False
     | Some name \<Rightarrow> (case map_of by_name name of None \<Rightarrow> False
       | Some target \<Rightarrow> rs_target_source_fields r \<noteq> ds_source_identity target)))"

definition check_dataset_references :: "(string \<times> dataset_spec) list \<Rightarrow> unit \<Rightarrow> dataset_spec \<Rightarrow> unit res" where
  "check_dataset_references by_name u d = bindr (check_scope_nulls d) (\<lambda>_. check_resolved_fields by_name d)"

definition validate_dataset_graph :: "dataset_spec list \<Rightarrow> unit res" where
  "validate_dataset_graph ds =
    (let by_name = fold (\<lambda>d m. if map_of m (ds_name d) = None then dict_set m (ds_name d) d else m) ds [];
         known = map fst by_name in
     bindr (value_check (distinct (map ds_name ds))) (\<lambda>_.
     bindr (extract_dataset_dependency_edges ds []) (\<lambda>edges.
     bindr (value_check (List.find (\<lambda>e. dependency_dataset e \<notin> set known) edges = None)) (\<lambda>_.
     bindr (foldr_res (check_dataset_references by_name) () ds) (\<lambda>_.
     case required_cross_dataset_cycle edges known of
       Some None \<Rightarrow> Inr () | _ \<Rightarrow> Inl ValueError)))))"

record profile_document =
  pd_id :: string
  pd_description :: "string option"
  pd_datasets :: "dataset_spec list"

definition mk_profile_document :: "profile_document \<Rightarrow> profile_document res" where
  "mk_profile_document p =
     bindr (value_check (profile_name (pd_id p) \<and> pd_datasets p \<noteq> [])) (\<lambda>_.
     bindr (validate_dataset_graph (pd_datasets p)) (\<lambda>_. Inr p))"

text \<open>The same conditions, without an order of checks, a search or edges.\<close>

definition declared_reference :: "dataset_spec \<Rightarrow> string \<Rightarrow> bool" where
  "declared_reference d name \<longleftrightarrow> name \<noteq> [] \<and> (\<exists>r \<in> set (resolvers d). rs_dataset r = Some name)"

definition required_reference :: "dataset_spec \<Rightarrow> string \<Rightarrow> bool" where
  "required_reference d name \<longleftrightarrow> name \<noteq> [] \<and>
     ((\<exists>c \<in> set (identity_parts d). map_option rs_dataset (ic_resolve c) = Some (Some name))
      \<or> (\<exists>(f, r) \<in> set (ds_relations d). rl_required_on_create r \<and> rs_dataset (rl_resolve r) = Some name))"

definition sound_graph :: "dataset_spec list \<Rightarrow> bool" where
  "sound_graph ds \<longleftrightarrow> distinct (map ds_name ds) \<and> [] \<notin> set (map ds_name ds)
     \<and> (\<forall>d \<in> set ds. \<forall>name. declared_reference d name \<longrightarrow> name \<in> set (map ds_name ds))
     \<and> (\<forall>d \<in> set ds. \<forall>c \<in> set (ti_scope (ds_target_identity d)). ic_null_policy c \<noteq> Reject_Null \<longrightarrow>
          map_option rs_dataset (ic_resolve c) = Some (Some (ds_name d))
          \<and> (ic_null_policy c = Zero_As_Scope_Null \<longrightarrow> length (ic_source_fields c) = 1))
     \<and> (\<forall>d \<in> set ds. \<forall>r \<in> set (resolvers d). \<forall>target \<in> set ds. rs_dataset r = Some (ds_name target) \<longrightarrow>
          rs_target_source_fields r = ds_source_identity target)
     \<and> acyclic {(ds_name d, name) | d name. d \<in> set ds \<and> required_reference d name \<and> name \<noteq> ds_name d}"

lemma set_map_filter_option: "set (List.map_filter f xs) = {y. \<exists>x \<in> set xs. f x = Some y}"
  by (induction xs) (auto simp: map_filter_simps split: option.splits)

lemma incoming_dataset_Some [simp]:
  "incoming_dataset r = Some name \<longleftrightarrow> name \<noteq> [] \<and> map_option rs_dataset r = Some (Some name)"
  by (auto simp: incoming_dataset_def split: option.splits)

lemma set_component_edges: "set (component_edges owner source cs) = {Dependency owner name (component_target_field c) source Hard
    | c name. c \<in> set cs \<and> name \<noteq> [] \<and> map_option rs_dataset (ic_resolve c) = Some (Some name)}"
  by (auto simp: component_edges_def set_map_filter_option)

lemma set_relation_edges: "set (relation_edges owner captured rels) = {Dependency owner name f Relationship
      (if rl_required_on_create r \<or> f \<in> set captured then Hard else Deferrable)
    | f r name. (f, r) \<in> set rels \<and> name \<noteq> [] \<and> rs_dataset (rl_resolve r) = Some name}"
  by (force simp: relation_edges_def set_map_filter_option)

definition edges_of :: "dataset_spec \<Rightarrow> dataset_dependency_edge set" where
  "edges_of d = set (component_edges (ds_name d) Target_Identity (ti_components (ds_target_identity d))
       @ component_edges (ds_name d) Target_Scope (ti_scope (ds_target_identity d))
       @ relation_edges (ds_name d) [] (ds_relations d))"

lemma extracted_edges:
  "extract_dataset_dependency_edges ds [] = Inr edges \<longleftrightarrow>
     [] \<notin> set (map ds_name ds) \<and> edges = sorted_list_of_set (\<Union> (edges_of ` set ds))"
proof -
  let ?es = "\<lambda>d. component_edges (ds_name d) Target_Identity (ti_components (ds_target_identity d))
       @ component_edges (ds_name d) Target_Scope (ti_scope (ds_target_identity d))
       @ relation_edges (ds_name d) [] (ds_relations d)"
  have "mapr (dataset_edges []) ds = Inr ess \<longleftrightarrow> [] \<notin> set (map ds_name ds) \<and> ess = map ?es ds" for ess
    by (induction ds arbitrary: ess) (auto simp: res_simps dataset_edges_def dict_get_def)
  moreover have "set (concat (map ?es ds)) = \<Union> (edges_of ` set ds)" by (auto simp: edges_of_def)
  ultimately show ?thesis
    by (auto simp: extract_dataset_dependency_edges_def res_simps sorted_set_def
        simp flip: sorted_list_of_set_sort_remdups)
qed

lemma edges_of_owner: "e \<in> edges_of d \<Longrightarrow> owner_dataset e = ds_name d"
  by (auto simp: edges_of_def set_component_edges set_relation_edges)

lemma component_edges_to:
  "(\<exists>e \<in> set (component_edges owner source cs). dependency_dataset e = name \<and> edge_strength e = Hard)
     \<longleftrightarrow> name \<noteq> [] \<and> (\<exists>c \<in> set cs. map_option rs_dataset (ic_resolve c) = Some (Some name))"
  "e \<in> set (component_edges owner source cs) \<Longrightarrow> edge_strength e = Hard"
proof -
  show "(\<exists>e \<in> set (component_edges owner source cs). dependency_dataset e = name \<and> edge_strength e = Hard)
     \<longleftrightarrow> name \<noteq> [] \<and> (\<exists>c \<in> set cs. map_option rs_dataset (ic_resolve c) = Some (Some name))" (is "?L \<longleftrightarrow> ?R")
  proof
    show "?L \<Longrightarrow> ?R" unfolding set_component_edges by fastforce
  next
    assume ?R
    then obtain c where c: "name \<noteq> []" "c \<in> set cs" "map_option rs_dataset (ic_resolve c) = Some (Some name)" by auto
    then have "Dependency owner name (component_target_field c) source Hard \<in> set (component_edges owner source cs)"
      unfolding set_component_edges by blast
    then show ?L by (rule rev_bexI) simp
  qed
qed (auto simp: set_component_edges)

lemma relation_edges_to:
  "(\<exists>e \<in> set (relation_edges owner [] rels). dependency_dataset e = name \<and> (hard \<longrightarrow> edge_strength e = Hard))
     \<longleftrightarrow> name \<noteq> [] \<and> (\<exists>(f, r) \<in> set rels. (hard \<longrightarrow> rl_required_on_create r) \<and> rs_dataset (rl_resolve r) = Some name)"
    (is "?L \<longleftrightarrow> ?R")
proof
  show "?L \<Longrightarrow> ?R" unfolding set_relation_edges by (fastforce split: if_splits)
next
  assume ?R
  then obtain f r where r: "name \<noteq> []" "(f, r) \<in> set rels" "rs_dataset (rl_resolve r) = Some name"
      "hard \<longrightarrow> rl_required_on_create r" by auto
  then have "Dependency owner name f Relationship (if rl_required_on_create r \<or> f \<in> set [] then Hard else Deferrable)
      \<in> set (relation_edges owner [] rels)" unfolding set_relation_edges by blast
  then show ?L by (rule rev_bexI) (simp add: r(4))
qed

lemma edges_of_required:
  "(\<exists>e \<in> edges_of d. dependency_dataset e = name \<and> edge_strength e = Hard) \<longleftrightarrow> required_reference d name"
  using relation_edges_to[of "ds_name d" "ds_relations d" name True]
  by (simp add: edges_of_def bex_Un component_edges_to(1) required_reference_def identity_parts_def) blast

lemma edges_of_declared: "(\<exists>e \<in> edges_of d. dependency_dataset e = name) \<longleftrightarrow> declared_reference d name"
proof -
  have components: "(\<exists>e \<in> set (component_edges owner source cs). dependency_dataset e = name)
      \<longleftrightarrow> name \<noteq> [] \<and> (\<exists>c \<in> set cs. map_option rs_dataset (ic_resolve c) = Some (Some name))" for owner source cs
    using component_edges_to(1)[of owner source cs name] component_edges_to(2) by blast
  have "declared_reference d name \<longleftrightarrow> name \<noteq> [] \<and>
     ((\<exists>c \<in> set (identity_parts d). map_option rs_dataset (ic_resolve c) = Some (Some name))
      \<or> (\<exists>(f, r) \<in> set (ds_relations d). rs_dataset (rl_resolve r) = Some name))"
    by (auto simp: declared_reference_def resolvers_def set_map_filter_option) force
  then show ?thesis
    using relation_edges_to[of "ds_name d" "ds_relations d" name False]
    by (simp add: edges_of_def bex_Un components identity_parts_def) blast
qed

text \<open>The names in the order of the datasets, each with its dataset.\<close>

lemma by_name_fold:
  "distinct (map ds_name ds) \<Longrightarrow> fst ` set m \<inter> set (map ds_name ds) = {} \<Longrightarrow>
   fold (\<lambda>d m. if map_of m (ds_name d) = None then dict_set m (ds_name d) d else m) ds m
     = m @ map (\<lambda>d. (ds_name d, d)) ds"
proof (induction ds arbitrary: m)
  case (Cons d ds)
  have new: "ds_name d \<notin> fst ` set m" using Cons.prems by auto
  then have "dict_set m (ds_name d) d = m @ [(ds_name d, d)]"
    unfolding dict_set_def by (induction m) auto
  then show ?case using Cons.prems new Cons.IH[of "m @ [(ds_name d, d)]"] by (auto simp: map_of_eq_None_iff)
qed simp

lemma references_checked:
  "foldr_res (check_dataset_references by_name) () ds = Inr ()
     \<longleftrightarrow> (\<forall>d \<in> set ds. check_scope_nulls d = Inr () \<and> check_resolved_fields by_name d = Inr ())"
  by (induction ds) (auto simp: check_dataset_references_def res_simps)

lemma resolved_fields_checked:
  assumes "distinct (map ds_name ds)"
  shows "check_resolved_fields (map (\<lambda>d. (ds_name d, d)) ds) d = Inr () \<longleftrightarrow>
    (\<forall>r \<in> set (resolvers d). \<forall>target \<in> set ds. rs_dataset r = Some (ds_name target) \<longrightarrow>
       rs_target_source_fields r = ds_source_identity target)"
proof -
  have keys: "distinct (map fst (map (\<lambda>d. (ds_name d, d)) ds))" using assms by (simp add: o_def)
  have "map_of (map (\<lambda>d. (ds_name d, d)) ds) name = Some t \<longleftrightarrow> t \<in> set ds \<and> name = ds_name t" for name t
    using map_of_eq_Some_iff[OF keys] by auto
  then show ?thesis
    by (fastforce simp: check_resolved_fields_def res_simps split: option.splits)
qed

text \<open>C28: The validation of a dataset graph accepts exactly the graphs in which names are unique and not empty,
  every referenced dataset exists and is resolved through its source identity, a scope that may be null refers to
  its own dataset, and the references needed on creation have no cycle across datasets.\<close>

theorem accepted_graphs: "validate_dataset_graph ds = Inr () \<longleftrightarrow> sound_graph ds"
proof (cases "distinct (map ds_name ds) \<and> [] \<notin> set (map ds_name ds)")
  case False
  then show ?thesis
    by (auto simp: validate_dataset_graph_def sound_graph_def res_simps extracted_edges Let_def)
next
  case True
  let ?E = "\<Union> (edges_of ` set ds)"
  let ?edges = "sorted_list_of_set ?E" and ?known = "map ds_name ds"
  let ?by_name = "map (\<lambda>d. (ds_name d, d)) ds"
  have edges: "extract_dataset_dependency_edges ds [] = Inr ?edges" "set ?edges = ?E"
    using True by (simp_all add: extracted_edges edges_of_def)
  have fold: "fold (\<lambda>d m. if map_of m (ds_name d) = None then dict_set m (ds_name d) d else m) ds [] = ?by_name"
    using by_name_fold[of ds "[]"] True by simp
  have known: "List.find (\<lambda>e. dependency_dataset e \<notin> set ?known) ?edges = None \<longleftrightarrow>
      (\<forall>d \<in> set ds. \<forall>name. declared_reference d name \<longrightarrow> name \<in> set ?known)"
    by (auto simp: find_None_iff edges(2) simp flip: edges_of_declared)
  have nulls: "check_scope_nulls d = Inr () \<longleftrightarrow> (\<forall>c \<in> set (ti_scope (ds_target_identity d)).
      ic_null_policy c \<noteq> Reject_Null \<longrightarrow> map_option rs_dataset (ic_resolve c) = Some (Some (ds_name d))
        \<and> (ic_null_policy c = Zero_As_Scope_Null \<longrightarrow> length (ic_source_fields c) = 1))" for d
    by (simp add: check_scope_nulls_def res_simps) blast
  have relation: "hard_relation ?edges ?known
      = {(ds_name d, name) | d name. d \<in> set ds \<and> required_reference d name \<and> name \<noteq> ds_name d}"
    if closed: "\<forall>d \<in> set ds. \<forall>name. declared_reference d name \<longrightarrow> name \<in> set ?known"
  proof -
    have declared: "required_reference d name \<Longrightarrow> declared_reference d name" for d name
      by (auto simp flip: edges_of_required edges_of_declared)
    have "(a, b) \<in> hard_relation ?edges ?known \<longleftrightarrow> (\<exists>d \<in> set ds. a = ds_name d \<and> a \<noteq> b \<and> b \<in> set ?known
        \<and> (\<exists>e \<in> edges_of d. dependency_dataset e = b \<and> edge_strength e = Hard))" (is "?L \<longleftrightarrow> ?R") for a b
    proof
      assume ?L
      then obtain e where e: "e \<in> ?E" "a = owner_dataset e" "b = dependency_dataset e" "edge_strength e = Hard"
          "owner_dataset e \<noteq> dependency_dataset e" "dependency_dataset e \<in> set ?known"
        by (auto simp: hard_relation_def edges(2) simp del: UN_iff)
      then obtain d where "d \<in> set ds" "e \<in> edges_of d" by blast
      then show ?R using e edges_of_owner by blast
    next
      assume ?R
      then obtain d e where e: "d \<in> set ds" "a = ds_name d" "a \<noteq> b" "b \<in> set ?known" "e \<in> edges_of d"
          "dependency_dataset e = b" "edge_strength e = Hard" by blast
      moreover have "owner_dataset e = a" "e \<in> ?E" "a \<in> set ?known" using e edges_of_owner by auto
      ultimately show ?L unfolding hard_relation_def edges(2) by (intro CollectI exI[of _ e]) simp
    qed
    then have "(a, b) \<in> hard_relation ?edges ?known \<longleftrightarrow> (\<exists>d \<in> set ds. a = ds_name d \<and> a \<noteq> b \<and> required_reference d b)"
      for a b using closed declared unfolding edges_of_required by blast
    then show ?thesis by (intro subset_antisym subrelI; blast)
  qed
  have search: "required_cross_dataset_cycle ?edges ?known = Some None \<longleftrightarrow> acyclic (hard_relation ?edges ?known)"
    using cycle_search[of ?edges ?known] closed_walk_cycle
    by (auto simp: acyclic_def split: option.splits)
  have "validate_dataset_graph ds = Inr () \<longleftrightarrow> (\<forall>d \<in> set ds. \<forall>name. declared_reference d name \<longrightarrow> name \<in> set ?known)
      \<and> foldr_res (check_dataset_references ?by_name) () ds = Inr ()
      \<and> required_cross_dataset_cycle ?edges ?known = Some None"
    unfolding validate_dataset_graph_def Let_def fold edges(1) bindr_simps map_map o_def fst_conv known[symmetric]
    using True by (auto simp: res_simps split: option.splits)
  then have checks: "validate_dataset_graph ds = Inr () \<longleftrightarrow> (\<forall>d \<in> set ds. \<forall>name. declared_reference d name \<longrightarrow> name \<in> set ?known)
      \<and> (\<forall>d \<in> set ds. check_scope_nulls d = Inr ()) \<and> (\<forall>d \<in> set ds. check_resolved_fields ?by_name d = Inr ())
      \<and> acyclic (hard_relation ?edges ?known)"
    unfolding references_checked search ball_conj_distrib by (simp only: conj_assoc)
  show ?thesis
  proof (cases "\<forall>d \<in> set ds. \<forall>name. declared_reference d name \<longrightarrow> name \<in> set ?known")
    case closed: True
    show ?thesis
      unfolding checks relation[OF closed] nulls resolved_fields_checked[OF conjunct1[OF True]] sound_graph_def
      using closed True by (simp only: simp_thms)
  next
    case False
    then show ?thesis unfolding checks sound_graph_def by (simp only: simp_thms)
  qed
qed

end
