(* ===== verification/Compiled_Plan.thy ===== *)
theory Compiled_Plan
imports Dataset_Graph
begin

text \<open>
  The compiled migration plan (\<open>domain/compiler/contracts.py\<close>) and the compilation of a profile document
  (\<open>domain/compiler/profile_compiler.py\<close>).  The digest of a serialised profile is a parameter.
\<close>

datatype plan_origin = Browser_Mapping | Profile_Document

record compiled_plan =
  cp_plan_id :: string
  cp_origin :: plan_origin
  cp_origin_hash :: string
  cp_datasets :: "dataset_spec list"
  cp_source_selection_hash :: "string option"
  cp_schema_hash :: "string option"
  cp_derived_plan_hash :: "string option"
  cp_contract_version :: int
  cp_compiler_version :: int

definition canonical_hash :: "string \<Rightarrow> string res" where
  "canonical_hash v =
    (let digest = casefold (if take 7 v = ''sha256:'' then drop 7 v else v) in
     bindr (value_check (length digest = 64)) (\<lambda>_.
     bindr (value_check (int16_ok digest)) (\<lambda>_. Inr (''sha256:'' @ digest))))"

definition optional_hash :: "string option \<Rightarrow> string option res" where
  "optional_hash v = (case v of None \<Rightarrow> Inr None | Some h \<Rightarrow> bindr (canonical_hash h) (\<lambda>h'. Inr (Some h')))"

definition check_plan_bindings :: "compiled_plan \<Rightarrow> unit res" where
  "check_plan_bindings p = value_check (if cp_origin p = Browser_Mapping
     then cp_source_selection_hash p \<noteq> None \<and> cp_schema_hash p \<noteq> None
     else cp_source_selection_hash p = None \<and> cp_schema_hash p = None \<and> cp_derived_plan_hash p = None)"

definition check_plan_versions :: "compiled_plan \<Rightarrow> unit res" where
  "check_plan_versions p =
     bindr (value_check ((cp_contract_version p, cp_compiler_version p) \<in> {(1, 2), (2, 3)})) (\<lambda>_.
     value_check (\<not> (cp_contract_version p = 1
       \<and> (\<exists>d \<in> set (cp_datasets p). \<exists>c \<in> set (identity_parts d). ic_null_policy c \<noteq> Reject_Null))))"

definition mk_compiled_plan :: "compiled_plan \<Rightarrow> compiled_plan res" where
  "mk_compiled_plan p =
     bindr (value_check (profile_name (cp_plan_id p) \<and> cp_datasets p \<noteq> []
       \<and> cp_contract_version p \<in> {1, 2} \<and> cp_compiler_version p \<in> {2, 3})) (\<lambda>_.
     bindr (canonical_hash (cp_origin_hash p)) (\<lambda>origin_hash.
     bindr (optional_hash (cp_source_selection_hash p)) (\<lambda>selection_hash.
     bindr (optional_hash (cp_schema_hash p)) (\<lambda>schema_hash.
     bindr (optional_hash (cp_derived_plan_hash p)) (\<lambda>derived_hash.
     bindr (check_plan_bindings p) (\<lambda>_.
     bindr (validate_dataset_graph (cp_datasets p)) (\<lambda>_.
     bindr (check_plan_versions p) (\<lambda>_.
     Inr (p\<lparr>cp_origin_hash := origin_hash, cp_source_selection_hash := selection_hash,
       cp_schema_hash := schema_hash, cp_derived_plan_hash := derived_hash\<rparr>)))))))))"

definition plan_dependency_edges :: "compiled_plan \<Rightarrow> dataset_dependency_edge list res" where
  "plan_dependency_edges p = extract_dataset_dependency_edges (cp_datasets p) []"

definition compile_profile_document :: "(profile_document \<Rightarrow> string) \<Rightarrow> profile_document \<Rightarrow> compiled_plan res" where
  "compile_profile_document digest p = mk_compiled_plan
     \<lparr>cp_plan_id = pd_id p, cp_origin = Profile_Document, cp_origin_hash = ''sha256:'' @ digest p,
      cp_datasets = pd_datasets p, cp_source_selection_hash = None, cp_schema_hash = None,
      cp_derived_plan_hash = None, cp_contract_version = 2, cp_compiler_version = 3\<rparr>"

lemma hex_digit_code: "hex_digit c \<Longrightarrow> 48 \<le> (of_char c :: nat) \<and> (of_char c :: nat) \<le> 57 \<or> 97 \<le> (of_char c :: nat) \<and> (of_char c :: nat) \<le> 102"
  by (auto simp: hex_digit_def is_digit_def less_eq_char_def)

lemma hex_digit_plain:
  assumes "hex_digit c"
  shows "fold_char c = [c]" "\<not> is_space c" "hex_letter c" "c \<noteq> CHR ''+''" "c \<noteq> CHR ''-''" "c \<noteq> CHR ''x''" "c \<noteq> CHR ''X''"
  using hex_digit_code[OF assms] assms
  by (auto simp: fold_char_def less_eq_char_def is_space_def Let_def hex_letter_def hex_digit_def)

lemma hex_digits_int16:
  assumes "list_all hex_digit s" "s \<noteq> []"
  shows "int16_ok s"
proof -
  have spaces: "list_all (\<lambda>c. \<not> is_space c) t \<Longrightarrow> dropWhile is_space t = t" for t by (cases t) simp_all
  have plain: "list_all (\<lambda>c. \<not> is_space c) s" using assms(1) hex_digit_plain(2) by (auto simp: list_all_iff)
  then have "strip s = s" using spaces[of s] spaces[of "rev s"] by (simp add: strip_def)
  moreover have "drop_sign s = s" using assms hex_digit_plain(4,5) by (cases s) auto
  moreover have "take 2 s \<noteq> ''0x'' \<and> take 2 s \<noteq> ''0X''"
    using assms hex_digit_plain(6,7) by (cases s; cases "tl s") auto
  moreover have "hex_run b s \<longleftrightarrow> b \<or> s \<noteq> []" for b
    using assms(1) hex_digit_plain(3) by (induction s arbitrary: b) auto
  ultimately show ?thesis using assms(2) by (simp add: int16_ok_def)
qed

text \<open>C29: A profile document is compiled exactly when it is valid: the compiled plan keeps its name and its datasets
  and passes every check of its own, and an invalid document is rejected with the error of its validation.\<close>

theorem compilation_keeps_profiles:
  assumes "list_all hex_digit (digest p)" "length (digest p) = 64"
  shows "compile_profile_document digest p = bindr (mk_profile_document p) (\<lambda>_. Inr
     \<lparr>cp_plan_id = pd_id p, cp_origin = Profile_Document, cp_origin_hash = ''sha256:'' @ digest p,
      cp_datasets = pd_datasets p, cp_source_selection_hash = None, cp_schema_hash = None,
      cp_derived_plan_hash = None, cp_contract_version = 2, cp_compiler_version = 3\<rparr>)"
proof -
  have "concat (map fold_char s) = s" if "list_all hex_digit s" for s
    using that hex_digit_plain(1) by (induction s) auto
  then have "casefold (digest p) = digest p" using assms(1) by (simp add: casefold_def)
  moreover have "int16_ok (digest p)" using assms by (intro hex_digits_int16) auto
  ultimately have "canonical_hash (''sha256:'' @ digest p) = Inr (''sha256:'' @ digest p)"
    using assms(2) by (simp add: canonical_hash_def value_check_def)
  then show ?thesis
    by (cases "validate_dataset_graph (pd_datasets p)")
      (auto simp: compile_profile_document_def mk_compiled_plan_def mk_profile_document_def optional_hash_def
        check_plan_bindings_def check_plan_versions_def value_check_def)
qed


section \<open>A concrete profile\<close>

definition sample_country :: relation_spec where
  "sample_country = \<lparr>rl_kind = Many2one, rl_source_fields = [''country''],
     rl_resolve = \<lparr>rs_dataset = None, rs_target_source_fields = [], rs_target_model = Some ''res.country'',
       rs_target_fields = [''code''], rs_target_scope_fields = [], rs_target_value_mappings = None,
       rs_incoming_projection_field = None\<rparr>,
     rl_value_source = Source_Values, rl_constant_key_values = [], rl_constant_scope_values = [],
     rl_blank_source_values = [], rl_blank_source_action = Source_Rules, rl_blank_create_values = None,
     rl_compare = True, rl_validate_only = False, rl_required = False, rl_required_on_create = False,
     rl_on_missing = Error_On, rl_on_ambiguous = Error_On, rl_operation = Replace_Links, rl_separator = '';'',
     rl_null_policy = Distinct_Nulls\<rparr>"

definition sample_partners :: dataset_spec where
  "sample_partners = \<lparr>ds_name = ''partners'',
     ds_target = \<lparr>ts_model = ''res.partner'', ts_mode = Upsert, ts_on_existing = None\<rparr>,
     ds_source_identity = [''ref''],
     ds_target_identity = \<lparr>ti_components = [\<lparr>ic_source_fields = [''ref''], ic_target_fields = [''ref''],
       ic_type = String_Type, ic_normalize = \<lparr>ns_trim = True, ns_collapse_whitespace = False, ns_casefold = False,
         ns_empty_as_null = True, ns_decimal_places = None, ns_timezone = ''UTC''\<rparr>,
       ic_resolve = None, ic_null_policy = Reject_Null\<rparr>], ti_scope = []\<rparr>,
     ds_fields = [], ds_relations = [(''country_id'', sample_country)], ds_target_domain = []\<rparr>"

definition sample_profile :: profile_document where
  "sample_profile = \<lparr>pd_id = ''partners'', pd_description = None, pd_datasets = [sample_partners]\<rparr>"

lemma sample_valid: "mk_profile_document sample_profile = Inr sample_profile"
proof -
  have "\<not> isl (mk_profile_document sample_profile)" by code_simp
  then obtain p where "mk_profile_document sample_profile = Inr p" by (cases "mk_profile_document sample_profile") simp_all
  then show ?thesis by (auto simp: mk_profile_document_def res_simps)
qed

theorem compilation_keeps_profiles_witness:
  "\<exists>plan. compile_profile_document (\<lambda>_. replicate 64 (CHR ''0'')) sample_profile = Inr plan
    \<and> cp_datasets plan = [sample_partners]"
proof -
  have "list_all hex_digit (replicate 64 (CHR ''0''))" by (simp add: list_all_length hex_digit_def is_digit_def)
  then show ?thesis
    using compilation_keeps_profiles[of "\<lambda>_. replicate 64 (CHR ''0'')" sample_profile]
    by (simp add: sample_valid) (simp add: sample_profile_def)
qed

end
