(* ===== verification/Prepared_Records.thy ===== *)
theory Prepared_Records
imports Portable_Values
begin

text \<open>
  Prepared records with their issues (\<open>domain/shared/models.py\<close>), and the parts of a logical reference that its
  users read.
\<close>

datatype severity = Warning_Severity | Error_Severity

record issue =
  is_code :: string
  is_message :: string
  is_severity :: severity
  is_dataset :: "string option"
  is_row :: "int option"
  is_field :: "string option"
  is_affected_count :: int

definition issue_blocking :: "issue \<Rightarrow> bool" where
  "issue_blocking i = (is_severity i = Error_Severity)"

record prepared_record =
  pr_dataset :: string
  pr_source_row :: int
  pr_target_model :: string
  pr_source_identity :: "pvalue list"
  pr_target_identity :: "pvalue list"
  pr_target_scope :: "pvalue list"
  pr_scalar_values :: "(string \<times> pvalue) list"
  pr_references :: "(string \<times> pvalue) list"
  pr_source_trace_id :: string
  pr_issues :: "issue list"

definition record_blocked :: "prepared_record \<Rightarrow> bool" where
  "record_blocked r = list_ex issue_blocking (pr_issues r)"

fun is_logical :: "pvalue \<Rightarrow> bool" where
  "is_logical (PLogical _ _ _ _ _ _ _ _) = True"
| "is_logical _ = False"

definition reference_key :: "pvalue \<Rightarrow> pvalue list" where
  "reference_key v = lg_key v @ lg_scope v"

end
