(* ===== verification/Read_Plan.thy ===== *)
theory Read_Plan
imports Domain_Chunks Compiled_Plan Prepared_Records
begin

text \<open>
  The read planner (\<open>domain/execution/planner.py\<close>): which Odoo records a migration plan has to read, as bounded
  domains per model.  A prepared record is paired with its position, which stands for its identity (\<open>id(record)\<close>).
  Python sets of requirements are duplicate-free lists in the order of insertion, as far as the final sort leaves
  an order open.
\<close>


type_synonym placed_record = "nat \<times> prepared_record"

type_synonym identity_index = "((string \<times> string) \<times> placed_record option) list"

text \<open>\<open>_incoming_identity_index\<close>: an identity that occurs twice is ambiguous.\<close>

definition identity_index_key :: "prepared_record \<Rightarrow> string \<times> string" where
  "identity_index_key r = (pr_dataset r, canonical_key (PTuple (pr_source_identity r)))"

definition incoming_identity_index :: "placed_record list \<Rightarrow> identity_index" where
  "incoming_identity_index rs = fold (\<lambda>r d. let key = identity_index_key (snd r) in
     if map_of d key \<noteq> None then dict_set d key None else dict_set d key (Some r)) rs []"

definition incoming_match :: "identity_index \<Rightarrow> string \<Rightarrow> pvalue list \<Rightarrow> placed_record option" where
  "incoming_match idx name key = dict_get idx (name, canonical_key (PTuple key)) None"


section \<open>Fields of an identity\<close>

text \<open>Calls that follow references carry the datasets or records being visited; the others that remain bound
  the recursion.\<close>

definition unvisited :: "dataset_spec list \<Rightarrow> dataset_spec \<Rightarrow> string list \<Rightarrow> nat" where
  "unvisited plan d visiting = (if ds_name d \<in> set (map ds_name plan) then 0 else 1)
     + card (set (map ds_name plan) - set visiting)"

lemma find_dataset_Inr: "find_dataset plan name = Inr d \<Longrightarrow> d \<in> set plan \<and> ds_name d = name"
  by (auto simp: find_dataset_def find_Some_iff split: option.splits)

lemma unvisited_less:
  assumes "ds_name d \<notin> set visiting" "find_dataset plan name = Inr d'"
  shows "unvisited plan d' (ds_name d # visiting) < unvisited plan d visiting"
proof -
  have "card (set (map ds_name plan) - set (ds_name d # visiting)) < card (set (map ds_name plan) - set visiting)"
    if "ds_name d \<in> set (map ds_name plan)" using that assms(1) by (intro psubset_card_mono) auto
  moreover have "card (set (map ds_name plan) - set (ds_name d # visiting)) \<le> card (set (map ds_name plan) - set visiting)"
    by (intro card_mono) auto
  ultimately show ?thesis using find_dataset_Inr[OF assms(2)] by (auto simp: unvisited_def)
qed

text \<open>\<open>_dataset_identity_fields\<close> with its loop over the components, which only a dataset that is not being visited
  enters; the empty list means that the identity has no flat field paths.\<close>

function dataset_identity_fields :: "dataset_spec list \<Rightarrow> dataset_spec \<Rightarrow> string list \<Rightarrow> string list"
  and component_fields :: "dataset_spec list \<Rightarrow> dataset_spec \<Rightarrow> string list \<Rightarrow> identity_component list \<Rightarrow> string list option"
where
  "dataset_identity_fields plan d visiting =
    (if ds_name d \<in> set visiting then []
     else (case component_fields plan d visiting (identity_parts d) of None \<Rightarrow> [] | Some fs \<Rightarrow> fs))"
| "component_fields plan d visiting [] = Some []"
| "component_fields plan d visiting (c # cs) =
    (if ds_name d \<in> set visiting then None else
     case ic_resolve c of
       None \<Rightarrow> map_option (\<lambda>fs. ic_target_fields c @ fs) (component_fields plan d visiting cs)
     | Some r \<Rightarrow>
         if length (ic_target_fields c) \<noteq> 1 then None
         else (let nested = (if rs_target_model r \<noteq> None then resolved_fields r
                 else (case find_dataset plan (resolver_dataset_name r) of
                     Inl _ \<Rightarrow> []
                   | Inr d' \<Rightarrow> dataset_identity_fields plan d' (ds_name d # visiting))) in
               if nested = [] then None
               else map_option (\<lambda>fs. map (\<lambda>f. hd (ic_target_fields c) @ ''.'' @ f) nested @ fs)
                      (component_fields plan d visiting cs)))"
  by pat_completeness auto
termination
  by (relation "inv_image (less_than <*lex*> less_than) (\<lambda>x. case x of
      Inl (plan, d, visiting) \<Rightarrow> (unvisited plan d visiting, Suc (length (identity_parts d)))
    | Inr (plan, d, visiting, cs) \<Rightarrow> (unvisited plan d visiting, length cs))")
    (auto dest: unvisited_less)

declare dataset_identity_fields.simps [simp del]


section \<open>Keys and paths of a record\<close>

type_synonym key_cache = "((string \<times> nat) \<times> pvalue list) list"

text \<open>\<open>_record_target_key\<close>: the flattened target key of a record, or \<open>None\<close>, with the cache of resolved keys.
  The loop over the components consumes the values the cursor has passed; one component yields its part of the
  key and the values that remain.\<close>

function record_target_key :: "dataset_spec list \<Rightarrow> identity_index \<Rightarrow> string list \<Rightarrow> dataset_spec \<Rightarrow> placed_record
    \<Rightarrow> key_cache \<Rightarrow> pvalue list option \<times> key_cache"
  and component_keys :: "dataset_spec list \<Rightarrow> identity_index \<Rightarrow> string list \<Rightarrow> dataset_spec \<Rightarrow> identity_component list
    \<Rightarrow> pvalue list \<Rightarrow> key_cache \<Rightarrow> pvalue list option \<times> key_cache"
  and component_key :: "dataset_spec list \<Rightarrow> identity_index \<Rightarrow> string list \<Rightarrow> dataset_spec \<Rightarrow> identity_component
    \<Rightarrow> pvalue list \<Rightarrow> key_cache \<Rightarrow> pvalue list option \<times> pvalue list \<times> key_cache"
where
  "record_target_key plan idx visiting d r cache =
    (case map_of cache (ds_name d, fst r) of
       Some key \<Rightarrow> (Some key, cache)
     | None \<Rightarrow>
       if ds_name d \<in> set visiting then (None, cache)
       else (case component_keys plan idx visiting d (ti_components (ds_target_identity d))
                   (pr_target_identity (snd r)) cache of
           (None, cache1) \<Rightarrow> (None, cache1)
         | (Some key, cache1) \<Rightarrow>
             (case component_keys plan idx visiting d (ti_scope (ds_target_identity d))
                     (pr_target_scope (snd r)) cache1 of
                (None, cache2) \<Rightarrow> (None, cache2)
              | (Some scope, cache2) \<Rightarrow> (Some (key @ scope), dict_set cache2 (ds_name d, fst r) (key @ scope)))))"
| "component_keys plan idx visiting d [] vs cache = (if vs = [] then Some [] else None, cache)"
| "component_keys plan idx visiting d (c # cs) vs cache =
    (case component_key plan idx visiting d c vs cache of
       (None, rest, cache1) \<Rightarrow> (None, cache1)
     | (Some key, rest, cache1) \<Rightarrow>
         (case component_keys plan idx visiting d cs rest cache1 of
            (None, cache2) \<Rightarrow> (None, cache2)
          | (Some keys, cache2) \<Rightarrow> (Some (key @ keys), cache2)))"
| "component_key plan idx visiting d c vs cache =
    (if ds_name d \<in> set visiting then (None, vs, cache) else
     case ic_resolve c of
       None \<Rightarrow> (let width = length (ic_target_fields c) in
         (if length (take width vs) \<noteq> width then None else Some (take width vs), drop width vs, cache))
     | Some r \<Rightarrow> (case vs of [] \<Rightarrow> (None, [], cache) | v # rest \<Rightarrow>
         if \<not> is_logical v then (None, rest, cache)
         else if rs_target_model r \<noteq> None then
           (if lg_origin v \<noteq> ''target'' \<or> length (lg_key v) \<noteq> length (rs_target_fields r)
              \<or> length (lg_scope v) \<noteq> length (rs_target_scope_fields r) then None else Some (lg_key v @ lg_scope v), rest, cache)
         else if lg_origin v \<noteq> ''incoming'' \<or> rs_dataset r = None then (None, rest, cache)
         else (case find_dataset plan (resolver_dataset_name r) of
             Inl _ \<Rightarrow> (None, rest, cache)
           | Inr d' \<Rightarrow> (case incoming_match idx (resolver_dataset_name r) (lg_key v) of
               None \<Rightarrow> (None, rest, cache)
             | Some r' \<Rightarrow> (case record_target_key plan idx (ds_name d # visiting) d' r' cache of
                   (found, cache') \<Rightarrow> (found, rest, cache'))))))"
  by pat_completeness auto
termination
  by (relation "inv_image (less_than <*lex*> less_than) (\<lambda>x. case x of
      Inl (plan, idx, visiting, d, r, cache) \<Rightarrow> (unvisited plan d visiting,
        Suc (2 * (length (ti_components (ds_target_identity d)) + length (ti_scope (ds_target_identity d)))))
    | Inr (Inl (plan, idx, visiting, d, cs, vs, cache)) \<Rightarrow> (unvisited plan d visiting, 2 * length cs)
    | Inr (Inr (plan, idx, visiting, d, c, vs, cache)) \<Rightarrow> (unvisited plan d visiting, 1))")
    (auto dest: unvisited_less)

declare record_target_key.simps [simp del] component_keys.simps(2) [simp del] component_key.simps [simp del]

text \<open>\<open>_record_identity_domain_expression\<close>: the exact domain of a record whose identity is a path of references.\<close>

definition identity_universe :: "dataset_spec list \<Rightarrow> identity_index \<Rightarrow> (string \<times> nat) set" where
  "identity_universe plan idx = set (map ds_name plan) \<times> {n. \<exists>r. Some (n, r) \<in> snd ` set idx}"

definition unvisited_records :: "dataset_spec list \<Rightarrow> identity_index \<Rightarrow> dataset_spec \<Rightarrow> nat \<Rightarrow> (string \<times> nat) list \<Rightarrow> nat" where
  "unvisited_records plan idx d n visiting = (if (ds_name d, n) \<in> identity_universe plan idx then 0 else 1)
     + card (identity_universe plan idx - set visiting)"

lemma finite_identity_universe: "finite (identity_universe plan idx)"
proof -
  have "{n. \<exists>r. Some (n, r) \<in> snd ` set idx} \<subseteq> (\<lambda>e. fst (the (snd e))) ` set idx" by force
  then show ?thesis unfolding identity_universe_def by (intro finite_cartesian_product finite_set finite_subset[OF _ finite_imageI[OF finite_set]])
qed

lemma incoming_match_index: "incoming_match idx name key = Some r \<Longrightarrow> Some r \<in> snd ` set idx"
  by (auto simp: incoming_match_def dict_get_def image_iff split: option.splits dest!: map_of_SomeD) (metis snd_conv)

lemma unvisited_records_less:
  assumes "(ds_name d, n) \<notin> set visiting" "find_dataset plan name = Inr d'" "incoming_match idx name' key = Some (n', r')"
  shows "unvisited_records plan idx d' n' ((ds_name d, n) # visiting) < unvisited_records plan idx d n visiting"
proof -
  let ?U = "identity_universe plan idx"
  have "card (?U - set ((ds_name d, n) # visiting)) < card (?U - set visiting)" if "(ds_name d, n) \<in> ?U"
    using that assms(1) finite_identity_universe by (intro psubset_card_mono) auto
  moreover have "card (?U - set ((ds_name d, n) # visiting)) \<le> card (?U - set visiting)"
    using finite_identity_universe by (intro card_mono) auto
  moreover have "(ds_name d', n') \<in> ?U"
    using find_dataset_Inr[OF assms(2)] incoming_match_index[OF assms(3)] by (auto simp: identity_universe_def)
  ultimately show ?thesis by (auto simp: unvisited_records_def)
qed

definition prefixed_terms :: "string \<Rightarrow> string list \<Rightarrow> pvalue list \<Rightarrow> domain" where
  "prefixed_terms prefix fs vs = map (\<lambda>(f, v). Leaf (prefix @ f) ''='' v) (zip fs vs)"

function record_identity_expression :: "dataset_spec list \<Rightarrow> identity_index \<Rightarrow> (string \<times> nat) list \<Rightarrow> string
    \<Rightarrow> dataset_spec \<Rightarrow> placed_record \<Rightarrow> domain option"
  and identity_terms :: "dataset_spec list \<Rightarrow> identity_index \<Rightarrow> (string \<times> nat) list \<Rightarrow> string \<Rightarrow> dataset_spec \<Rightarrow> nat
    \<Rightarrow> identity_component list \<Rightarrow> pvalue list \<Rightarrow> domain option"
where
  "record_identity_expression plan idx visiting prefix d r =
    (if (ds_name d, fst r) \<in> set visiting then None
     else (case identity_terms plan idx visiting prefix d (fst r) (ti_components (ds_target_identity d))
                 (pr_target_identity (snd r)) of
         None \<Rightarrow> None
       | Some terms \<Rightarrow>
           (case identity_terms plan idx visiting prefix d (fst r) (ti_scope (ds_target_identity d))
                   (pr_target_scope (snd r)) of
              None \<Rightarrow> None
            | Some scope \<Rightarrow> if terms @ scope = [] then None else Some (and_terms (terms @ scope)))))"
| "identity_terms plan idx visiting prefix d n [] vs = (if vs = [] then Some [] else None)"
| "identity_terms plan idx visiting prefix d n (c # cs) vs =
    (if (ds_name d, n) \<in> set visiting then None else
     let relation_field = prefix @ hd (ic_target_fields c);
         part = (case ic_resolve c of
             None \<Rightarrow> let width = length (ic_target_fields c); selected = take width vs in
               if length selected \<noteq> width \<or> PNone \<in> set selected then None
               else Some (prefixed_terms prefix (ic_target_fields c) selected)
           | Some r \<Rightarrow> (case vs of
               [] \<Rightarrow> None
             | PNone # _ \<Rightarrow> if ic_null_policy c = Reject_Null then None else Some [Leaf relation_field ''='' (PBool False)]
             | PLogical origin key _ _ _ _ scope _ # _ \<Rightarrow>
                 if rs_target_model r \<noteq> None then
                   (if origin \<noteq> ''target'' \<or> length key \<noteq> length (rs_target_fields r)
                      \<or> length scope \<noteq> length (rs_target_scope_fields r) \<or> PNone \<in> set (key @ scope) then None
                    else Some (prefixed_terms (relation_field @ ''.'') (resolved_fields r) (key @ scope)))
                 else if origin \<noteq> ''incoming'' \<or> rs_dataset r = None then None
                 else (case find_dataset plan (resolver_dataset_name r) of
                     Inl _ \<Rightarrow> None
                   | Inr d' \<Rightarrow> (case incoming_match idx (resolver_dataset_name r) key of
                       None \<Rightarrow> None
                     | Some r' \<Rightarrow> map_option expression_terms (record_identity_expression plan idx
                         ((ds_name d, n) # visiting) (relation_field @ ''.'') d' r')))
             | _ \<Rightarrow> None)) in
     case part of
       None \<Rightarrow> None
     | Some terms \<Rightarrow> map_option (\<lambda>ts. terms @ ts)
         (identity_terms plan idx visiting prefix d n cs
           (drop (case ic_resolve c of None \<Rightarrow> length (ic_target_fields c) | Some _ \<Rightarrow> 1) vs)))"
  by pat_completeness auto
termination
  by (relation "inv_image (less_than <*lex*> less_than) (\<lambda>x. case x of
      Inl (plan, idx, visiting, prefix, d, r) \<Rightarrow> (unvisited_records plan idx d (fst r) visiting,
        Suc (length (ti_components (ds_target_identity d)) + length (ti_scope (ds_target_identity d))))
    | Inr (plan, idx, visiting, prefix, d, n, cs, vs) \<Rightarrow> (unvisited_records plan idx d n visiting, length cs))")
    (auto dest: unvisited_records_less)

declare record_identity_expression.simps [simp del] identity_terms.simps(2) [simp del]


section \<open>Domains of a dataset\<close>

definition supports_explicit_root :: "dataset_spec \<Rightarrow> bool" where
  "supports_explicit_root d = list_ex (\<lambda>c. ic_null_policy c \<noteq> Reject_Null
     \<and> map_option rs_dataset (ic_resolve c) = Some (Some (ds_name d))) (ti_scope (ds_target_identity d))"

definition domain_value :: "domain \<Rightarrow> pvalue list" where
  "domain_value d = map item_value d"

text \<open>\<open>{canonical text: d for d in ds}\<close>, in the order of the texts.\<close>

definition unique_domains :: "(pvalue list \<Rightarrow> pvalue) \<Rightarrow> domain list \<Rightarrow> domain list" where
  "unique_domains wrap ds = map snd (sort_key fst (dict_of (canonical_key \<circ> wrap \<circ> domain_value) (\<lambda>d. d) ds))"

definition hierarchical_identity_domain_chunks :: "dataset_spec list \<Rightarrow> dataset_spec \<Rightarrow> placed_record list
    \<Rightarrow> identity_index \<Rightarrow> nat \<Rightarrow> domain list option" where
  "hierarchical_identity_domain_chunks plan d rs idx chunk_size =
    (if \<not> supports_explicit_root d then None
     else Some (map or_expressions (batches chunk_size (unique_domains PList
       (List.map_filter (record_identity_expression plan idx [] [] d) rs)))))"

fun record_target_keys :: "dataset_spec list \<Rightarrow> identity_index \<Rightarrow> dataset_spec \<Rightarrow> placed_record list \<Rightarrow> key_cache
    \<Rightarrow> pvalue list list \<times> key_cache" where
  "record_target_keys plan idx d [] cache = ([], cache)"
| "record_target_keys plan idx d (r # rs) cache =
    (let (key, cache1) = record_target_key plan idx [] d r cache;
         (keys, cache2) = record_target_keys plan idx d rs cache1 in
     (case key of None \<Rightarrow> keys | Some k \<Rightarrow> k # keys, cache2))"

definition dataset_identity_domain_chunks :: "dataset_spec list \<Rightarrow> dataset_spec \<Rightarrow> placed_record list
    \<Rightarrow> identity_index \<Rightarrow> key_cache \<Rightarrow> nat \<Rightarrow> domain list option \<times> key_cache" where
  "dataset_identity_domain_chunks plan d rs idx cache chunk_size =
    (let fields = dataset_identity_fields plan d [] in
     if fields = [] then (hierarchical_identity_domain_chunks plan d rs idx chunk_size, cache)
     else (let (keys, cache') = record_target_keys plan idx d rs cache in
       (Some (key_domain_chunks fields keys chunk_size), cache')))"


section \<open>References of a dataset\<close>

fun references_for_field :: "pvalue \<Rightarrow> pvalue list" where
  "references_for_field (PTuple vs) = filter is_logical vs"
| "references_for_field v = (if is_logical v then [v] else [])"

text \<open>\<open>_identity_reference_groups\<close> over one group of components; a value missing at the cursor is an
  \<open>IndexError\<close>.\<close>

fun reference_groups :: "(prepared_record \<Rightarrow> pvalue list) \<Rightarrow> prepared_record list \<Rightarrow> nat \<Rightarrow> identity_component list
    \<Rightarrow> (identity_component \<times> pvalue list) list res" where
  "reference_groups attribute rs cursor [] = Inr []"
| "reference_groups attribute rs cursor (c # cs) =
    (if ic_resolve c = None then reference_groups attribute rs (cursor + length (ic_target_fields c)) cs
     else bindr (mapr (\<lambda>r. if cursor < length (attribute r) then Inr (attribute r ! cursor) else Inl LookupError) rs) (\<lambda>vs.
       bindr (reference_groups attribute rs (cursor + 1) cs) (\<lambda>rest. Inr ((c, filter is_logical vs) # rest))))"

definition identity_reference_groups :: "dataset_spec \<Rightarrow> prepared_record list
    \<Rightarrow> (identity_component \<times> pvalue list) list res" where
  "identity_reference_groups d rs =
     bindr (reference_groups pr_target_identity rs 0 (ti_components (ds_target_identity d))) (\<lambda>a.
     bindr (reference_groups pr_target_scope rs 0 (ti_scope (ds_target_identity d))) (\<lambda>b. Inr (a @ b)))"

text \<open>The domains that find the targets of some references, and the candidates that differ by case.\<close>

definition reference_domains :: "resolve_spec \<Rightarrow> pvalue list \<Rightarrow> nat \<Rightarrow> domain list" where
  "reference_domains r refs chunk_size =
     key_domain_chunks (resolved_fields r) (map reference_key refs) chunk_size
     @ casefold_key_domain_chunks (resolved_fields r)
         (map reference_key (filter (\<lambda>v. lg_origin v = ''target_then_incoming'') refs)) chunk_size"

definition relation_references :: "string \<Rightarrow> relation_spec \<Rightarrow> prepared_record list \<Rightarrow> pvalue list" where
  "relation_references field relation rs =
    (let found = concat (map (\<lambda>r. filter (\<lambda>v. lg_origin v \<in> {''target'', ''target_then_incoming''})
           (references_for_field (dict_get (pr_references r) field PNone))) rs) in
     case blank_create_reference relation of
       Some fallback \<Rightarrow> if list_ex (\<lambda>r. dict_get (pr_references r) field PNone = PNone) rs then found @ [fallback] else found
     | None \<Rightarrow> found)"


section \<open>The plan\<close>

record metadata_request =
  mr_model :: string
  mr_fields :: "string list"
  mr_all_fields :: bool
  mr_include_unique_constraints :: bool

record record_request =
  rr_model :: string
  rr_fields :: "string list"
  rr_domain :: domain
  rr_limit :: "int option"

record reference_requirement =
  rq_parent_model :: string
  rq_relationship_field :: string
  rq_relationship_type :: string
  rq_relation_model :: string
  rq_key_fields :: "string list"
  rq_scope_fields :: "string list"
  rq_requested_fields :: "string list"

record requirement_plan =
  rp_metadata_requests :: "metadata_request list"
  rp_record_requests :: "record_request list"
  rp_reference_requirements :: "reference_requirement list"
  rp_source_record_count :: nat
  rp_dependency_edges :: "dataset_dependency_edge list"
  rp_reference_policy_hash :: string
  rp_contract_version :: int

text \<open>What the loop over the datasets collects.\<close>

record read_state =
  rd_fields :: "(string \<times> string list) list"
  rd_domains :: "(string \<times> domain list) list"
  rd_cache :: key_cache

definition want_fields :: "string \<Rightarrow> string list \<Rightarrow> read_state \<Rightarrow> read_state" where
  "want_fields model fs s = s\<lparr>rd_fields := dict_set (rd_fields s) model (dict_get (rd_fields s) model [] @ fs)\<rparr>"

definition add_domains :: "string \<Rightarrow> domain list \<Rightarrow> read_state \<Rightarrow> read_state" where
  "add_domains model ds s = s\<lparr>rd_domains := dict_set (rd_domains s) model (dict_get (rd_domains s) model [] @ ds)\<rparr>"

definition plan_identity_reads :: "dataset_spec list \<Rightarrow> identity_index \<Rightarrow> nat \<Rightarrow> dataset_spec \<Rightarrow> placed_record list
    \<Rightarrow> read_state \<Rightarrow> read_state res" where
  "plan_identity_reads plan idx chunk_size d rs s =
    (if rs = [] then Inr s
     else (let model = ts_model (ds_target d);
               (domains, cache) = dataset_identity_domain_chunks plan d rs idx (rd_cache s) chunk_size;
               s1 = want_fields model (dataset_target_fields d) (s\<lparr>rd_cache := cache\<rparr>) in
       case domains of
         None \<Rightarrow> if ds_target_domain d \<noteq> [] then Inr (add_domains model [ds_target_domain d] s1)
                 else Inl WorkspaceError
       | Some ds \<Rightarrow> Inr (if ds = [] then s1 else add_domains model (map (combine_domains (ds_target_domain d)) ds) s1)))"

definition plan_component_reads :: "nat \<Rightarrow> read_state \<Rightarrow> identity_component \<times> pvalue list \<Rightarrow> read_state res" where
  "plan_component_reads chunk_size s cr = (case ic_resolve (fst cr) of
     None \<Rightarrow> Inr s
   | Some r \<Rightarrow> (case rs_target_model r of
       None \<Rightarrow> Inr s
     | Some model \<Rightarrow>
         (let s1 = want_fields model (resolved_fields r) s;
              ds = reference_domains r (snd cr) chunk_size;
              s2 = add_domains model ds s1 in
          if snd cr \<noteq> [] \<and> ds = [] then Inl WorkspaceError else Inr s2)))"

definition plan_relation_reads :: "nat \<Rightarrow> prepared_record list \<Rightarrow> read_state \<Rightarrow> string \<times> relation_spec \<Rightarrow> read_state res" where
  "plan_relation_reads chunk_size rs s fr = (case rs_target_model (rl_resolve (snd fr)) of
     None \<Rightarrow> Inr s
   | Some model \<Rightarrow>
       (let refs = relation_references (fst fr) (snd fr) rs; r = rl_resolve (snd fr) in
        if refs = [] then Inr s
        else (let s1 = want_fields model (resolved_fields r) s; ds = reference_domains r refs chunk_size in
          if ds = [] then Inl WorkspaceError else Inr (add_domains model ds s1))))"

definition plan_dataset_reads :: "dataset_spec list \<Rightarrow> identity_index \<Rightarrow> placed_record list \<Rightarrow> nat \<Rightarrow> read_state
    \<Rightarrow> dataset_spec \<Rightarrow> read_state res" where
  "plan_dataset_reads plan idx all chunk_size s d =
    (let rs = filter (\<lambda>r. pr_dataset (snd r) = ds_name d) all; records = map snd rs in
     bindr (plan_identity_reads plan idx chunk_size d rs s) (\<lambda>s1.
     bindr (identity_reference_groups d records) (\<lambda>groups.
     bindr (foldr_res (plan_component_reads chunk_size) s1 groups) (\<lambda>s2.
     foldr_res (plan_relation_reads chunk_size records) s2 (ds_relations d)))))"

definition model_requests :: "read_state \<Rightarrow> string \<times> domain list \<Rightarrow> record_request list" where
  "model_requests s md = map (\<lambda>d. \<lparr>rr_model = fst md, rr_fields = sorted_set (dict_get (rd_fields s) (fst md) []),
       rr_domain = d, rr_limit = None\<rparr>)
     (unique_domains PTuple (filter (\<lambda>d. d \<noteq> []) (snd md)))"

definition plan_metadata_requests :: "dataset_spec list \<Rightarrow> metadata_request list" where
  "plan_metadata_requests plan =
    (let resolver_fields = (\<lambda>r s. case rs_target_model r of None \<Rightarrow> s | Some m \<Rightarrow> want_fields m (resolved_fields r) s);
         s = fold (\<lambda>d s. fold resolver_fields (resolvers d) (want_fields (ts_model (ds_target d)) (dataset_target_fields d) s))
           plan \<lparr>rd_fields = [], rd_domains = [], rd_cache = []\<rparr> in
     map (\<lambda>(m, fs). \<lparr>mr_model = m, mr_fields = sorted_set fs, mr_all_fields = False,
         mr_include_unique_constraints = False\<rparr>) (sort_key fst (rd_fields s)))"

fun relation_kind_text :: "relation_kind \<Rightarrow> string" where
  "relation_kind_text Many2one = ''many2one''"
| "relation_kind_text Many2many = ''many2many''"

definition reference_requirement_of :: "dataset_spec \<Rightarrow> string \<Rightarrow> string \<Rightarrow> resolve_spec \<Rightarrow> reference_requirement list" where
  "reference_requirement_of d field kind r = (case rs_target_model r of
     None \<Rightarrow> []
   | Some m \<Rightarrow> [\<lparr>rq_parent_model = ts_model (ds_target d), rq_relationship_field = field, rq_relationship_type = kind,
       rq_relation_model = m, rq_key_fields = rs_target_fields r, rq_scope_fields = rs_target_scope_fields r,
       rq_requested_fields = sorted_set (resolved_fields r)\<rparr>])"

definition plan_reference_read_requirements :: "dataset_spec list \<Rightarrow> reference_requirement list" where
  "plan_reference_read_requirements plan = sort_key (\<lambda>q. (rq_parent_model q, rq_relationship_field q,
       rq_relation_model q, rq_key_fields q, rq_scope_fields q))
     (keep_first (\<lambda>q. q) (concat (map (\<lambda>d.
        concat (map (\<lambda>c. case ic_resolve c of None \<Rightarrow> []
          | Some r \<Rightarrow> reference_requirement_of d (hd (ic_target_fields c)) ''many2one'' r) (identity_parts d))
        @ concat (map (\<lambda>(f, rel). reference_requirement_of d f (relation_kind_text (rl_kind rel)) (rl_resolve rel))
            (ds_relations d))) plan)))"

definition plan_preflight_requirements :: "compiled_plan \<Rightarrow> prepared_record list \<Rightarrow> int \<Rightarrow> string \<Rightarrow> requirement_plan res" where
  "plan_preflight_requirements p records maximum_keys policy_hash =
     bindr (value_check (1 \<le> maximum_keys)) (\<lambda>_.
     let plan = cp_datasets p; placed = List.enumerate 0 records; idx = incoming_identity_index placed in
     bindr (foldr_res (plan_dataset_reads plan idx placed (nat maximum_keys))
       \<lparr>rd_fields = [], rd_domains = [], rd_cache = []\<rparr> plan) (\<lambda>s.
     bindr (plan_dependency_edges p) (\<lambda>edges.
     Inr \<lparr>rp_metadata_requests = plan_metadata_requests plan,
       rp_record_requests = concat (map (model_requests s) (sort_key fst (rd_domains s))),
       rp_reference_requirements = plan_reference_read_requirements plan,
       rp_source_record_count = length records, rp_dependency_edges = edges,
       rp_reference_policy_hash = policy_hash, rp_contract_version = 4\<rparr>)))"

definition plan_record_requests :: "compiled_plan \<Rightarrow> prepared_record list \<Rightarrow> string \<Rightarrow> record_request list res" where
  "plan_record_requests p records policy_hash =
     bindr (plan_preflight_requirements p records 500 policy_hash) (\<lambda>plan. Inr (rp_record_requests plan))"

text \<open>The counts and the fingerprint of a plan; the digest is a parameter.\<close>

definition model_count :: "requirement_plan \<Rightarrow> nat" where
  "model_count p = length (remdups (map rr_model (rp_record_requests p)))"

definition chunk_count :: "requirement_plan \<Rightarrow> nat" where
  "chunk_count p = length (rp_record_requests p)"

definition edge_portable :: "dataset_dependency_edge \<Rightarrow> json" where
  "edge_portable e = JObject [(''owner_dataset'', JText (owner_dataset e)),
     (''dependency_dataset'', JText (dependency_dataset e)), (''target_field'', JText (target_field e)),
     (''source'', JText (source_text (edge_source e))), (''strength'', JText (strength_text (edge_strength e))),
     (''self_reference'', JBool (is_self_reference e))]"

definition requirement_payload :: "requirement_plan \<Rightarrow> json" where
  "requirement_payload p = JObject
    [(''contract_version'', JInt (rp_contract_version p)),
     (''source_record_count'', JInt (int (rp_source_record_count p))),
     (''reference_policy_hash'', JText (rp_reference_policy_hash p)),
     (''dependency_edges'', JArray (map edge_portable (rp_dependency_edges p))),
     (''metadata'', JArray (map (\<lambda>m. JObject [(''model'', JText (mr_model m)), (''fields'', text_array (mr_fields m)),
        (''all_fields'', JBool (mr_all_fields m)),
        (''include_unique_constraints'', JBool (mr_include_unique_constraints m))]) (rp_metadata_requests p))),
     (''records'', JArray (map (\<lambda>r. JObject [(''model'', JText (rr_model r)), (''fields'', text_array (rr_fields r)),
        (''domain'', portable_value (PTuple (domain_value (rr_domain r))))]) (rp_record_requests p))),
     (''references'', JArray (map (\<lambda>q. JObject [(''parent_model'', JText (rq_parent_model q)),
        (''relationship_field'', JText (rq_relationship_field q)), (''relationship_type'', JText (rq_relationship_type q)),
        (''relation_model'', JText (rq_relation_model q)), (''key_fields'', text_array (rq_key_fields q)),
        (''scope_fields'', text_array (rq_scope_fields q)),
        (''requested_fields'', text_array (rq_requested_fields q))]) (rp_reference_requirements p)))]"

definition requirement_semantic_hash :: "(string \<Rightarrow> string) \<Rightarrow> requirement_plan \<Rightarrow> string" where
  "requirement_semantic_hash digest p = ''sha256:'' @ digest (canonical_json_text (requirement_payload p))"

end
