(* ===== verification/Target_Keys.thy ===== *)
theory Target_Keys
imports Read_Plan
begin

text \<open>
  The target key of a record, as a relation without cache, order or visited datasets, and the agreement of
  \<open>_record_target_key\<close> with it: what the cache holds never changes a key, and for a dataset whose identity has
  field paths the check for visited datasets never rejects a key.
\<close>

inductive key_of :: "dataset_spec list \<Rightarrow> identity_index \<Rightarrow> dataset_spec \<Rightarrow> placed_record \<Rightarrow> pvalue list \<Rightarrow> bool"
  and keys_of :: "dataset_spec list \<Rightarrow> identity_index \<Rightarrow> identity_component list \<Rightarrow> pvalue list \<Rightarrow> pvalue list \<Rightarrow> bool"
  for plan :: "dataset_spec list" and idx :: identity_index
where
  record_key: "keys_of plan idx (ti_components (ds_target_identity d)) (pr_target_identity (snd r)) key \<Longrightarrow>
    keys_of plan idx (ti_scope (ds_target_identity d)) (pr_target_scope (snd r)) scope \<Longrightarrow>
    key_of plan idx d r (key @ scope)"
| no_components: "keys_of plan idx [] [] []"
| scalar_component: "ic_resolve c = None \<Longrightarrow> length vs = length (ic_target_fields c) \<Longrightarrow>
    keys_of plan idx cs rest ks \<Longrightarrow> keys_of plan idx (c # cs) (vs @ rest) (vs @ ks)"
| target_component: "ic_resolve c = Some r \<Longrightarrow> rs_target_model r \<noteq> None \<Longrightarrow>
    length key = length (rs_target_fields r) \<Longrightarrow> length scope = length (rs_target_scope_fields r) \<Longrightarrow>
    keys_of plan idx cs rest ks \<Longrightarrow>
    keys_of plan idx (c # cs) (PLogical ''target'' key dsn m tf tsf scope ik # rest) (key @ scope @ ks)"
| incoming_component: "ic_resolve c = Some r \<Longrightarrow> rs_target_model r = None \<Longrightarrow> rs_dataset r = Some name \<Longrightarrow>
    find_dataset plan name = Inr d \<Longrightarrow> incoming_match idx name key = Some rec \<Longrightarrow> key_of plan idx d rec k \<Longrightarrow>
    keys_of plan idx cs rest ks \<Longrightarrow>
    keys_of plan idx (c # cs) (PLogical ''incoming'' key dsn m tf tsf scope ik # rest) (k @ ks)"

inductive_cases key_ofE: "key_of plan idx d r k"
inductive_cases keys_of_ConsE: "keys_of plan idx (c # cs) vs ks"
inductive_simps keys_of_Nil [simp]: "keys_of plan idx [] vs ks"

lemma keys_of_scalar:
  assumes "ic_resolve c = None"
  shows "keys_of plan idx (c # cs) vs ks \<longleftrightarrow> (let w = length (ic_target_fields c) in
    length (take w vs) = w \<and> (\<exists>ks'. ks = take w vs @ ks' \<and> keys_of plan idx cs (drop w vs) ks'))" (is "?L \<longleftrightarrow> ?R")
proof
  assume ?L
  then show ?R by (rule keys_of_ConsE) (use assms in simp_all)
next
  assume ?R
  then obtain ks' where "length (take (length (ic_target_fields c)) vs) = length (ic_target_fields c)"
      "ks = take (length (ic_target_fields c)) vs @ ks'" "keys_of plan idx cs (drop (length (ic_target_fields c)) vs) ks'"
    by (auto simp: Let_def)
  then show ?L using scalar_component[OF assms, of "take (length (ic_target_fields c)) vs"] by (metis append_take_drop_id)
qed

text \<open>The key a reference stands for.\<close>

definition reference_target_key :: "dataset_spec list \<Rightarrow> identity_index \<Rightarrow> resolve_spec \<Rightarrow> pvalue \<Rightarrow> pvalue list \<Rightarrow> bool" where
  "reference_target_key plan idx r v k \<longleftrightarrow> is_logical v \<and>
    (if rs_target_model r \<noteq> None then lg_origin v = ''target'' \<and> length (lg_key v) = length (rs_target_fields r)
       \<and> length (lg_scope v) = length (rs_target_scope_fields r) \<and> k = reference_key v
     else lg_origin v = ''incoming'' \<and> (\<exists>name d rec. rs_dataset r = Some name \<and> find_dataset plan name = Inr d
       \<and> incoming_match idx name (lg_key v) = Some rec \<and> key_of plan idx d rec k))"

lemma keys_of_relational:
  assumes "ic_resolve c = Some r"
  shows "keys_of plan idx (c # cs) vs ks \<longleftrightarrow> (\<exists>v rest k ks'. vs = v # rest \<and> ks = k @ ks'
    \<and> reference_target_key plan idx r v k \<and> keys_of plan idx cs rest ks')" (is "?L \<longleftrightarrow> ?R")
proof
  assume ?L
  then consider (t) r' key scope rest ks' dsn m tf tsf ik where
      "vs = PLogical ''target'' key dsn m tf tsf scope ik # rest" "ks = key @ scope @ ks'" "ic_resolve c = Some r'"
      "rs_target_model r' \<noteq> None" "length key = length (rs_target_fields r')"
      "length scope = length (rs_target_scope_fields r')" "keys_of plan idx cs rest ks'"
    | (i) r' name d key rec k rest ks' dsn m tf tsf scope ik where
      "vs = PLogical ''incoming'' key dsn m tf tsf scope ik # rest" "ks = k @ ks'" "ic_resolve c = Some r'"
      "rs_target_model r' = None" "rs_dataset r' = Some name" "find_dataset plan name = Inr d"
      "incoming_match idx name key = Some rec" "key_of plan idx d rec k" "keys_of plan idx cs rest ks'"
    using assms by (auto elim: keys_of_ConsE)
  then show ?R
  proof cases
    case t
    then show ?thesis using assms
      by (intro exI[of _ "PLogical ''target'' key dsn m tf tsf scope ik"] exI[of _ rest] exI[of _ "key @ scope"] exI[of _ ks'])
        (simp add: reference_target_key_def reference_key_def)
  next
    case i
    then show ?thesis using assms
      by (intro exI[of _ "PLogical ''incoming'' key dsn m tf tsf scope ik"] exI[of _ rest] exI[of _ k] exI[of _ ks'])
        (simp add: reference_target_key_def)
  qed
next
  assume ?R
  then obtain v rest k ks' where v: "vs = v # rest" "ks = k @ ks'" "reference_target_key plan idx r v k"
      "keys_of plan idx cs rest ks'" by blast
  then obtain origin key dsn m tf tsf scope ik where logical: "v = PLogical origin key dsn m tf tsf scope ik"
    by (cases v) (auto simp: reference_target_key_def)
  show ?L
  proof (cases "rs_target_model r = None")
    case True
    then show ?thesis using v logical incoming_component[OF assms True] by (auto simp: reference_target_key_def)
  next
    case False
    then show ?thesis
      using v logical target_component[OF assms False _ _ v(4), of key scope]
      by (auto simp: reference_target_key_def reference_key_def)
  qed
qed

lemma key_of_unique:
  "key_of plan idx d r k \<Longrightarrow> key_of plan idx d r k' \<Longrightarrow> k = k'"
  "keys_of plan idx cs vs ks \<Longrightarrow> keys_of plan idx cs vs ks' \<Longrightarrow> ks = ks'"
proof (induction arbitrary: k' and ks' rule: key_of_keys_of.inducts)
  case (record_key d r key scope)
  obtain key' scope' where "k' = key' @ scope'"
      "keys_of plan idx (ti_components (ds_target_identity d)) (pr_target_identity (snd r)) key'"
      "keys_of plan idx (ti_scope (ds_target_identity d)) (pr_target_scope (snd r)) scope'"
    using record_key.prems by (rule key_ofE)
  then show ?case using record_key.IH by simp
next
  case (scalar_component c vs cs rest ks)
  obtain ks2 where "ks' = vs @ ks2" "keys_of plan idx cs rest ks2"
    using scalar_component.prems scalar_component.hyps(2) by (auto simp: keys_of_scalar[OF scalar_component.hyps(1)] Let_def)
  then show ?case using scalar_component.IH by blast
next
  case (target_component c r key scope cs rest ks dsn m tf tsf ik)
  obtain ks2 where "ks' = (key @ scope) @ ks2" "keys_of plan idx cs rest ks2"
    using target_component.prems target_component(2)
    by (auto simp: keys_of_relational[OF target_component(1)] reference_target_key_def reference_key_def)
  then show ?case using target_component.IH by simp
next
  case (incoming_component c r name d key rec k cs rest ks dsn m tf tsf scope ik)
  obtain k2 ks2 where "ks' = k2 @ ks2" "key_of plan idx d rec k2" "keys_of plan idx cs rest ks2"
    using incoming_component.prems incoming_component(2-5)
    by (auto simp: keys_of_relational[OF incoming_component(1)] reference_target_key_def)
  then show ?case using incoming_component.IH by blast
qed simp

text \<open>The records an index refers to stand at their positions, and the cache holds keys of records.\<close>

definition placed :: "(nat \<Rightarrow> prepared_record) \<Rightarrow> placed_record \<Rightarrow> bool" where
  "placed recs r \<longleftrightarrow> snd r = recs (fst r)"

definition index_ok :: "(nat \<Rightarrow> prepared_record) \<Rightarrow> identity_index \<Rightarrow> bool" where
  "index_ok recs idx \<longleftrightarrow> (\<forall>r. Some r \<in> snd ` set idx \<longrightarrow> placed recs r)"

definition cache_ok :: "dataset_spec list \<Rightarrow> identity_index \<Rightarrow> (nat \<Rightarrow> prepared_record) \<Rightarrow> key_cache \<Rightarrow> bool" where
  "cache_ok plan idx recs cache \<longleftrightarrow> (\<forall>d \<in> set plan. \<forall>n k. map_of cache (ds_name d, n) = Some k \<longrightarrow>
     key_of plan idx d (n, recs n) k)"

lemma cache_ok_set:
  assumes "cache_ok plan idx recs cache" "distinct (map ds_name plan)" "d \<in> set plan" "placed recs r" "key_of plan idx d r k"
  shows "cache_ok plan idx recs (dict_set cache (ds_name d, fst r) k)"
  unfolding cache_ok_def map_of_dict_set
proof (intro ballI allI impI)
  fix d' n k'
  assume *: "d' \<in> set plan" "((map_of cache)((ds_name d, fst r) \<mapsto> k)) (ds_name d', n) = Some k'"
  show "key_of plan idx d' (n, recs n) k'"
  proof (cases "(ds_name d', n) = (ds_name d, fst r)")
    case True
    then have "d' = d" using assms(2,3) *(1) by (metis distinct_map inj_onD prod.inject)
    moreover have "(n, recs n) = r" using True assms(4) by (metis placed_def prod.collapse prod.inject)
    ultimately show ?thesis using *(2) True assms(5) by simp
  next
    case False
    then have "map_of cache (ds_name d', n) = Some k'" using *(2) by (metis fun_upd_apply)
    then show ?thesis using *(1) assms(1) unfolding cache_ok_def by blast
  qed
qed

definition key_result :: "dataset_spec list \<Rightarrow> identity_index \<Rightarrow> (nat \<Rightarrow> prepared_record) \<Rightarrow> (pvalue list \<Rightarrow> bool)
    \<Rightarrow> pvalue list option \<times> key_cache \<Rightarrow> bool" where
  "key_result plan idx recs is_key res \<longleftrightarrow>
     cache_ok plan idx recs (snd res) \<and> (\<forall>k. fst res = Some k \<longrightarrow> is_key k)"


lemma incoming_match_placed: "index_ok recs idx \<Longrightarrow> incoming_match idx name key = Some r \<Longrightarrow> placed recs r"
  using incoming_match_index by (auto simp: index_ok_def)

text \<open>A key that is returned, from the cache or not, is the key of the record.\<close>

lemma target_key_sound:
  assumes "index_ok recs idx" "distinct (map ds_name plan)"
  shows "cache_ok plan idx recs cache \<Longrightarrow> d \<in> set plan \<Longrightarrow> placed recs r \<Longrightarrow>
      key_result plan idx recs (key_of plan idx d r) (record_target_key plan idx visiting d r cache)"
    "cache_ok plan idx recs cache \<Longrightarrow> d \<in> set plan \<Longrightarrow>
      key_result plan idx recs (keys_of plan idx cs vs) (component_keys plan idx visiting d cs vs cache)"
    "cache_ok plan idx recs cache \<Longrightarrow> d \<in> set plan \<Longrightarrow>
      (case component_key plan idx visiting d c vs cache of (part, rest, cache1) \<Rightarrow> cache_ok plan idx recs cache1 \<and>
        (\<forall>k ks. part = Some k \<longrightarrow> keys_of plan idx cs' rest ks \<longrightarrow> keys_of plan idx (c # cs') vs (k @ ks)))"
  using assms
proof (induction plan idx visiting d r cache and plan idx visiting d cs vs cache and plan idx visiting d c vs cache
    arbitrary: and and cs' rule: record_target_key_component_keys_component_key.induct)
  case (1 plan idx visiting d r cache)
  show ?case
  proof (cases "map_of cache (ds_name d, fst r)")
    case (Some key)
    have "key_of plan idx d (fst r, recs (fst r)) key" using 1(3,4) Some unfolding cache_ok_def by blast
    then have "key_of plan idx d r key" using 1(5) by (metis placed_def prod.collapse)
    then show ?thesis using Some 1(3) by (simp add: record_target_key.simps key_result_def)
  next
    case None
    show ?thesis
    proof (cases "ds_name d \<in> set visiting")
      case True
      then show ?thesis using None 1(3) by (simp add: record_target_key.simps key_result_def)
    next
      case False
      obtain a cache1 where a: "component_keys plan idx visiting d (ti_components (ds_target_identity d))
          (pr_target_identity (snd r)) cache = (a, cache1)" by fastforce
      have k1: "key_result plan idx recs (keys_of plan idx (ti_components (ds_target_identity d)) (pr_target_identity (snd r))) (a, cache1)"
        using 1(1)[OF None False 1(3,4,6,7)] a by simp
      show ?thesis
      proof (cases a)
        case None': None
        then show ?thesis using None False a k1 by (simp add: record_target_key.simps key_result_def)
      next
        case (Some key)
        obtain b cache2 where b: "component_keys plan idx visiting d (ti_scope (ds_target_identity d))
            (pr_target_scope (snd r)) cache1 = (b, cache2)" by fastforce
        have "cache_ok plan idx recs cache1" using k1 by (simp add: key_result_def)
        then have k2: "key_result plan idx recs (keys_of plan idx (ti_scope (ds_target_identity d)) (pr_target_scope (snd r))) (b, cache2)"
          using 1(2)[OF None False a[symmetric] Some] 1(4,6,7) b by simp
        show ?thesis
        proof (cases b)
          case None'': None
          then show ?thesis using None False a b Some k2 by (simp add: record_target_key.simps key_result_def)
        next
          case scope: (Some scope)
          have "key_of plan idx d r (key @ scope)"
            using k1 k2 Some scope record_key by (simp add: key_result_def)
          then show ?thesis
            using None False a b Some scope k2 cache_ok_set[OF _ 1(7,4,5)] by (simp add: record_target_key.simps key_result_def)
        qed
      qed
    qed
  qed
next
  case (3 plan idx visiting d c cs vs cache)
  obtain part rest cache1 where p: "component_key plan idx visiting d c vs cache = (part, rest, cache1)" by (metis prod_cases3)
  have part: "cache_ok plan idx recs cache1"
      "part = Some k \<Longrightarrow> keys_of plan idx cs rest ks \<Longrightarrow> keys_of plan idx (c # cs) vs (k @ ks)" for k ks
    using 3(1)[OF 3(3-6), of cs] p by auto
  show ?case
  proof (cases part)
    case None
    then show ?thesis using p part(1) by (simp add: component_keys.simps(2) key_result_def)
  next
    case (Some k)
    have "key_result plan idx recs (keys_of plan idx cs rest) (component_keys plan idx visiting d cs rest cache1)"
      using 3(2)[OF p[symmetric] Some refl part(1) 3(4-6)] by simp
    then show ?thesis using p part(2)[OF Some] Some
      by (auto simp: component_keys.simps(2) key_result_def split: option.splits prod.splits)
  qed
next
  case (4 plan idx visiting d c vs cache)
  show ?case
  proof (cases "ds_name d \<in> set visiting")
    case True
    then show ?thesis using 4(2) by (simp add: component_key.simps)
  next
    case fresh: False
    show ?thesis
    proof (cases "ic_resolve c")
      case None
      then show ?thesis using fresh 4(2)
        by (auto simp: component_key.simps keys_of_scalar Let_def)
    next
      case (Some r)
      show ?thesis
      proof (cases vs)
        case Nil
        then show ?thesis using fresh 4(2) Some by (simp add: component_key.simps)
      next
        case (Cons v rest)
        consider (no) "\<not> is_logical v" | (target) "is_logical v" "rs_target_model r \<noteq> None"
          | (other) "is_logical v" "rs_target_model r = None" "lg_origin v \<noteq> ''incoming'' \<or> rs_dataset r = None"
          | (incoming) name where "is_logical v" "rs_target_model r = None" "lg_origin v = ''incoming''" "rs_dataset r = Some name"
          by (metis not_None_eq)
        then show ?thesis
        proof cases
          case incoming
          then have name: "resolver_dataset_name r = name" by (simp add: resolver_dataset_name_def)
          show ?thesis
          proof (cases "find_dataset plan name")
            case (Inl e)
            then show ?thesis using fresh Some Cons incoming name 4(2) by (simp add: component_key.simps)
          next
            case (Inr d')
            show ?thesis
            proof (cases "incoming_match idx name (lg_key v)")
              case None
              then show ?thesis using fresh Some Cons incoming name Inr 4(2) by (simp add: component_key.simps)
            next
              case found: (Some r')
              have "key_result plan idx recs (key_of plan idx d' r') (record_target_key plan idx (ds_name d # visiting) d' r' cache)"
                using 4(1)[OF fresh Some Cons _ _ _ _ _ 4(2) _ _ 4(4,5)] incoming name Inr found
                  find_dataset_Inr[OF Inr] incoming_match_placed[OF 4(4) found] by simp
              then show ?thesis
                using fresh Some Cons incoming name Inr found
                by (auto simp: component_key.simps key_result_def keys_of_relational reference_target_key_def split: prod.splits) blast
            qed
          qed
        qed (use fresh Some Cons 4(2) in \<open>auto simp: component_key.simps keys_of_relational reference_target_key_def reference_key_def\<close>)
      qed
    qed
  qed
qed (auto simp: key_result_def)

text \<open>For a dataset whose identity has field paths, every key of a record is found.\<close>

lemma target_key_complete:
  assumes "index_ok recs idx" "distinct (map ds_name plan)"
  shows "key_of plan idx d r k \<Longrightarrow> cache_ok plan idx recs cache \<Longrightarrow> d \<in> set plan \<Longrightarrow> placed recs r \<Longrightarrow>
      dataset_identity_fields plan d visiting \<noteq> [] \<Longrightarrow> fst (record_target_key plan idx visiting d r cache) = Some k"
    "keys_of plan idx cs vs ks \<Longrightarrow> cache_ok plan idx recs cache \<Longrightarrow> d' \<in> set plan \<Longrightarrow>
      ds_name d' \<notin> set visiting \<Longrightarrow> component_fields plan d' visiting cs \<noteq> None \<Longrightarrow>
      fst (component_keys plan idx visiting d' cs vs cache) = Some ks"
proof (induction arbitrary: cache visiting and cache visiting d' rule: key_of_keys_of.inducts)
  case (record_key d r key scope)
  show ?case
  proof (cases "map_of cache (ds_name d, fst r)")
    case (Some k)
    have "key_result plan idx recs (key_of plan idx d r) (record_target_key plan idx visiting d r cache)"
      using target_key_sound(1)[OF assms record_key.prems(1-3)] .
    then have "key_of plan idx d r k" using Some by (simp add: key_result_def record_target_key.simps)
    moreover have "key_of plan idx d r (key @ scope)"
      using record_key(1,3) by (rule key_of_keys_of.record_key)
    ultimately have "k = key @ scope" by (rule key_of_unique)
    then show ?thesis using Some by (simp add: record_target_key.simps)
  next
    case None
    have fresh: "ds_name d \<notin> set visiting"
      using record_key.prems(4) by (auto simp: dataset_identity_fields.simps)
    have parts: "component_fields plan d visiting (identity_parts d) \<noteq> None"
      using record_key.prems(4) fresh by (auto simp: dataset_identity_fields.simps split: option.splits)
    have split: "component_fields plan d visiting (as @ bs) \<noteq> None \<Longrightarrow>
        component_fields plan d visiting as \<noteq> None \<and> component_fields plan d visiting bs \<noteq> None" for as bs
      by (induction as) (auto simp: fresh Let_def split: if_splits option.splits)
    have both: "component_fields plan d visiting (ti_components (ds_target_identity d)) \<noteq> None"
        "component_fields plan d visiting (ti_scope (ds_target_identity d)) \<noteq> None"
      using split[of "ti_components (ds_target_identity d)" "ti_scope (ds_target_identity d)"] parts
      unfolding identity_parts_def by blast+
    obtain a cache1 where a: "component_keys plan idx visiting d (ti_components (ds_target_identity d))
        (pr_target_identity (snd r)) cache = (a, cache1)" by fastforce
    have "a = Some key"
      using record_key(2)[OF record_key.prems(1,2) fresh both(1)] a by simp
    moreover have "cache_ok plan idx recs cache1"
      using target_key_sound(2)[OF assms record_key.prems(1,2), of "ti_components (ds_target_identity d)"
          "pr_target_identity (snd r)" visiting] a by (simp add: key_result_def)
    moreover have "fst (component_keys plan idx visiting d (ti_scope (ds_target_identity d)) (pr_target_scope (snd r)) cache1)
        = Some scope"
      by (rule record_key(4)[OF calculation(2) record_key.prems(2) fresh both(2)])
    ultimately show ?thesis
      using None fresh a by (auto simp: record_target_key.simps split: prod.splits)
  qed
next
  case no_components
  then show ?case by simp
next
  case (scalar_component c vs cs rest ks)
  have "component_keys plan idx visiting d' cs rest cache = (Some ks, snd (component_keys plan idx visiting d' cs rest cache))"
    using scalar_component.IH(2)[OF scalar_component.prems(1-3)] scalar_component.prems(4) scalar_component.hyps(1)
      scalar_component.prems(3) by (simp add: prod_eq_iff)
  then show ?case
    using scalar_component.hyps scalar_component.prems(3)
    by (auto simp: component_keys.simps(2) component_key.simps Let_def split: prod.splits)
next
  case (target_component c r key scope cs rest ks dsn m tf tsf ik)
  have "component_keys plan idx visiting d' cs rest cache = (Some ks, snd (component_keys plan idx visiting d' cs rest cache))"
    using target_component.IH(2)[OF target_component.prems(1-3)] target_component(1-4) target_component.prems(3,4)
    by (auto simp add: prod_eq_iff Let_def split: if_splits)
  then show ?case
    using target_component(1-4) target_component.prems(3)
    by (auto simp: component_keys.simps(2) component_key.simps Let_def split: prod.splits)
next
  case (incoming_component c r name d key rec k cs rest ks dsn m tf tsf scope ik)
  note prems = incoming_component.prems
  have name: "resolver_dataset_name r = name" using incoming_component(3) by (simp add: resolver_dataset_name_def)
  have d: "d \<in> set plan" using find_dataset_Inr[OF incoming_component(4)] by simp
  have rec: "placed recs rec" by (rule incoming_match_placed[OF assms(1) incoming_component(5)])
  have nested: "dataset_identity_fields plan d (ds_name d' # visiting) \<noteq> []" "component_fields plan d' visiting cs \<noteq> None"
    using prems(3,4) incoming_component(1-4) name by (auto simp: Let_def split: if_splits)
  obtain a cache1 where a: "record_target_key plan idx (ds_name d' # visiting) d rec cache = (a, cache1)" by fastforce
  have found: "a = Some k" using incoming_component.IH(4)[OF prems(1) d rec nested(1)] a by simp
  have "cache_ok plan idx recs cache1"
    using target_key_sound(1)[OF assms prems(1) d rec, of "ds_name d' # visiting"] a by (simp add: key_result_def)
  then have "fst (component_keys plan idx visiting d' cs rest cache1) = Some ks"
    using incoming_component.IH(6)[OF _ prems(2,3) nested(2)] by blast
  then show ?case
    using incoming_component(1-5) prems(3) name a found
    by (auto simp: component_keys.simps(2) component_key.simps split: prod.splits)
qed

text \<open>The loop over the records of a dataset.\<close>

lemma record_keys_exact:
  assumes "index_ok recs idx" "distinct (map ds_name plan)" "d \<in> set plan" "dataset_identity_fields plan d [] \<noteq> []"
    "\<forall>r \<in> set rs. placed recs r" "cache_ok plan idx recs cache"
  shows "cache_ok plan idx recs (snd (record_target_keys plan idx d rs cache))
    \<and> set (fst (record_target_keys plan idx d rs cache)) = {k. \<exists>r \<in> set rs. key_of plan idx d r k}"
  using assms(5,6)
proof (induction rs arbitrary: cache)
  case (Cons r rs)
  obtain a cache1 where a: "record_target_key plan idx [] d r cache = (a, cache1)" by fastforce
  obtain b cache2 where b: "record_target_keys plan idx d rs cache1 = (b, cache2)" by fastforce
  have sound: "key_result plan idx recs (key_of plan idx d r) (a, cache1)"
    using target_key_sound(1)[OF assms(1,2) Cons.prems(2) assms(3), of r "[]"] Cons.prems(1) a by simp
  have "a = Some k" if "key_of plan idx d r k" for k
    using target_key_complete(1)[OF assms(1,2) that Cons.prems(2) assms(3) _ assms(4)] Cons.prems(1) a by simp
  moreover have "cache_ok plan idx recs cache2 \<and> set b = {k. \<exists>r \<in> set rs. key_of plan idx d r k}"
    using Cons.IH[of cache1] Cons.prems(1) sound b by (simp add: key_result_def)
  moreover have "fst (record_target_keys plan idx d (r # rs) cache) = (case a of None \<Rightarrow> b | Some k \<Rightarrow> k # b)"
      "snd (record_target_keys plan idx d (r # rs) cache) = cache2"
    using a b by simp_all
  moreover have "set (case a of None \<Rightarrow> b | Some k \<Rightarrow> k # b) = {k. key_of plan idx d r k} \<union> set b"
  proof (cases a)
    case None
    then have "\<not> key_of plan idx d r k" for k using calculation(1) by blast
    then show ?thesis using None by simp
  next
    case (Some k)
    then have "key_of plan idx d r k' \<longleftrightarrow> k' = k" for k' using calculation(1) sound by (auto simp: key_result_def)
    then show ?thesis using Some by simp
  qed
  ultimately show ?case by auto
qed simp

end
