(* ===== verification/Read_Plan_Properties.thy ===== *)
theory Read_Plan_Properties
imports Target_Keys Portable_Properties
begin

text \<open>
  What a read plan reads: the domains of a set of keys select exactly the records with one of the keys, and every
  record that a prepared record or reference may correspond to is selected by a request of its model that reads
  the fields needed.
\<close>


section \<open>Domains with the same rendering\<close>

lemma same_text_elements:
  "canonical_json_text (JArray xs) = canonical_json_text (JArray js) \<longleftrightarrow>
     list_all2 (\<lambda>i j. canonical_json_text i = canonical_json_text j) xs js"
proof
  assume "canonical_json_text (JArray xs) = canonical_json_text (JArray js)"
  then have "key_sorted (JArray xs) = key_sorted (JArray js)" by (rule same_text_same_value)
  then have "map key_sorted xs = map key_sorted js" by simp
  then show "list_all2 (\<lambda>i j. canonical_json_text i = canonical_json_text j) xs js"
    by (metis (mono_tags, lifting) list.rel_eq list.rel_map(1,2) list_all2_mono text_key_sorted)
next
  assume "list_all2 (\<lambda>i j. canonical_json_text i = canonical_json_text j) xs js"
  then have "map canonical_json_text xs = map canonical_json_text js" by (induction rule: list_all2_induct) simp_all
  then show "canonical_json_text (JArray xs) = canonical_json_text (JArray js)" by simp
qed

lemma same_text_text: "canonical_json_text (JText s) = canonical_json_text (JText t) \<longleftrightarrow> s = t"
  using same_text_same_value[of "JText s" "JText t"] by auto

lemma same_text_class: "canonical_json_text (JText s) \<noteq> canonical_json_text (JArray js)"
  using same_text_same_value[of "JText s" "JArray js"] by auto

lemma same_item:
  assumes "lawful sel" "canonical_key (item_value i) = canonical_key (item_value j)"
  shows "apply_item sel i st = apply_item sel j st"
proof (cases i; cases j)
  fix s t
  assume "i = Operator s" "j = Operator t"
  then show ?thesis using assms(2) by (simp add: canonical_key_def same_text_text del: canonical_json_text.simps)
next
  fix s f t v
  assume "i = Operator s" "j = Leaf f t v"
  then show ?thesis using assms(2) by (simp add: canonical_key_def same_text_class del: canonical_json_text.simps)
next
  fix s f t v
  assume "i = Leaf f t v" "j = Operator s"
  then show ?thesis
    using assms(2) by (simp add: canonical_key_def same_text_class[symmetric] del: canonical_json_text.simps)
next
  fix f t v f' t' v'
  assume ij: "i = Leaf f t v" "j = Leaf f' t' v'"
  then have "f = f'" "t = t'" "canonical_key v = canonical_key v'"
    using assms(2) by (simp_all add: canonical_key_def same_text_elements same_text_text del: canonical_json_text.simps)
  moreover then have "sel f t v = sel f t v'" using assms(1) unfolding lawful_def by blast
  ultimately show ?thesis using ij by (cases st) simp_all
qed

lemma same_rendering_selects:
  assumes "lawful sel" "canonical_key (PTuple (domain_value d)) = canonical_key (PTuple (domain_value e))"
  shows "selects sel d = selects sel e"
proof -
  have "list_all2 (\<lambda>i j. canonical_key (item_value i) = canonical_key (item_value j)) d e"
    using assms(2) by (simp add: canonical_key_def same_text_elements domain_value_def list.rel_map del: canonical_json_text.simps)
  then have "run_domain sel d st = run_domain sel e st" for st
  proof (induction rule: list_all2_induct)
    case (Cons i d j e)
    then show ?case unfolding run_domain_Cons by (metis same_item[OF assms(1)])
  qed simp
  then show ?thesis by (simp add: selects_def)
qed

lemma unique_domains_cover:
  assumes "d \<in> set ds"
  obtains e where "e \<in> set (unique_domains wrap ds)"
    "canonical_key (wrap (domain_value e)) = canonical_key (wrap (domain_value d))" "e \<in> set ds"
  using dict_of_entry[OF assms, of "canonical_key \<circ> wrap \<circ> domain_value"] unfolding unique_domains_def
  by (metis (no_types, lifting) comp_apply image_eqI image_set set_sort snd_conv)


section \<open>What the planning collects\<close>

definition grows :: "read_state \<Rightarrow> read_state \<Rightarrow> bool" where
  "grows s s' \<longleftrightarrow> (\<forall>m. set (dict_get (rd_fields s) m []) \<subseteq> set (dict_get (rd_fields s') m [])
     \<and> set (dict_get (rd_domains s) m []) \<subseteq> set (dict_get (rd_domains s') m []))"

lemma grows_refl [simp]: "grows s s"
  by (simp add: grows_def)

lemma grows_trans: "grows s t \<Longrightarrow> grows t u \<Longrightarrow> grows s u"
  unfolding grows_def by blast

lemma want_fields_get [simp]:
  "dict_get (rd_fields (want_fields m fs s)) m' [] = dict_get (rd_fields s) m' [] @ (if m' = m then fs else [])"
  "rd_domains (want_fields m fs s) = rd_domains s" "rd_cache (want_fields m fs s) = rd_cache s"
  by (simp_all add: want_fields_def dict_get_set)

lemma add_domains_get [simp]:
  "dict_get (rd_domains (add_domains m ds s)) m' [] = dict_get (rd_domains s) m' [] @ (if m' = m then ds else [])"
  "rd_fields (add_domains m ds s) = rd_fields s" "rd_cache (add_domains m ds s) = rd_cache s"
  by (simp_all add: add_domains_def dict_get_set)

lemma want_fields_grows [simp]: "grows s (want_fields m fs s)"
  by (simp add: grows_def)

lemma add_domains_grows [simp]: "grows s (add_domains m ds s)"
  by (simp add: grows_def)

lemma foldr_res_grows:
  assumes "foldr_res f s xs = Inr s'" "\<And>s x s'. x \<in> set xs \<Longrightarrow> f s x = Inr s' \<Longrightarrow> grows s s'"
  shows "grows s s'"
  using assms
proof (induction xs arbitrary: s)
  case (Cons x xs)
  from Cons.prems(1) obtain t where t: "f s x = Inr t" "foldr_res f t xs = Inr s'" by (auto simp: res_simps)
  have "grows s t" using Cons.prems(2)[OF _ t(1)] by simp
  moreover have "grows t s'" using t(2) Cons.prems(2) by (intro Cons.IH) auto
  ultimately show ?case by (rule grows_trans)
qed simp

lemma foldr_res_reached:
  assumes "foldr_res f s xs = Inr s'" "x \<in> set xs" "\<And>s x s'. x \<in> set xs \<Longrightarrow> f s x = Inr s' \<Longrightarrow> grows s s'"
    "I s" "\<And>s x s'. x \<in> set xs \<Longrightarrow> I s \<Longrightarrow> f s x = Inr s' \<Longrightarrow> I s'"
  obtains t t' where "I t" "f t x = Inr t'" "grows t' s'"
proof -
  obtain as bs where xs: "xs = as @ x # bs" using assms(2) by (meson split_list)
  with assms(1) obtain t t' where t: "foldr_res f s as = Inr t" "f t x = Inr t'" "foldr_res f t' bs = Inr s'"
    by (auto simp: foldr_res_append res_simps)
  have "I t" using foldr_res_invariant[OF t(1), of I] assms(4,5) xs by auto
  moreover have "grows t' s'" using foldr_res_grows[OF t(3)] assms(3) xs by auto
  ultimately show thesis using t(2) that by blast
qed

lemma identity_reads_grow: "plan_identity_reads plan idx n d rs s = Inr s' \<Longrightarrow> grows s s'"
  by (auto simp: plan_identity_reads_def Let_def grows_def split: if_splits prod.splits option.splits)

lemma component_reads_grow: "plan_component_reads n s cr = Inr s' \<Longrightarrow> grows s s' \<and> rd_cache s' = rd_cache s"
  by (auto simp: plan_component_reads_def Let_def grows_def split: if_splits prod.splits option.splits)

lemma relation_reads_grow: "plan_relation_reads n rs s fr = Inr s' \<Longrightarrow> grows s s' \<and> rd_cache s' = rd_cache s"
  by (auto simp: plan_relation_reads_def Let_def grows_def split: if_splits prod.splits option.splits)

lemma foldr_res_cache:
  assumes "foldr_res f s xs = Inr s'" "\<And>s x s'. f s x = Inr s' \<Longrightarrow> grows s s' \<and> rd_cache s' = rd_cache s"
  shows "grows s s' \<and> rd_cache s' = rd_cache s"
proof (rule foldr_res_invariant[OF assms(1)])
  show "grows s s \<and> rd_cache s = rd_cache s" by simp
next
  fix t x u
  assume "grows s t \<and> rd_cache t = rd_cache s" "f t x = Inr u"
  then show "grows s u \<and> rd_cache u = rd_cache s" using assms(2)[of t x u] by (auto intro: grows_trans)
qed

lemma dataset_reads_cases:
  assumes "plan_dataset_reads plan idx all n s d = Inr s'"
  obtains s1 s2 groups where "plan_identity_reads plan idx n d (filter (\<lambda>r. pr_dataset (snd r) = ds_name d) all) s = Inr s1"
    "foldr_res (plan_component_reads n) s1 groups = Inr s2"
    "foldr_res (plan_relation_reads n (map snd (filter (\<lambda>r. pr_dataset (snd r) = ds_name d) all))) s2 (ds_relations d) = Inr s'"
    "grows s s1" "grows s1 s'" "rd_cache s' = rd_cache s1"
proof -
  from assms obtain s1 s2 groups where s: "plan_identity_reads plan idx n d (filter (\<lambda>r. pr_dataset (snd r) = ds_name d) all) s = Inr s1"
    "foldr_res (plan_component_reads n) s1 groups = Inr s2"
    "foldr_res (plan_relation_reads n (map snd (filter (\<lambda>r. pr_dataset (snd r) = ds_name d) all))) s2 (ds_relations d) = Inr s'"
    by (auto simp: plan_dataset_reads_def Let_def res_simps)
  have "grows s1 s2 \<and> rd_cache s2 = rd_cache s1" by (rule foldr_res_cache[OF s(2) component_reads_grow])
  moreover have "grows s2 s' \<and> rd_cache s' = rd_cache s2" by (rule foldr_res_cache[OF s(3) relation_reads_grow])
  ultimately show thesis
    by (intro that[OF s identity_reads_grow[OF s(1)]]) (auto intro: grows_trans)
qed

lemma index_of_placed:
  assumes "\<forall>r \<in> set rs. placed recs r"
  shows "index_ok recs (incoming_identity_index rs)"
proof -
  let ?f = "\<lambda>r d. let key = identity_index_key (snd r) in
     if map_of d key \<noteq> None then dict_set d key None else dict_set d key (Some r)"
  have "map_of (fold ?f rs d) k = Some (Some r) \<Longrightarrow> map_of d k = Some (Some r) \<or> r \<in> set rs" for d k r
  proof (induction rs arbitrary: d)
    case (Cons q rs)
    then have "map_of (?f q d) k = Some (Some r) \<or> r \<in> set rs" by (simp del: Let_def)
    then show ?case by (auto simp: Let_def map_of_dict_set split: if_splits)
  qed simp
  then have found: "map_of (incoming_identity_index rs) k = Some (Some r) \<Longrightarrow> r \<in> set rs" for k r
    unfolding incoming_identity_index_def by fastforce
  have "distinct (map fst d) \<Longrightarrow> distinct (map fst (fold ?f rs d))" for d
    by (induction rs arbitrary: d) (auto simp: Let_def dict_simps)
  then have "distinct (map fst (incoming_identity_index rs))" unfolding incoming_identity_index_def by simp
  then show ?thesis using found assms unfolding index_ok_def by (force simp: map_of_is_SomeI)
qed

lemma model_request:
  assumes "lawful sel" "c \<in> set (dict_get (rd_domains s) m [])" "c \<noteq> []" "selects sel c = Some True"
  obtains q where "q \<in> set (concat (map (model_requests s) (sort_key fst (rd_domains s))))" "rr_model q = m"
    "selects sel (rr_domain q) = Some True" "set (rr_fields q) = set (dict_get (rd_fields s) m [])"
proof -
  obtain ds where ds: "(m, ds) \<in> set (rd_domains s)" "c \<in> set ds"
    using assms(2) by (cases "map_of (rd_domains s) m") (auto simp: dict_get_def dest: map_of_SomeD)
  then obtain e where e: "e \<in> set (unique_domains PTuple (filter (\<lambda>d. d \<noteq> []) ds))"
      "canonical_key (PTuple (domain_value e)) = canonical_key (PTuple (domain_value c))"
    using unique_domains_cover[of c "filter (\<lambda>d. d \<noteq> []) ds" PTuple] assms(3) by auto
  let ?q = "\<lparr>rr_model = m, rr_fields = sorted_set (dict_get (rd_fields s) m []), rr_domain = e, rr_limit = None\<rparr>"
  have "?q \<in> set (model_requests s (m, ds))" using e(1) by (simp add: model_requests_def)
  then have "?q \<in> set (concat (map (model_requests s) (sort_key fst (rd_domains s))))" using ds(1) by (auto intro!: bexI)
  then show thesis
    using same_rendering_selects[OF assms(1) e(2)] assms(4) by (intro that[of ?q]) (simp_all add: sorted_set_def)
qed

lemma identity_reads_cache:
  assumes "plan_identity_reads plan idx n d rs s = Inr s'" "index_ok recs idx" "distinct (map ds_name plan)" "d \<in> set plan"
    "\<forall>r \<in> set rs. placed recs r" "cache_ok plan idx recs (rd_cache s)"
  shows "cache_ok plan idx recs (rd_cache s')"
proof (cases "rs = [] \<or> dataset_identity_fields plan d [] = []")
  case True
  then show ?thesis using assms(1,6)
    by (auto simp: plan_identity_reads_def dataset_identity_domain_chunks_def Let_def split: if_splits option.splits)
next
  case False
  then show ?thesis using assms(1) record_keys_exact[OF assms(2-4) _ assms(5,6)]
    by (auto simp: plan_identity_reads_def dataset_identity_domain_chunks_def Let_def
        split: if_splits option.splits prod.splits)
qed

lemma identity_reads_cover:
  assumes "plan_identity_reads plan idx n d rs s = Inr s'" "index_ok recs idx" "distinct (map ds_name plan)" "d \<in> set plan"
    "\<forall>r \<in> set rs. placed recs r" "cache_ok plan idx recs (rd_cache s)"
    and "r \<in> set rs" "dataset_identity_fields plan d [] \<noteq> []" "key_of plan idx d r k"
    and "complete_key (dataset_identity_fields plan d []) k"
    and "lawful sel" "0 < n" "matches_key sel (dataset_identity_fields plan d []) k"
    and "selects sel (ds_target_domain d) = Some True"
  obtains c where "c \<in> set (dict_get (rd_domains s') (ts_model (ds_target d)) [])" "c \<noteq> []" "selects sel c = Some True"
    "set (dataset_target_fields d) \<subseteq> set (dict_get (rd_fields s') (ts_model (ds_target d)) [])"
proof -
  let ?keys = "fst (record_target_keys plan idx d rs (rd_cache s))"
  let ?chunks = "key_domain_chunks (dataset_identity_fields plan d []) ?keys n"
  have "k \<in> set ?keys" using record_keys_exact[OF assms(2-4,8,5,6)] assms(7,9) by auto
  then obtain c where c: "c \<in> set ?chunks" "expression sel c True"
    using key_chunk_covers[OF assms(11,12,8) _ assms(10,13)] by blast
  have "selects sel (combine_domains (ds_target_domain d) c) = Some True"
    using selects_combined[OF assms(14) c(2)] by simp
  moreover have "combine_domains (ds_target_domain d) c \<noteq> []"
    using expression_nonempty[OF c(2)] by (simp add: combine_domains_def)
  moreover have "rs \<noteq> []" using assms(7) by auto
  then have s': "s' = add_domains (ts_model (ds_target d)) (map (combine_domains (ds_target_domain d)) ?chunks)
      (want_fields (ts_model (ds_target d)) (dataset_target_fields d)
        (s\<lparr>rd_cache := snd (record_target_keys plan idx d rs (rd_cache s))\<rparr>))"
    using assms(1,8) c(1)
    by (auto simp: plan_identity_reads_def dataset_identity_domain_chunks_def Let_def split_beta split: if_splits)
  then have "combine_domains (ds_target_domain d) c \<in> set (dict_get (rd_domains s') (ts_model (ds_target d)) [])"
    using c(1) by simp
  ultimately show thesis using that s' by simp
qed


section \<open>Properties\<close>

text \<open>The domains built from a set of keys are well formed and together select exactly the records that have
  one of the complete keys.\<close>

theorem key_domains_select_keys:
  assumes "lawful sel" "0 < n" "paths \<noteq> []"
  shows "(\<forall>chunk \<in> set (key_domain_chunks paths keys n). selects sel chunk \<noteq> None)
    \<and> ((\<exists>chunk \<in> set (key_domain_chunks paths keys n). selects sel chunk = Some True)
        \<longleftrightarrow> (\<exists>key \<in> set keys. complete_key paths key \<and> matches_key sel paths key))"
proof (intro conjI ballI)
  show "(\<exists>chunk \<in> set (key_domain_chunks paths keys n). selects sel chunk = Some True)
      \<longleftrightarrow> (\<exists>key \<in> set keys. complete_key paths key \<and> matches_key sel paths key)" (is "?L \<longleftrightarrow> ?R")
  proof
    assume ?L
    then obtain c where c: "c \<in> set (key_domain_chunks paths keys n)" "selects sel c = Some True" ..
    obtain b where "expression sel c b" "b \<longrightarrow> ?R" using key_chunk_expression[OF assms(1) c(1)] .
    then show ?R using c(2) selects_unique by metis
  next
    assume ?R
    then show ?L using key_chunk_covers[OF assms] selects_expression by metis
  qed
next
  fix chunk
  assume "chunk \<in> set (key_domain_chunks paths keys n)"
  then show "selects sel chunk \<noteq> None"
    using key_chunk_expression[OF assms(1)] selects_expression by (metis option.distinct(1))
qed

text \<open>A record that may correspond to a prepared record, or to the target of one of its references, reaches the plan.\<close>

lemma plan_cases:
  assumes "plan_preflight_requirements p records m policy = Inr rp"
  obtains s where "1 \<le> m" "foldr_res (plan_dataset_reads (cp_datasets p) (incoming_identity_index (List.enumerate 0 records))
      (List.enumerate 0 records) (nat m)) \<lparr>rd_fields = [], rd_domains = [], rd_cache = []\<rparr> (cp_datasets p) = Inr s"
    "rp_record_requests rp = concat (map (model_requests s) (sort_key fst (rd_domains s)))"
proof -
  from assms obtain s where "1 \<le> m" "foldr_res (plan_dataset_reads (cp_datasets p) (incoming_identity_index (List.enumerate 0 records))
      (List.enumerate 0 records) (nat m)) \<lparr>rd_fields = [], rd_domains = [], rd_cache = []\<rparr> (cp_datasets p) = Inr s"
      "rp_record_requests rp = concat (map (model_requests s) (sort_key fst (rd_domains s)))"
    unfolding plan_preflight_requirements_def Let_def by (auto simp: res_simps)
  then show thesis by (rule that)
qed

lemma placed_enumerate: "\<forall>r \<in> set (List.enumerate 0 records). placed (\<lambda>i. records ! i) r"
  by (auto simp: placed_def in_set_enumerate_eq)

lemma dataset_reads_grow: "plan_dataset_reads plan idx all n s d = Inr s' \<Longrightarrow> grows s s'"
  by (erule dataset_reads_cases) (blast intro: grows_trans)

lemma dataset_reads_cache:
  assumes "plan_dataset_reads plan idx all n s d = Inr s'" "index_ok recs idx" "distinct (map ds_name plan)" "d \<in> set plan"
    "\<forall>r \<in> set all. placed recs r" "cache_ok plan idx recs (rd_cache s)"
  shows "cache_ok plan idx recs (rd_cache s')"
  using assms(1)
proof (rule dataset_reads_cases)
  fix s1
  assume s1: "plan_identity_reads plan idx n d (filter (\<lambda>r. pr_dataset (snd r) = ds_name d) all) s = Inr s1"
    "rd_cache s' = rd_cache s1"
  show ?thesis using identity_reads_cache[OF s1(1) assms(2-4) _ assms(6)] assms(5) s1(2) by simp
qed

text \<open>The state in which a dataset is read, and the requests that state leads to.\<close>

lemma dataset_reached:
  assumes "plan_preflight_requirements p records m policy = Inr rp" "distinct (map ds_name (cp_datasets p))"
    and "d \<in> set (cp_datasets p)"
  defines "all \<equiv> List.enumerate 0 records"
  obtains s t t' where "cache_ok (cp_datasets p) (incoming_identity_index all) (\<lambda>i. records ! i) (rd_cache t)" "1 \<le> m"
    "plan_dataset_reads (cp_datasets p) (incoming_identity_index all) all (nat m) t d = Inr t'" "grows t' s"
    "rp_record_requests rp = concat (map (model_requests s) (sort_key fst (rd_domains s)))"
proof -
  obtain s where s: "1 \<le> m" "foldr_res (plan_dataset_reads (cp_datasets p) (incoming_identity_index all) all (nat m))
        \<lparr>rd_fields = [], rd_domains = [], rd_cache = []\<rparr> (cp_datasets p) = Inr s"
      "rp_record_requests rp = concat (map (model_requests s) (sort_key fst (rd_domains s)))"
    using plan_cases[OF assms(1)] unfolding all_def .
  have index: "index_ok (\<lambda>i. records ! i) (incoming_identity_index all)"
    unfolding all_def by (intro index_of_placed placed_enumerate)
  show thesis
    using s(2) assms(3)
  proof (rule foldr_res_reached[where I = "\<lambda>t. cache_ok (cp_datasets p) (incoming_identity_index all) (\<lambda>i. records ! i) (rd_cache t)"])
    show "cache_ok (cp_datasets p) (incoming_identity_index all) (\<lambda>i. records ! i)
        (rd_cache \<lparr>rd_fields = [], rd_domains = [], rd_cache = []\<rparr>)" by (simp add: cache_ok_def)
  next
    fix t e t'
    assume "plan_dataset_reads (cp_datasets p) (incoming_identity_index all) all (nat m) t e = Inr t'"
    then show "grows t t'" by (rule dataset_reads_grow)
  next
    fix t e t'
    assume "e \<in> set (cp_datasets p)" "plan_dataset_reads (cp_datasets p) (incoming_identity_index all) all (nat m) t e = Inr t'"
      "cache_ok (cp_datasets p) (incoming_identity_index all) (\<lambda>i. records ! i) (rd_cache t)"
    then show "cache_ok (cp_datasets p) (incoming_identity_index all) (\<lambda>i. records ! i) (rd_cache t')"
      using dataset_reads_cache index assms(2) placed_enumerate unfolding all_def by blast
  next
    fix t t'
    assume "cache_ok (cp_datasets p) (incoming_identity_index all) (\<lambda>i. records ! i) (rd_cache t)"
      "plan_dataset_reads (cp_datasets p) (incoming_identity_index all) all (nat m) t d = Inr t'" "grows t' s"
    then show thesis using that s(1,3) by blast
  qed
qed

text \<open>C30: Every record that has the target key of a prepared record and lies in the domain of its dataset is
  selected by a request for the model of the dataset, which reads all fields the dataset maps.  The key is the one
  the identity denotes, whatever the order of the datasets and the state of the key cache.\<close>

theorem planned_reads_cover_identities:
  assumes "plan_preflight_requirements p records m policy = Inr rp" "distinct (map ds_name (cp_datasets p))"
    and "d \<in> set (cp_datasets p)" "i < length records" "pr_dataset (records ! i) = ds_name d"
    and "dataset_identity_fields (cp_datasets p) d [] = paths" "paths \<noteq> []"
    and "key_of (cp_datasets p) (incoming_identity_index (List.enumerate 0 records)) d (i, records ! i) key"
    and "lawful sel" "complete_key paths key" "matches_key sel paths key" "selects sel (ds_target_domain d) = Some True"
  shows "\<exists>q \<in> set (rp_record_requests rp). rr_model q = ts_model (ds_target d) \<and> selects sel (rr_domain q) = Some True
    \<and> set (dataset_target_fields d) \<subseteq> set (rr_fields q)"
proof -
  let ?all = "List.enumerate 0 records" and ?plan = "cp_datasets p"
  let ?idx = "incoming_identity_index ?all" and ?recs = "\<lambda>i. records ! i"
  let ?rs = "filter (\<lambda>r. pr_dataset (snd r) = ds_name d) ?all"
  obtain s t t' where t: "cache_ok ?plan ?idx ?recs (rd_cache t)" "1 \<le> m"
      "plan_dataset_reads ?plan ?idx ?all (nat m) t d = Inr t'" "grows t' s"
      "rp_record_requests rp = concat (map (model_requests s) (sort_key fst (rd_domains s)))"
    using dataset_reached[OF assms(1-3)] .
  obtain s1 where s1: "plan_identity_reads ?plan ?idx (nat m) d ?rs t = Inr s1" "grows s1 t'"
    using t(3) by (rule dataset_reads_cases)
  have rs: "\<forall>r \<in> set ?rs. placed ?recs r" "(i, records ! i) \<in> set ?rs" "0 < nat m"
    using placed_enumerate[of records] assms(4,5) t(2) by (auto simp: in_set_enumerate_eq)
  obtain c where c: "c \<in> set (dict_get (rd_domains s1) (ts_model (ds_target d)) [])" "c \<noteq> []" "selects sel c = Some True"
      "set (dataset_target_fields d) \<subseteq> set (dict_get (rd_fields s1) (ts_model (ds_target d)) [])"
    using identity_reads_cover[OF s1(1) index_of_placed[OF placed_enumerate] assms(2,3) rs(1) t(1) rs(2) _ assms(8) _
        assms(9) rs(3) _ assms(12)] assms(6,7,10,11) by blast
  have "grows s1 s" using s1(2) t(4) by (rule grows_trans)
  then have "c \<in> set (dict_get (rd_domains s) (ts_model (ds_target d)) [])"
      "set (dataset_target_fields d) \<subseteq> set (dict_get (rd_fields s) (ts_model (ds_target d)) [])"
    using c(1,4) unfolding grows_def by blast+
  then show ?thesis using model_request[OF assms(9) _ c(2,3)] t(5) by (metis (no_types, lifting))
qed

text \<open>C31: Every record that has the key of a reference to an existing record, from a prepared record or as the
  fallback of a blank value, is selected by a request for the model of the reference, which reads all fields the
  reference is resolved through.\<close>

theorem planned_reads_cover_references:
  assumes "plan_preflight_requirements p records m policy = Inr rp" "distinct (map ds_name (cp_datasets p))"
    and "d \<in> set (cp_datasets p)" "(target, rel) \<in> set (ds_relations d)"
    and "rs_target_model (rl_resolve rel) = Some model" "resolved_fields (rl_resolve rel) = paths" "paths \<noteq> []"
    and "v \<in> set (relation_references target rel (filter (\<lambda>r. pr_dataset r = ds_name d) records))"
    and "lawful sel" "complete_key paths (reference_key v)" "matches_key sel paths (reference_key v)"
  shows "\<exists>q \<in> set (rp_record_requests rp). rr_model q = model \<and> selects sel (rr_domain q) = Some True
    \<and> set paths \<subseteq> set (rr_fields q)"
proof -
  let ?all = "List.enumerate 0 records" and ?plan = "cp_datasets p"
  let ?idx = "incoming_identity_index ?all"
  let ?rs = "map snd (filter (\<lambda>r. pr_dataset (snd r) = ds_name d) ?all)"
  have rs: "?rs = filter (\<lambda>r. pr_dataset r = ds_name d) records"
    using filter_map[of "\<lambda>r. pr_dataset r = ds_name d" snd ?all] by (simp add: o_def)
  obtain s t t' where t: "1 \<le> m" "plan_dataset_reads ?plan ?idx ?all (nat m) t d = Inr t'" "grows t' s"
      "rp_record_requests rp = concat (map (model_requests s) (sort_key fst (rd_domains s)))"
    using dataset_reached[OF assms(1-3)] .
  obtain s2 where "foldr_res (plan_relation_reads (nat m) ?rs) s2 (ds_relations d) = Inr t'"
    using t(2) by (rule dataset_reads_cases)
  then obtain u u' where u: "plan_relation_reads (nat m) ?rs u (target, rel) = Inr u'" "grows u' t'"
    by (rule foldr_res_reached[OF _ assms(4), where I = "\<lambda>_. True"]) (use relation_reads_grow in \<open>blast+\<close>)
  let ?refs = "relation_references target rel ?rs"
  have refs: "?refs \<noteq> []" "v \<in> set ?refs" using assms(8) rs by auto
  obtain c where c: "c \<in> set (key_domain_chunks paths (map reference_key ?refs) (nat m))" "expression sel c True"
    using key_chunk_covers[OF assms(9) _ assms(7) _ assms(10,11), of "nat m" "map reference_key ?refs"] refs(2) t(1) by auto
  have "u' = add_domains model (reference_domains (rl_resolve rel) ?refs (nat m)) (want_fields model paths u)"
    using u(1) assms(5,6) refs(1) by (auto simp: plan_relation_reads_def Let_def split: if_splits)
  then have "c \<in> set (dict_get (rd_domains u') model [])" "set paths \<subseteq> set (dict_get (rd_fields u') model [])"
    using c(1) assms(6) by (auto simp: reference_domains_def)
  moreover have "grows u' s" using u(2) t(3) by (rule grows_trans)
  ultimately have "c \<in> set (dict_get (rd_domains s) model [])" "set paths \<subseteq> set (dict_get (rd_fields s) model [])"
    unfolding grows_def by blast+
  then show ?thesis
    using model_request[OF assms(9) _ expression_nonempty[OF c(2)] selects_expression[OF c(2)]] t(4)
    by (metis (no_types, lifting))
qed


section \<open>Concrete plans\<close>

text \<open>The selection of one record whose fields hold texts.\<close>

definition text_record :: "(string \<Rightarrow> string) \<Rightarrow> selection" where
  "text_record rec f op v = (if op = ''='' then canonical_key v = canonical_key (PText (rec f))
     else if op = ''in'' then (case portable_value v of
         JArray js \<Rightarrow> list_ex (\<lambda>j. canonical_json_text j = canonical_json_text (JText (rec f))) js | _ \<Rightarrow> False)
     else False)"

lemma portable_text: "portable_value v = JText s \<longleftrightarrow> v = PText s"
  by (cases v) (auto simp: typed_value_def)

lemma canonical_key_text: "canonical_key v = canonical_key (PText s) \<longleftrightarrow> v = PText s"
proof
  assume "canonical_key v = canonical_key (PText s)"
  then have "key_sorted (portable_value v) = JText s"
    using same_text_same_value[of "portable_value v" "JText s"] by (simp add: canonical_key_def)
  then have "portable_value v = JText s" by (cases "portable_value v") simp_all
  then show "v = PText s" by (simp add: portable_text)
qed simp

lemma array_texts:
  assumes "canonical_json_text i = canonical_json_text (JArray js)"
  obtains xs where "i = JArray xs" "map canonical_json_text xs = map canonical_json_text js"
proof -
  have "key_sorted i = key_sorted (JArray js)" using assms by (rule same_text_same_value)
  then obtain xs where i: "i = JArray xs" by (cases i) simp_all
  then have "list_all2 (\<lambda>i j. canonical_json_text i = canonical_json_text j) xs js"
    using assms by (simp add: same_text_elements del: canonical_json_text.simps)
  then have "map canonical_json_text xs = map canonical_json_text js" by (induction rule: list_all2_induct) simp_all
  then show thesis using i that by blast
qed

lemma list_ex_text: "list_ex (\<lambda>j. canonical_json_text j = t) js \<longleftrightarrow> t \<in> set (map canonical_json_text js)"
  by (auto simp: list_ex_iff)

lemma text_record_lawful: "lawful (text_record rec)"
  unfolding lawful_def
proof (intro conjI allI impI)
  fix f v w
  assume "python_form v = python_form w"
  then show "text_record rec f ''='' v = text_record rec f ''='' w"
    unfolding text_record_def canonical_key_text by (cases v; cases w) auto
next
  fix f vs
  show "text_record rec f ''in'' (PList vs) = list_ex (\<lambda>v. text_record rec f ''='' v) vs"
    by (simp add: text_record_def canonical_key_def list_ex_iff del: canonical_json_text.simps)
next
  fix f op v w
  assume same: "canonical_key v = canonical_key w"
  have "text_record rec f ''in'' v = text_record rec f ''in'' w"
  proof (cases "\<exists>js. portable_value v = JArray js \<or> portable_value w = JArray js")
    case True
    then obtain xs js where "portable_value v = JArray xs" "portable_value w = JArray js"
        "map canonical_json_text xs = map canonical_json_text js"
      using same array_texts unfolding canonical_key_def by metis
    then show ?thesis by (simp add: text_record_def list_ex_text del: canonical_json_text.simps)
  next
    case False
    then show ?thesis by (auto simp: text_record_def split: json.splits)
  qed
  then show "text_record rec f op v = text_record rec f op w" using same by (auto simp: text_record_def)
qed

definition sample_plan :: compiled_plan where
  "sample_plan = \<lparr>cp_plan_id = ''partners'', cp_origin = Profile_Document,
     cp_origin_hash = ''sha256:'' @ replicate 64 (CHR ''0''), cp_datasets = [sample_partners],
     cp_source_selection_hash = None, cp_schema_hash = None, cp_derived_plan_hash = None,
     cp_contract_version = 2, cp_compiler_version = 3\<rparr>"

definition sample_record :: prepared_record where
  "sample_record = \<lparr>pr_dataset = ''partners'', pr_source_row = 2, pr_target_model = ''res.partner'',
     pr_source_identity = [PText ''A1''], pr_target_identity = [PText ''A1''], pr_target_scope = [],
     pr_scalar_values = [], pr_references = [(''country_id'', PLogical ''target'' [PText ''CH''] None
       (Some ''res.country'') [''code''] [] [] None)], pr_source_trace_id = [], pr_issues = []\<rparr>"

lemma sample_planned: "\<not> isl (plan_preflight_requirements sample_plan [sample_record] 500 [])"
  by code_simp

lemma sample_match [simp]: "matches_key (text_record (\<lambda>_. s)) [f] [PText s]"
  by (simp add: matches_key_def text_record_def)

lemma sample_complete [simp]: "complete_key [f] [PText s]"
  by (simp add: complete_key_def)

theorem key_domains_select_keys_witness:
  "\<exists>chunk \<in> set (key_domain_chunks [''code''] [[PText ''CH''], [PNone], [PText ''FR'']] 2).
     selects (text_record (\<lambda>_. ''FR'')) chunk = Some True"
proof -
  have "\<exists>key \<in> set [[PText ''CH''], [PNone], [PText ''FR'']]. complete_key [''code''] key
      \<and> matches_key (text_record (\<lambda>_. ''FR'')) [''code''] key"
    by simp
  then show ?thesis
    using key_domains_select_keys[OF text_record_lawful[of "\<lambda>_. ''FR''"], of 2 "[''code'']"
        "[[PText ''CH''], [PNone], [PText ''FR'']]"] by simp
qed

theorem planned_reads_cover_identities_witness:
  "\<exists>rp. plan_preflight_requirements sample_plan [sample_record] 500 [] = Inr rp
    \<and> (\<exists>q \<in> set (rp_record_requests rp). rr_model q = ''res.partner''
      \<and> selects (text_record (\<lambda>_. ''A1'')) (rr_domain q) = Some True)"
proof -
  obtain rp where rp: "plan_preflight_requirements sample_plan [sample_record] 500 [] = Inr rp"
    using sample_planned by (cases "plan_preflight_requirements sample_plan [sample_record] 500 []") simp_all
  have plan: "cp_datasets sample_plan = [sample_partners]" "ts_model (ds_target sample_partners) = ''res.partner''"
      "ds_target_domain sample_partners = []" "ds_name sample_partners = ''partners''"
    by (simp_all add: sample_plan_def sample_partners_def)
  have paths: "dataset_identity_fields [sample_partners] sample_partners [] = [''ref'']"
    by (simp add: dataset_identity_fields.simps identity_parts_def sample_partners_def)
  have "key_of [sample_partners] idx sample_partners (0, sample_record) ([PText ''A1''] @ [])" for idx
    by (rule record_key) (simp_all add: sample_partners_def sample_record_def keys_of_scalar Let_def)
  then have key: "key_of (cp_datasets sample_plan) (incoming_identity_index (List.enumerate 0 [sample_record])) sample_partners
      (0, [sample_record] ! 0) [PText ''A1'']" by (simp add: plan)
  have "\<exists>q \<in> set (rp_record_requests rp). rr_model q = ts_model (ds_target sample_partners)
      \<and> selects (text_record (\<lambda>_. ''A1'')) (rr_domain q) = Some True
      \<and> set (dataset_target_fields sample_partners) \<subseteq> set (rr_fields q)"
    by (rule planned_reads_cover_identities[OF rp _ _ _ _ _ _ key text_record_lawful sample_complete[of "''ref''"] sample_match])
      (simp_all add: plan paths sample_record_def selects_def)
  then show ?thesis using rp plan(2) by auto
qed

theorem planned_reads_cover_references_witness:
  "\<exists>rp. plan_preflight_requirements sample_plan [sample_record] 500 [] = Inr rp
    \<and> (\<exists>q \<in> set (rp_record_requests rp). rr_model q = ''res.country''
      \<and> selects (text_record (\<lambda>_. ''CH'')) (rr_domain q) = Some True)"
proof -
  obtain rp where rp: "plan_preflight_requirements sample_plan [sample_record] 500 [] = Inr rp"
    using sample_planned by (cases "plan_preflight_requirements sample_plan [sample_record] 500 []") simp_all
  let ?v = "PLogical ''target'' [PText ''CH''] None (Some ''res.country'') [''code''] [] [] None"
  have plan: "cp_datasets sample_plan = [sample_partners]" "ds_name sample_partners = ''partners''"
      "ds_relations sample_partners = [(''country_id'', sample_country)]"
      "rs_target_model (rl_resolve sample_country) = Some ''res.country''"
      "resolved_fields (rl_resolve sample_country) = [''code'']"
    by (simp_all add: sample_plan_def sample_partners_def sample_country_def resolved_fields_def)
  have v: "?v \<in> set (relation_references ''country_id'' sample_country [sample_record])" "reference_key ?v = [PText ''CH'']"
    by (simp_all add: relation_references_def sample_country_def sample_record_def blank_create_reference_def
        dict_get_def reference_key_def)
  have "\<exists>q \<in> set (rp_record_requests rp). rr_model q = ''res.country''
      \<and> selects (text_record (\<lambda>_. ''CH'')) (rr_domain q) = Some True \<and> set [''code''] \<subseteq> set (rr_fields q)"
    by (rule planned_reads_cover_references[OF rp, of sample_partners "''country_id''" sample_country _ _ ?v])
      (use v in \<open>simp_all add: plan text_record_lawful sample_record_def\<close>)
  then show ?thesis using rp by auto
qed

text \<open>A dataset whose records have no complete key is read nowhere, without an error.\<close>

lemma unkeyed_records_read_nothing:
  assumes "rs \<noteq> []" "dataset_identity_fields plan d [] \<noteq> []"
    and "\<forall>key \<in> set (fst (record_target_keys plan idx d rs (rd_cache s))). \<not> complete_key (dataset_identity_fields plan d []) key"
  shows "\<exists>s'. plan_identity_reads plan idx n d rs s = Inr s' \<and> rd_domains s' = rd_domains s"
proof -
  have "filter (complete_key (dataset_identity_fields plan d [])) (fst (record_target_keys plan idx d rs (rd_cache s))) = []"
    using assms(3) by (simp add: filter_empty_conv)
  then have "key_domain_chunks (dataset_identity_fields plan d []) (fst (record_target_keys plan idx d rs (rd_cache s))) n = []"
    by (simp add: key_domain_chunks_def)
  then show ?thesis
    using assms(1,2) by (simp add: plan_identity_reads_def dataset_identity_domain_chunks_def Let_def split_beta)
qed

end
