(* ===== verification/Python_Values.thy ===== *)
theory Python_Values
imports Domain_Chunks
begin

text \<open>
  Python's \<open>str\<close> and \<open>repr\<close> of the values in messages and parsers, for characters below 256, and results that
  carry the text of an exception.  The text of a set or a mapping is left out.
\<close>


section \<open>Results with messages\<close>

type_synonym fault = "exn \<times> string"

type_synonym 'a outcome = "fault + 'a"

definition bindo :: "'a outcome \<Rightarrow> ('a \<Rightarrow> 'b outcome) \<Rightarrow> 'b outcome" where
  "bindo m f = (case m of Inl e \<Rightarrow> Inl e | Inr x \<Rightarrow> f x)"

fun mapo :: "('a \<Rightarrow> 'b outcome) \<Rightarrow> 'a list \<Rightarrow> 'b list outcome" where
  "mapo f [] = Inr []"
| "mapo f (x # xs) = bindo (f x) (\<lambda>y. bindo (mapo f xs) (\<lambda>ys. Inr (y # ys)))"

text \<open>The class of the exception alone.\<close>

definition without_message :: "'a outcome \<Rightarrow> 'a res" where
  "without_message m = (case m of Inl (e, _) \<Rightarrow> Inl e | Inr x \<Rightarrow> Inr x)"

lemma bindo_Inr [res_simps]: "bindo m f = Inr y \<longleftrightarrow> (\<exists>x. m = Inr x \<and> f x = Inr y)"
  by (auto simp: bindo_def split: sum.splits)

lemma bindo_simps [simp]: "bindo (Inr x) f = f x" "bindo (Inl e) f = Inl e"
  by (simp_all add: bindo_def)

lemma bindo_cong [fundef_cong]: "m = m' \<Longrightarrow> (\<And>x. m' = Inr x \<Longrightarrow> f x = f' x) \<Longrightarrow> bindo m f = bindo m' f'"
  by (auto simp: bindo_def split: sum.splits)

lemma mapo_cong [fundef_cong]: "xs = ys \<Longrightarrow> (\<And>x. x \<in> set ys \<Longrightarrow> f x = g x) \<Longrightarrow> mapo f xs = mapo g ys"
proof (induction ys arbitrary: xs)
  case (Cons y ys)
  then show ?case by (auto intro!: bindo_cong)
qed simp

lemma mapo_Inr: "mapo f xs = Inr ys \<longleftrightarrow> list_all2 (\<lambda>x y. f x = Inr y) xs ys"
  by (induction xs arbitrary: ys) (auto simp: res_simps list_all2_Cons1)


section \<open>Texts of values\<close>

definition printable :: "nat \<Rightarrow> bool" where
  "printable n = (32 \<le> n \<and> n < 127 \<or> 161 \<le> n \<and> n \<noteq> 173)"

definition repr_char :: "char \<Rightarrow> char \<Rightarrow> string" where
  "repr_char quote c = (let n = of_char c :: nat in
     if c = quote \<or> n = 92 then [CHR 0x5C, c]
     else if n = 10 then CHR 0x5C # ''n'' else if n = 13 then CHR 0x5C # ''r'' else if n = 9 then CHR 0x5C # ''t''
     else if printable n then [c]
     else CHR 0x5C # ''x'' @ [hex_char (n div 16), hex_char (n mod 16)])"

definition repr_text :: "string \<Rightarrow> string" where
  "repr_text s = (let quote = (if CHR 0x27 \<in> set s \<and> CHR 0x22 \<notin> set s then CHR 0x22 else CHR 0x27) in
     [quote] @ concat (map (repr_char quote) s) @ [quote])"

text \<open>\<open>str(Decimal)\<close>, with an exponent where the plain notation would be long.\<close>

definition decimal_str :: "decimal_value \<Rightarrow> string" where
  "decimal_str d =
    (let digits = decimal (dec_coefficient d);
         left = dec_exponent d + int (length digits);
         dot = (if dec_exponent d \<le> 0 \<and> -6 < left then left else 1);
         body = (if dot \<le> 0 then ''0.'' @ replicate (nat (- dot)) (CHR ''0'') @ digits
                 else if int (length digits) \<le> dot then digits @ replicate (nat (dot - int (length digits))) (CHR ''0'')
                 else take (nat dot) digits @ ''.'' @ drop (nat dot) digits) in
     (if dec_negative d then ''-'' else []) @ body
     @ (if left = dot then [] else ''E'' @ (if left - dot < 0 then [] else ''+'') @ int_text (left - dot)))"

text \<open>Items with a comma and a space between them, and one item of a tuple.\<close>

fun spaced :: "string list \<Rightarrow> string" where
  "spaced [] = []"
| "spaced [x] = x"
| "spaced (x # y # xs) = x @ '', '' @ spaced (y # xs)"

definition tuple_text :: "string list \<Rightarrow> string" where
  "tuple_text xs = (if length xs = 1 then ''('' @ hd xs @ '',)'' else ''('' @ spaced xs @ '')'')"

definition text_tuple_repr :: "string list \<Rightarrow> string" where
  "text_tuple_repr ss = tuple_text (map repr_text ss)"

definition optional_repr :: "string option \<Rightarrow> string" where
  "optional_repr s = (case s of None \<Rightarrow> ''None'' | Some t \<Rightarrow> repr_text t)"

fun date_repr :: "pdate \<Rightarrow> string" where
  "date_repr (Date y m d) = ''datetime.date('' @ spaced [decimal y, decimal m, decimal d] @ '')''"

fun moment_repr :: "bool \<Rightarrow> pdate \<Rightarrow> ptime \<Rightarrow> string" where
  "moment_repr utc (Date y m d) (Time h mi s u) = ''datetime.datetime(''
     @ spaced (map decimal ([y, m, d, h, mi] @ (if u \<noteq> 0 then [s, u] else if s \<noteq> 0 then [s] else []))
         @ (if utc then [''tzinfo=datetime.timezone.utc''] else [])) @ '')''"

fun moment_str :: "bool \<Rightarrow> pdate \<Rightarrow> ptime \<Rightarrow> string" where
  "moment_str utc d t = date_text d @ '' '' @ time_text t @ (if utc then ''+00:00'' else [])"

fun python_repr :: "pvalue \<Rightarrow> string" where
  "python_repr PNone = ''None''"
| "python_repr (PBool b) = (if b then ''True'' else ''False'')"
| "python_repr (PInt i) = int_text i"
| "python_repr (PText s) = repr_text s"
| "python_repr (PDecimal d) = ''Decimal('' @ repr_text (decimal_str d) @ '')''"
| "python_repr (PDate d) = date_repr d"
| "python_repr (PMoment utc d t) = moment_repr utc d t"
| "python_repr (PLogical origin key dataset model tf tsf scope ik) =
     ''LogicalReference(origin='' @ repr_text origin @ '', key='' @ tuple_text (map python_repr key)
     @ '', dataset='' @ optional_repr dataset @ '', model='' @ optional_repr model
     @ '', target_fields='' @ text_tuple_repr tf @ '', target_scope_fields='' @ text_tuple_repr tsf
     @ '', scope='' @ tuple_text (map python_repr scope)
     @ '', incoming_key='' @ (case ik of None \<Rightarrow> ''None'' | Some vs \<Rightarrow> tuple_text (map python_repr vs)) @ '')''"
| "python_repr (PBusiness model key scope tf tsf) =
     ''BusinessReference(model='' @ repr_text model @ '', key='' @ tuple_text (map python_repr key)
     @ '', scope='' @ tuple_text (map python_repr scope)
     @ '', target_fields='' @ text_tuple_repr tf @ '', target_scope_fields='' @ text_tuple_repr tsf @ '')''"
| "python_repr (PTuple vs) = tuple_text (map python_repr vs)"
| "python_repr (PList vs) = ''['' @ spaced (map python_repr vs) @ '']''"
| "python_repr (PSet _) = ''frozenset(...)''"
| "python_repr (PMap _) = ''{...}''"

fun python_str :: "pvalue \<Rightarrow> string" where
  "python_str (PText s) = s"
| "python_str (PDecimal d) = decimal_str d"
| "python_str (PDate d) = date_text d"
| "python_str (PMoment utc d t) = moment_str utc d t"
| "python_str v = python_repr v"

text \<open>\<open>==\<close> of two values.\<close>

definition python_eq :: "pvalue \<Rightarrow> pvalue \<Rightarrow> bool" where
  "python_eq v w = (python_form v = python_form w)"

text \<open>\<open>bool(value)\<close>.\<close>

fun python_true :: "pvalue \<Rightarrow> bool" where
  "python_true PNone = False"
| "python_true (PBool b) = b"
| "python_true (PInt i) = (i \<noteq> 0)"
| "python_true (PText s) = (s \<noteq> [])"
| "python_true (PDecimal d) = (dec_coefficient d \<noteq> 0)"
| "python_true (PTuple vs) = (vs \<noteq> [])"
| "python_true (PList vs) = (vs \<noteq> [])"
| "python_true (PSet vs) = (vs \<noteq> [])"
| "python_true (PMap kvs) = (kvs \<noteq> [])"
| "python_true _ = True"

end
