(* ===== verification/Canonical_Values.thy ===== *)
theory Canonical_Values
imports Python_Values Profile
begin

text \<open>
  Canonical source and target values (\<open>domain/preparation/canonical.py\<close>).  \<open>Decimal\<close> reads finite numerals with
  an optional exponent; \<open>fromisoformat\<close> reads extended calendar dates and times with an optional offset in
  minutes.  A float is the decimal of its text.
\<close>


section \<open>Reading numbers\<close>

text \<open>Digits with single underscores between them.\<close>

fun digit_run :: "bool \<Rightarrow> string \<Rightarrow> bool" where
  "digit_run digit_before [] = digit_before"
| "digit_run digit_before (c # cs) =
    (if is_digit c then digit_run True cs else c = CHR ''_'' \<and> digit_before \<and> digit_run False cs)"

definition signed :: "string \<Rightarrow> bool \<times> string" where
  "signed s = (take 1 s = ''-'', drop_sign s)"

text \<open>\<open>int(text, 10)\<close>.\<close>

definition read_int :: "string \<Rightarrow> int option" where
  "read_int s = (let (negative, body) = signed (strip s); n = int (nat_of_digits (filter is_digit body)) in
     if digit_run False body then Some (if negative then - n else n) else None)"

text \<open>\<open>Decimal(text)\<close> for a finite numeral.\<close>

definition read_exponent :: "string \<Rightarrow> int option" where
  "read_exponent s = (if s = [] then Some 0
     else if hd s \<in> {CHR ''e'', CHR ''E''} then
       (let (negative, body) = signed (tl s); n = int (nat_of_digits body) in
        if body \<noteq> [] \<and> list_all is_digit body then Some (if negative then - n else n) else None)
     else None)"

definition read_number :: "string \<Rightarrow> decimal_value option" where
  "read_number raw =
    (let (negative, body) = signed (filter (\<lambda>c. c \<noteq> CHR ''_'') (strip raw));
         whole = takeWhile is_digit body;
         rest = dropWhile is_digit body;
         dotted = (take 1 rest = ''.'');
         fraction = (if dotted then takeWhile is_digit (drop 1 rest) else []);
         tail = (if dotted then dropWhile is_digit (drop 1 rest) else rest) in
     if whole @ fraction = [] then None
     else map_option (\<lambda>e. Dec negative (nat_of_digits (whole @ fraction)) (e - int (length fraction))) (read_exponent tail))"

text \<open>\<open>quantize(Decimal(1).scaleb(-places), rounding=ROUND_HALF_UP)\<close> in the default context of 28 digits.\<close>

definition rounded :: "nat \<Rightarrow> nat \<Rightarrow> nat" where
  "rounded c k = (c div 10 ^ k + (if 5 * 10 ^ (k - 1) \<le> c mod 10 ^ k \<and> 0 < k then 1 else 0))"

definition quantized :: "nat \<Rightarrow> decimal_value \<Rightarrow> decimal_value option" where
  "quantized places d =
    (let shift = dec_exponent d + int places;
         c = (if 0 \<le> shift then dec_coefficient d * 10 ^ nat shift else rounded (dec_coefficient d) (nat (- shift))) in
     if c < 10 ^ 28 then Some (Dec (dec_negative d) c (- int places)) else None)"


section \<open>Reading dates and times\<close>

definition option_of :: "'a res \<Rightarrow> 'a option" where
  "option_of m = (case m of Inl _ \<Rightarrow> None | Inr x \<Rightarrow> Some x)"

definition days_before :: "nat \<Rightarrow> nat \<Rightarrow> pdate \<Rightarrow> pdate option" where
  "days_before y m d = (if m = 1 then (if y \<le> 1 then None else Some (Date (y - 1) 12 31))
     else Some (Date y (m - 1) (days_in_month y (m - 1))))"

fun previous_day :: "pdate \<Rightarrow> pdate option" where
  "previous_day (Date y m d) = (if 1 < d then Some (Date y m (d - 1)) else days_before y m (Date y m d))"

fun next_day :: "pdate \<Rightarrow> pdate option" where
  "next_day (Date y m d) = (if d < days_in_month y m then Some (Date y m (d + 1))
     else if m < 12 then Some (Date y (m + 1) 1) else if y < 9999 then Some (Date (y + 1) 1 1) else None)"

text \<open>\<open>astimezone(UTC)\<close> of a moment with an offset in minutes; a date out of range is an \<open>OverflowError\<close>.\<close>

fun shift_to_utc :: "pdate \<Rightarrow> ptime \<Rightarrow> int \<Rightarrow> (pdate \<times> ptime) option" where
  "shift_to_utc d (Time h m s u) offset =
    (let minutes = int h * 60 + int m - offset;
         t = Time (nat (minutes mod 1440) div 60) (nat (minutes mod 1440) mod 60) s u in
     if minutes < 0 then map_option (\<lambda>d'. (d', t)) (previous_day d)
     else if 1440 \<le> minutes then map_option (\<lambda>d'. (d', t)) (next_day d)
     else Some (d, t))"

text \<open>The time after the separator: hours and minutes, seconds and a fraction, and an offset.\<close>

definition read_offset :: "string \<Rightarrow> int option option" where
  "read_offset s =
    (if s = [] then Some None
     else if s = ''Z'' then Some (Some 0)
     else if hd s \<in> {CHR ''+'', CHR ''-''} \<and> length s = 6 \<and> digits_at 1 2 s \<and> s ! 3 = CHR '':'' \<and> digits_at 4 2 s
       \<and> number_at 1 2 s < 24 \<and> number_at 4 2 s < 60 then
       (let minutes = int (number_at 1 2 s * 60 + number_at 4 2 s) in
        Some (Some (if hd s = CHR ''-'' then - minutes else minutes)))
     else None)"

definition clock_char :: "char \<Rightarrow> bool" where
  "clock_char c = (is_digit c \<or> c \<in> {CHR '':'', CHR ''.'', CHR '',''})"

definition read_clock :: "string \<Rightarrow> ptime option" where
  "read_clock s =
    (let fraction = drop 9 s; digits = take 6 (fraction @ replicate 6 (CHR ''0'')) in
     if \<not> (digits_at 0 2 s \<and> number_at 0 2 s < 24) then None
     else if length s = 2 then Some (Time (number_at 0 2 s) 0 0 0)
     else if \<not> (take 1 (drop 2 s) = '':'' \<and> digits_at 3 2 s \<and> number_at 3 2 s < 60) then None
     else if length s = 5 then Some (Time (number_at 0 2 s) (number_at 3 2 s) 0 0)
     else if \<not> (take 1 (drop 5 s) = '':'' \<and> digits_at 6 2 s \<and> number_at 6 2 s < 60) then None
     else if length s = 8 then Some (Time (number_at 0 2 s) (number_at 3 2 s) (number_at 6 2 s) 0)
     else if take 1 (drop 8 s) \<in> {''.'', '',''} \<and> fraction \<noteq> [] \<and> list_all is_digit fraction
       then Some (Time (number_at 0 2 s) (number_at 3 2 s) (number_at 6 2 s) (nat_of_digits digits))
     else None)"

text \<open>\<open>datetime.fromisoformat(text)\<close>: the date, the time and the offset, if there is one.\<close>

definition read_iso_moment :: "string \<Rightarrow> (pdate \<times> ptime \<times> int option) option" where
  "read_iso_moment s =
    (case option_of (read_date (take 10 s)) of None \<Rightarrow> None
     | Some d \<Rightarrow>
       if length s = 10 then Some (d, Time 0 0 0 0, None)
       else (case read_clock (takeWhile clock_char (drop 11 s)) of None \<Rightarrow> None
         | Some t \<Rightarrow> map_option (\<lambda>offset. (d, t, offset)) (read_offset (dropWhile clock_char (drop 11 s)))))"


section \<open>Canonical values\<close>

definition collapse_spaces :: "string \<Rightarrow> string" where
  "collapse_spaces s = concat (map (\<lambda>(i, c). if \<not> is_space c then [c]
     else if 0 < i \<and> is_space (s ! (i - 1)) then [] else '' '') (List.enumerate 0 s))"

definition normalize_string :: "normalization_spec \<Rightarrow> string \<Rightarrow> pvalue" where
  "normalize_string p value =
    (let trimmed = (if ns_trim p then strip value else value);
         collapsed = (if ns_collapse_whitespace p then collapse_spaces trimmed else trimmed);
         folded = (if ns_casefold p then casefold collapsed else collapsed) in
     if ns_empty_as_null p \<and> folded = [] then PNone else PText folded)"

fun scalar_type_text :: "scalar_type \<Rightarrow> string" where
  "scalar_type_text String_Type = ''string''"
| "scalar_type_text Integer_Type = ''integer''"
| "scalar_type_text Decimal_Type = ''decimal''"
| "scalar_type_text Boolean_Type = ''boolean''"
| "scalar_type_text Date_Type = ''date''"
| "scalar_type_text Datetime_Type = ''datetime''"

definition true_tokens :: "string set" where
  "true_tokens = set [''true'', ''1'', ''yes'', ''y'']"

definition false_tokens :: "string set" where
  "false_tokens = set [''false'', ''0'', ''no'', ''n'']"

text \<open>The conversions; \<open>None\<close> is an exception that \<open>parse_value\<close> turns into its own, an overflow is not caught.\<close>

definition parse_integer :: "pvalue \<Rightarrow> pvalue option" where
  "parse_integer v = (case v of PBool _ \<Rightarrow> None | _ \<Rightarrow> map_option PInt (read_int (python_str v)))"

definition parse_decimal :: "int option \<Rightarrow> pvalue \<Rightarrow> pvalue option" where
  "parse_decimal places v = map_option PDecimal (case read_number (python_str v) of None \<Rightarrow> None
     | Some d \<Rightarrow> (case places of None \<Rightarrow> Some d | Some p \<Rightarrow> quantized (nat p) d))"

definition parse_boolean :: "pvalue \<Rightarrow> pvalue option" where
  "parse_boolean v = (case v of PBool b \<Rightarrow> Some (PBool b)
     | _ \<Rightarrow> (let token = casefold (strip (python_str v)) in
         if token \<in> true_tokens then Some (PBool True)
         else if token \<in> false_tokens then Some (PBool False) else None))"

definition parse_date :: "pvalue \<Rightarrow> pvalue option" where
  "parse_date v = (case v of PMoment _ d _ \<Rightarrow> Some (PDate d) | PDate d \<Rightarrow> Some (PDate d)
     | _ \<Rightarrow> map_option PDate (option_of (read_date (python_str v))))"

definition parse_moment :: "string \<Rightarrow> pvalue \<Rightarrow> pvalue option outcome" where
  "parse_moment zone v =
    (let parsed = (case v of PMoment utc d t \<Rightarrow> Some (d, t, if utc then Some 0 else None)
           | _ \<Rightarrow> read_iso_moment (python_str v)) in
     case parsed of None \<Rightarrow> Inr None
     | Some (d, t, None) \<Rightarrow> Inr (if zone \<noteq> ''UTC'' then None else Some (PMoment True d t))
     | Some (d, t, Some offset) \<Rightarrow> (case shift_to_utc d t offset of
           None \<Rightarrow> Inl (ArithmeticError, ''date value out of range'')
         | Some (d', t') \<Rightarrow> Inr (Some (PMoment True d' t'))))"

definition parse_typed :: "scalar_type \<Rightarrow> normalization_spec \<Rightarrow> pvalue \<Rightarrow> pvalue option outcome" where
  "parse_typed ty p v = (case ty of
     String_Type \<Rightarrow> Inr (Some (normalize_string p (python_str v)))
   | Integer_Type \<Rightarrow> Inr (parse_integer v)
   | Decimal_Type \<Rightarrow> Inr (parse_decimal (ns_decimal_places p) v)
   | Boolean_Type \<Rightarrow> Inr (parse_boolean v)
   | Date_Type \<Rightarrow> Inr (parse_date v)
   | Datetime_Type \<Rightarrow> parse_moment (ns_timezone p) v)"

text \<open>\<open>ValueParseError\<close> is a \<open>ValueError\<close>.\<close>

definition parse_value :: "pvalue \<Rightarrow> scalar_type \<Rightarrow> normalization_spec \<Rightarrow> bool \<Rightarrow> pvalue outcome" where
  "parse_value raw ty p required =
    (let v = (case raw of PText s \<Rightarrow> normalize_string p s | _ \<Rightarrow> raw) in
     if v = PNone then (if required then Inl (ValueError, ''required value is empty'') else Inr PNone)
     else bindo (parse_typed ty p v) (\<lambda>r. case r of
         None \<Rightarrow> Inl (ValueError, ''cannot parse '' @ python_repr raw @ '' as '' @ scalar_type_text ty)
       | Some x \<Rightarrow> Inr x))"

definition parse_field :: "pvalue \<Rightarrow> field_spec \<Rightarrow> pvalue outcome" where
  "parse_field raw f = parse_value raw (fs_type f) (fs_normalize f) (fs_required f)"

definition values_equal :: "pvalue \<Rightarrow> pvalue \<Rightarrow> null_policy \<Rightarrow> bool" where
  "values_equal source target policy =
    (if policy = Ignore_Source_Null \<and> source = PNone then True
     else (let empty = (\<lambda>v. if policy = Equivalent_Nulls \<and> v = PText [] then PNone else v) in
       python_eq (empty source) (empty target)))"

end
