(* ===== verification/Target_Catalog.thy ===== *)
theory Target_Catalog
imports Canonical_Values Compiled_Plan
begin

text \<open>
  The catalog of captured Odoo records (\<open>domain/data_version/catalog.py\<close>) and the conversion of their relations into
  business references (\<open>_target_identity\<close> and \<open>_target_reference\<close> of \<open>domain/preparation/preflight.py\<close>).  The
  indexes the code builds on first use are functions of the records.
\<close>

record target_record =
  tr_model :: string
  tr_odoo_id :: int
  tr_values :: "(string \<times> pvalue) list"

type_synonym catalog = "(string \<times> target_record list) list"

definition mk_catalog :: "(string \<times> target_record list) list \<Rightarrow> catalog" where
  "mk_catalog records = map (\<lambda>(m, rs). (m, sort_key tr_odoo_id rs)) records"

definition catalog_records :: "catalog \<Rightarrow> string \<Rightarrow> target_record list" where
  "catalog_records cat model = dict_get cat model []"

definition record_by_id :: "catalog \<Rightarrow> string \<Rightarrow> int \<Rightarrow> target_record option" where
  "record_by_id cat model i = map_of (dict_of tr_odoo_id (\<lambda>r. r) (catalog_records cat model)) i"

text \<open>\<open>record.values.get(field)\<close>.\<close>

definition target_value :: "target_record \<Rightarrow> string \<Rightarrow> pvalue" where
  "target_value r f = dict_get (tr_values r) f PNone"

fun lookup_value :: "pvalue \<Rightarrow> pvalue" where
  "lookup_value (PList [PInt i, PText s]) = PText s"
| "lookup_value (PTuple [PInt i, PText s]) = PText s"
| "lookup_value (PList vs) = PTuple (map lookup_value vs)"
| "lookup_value (PTuple vs) = PTuple (map lookup_value vs)"
| "lookup_value v = v"

fun casefold_value :: "pvalue \<Rightarrow> pvalue" where
  "casefold_value (PText s) = PText (casefold s)"
| "casefold_value v = v"

text \<open>An index over some fields, and the bucket of a key; equal keys share a bucket.\<close>

definition field_index :: "(pvalue \<Rightarrow> pvalue) \<Rightarrow> catalog \<Rightarrow> string \<Rightarrow> string list \<Rightarrow> (pvalue list \<times> target_record list) list" where
  "field_index key_value cat model fs = fold (\<lambda>r d. dict_append d
     (map (\<lambda>f. python_form (key_value (target_value r f))) fs) r) (catalog_records cat model) []"

definition find_by_fields :: "catalog \<Rightarrow> string \<Rightarrow> string list \<Rightarrow> pvalue list \<Rightarrow> target_record list" where
  "find_by_fields cat model fs key =
     dict_get (field_index lookup_value cat model fs) (map (\<lambda>v. python_form (lookup_value v)) key) []"

definition find_casefold_by_fields :: "catalog \<Rightarrow> string \<Rightarrow> string list \<Rightarrow> pvalue list \<Rightarrow> target_record list" where
  "find_casefold_by_fields cat model fs key =
     dict_get (field_index (casefold_value \<circ> lookup_value) cat model fs)
       (map (\<lambda>v. python_form (casefold_value (lookup_value v))) key) []"

lemma find_by_fields_filter: "find_by_fields cat model fs key
    = filter (\<lambda>r. map (\<lambda>f. python_form (lookup_value (target_value r f))) fs = map (\<lambda>v. python_form (lookup_value v)) key)
        (catalog_records cat model)"
  by (simp add: find_by_fields_def field_index_def dict_get_fold_append)

lemma find_casefold_by_fields_filter: "find_casefold_by_fields cat model fs key
    = filter (\<lambda>r. map (\<lambda>f. python_form (casefold_value (lookup_value (target_value r f)))) fs
        = map (\<lambda>v. python_form (casefold_value (lookup_value v))) key) (catalog_records cat model)"
  by (simp add: find_casefold_by_fields_def field_index_def dict_get_fold_append o_def)

definition allows_case_insensitive_payment_term_lookup :: "string \<Rightarrow> bool" where
  "allows_case_insensitive_payment_term_lookup model = (model = ''account.payment.term'')"

definition find_target_first_matches :: "catalog \<Rightarrow> string \<Rightarrow> string list \<Rightarrow> pvalue list \<Rightarrow> target_record list" where
  "find_target_first_matches cat model fs key =
    (let exact = find_by_fields cat model fs key in
     if exact \<noteq> [] \<or> \<not> allows_case_insensitive_payment_term_lookup model then exact
     else find_casefold_by_fields cat model fs key)"

lemma target_first_records: "set (find_target_first_matches cat model fs key) \<subseteq> set (catalog_records cat model)"
  by (auto simp: find_target_first_matches_def Let_def find_by_fields_filter find_casefold_by_fields_filter)

text \<open>\<open>value in (None, False, "")\<close>; zero is equal to \<open>False\<close>.\<close>

definition no_relation :: "pvalue \<Rightarrow> bool" where
  "no_relation v = (v = PNone \<or> python_eq v (PBool False) \<or> v = PText [])"

fun as_items :: "pvalue \<Rightarrow> pvalue list option" where
  "as_items (PList vs) = Some vs"
| "as_items (PTuple vs) = Some vs"
| "as_items v = None"

definition relation_id :: "pvalue \<Rightarrow> int option outcome" where
  "relation_id v =
    (if no_relation v then Inr None
     else case v of PBool _ \<Rightarrow> Inr None | PInt i \<Rightarrow> Inr (Some i)
     | _ \<Rightarrow> (case as_items v of Some (PInt i # _) \<Rightarrow> Inr (Some i)
         | _ \<Rightarrow> Inl (ValueError, ''unsupported many2one target value '' @ python_repr v)))"

definition relation_ids :: "pvalue \<Rightarrow> int list outcome" where
  "relation_ids v =
    (if no_relation v then Inr []
     else case as_items v of
       None \<Rightarrow> Inl (ValueError, ''unsupported many2many target value '' @ python_repr v)
     | Some vs \<Rightarrow> mapo (\<lambda>item. case item of PInt i \<Rightarrow> Inr i
         | _ \<Rightarrow> Inl (TypeError, ''unsupported many2many target value '' @ python_repr v)) vs)"

text \<open>The text of a \<open>KeyError\<close> is the \<open>repr\<close> of its argument.\<close>

definition key_error :: "string \<Rightarrow> fault" where
  "key_error s = (LookupError, repr_text s)"

definition reference_from_id :: "catalog \<Rightarrow> string \<Rightarrow> pvalue \<Rightarrow> string list \<Rightarrow> string list \<Rightarrow> pvalue outcome" where
  "reference_from_id cat model raw identity_fields scope_fields = bindo (relation_id raw) (\<lambda>found. case found of
     None \<Rightarrow> Inr PNone
   | Some i \<Rightarrow> (case record_by_id cat model i of
       None \<Rightarrow> Inl (key_error (model @ '' id '' @ int_text i @ '' is absent from target catalog''))
     | Some r \<Rightarrow> Inr (PBusiness model (map (\<lambda>f. lookup_value (target_value r f)) identity_fields)
           (map (\<lambda>f. lookup_value (target_value r f)) scope_fields) [] [])))"

text \<open>\<open>target_record_binding_hash\<close> with the digest as a parameter.\<close>

definition target_record_binding_hash :: "(string \<Rightarrow> string) \<Rightarrow> string \<Rightarrow> int \<Rightarrow> string outcome" where
  "target_record_binding_hash digest model i =
    (if model = [] \<or> i \<le> 0 then Inl (ValueError, ''target record binding input is invalid'')
     else Inr (''sha256:'' @ digest (canonical_json_text (JObject [(''model'', JText model), (''identifier'', JInt i)]))))"


lemma reduced_nonzero: "c \<noteq> 0 \<Longrightarrow> dec_coefficient (reduced_decimal negative c e) \<noteq> 0"
proof (induction negative c e rule: reduced_decimal.induct)
  case (1 negative c e)
  show ?case
  proof (cases "c mod 10 = 0")
    case True
    then have "c div 10 \<noteq> 0" using 1(2) by presburger
    then show ?thesis using 1 True by (subst reduced_decimal.simps) simp
  next
    case False
    then show ?thesis using 1(2) by (subst reduced_decimal.simps) simp
  qed
qed

lemma int_relation: "0 < i \<Longrightarrow> relation_id (PInt i) = Inr (Some i)"
  using reduced_nonzero[of "nat \<bar>i\<bar>" "i < 0" 0]
  by (auto simp: relation_id_def no_relation_def python_eq_def reduced_decimal.simps[of False 0])

lemma captured_by_id:
  assumes "r \<in> set (catalog_records cat model)"
  shows "record_by_id cat model (tr_odoo_id r) \<noteq> None"
  using dict_of_entry[OF assms, of tr_odoo_id] map_of_eq_None_iff[of "dict_of tr_odoo_id (\<lambda>r. r) (catalog_records cat model)"]
  unfolding record_by_id_def by (metis fst_conv image_eqI)

section \<open>Identities of target records\<close>

definition lookup_dataset :: "dataset_spec list \<Rightarrow> string \<Rightarrow> dataset_spec outcome" where
  "lookup_dataset plan name = (case find_dataset plan name of Inl _ \<Rightarrow> Inl (key_error name) | Inr d \<Rightarrow> Inr d)"

definition component_paths :: "identity_component list \<Rightarrow> string list" where
  "component_paths cs = concat (map ic_target_fields cs)"

definition resolve_target_shape :: "dataset_spec list \<Rightarrow> resolve_spec \<Rightarrow> (string \<times> string list \<times> string list) outcome" where
  "resolve_target_shape plan r = (case rs_target_model r of
     Some m \<Rightarrow> Inr (m, rs_target_fields r, rs_target_scope_fields r)
   | None \<Rightarrow> bindo (lookup_dataset plan (resolver_dataset_name r)) (\<lambda>d.
       Inr (ts_model (ds_target d), component_paths (ti_components (ds_target_identity d)),
         component_paths (ti_scope (ds_target_identity d)))))"

text \<open>Odoo's \<open>False\<close> is no value, except for a boolean.\<close>

definition odoo_null :: "scalar_type \<Rightarrow> pvalue \<Rightarrow> pvalue" where
  "odoo_null ty v = (if v = PBool False \<and> ty \<noteq> Boolean_Type then PNone else v)"

definition scalar_identity :: "identity_component \<Rightarrow> target_record \<Rightarrow> pvalue list outcome" where
  "scalar_identity c r = mapo (\<lambda>f. parse_value (odoo_null (ic_type c) (target_value r f)) (ic_type c) (ic_normalize c) True)
     (ic_target_fields c)"

text \<open>The captured records a chain of parents can still visit.\<close>

definition captured :: "catalog \<Rightarrow> (string \<times> int) set" where
  "captured cat = {(m, tr_odoo_id r) | m rs r. (m, rs) \<in> set cat \<and> r \<in> set rs}"

lemma finite_captured [simp]: "finite (captured cat)"
proof -
  have "captured cat = (\<Union>(m, rs) \<in> set cat. (\<lambda>r. (m, tr_odoo_id r)) ` set rs)"
    by (auto simp: captured_def)
  then show ?thesis by auto
qed

lemma record_by_id_captured: "record_by_id cat model i = Some r \<Longrightarrow> (model, i) \<in> captured cat"
  unfolding record_by_id_def catalog_records_def dict_get_def captured_def
  by (auto dest!: dict_of_value split: option.splits dest: map_of_SomeD)

lemma unvisited_captured_less:
  assumes "(model, i) \<notin> set visiting" "record_by_id cat model i = Some r"
  shows "card (captured cat - insert (model, i) (set visiting)) < card (captured cat - set visiting)"
  using assms record_by_id_captured by (intro psubset_card_mono) auto

function target_identity :: "dataset_spec list \<Rightarrow> catalog \<Rightarrow> (string \<times> int) list \<Rightarrow> identity_component list \<Rightarrow> target_record
    \<Rightarrow> pvalue list outcome"
  and target_reference :: "dataset_spec list \<Rightarrow> catalog \<Rightarrow> (string \<times> int) list \<Rightarrow> resolve_spec \<Rightarrow> pvalue \<Rightarrow> pvalue outcome"
where
  "target_identity plan cat visiting [] r = Inr []"
| "target_identity plan cat visiting (c # cs) r =
     bindo (case ic_resolve c of
         None \<Rightarrow> scalar_identity c r
       | Some rs \<Rightarrow> bindo (target_reference plan cat visiting rs (target_value r (hd (ic_target_fields c)))) (\<lambda>v. Inr [v]))
       (\<lambda>vs. bindo (target_identity plan cat visiting cs r) (\<lambda>rest. Inr (vs @ rest)))"
| "target_reference plan cat visiting rs raw =
     bindo (resolve_target_shape plan rs) (\<lambda>(model, identity_fields, scope_fields).
       if rs_target_model rs \<noteq> None then reference_from_id cat model raw identity_fields scope_fields
       else bindo (relation_id raw) (\<lambda>found. case found of
         None \<Rightarrow> Inr PNone
       | Some i \<Rightarrow>
           if (model, i) \<in> set visiting then Inl (ValueError, ''A target identity contains a relationship cycle'')
           else (case record_by_id cat model i of
             None \<Rightarrow> Inl (key_error ''A target identity parent is absent from the captured evidence'')
           | Some target \<Rightarrow> bindo (lookup_dataset plan (resolver_dataset_name rs)) (\<lambda>d.
               bindo (target_identity plan cat ((model, i) # visiting) (ti_components (ds_target_identity d)) target) (\<lambda>key.
               bindo (target_identity plan cat ((model, i) # visiting) (ti_scope (ds_target_identity d)) target) (\<lambda>scope.
                 Inr (PBusiness model key scope (component_paths (ti_components (ds_target_identity d)))
                   (component_paths (ti_scope (ds_target_identity d))))))))))"
  by pat_completeness auto

termination
  by (relation "inv_image (less_than <*lex*> less_than) (\<lambda>x. case x of
      Inl (plan, cat, visiting, cs, r) \<Rightarrow> (card (captured cat - set visiting), Suc (length cs))
    | Inr (plan, cat, visiting, rs, raw) \<Rightarrow> (card (captured cat - set visiting), 1))")
    (auto dest: unvisited_captured_less)

declare target_identity.simps(2) [simp del] target_reference.simps [simp del]

end
