(* ===== verification/Target_Metadata.thy ===== *)
theory Target_Metadata
imports Target_Catalog
begin

text \<open>
  Captured Odoo metadata and records (\<open>domain/shared/models.py\<close>, \<open>domain/odoo/contracts.py\<close>, \<open>domain/odoo/company.py\<close>):
  the snapshots a preflight works on, the merging of metadata, the payloads that are hashed and the streamed text of a
  record snapshot.  The digest is a parameter.
\<close>


section \<open>Snapshots\<close>

record field_metadata =
  fm_type :: string
  fm_label :: string
  fm_required :: bool
  fm_readonly :: bool
  fm_relation :: "string option"
  fm_relation_field :: "string option"
  fm_selection :: "(string \<times> string) list"
  fm_stored :: "bool option"
  fm_computed :: "bool option"
  fm_has_inverse :: "bool option"
  fm_related :: "bool option"
  fm_translated :: "bool option"
  fm_company_dependent :: "bool option"
  fm_searchable :: "bool option"
  fm_sortable :: "bool option"
  fm_exportable :: "bool option"
  fm_digits :: "(int \<times> int) option"
  fm_currency_field :: "string option"

record model_metadata =
  mm_description :: "string option"
  mm_fields :: "(string \<times> field_metadata) list"
  mm_unique_constraints :: "(string \<times> string) list"

record target_fingerprint =
  tf_target_hash :: string
  tf_connection_mode :: string
  tf_database :: string
  tf_odoo_version :: string
  tf_snapshot_timestamp :: string
  tf_module_versions :: "(string \<times> string) list"

record reference_evidence =
  ev_parent_model :: string
  ev_relationship_field :: string
  ev_relation_model :: string
  ev_key_fields :: "string list"
  ev_scope_fields :: "string list"
  ev_requested_fields :: "string list"
  ev_snapshot_id :: string
  ev_snapshot_content_hash :: string
  ev_reference_policy_hash :: string

record company_check =
  cc_parent_model :: string
  cc_field :: string
  cc_relation_model :: string
  cc_incompatible_ids :: "int list"

definition mk_company_check :: "company_check \<Rightarrow> company_check res" where
  "mk_company_check c =
     bindr (checkr (list_all technical_name [cc_parent_model c, cc_field c, cc_relation_model c]
       \<and> sorted_set (cc_incompatible_ids c) = cc_incompatible_ids c \<and> list_all (\<lambda>i. 0 < i) (cc_incompatible_ids c))
       ValueError) (\<lambda>_. Inr c)"

record company_selection =
  cs_target_hash :: string
  cs_company_id :: int
  cs_name :: string

definition mk_company_selection :: "company_selection \<Rightarrow> company_selection res" where
  "mk_company_selection c =
     bindr (checkr (sha256_text (cs_target_hash c) \<and> 0 < cs_company_id c \<and> strip (cs_name c) \<noteq> []
       \<and> length (cs_name c) \<le> 200) ValueError) (\<lambda>_. Inr c)"

record metadata_snapshot =
  ms_fingerprint :: target_fingerprint
  ms_models :: "(string \<times> model_metadata) list"
  ms_create_defaults :: "(string \<times> (string \<times> pvalue) list) list"
  ms_complete :: bool
  ms_limitations :: "string list"
  ms_reference_evidence :: "reference_evidence list"
  ms_content_hash :: "string option"
  ms_company_checks :: "company_check list"

record record_snapshot =
  sn_fingerprint :: target_fingerprint
  sn_records :: "(string \<times> target_record list) list"
  sn_requested_fields :: "(string \<times> string list) list"
  sn_complete :: bool
  sn_content_hash :: "string option"

text \<open>Equality of fingerprints; the order of the modules in the mapping does not count.\<close>

definition same_fingerprint :: "target_fingerprint \<Rightarrow> target_fingerprint \<Rightarrow> bool" where
  "same_fingerprint f g = (f\<lparr>tf_module_versions := sort_key fst (tf_module_versions f)\<rparr>
     = g\<lparr>tf_module_versions := sort_key fst (tf_module_versions g)\<rparr>)"


section \<open>Merging metadata\<close>

definition evidence_key :: "reference_evidence \<Rightarrow> string \<times> string \<times> string \<times> string list \<times> string list \<times> string list
    \<times> string \<times> string \<times> string" where
  "evidence_key e = (ev_parent_model e, ev_relationship_field e, ev_relation_model e, ev_key_fields e, ev_scope_fields e,
     ev_requested_fields e, ev_snapshot_id e, ev_snapshot_content_hash e, ev_reference_policy_hash e)"

definition sorted_evidence :: "reference_evidence list \<Rightarrow> reference_evidence list" where
  "sorted_evidence es = sort_key evidence_key (remdups es)"

text \<open>\<open>{**d, **e}\<close>.\<close>

definition dict_union :: "('k \<times> 'v) list \<Rightarrow> ('k \<times> 'v) list \<Rightarrow> ('k \<times> 'v) list" where
  "dict_union d e = fold (\<lambda>(k, v) d. dict_set d k v) e d"

definition merge_disjoint_metadata_snapshots :: "metadata_snapshot \<Rightarrow> metadata_snapshot \<Rightarrow> metadata_snapshot res" where
  "merge_disjoint_metadata_snapshots current addition =
     bindr (checkr (ms_complete current \<and> ms_complete addition) RuntimeError) (\<lambda>_.
     bindr (checkr (same_fingerprint (ms_fingerprint current) (ms_fingerprint addition)) RuntimeError) (\<lambda>_.
     bindr (checkr (\<not> list_ex (\<lambda>m. m \<in> set (map fst (ms_models addition))) (map fst (ms_models current))) RuntimeError) (\<lambda>_.
     bindr (checkr (list_all (\<lambda>m. m \<in> set (map fst (ms_models current))) (map fst (ms_create_defaults current))) RuntimeError) (\<lambda>_.
     bindr (checkr (list_all (\<lambda>m. m \<in> set (map fst (ms_models addition))) (map fst (ms_create_defaults addition))) RuntimeError) (\<lambda>_.
     Inr \<lparr>ms_fingerprint = ms_fingerprint current,
       ms_models = dict_union (ms_models current) (ms_models addition),
       ms_create_defaults = dict_union (ms_create_defaults current) (ms_create_defaults addition),
       ms_complete = True,
       ms_limitations = sorted_set (ms_limitations current @ ms_limitations addition),
       ms_reference_evidence = sorted_evidence (ms_reference_evidence current @ ms_reference_evidence addition),
       ms_content_hash = None,
       ms_company_checks = ms_company_checks current @ ms_company_checks addition\<rparr>)))))"


section \<open>Payloads and hashes\<close>

definition optional_text :: "string option \<Rightarrow> json" where
  "optional_text s = (case s of None \<Rightarrow> JNull | Some t \<Rightarrow> JText t)"

definition optional_bool :: "bool option \<Rightarrow> json" where
  "optional_bool b = (case b of None \<Rightarrow> JNull | Some c \<Rightarrow> JBool c)"

definition fingerprint_json :: "target_fingerprint \<Rightarrow> json" where
  "fingerprint_json f = JObject [(''target_hash'', JText (tf_target_hash f)), (''connection_mode'', JText (tf_connection_mode f)),
     (''database'', JText (tf_database f)), (''odoo_version'', JText (tf_odoo_version f)),
     (''snapshot_timestamp'', JText (tf_snapshot_timestamp f)),
     (''module_versions'', JObject (map (\<lambda>(k, v). (k, JText v)) (sort_key fst (tf_module_versions f))))]"

definition field_json :: "field_metadata \<Rightarrow> json" where
  "field_json f = JObject [(''type'', JText (fm_type f)), (''label'', JText (fm_label f)), (''required'', JBool (fm_required f)),
     (''readonly'', JBool (fm_readonly f)), (''relation'', optional_text (fm_relation f)),
     (''relation_field'', optional_text (fm_relation_field f)),
     (''selection'', JArray (map (\<lambda>(code, label). JArray [JText code, JText label]) (fm_selection f))),
     (''stored'', optional_bool (fm_stored f)), (''computed'', optional_bool (fm_computed f)),
     (''has_inverse'', optional_bool (fm_has_inverse f)), (''related'', optional_bool (fm_related f)),
     (''translated'', optional_bool (fm_translated f)), (''company_dependent'', optional_bool (fm_company_dependent f)),
     (''searchable'', optional_bool (fm_searchable f)), (''sortable'', optional_bool (fm_sortable f)),
     (''exportable'', optional_bool (fm_exportable f)),
     (''digits'', case fm_digits f of None \<Rightarrow> JNull | Some (m, n) \<Rightarrow> JArray [JInt m, JInt n]),
     (''currency_field'', optional_text (fm_currency_field f))]"

definition model_json :: "model_metadata \<Rightarrow> json" where
  "model_json m = JObject [(''description'', optional_text (mm_description m)),
     (''fields'', JObject (map (\<lambda>(name, f). (name, field_json f)) (sort_key fst (mm_fields m)))),
     (''unique_constraints'', JArray (map (\<lambda>(name, definition).
        JObject [(''name'', JText name), (''definition'', JText definition)]) (mm_unique_constraints m)))]"

definition evidence_json :: "reference_evidence \<Rightarrow> json" where
  "evidence_json e = JObject [(''parent_model'', JText (ev_parent_model e)),
     (''relationship_field'', JText (ev_relationship_field e)), (''relation_model'', JText (ev_relation_model e)),
     (''key_fields'', text_array (ev_key_fields e)), (''scope_fields'', text_array (ev_scope_fields e)),
     (''requested_fields'', text_array (ev_requested_fields e)), (''snapshot_id'', JText (ev_snapshot_id e)),
     (''snapshot_content_hash'', JText (ev_snapshot_content_hash e)),
     (''reference_policy_hash'', JText (ev_reference_policy_hash e))]"

definition company_check_json :: "company_check \<Rightarrow> json" where
  "company_check_json c = JObject [(''parent_model'', JText (cc_parent_model c)), (''field'', JText (cc_field c)),
     (''relation_model'', JText (cc_relation_model c)), (''incompatible_ids'', JArray (map JInt (cc_incompatible_ids c)))]"

definition metadata_snapshot_payload :: "metadata_snapshot \<Rightarrow> json" where
  "metadata_snapshot_payload s = JObject
     ([(''fingerprint'', fingerprint_json (ms_fingerprint s)), (''complete'', JBool (ms_complete s)),
       (''limitations'', text_array (ms_limitations s)),
       (''create_defaults'', JObject (map (\<lambda>(model, defaults).
          (model, JObject (map (\<lambda>(f, v). (f, portable_value v)) (sort_key fst defaults)))) (sort_key fst (ms_create_defaults s)))),
       (''models'', JObject (map (\<lambda>(name, m). (name, model_json m)) (sort_key fst (ms_models s))))]
      @ (if ms_reference_evidence s = [] then []
         else [(''reference_evidence'', JArray (map evidence_json (sort_key evidence_key (ms_reference_evidence s))))])
      @ (if ms_company_checks s = [] then []
         else [(''company_checks'', JArray (map company_check_json (ms_company_checks s)))]))"

definition target_record_json :: "target_record \<Rightarrow> json" where
  "target_record_json r = JObject [(''id'', JInt (tr_odoo_id r)), (''values'', portable_value (PMap (tr_values r)))]"

definition requested_fields_json :: "(string \<times> string list) list \<Rightarrow> json" where
  "requested_fields_json requested = JObject (map (\<lambda>(model, fs). (model, text_array fs)) (sort_key fst requested))"

definition record_snapshot_payload :: "record_snapshot \<Rightarrow> json" where
  "record_snapshot_payload s = JObject
     [(''fingerprint'', fingerprint_json (sn_fingerprint s)), (''complete'', JBool (sn_complete s)),
      (''requested_fields'', requested_fields_json (sn_requested_fields s)),
      (''models'', JObject (map (\<lambda>(model, rs). (model, JArray (map target_record_json (sort_key tr_odoo_id rs))))
         (sort_key fst (sn_records s))))]"

text \<open>The text written piece by piece: a comma before every item but the first.\<close>

definition streamed :: "('a \<Rightarrow> string) \<Rightarrow> 'a list \<Rightarrow> string" where
  "streamed item xs = concat (map (\<lambda>(i, x). (if i \<noteq> 0 then '','' else []) @ item x) (List.enumerate 0 xs))"

definition record_snapshot_json :: "record_snapshot \<Rightarrow> string" where
  "record_snapshot_json s =
     ''{'' @ quoted ''complete'' @ '':'' @ canonical_json_text (JBool (sn_complete s))
     @ '','' @ quoted ''fingerprint'' @ '':'' @ canonical_json_text (fingerprint_json (sn_fingerprint s))
     @ '','' @ quoted ''models'' @ '':{'' @ streamed (\<lambda>(model, rs). canonical_json_text (JText model) @ '':[''
         @ streamed (\<lambda>r. canonical_json_text (target_record_json r)) (sort_key tr_odoo_id rs) @ '']'') (sort_key fst (sn_records s))
     @ ''},'' @ quoted ''requested_fields'' @ '':'' @ canonical_json_text (requested_fields_json (sn_requested_fields s)) @ ''}''"

definition payload_hash :: "(string \<Rightarrow> string) \<Rightarrow> json \<Rightarrow> string" where
  "payload_hash digest payload = ''sha256:'' @ digest (canonical_json_text payload)"

definition bind_snapshot_hashes :: "(string \<Rightarrow> string) \<Rightarrow> metadata_snapshot \<Rightarrow> record_snapshot
    \<Rightarrow> (metadata_snapshot \<times> record_snapshot) res" where
  "bind_snapshot_hashes digest m s =
     bindr (checkr (same_fingerprint (ms_fingerprint m) (sn_fingerprint s)) RuntimeError) (\<lambda>_.
     bindr (checkr (ms_complete m \<and> sn_complete s) RuntimeError) (\<lambda>_.
     let metadata_hash = payload_hash digest (metadata_snapshot_payload m);
         record_hash = payload_hash digest (record_snapshot_payload s) in
     bindr (checkr (ms_content_hash m \<in> {None, Some metadata_hash}) RuntimeError) (\<lambda>_.
     bindr (checkr (sn_content_hash s \<in> {None, Some record_hash}) RuntimeError) (\<lambda>_.
     Inr (m\<lparr>ms_content_hash := Some metadata_hash\<rparr>, s\<lparr>sn_content_hash := Some record_hash\<rparr>)))))"

end
