(* ===== verification/Metadata_Checks.thy ===== *)
theory Metadata_Checks
imports Target_Metadata Prepared_Records
begin

text \<open>
  Checks of a compiled plan and its prepared records against captured metadata: field coverage
  (\<open>domain/data_version/metadata.py\<close>), selection choices (\<open>domain/data_version/selection_domains.py\<close>) and company
  references (\<open>domain/preparation/company_references.py\<close>).
\<close>

definition mk_issue :: "string \<Rightarrow> string \<Rightarrow> severity \<Rightarrow> string option \<Rightarrow> int option \<Rightarrow> string option \<Rightarrow> int \<Rightarrow> issue" where
  "mk_issue code message sev dataset row field n = \<lparr>is_code = code, is_message = message, is_severity = sev,
     is_dataset = dataset, is_row = row, is_field = field, is_affected_count = n\<rparr>"

definition dataset_issue :: "string \<Rightarrow> string \<Rightarrow> dataset_spec \<Rightarrow> string option \<Rightarrow> issue" where
  "dataset_issue code message d field = mk_issue code message Error_Severity (Some (ds_name d)) None field 1"


section \<open>Field coverage\<close>

fun type_compatibility :: "scalar_type \<Rightarrow> string list" where
  "type_compatibility String_Type = [''char'', ''text'', ''html'', ''selection'']"
| "type_compatibility Integer_Type = [''integer'']"
| "type_compatibility Decimal_Type = [''float'', ''monetary'', ''integer'']"
| "type_compatibility Boolean_Type = [''boolean'']"
| "type_compatibility Date_Type = [''date'']"
| "type_compatibility Datetime_Type = [''datetime'']"

fun relation_kind_name :: "relation_kind \<Rightarrow> string" where
  "relation_kind_name Many2one = ''many2one''"
| "relation_kind_name Many2many = ''many2many''"

definition requested_fields :: "dataset_spec \<Rightarrow> string list" where
  "requested_fields d = sorted_set (dataset_target_fields d)"

definition validate_scalar :: "dataset_spec \<Rightarrow> string \<Rightarrow> field_spec \<Rightarrow> field_metadata \<Rightarrow> issue list" where
  "validate_scalar d f spec m =
     (if fm_type m \<notin> set (type_compatibility (fs_type spec)) then
        [dataset_issue ''TARGET_TYPE_INCOMPATIBLE'' (f @ '' is '' @ fm_type m @ '', mapping expects ''
          @ scalar_type_text (fs_type spec)) d (Some f)] else [])
     @ (if fm_readonly m \<and> \<not> fs_validate_only spec then
        [dataset_issue ''TARGET_FIELD_READONLY'' (f @ '' is readonly but proposed for writing'') d (Some f)] else [])"

definition validate_relation :: "dataset_spec \<Rightarrow> string \<Rightarrow> relation_spec \<Rightarrow> field_metadata \<Rightarrow> string \<Rightarrow> issue list" where
  "validate_relation d f spec m expected =
     (if fm_type m \<noteq> relation_kind_name (rl_kind spec) then
        [dataset_issue ''TARGET_RELATION_KIND_INCORRECT'' (f @ '' is '' @ fm_type m @ '', mapping expects ''
          @ relation_kind_name (rl_kind spec)) d (Some f)] else [])
     @ (if fm_relation m \<noteq> Some expected then
        [dataset_issue ''TARGET_RELATED_MODEL_INCORRECT'' (f @ '' relates to '' @ optional_repr (fm_relation m)
          @ '', mapping expects '' @ repr_text expected) d (Some f)] else [])
     @ (if fm_type m = ''one2many'' then
        dataset_issue ''TARGET_ONE2MANY_WRITE_OWNER_INVALID'' (f @ '' is one2many and cannot own an imported relation'') d (Some f)
        # (if fm_relation_field m \<in> {None, Some []} then
             [dataset_issue ''TARGET_INVERSE_RELATION_MISSING'' (f @ '' has no inverse relation field'') d (Some f)] else []) else [])
     @ (if fm_readonly m \<and> \<not> rl_validate_only spec then
        [dataset_issue ''TARGET_FIELD_READONLY'' (f @ '' is readonly but proposed for writing'') d (Some f)] else [])"

text \<open>\<open>resolve.target_model or plan.dataset(str(resolve.dataset)).target.model\<close>.\<close>

definition expected_model :: "dataset_spec list \<Rightarrow> resolve_spec \<Rightarrow> string outcome" where
  "expected_model plan r = (case rs_target_model r of
     Some (c # cs) \<Rightarrow> Inr (c # cs)
   | _ \<Rightarrow> bindo (lookup_dataset plan (resolver_dataset_name r)) (\<lambda>d. Inr (ts_model (ds_target d))))"

definition validate_field :: "dataset_spec list \<Rightarrow> dataset_spec \<Rightarrow> model_metadata \<Rightarrow> string \<Rightarrow> issue list outcome" where
  "validate_field plan d model f = (case map_of (mm_fields model) f of
     None \<Rightarrow> Inr [dataset_issue ''TARGET_FIELD_UNKNOWN''
       (''field '' @ ts_model (ds_target d) @ ''.'' @ f @ '' is unavailable'') d (Some f)]
   | Some m \<Rightarrow>
       (let scalar = (case map_of (ds_fields d) f of None \<Rightarrow> [] | Some spec \<Rightarrow> validate_scalar d f spec m) in
        case map_of (ds_relations d) f of
          None \<Rightarrow> Inr scalar
        | Some rel \<Rightarrow> bindo (expected_model plan (rl_resolve rel)) (\<lambda>expected. Inr (scalar @ validate_relation d f rel m expected))))"

definition validate_component :: "dataset_spec list \<Rightarrow> dataset_spec \<Rightarrow> model_metadata \<Rightarrow> identity_component \<Rightarrow> issue list outcome" where
  "validate_component plan d model c = (case ic_resolve c of
     None \<Rightarrow> Inr []
   | Some r \<Rightarrow>
       (let f = hd (ic_target_fields c) in
        case map_of (mm_fields model) f of
          None \<Rightarrow> Inr []
        | Some m \<Rightarrow> bindo (expected_model plan r) (\<lambda>expected. Inr
            ((if fm_type m \<noteq> ''many2one'' then
                [dataset_issue ''TARGET_RELATION_KIND_INCORRECT''
                  (''identity field '' @ f @ '' is '' @ fm_type m @ '', expected many2one'') d (Some f)] else [])
             @ (if fm_relation m \<noteq> Some expected then
                [dataset_issue ''TARGET_RELATED_MODEL_INCORRECT'' (''identity field '' @ f @ '' relates to ''
                  @ optional_repr (fm_relation m) @ '', expected '' @ repr_text expected) d (Some f)] else [])
             @ (if ic_null_policy c \<noteq> Reject_Null \<and> fm_required m then
                [dataset_issue ''TARGET_IDENTITY_NULL_POLICY_INVALID'' (''identity scope field '' @ f
                  @ '' is required; it cannot represent a hierarchy root'') d (Some f)] else [])))))"

record coverage_row =
  cv_dataset :: string
  cv_model :: string
  cv_status :: string
  cv_requested_fields :: nat
  cv_available_fields :: nat

definition coverage_status :: "nat \<Rightarrow> nat \<Rightarrow> string" where
  "coverage_status available requested = (if available = requested then ''COMPLETE'' else ''PARTIAL'')"

text \<open>The models of target resolvers, each pair of model and fields once.\<close>

definition reference_requirements :: "dataset_spec \<Rightarrow> (string \<times> string list) list" where
  "reference_requirements d = keep_first (\<lambda>x. x) (List.map_filter (\<lambda>r. map_option (\<lambda>m. (m, rs_target_fields r)) (rs_target_model r))
     (resolvers d))"

definition validate_reference :: "metadata_snapshot \<Rightarrow> dataset_spec \<Rightarrow> string \<times> string list \<Rightarrow> issue list \<times> coverage_row" where
  "validate_reference s d requirement = (case requirement of (m, fs) \<Rightarrow>
     (let known = (case map_of (ms_models s) m of None \<Rightarrow> [] | Some model \<Rightarrow> filter (\<lambda>f. f \<in> set (map fst (mm_fields model))) fs) in
      (case map_of (ms_models s) m of
         None \<Rightarrow> [dataset_issue ''TARGET_MODEL_UNKNOWN'' (''reference model '' @ repr_text m @ '' is unavailable'') d None]
       | Some model \<Rightarrow> map (\<lambda>f. dataset_issue ''TARGET_FIELD_UNKNOWN''
           (''reference field '' @ m @ ''.'' @ f @ '' is unavailable'') d (Some f)) (filter (\<lambda>f. f \<notin> set (map fst (mm_fields model))) fs),
       \<lparr>cv_dataset = ds_name d, cv_model = m, cv_status = coverage_status (length known) (length fs),
         cv_requested_fields = length fs, cv_available_fields = length known\<rparr>)))"

definition validate_dataset_metadata :: "dataset_spec list \<Rightarrow> metadata_snapshot \<Rightarrow> dataset_spec
    \<Rightarrow> (issue list \<times> coverage_row list) outcome" where
  "validate_dataset_metadata plan s d =
    (let name = ts_model (ds_target d) in
     case map_of (ms_models s) name of
       None \<Rightarrow> Inr ([dataset_issue ''TARGET_MODEL_UNKNOWN'' (''target model '' @ repr_text name @ '' is unavailable'') d None],
         [\<lparr>cv_dataset = ds_name d, cv_model = name, cv_status = ''MISSING_MODEL'', cv_requested_fields = 0, cv_available_fields = 0\<rparr>])
     | Some model \<Rightarrow>
         (let requested = requested_fields d;
              available = length (filter (\<lambda>f. map_of (mm_fields model) f \<noteq> None) requested);
              references = map (validate_reference s d) (reference_requirements d) in
          bindo (mapo (validate_field plan d model) requested) (\<lambda>field_issues.
          bindo (mapo (validate_component plan d model) (identity_parts d)) (\<lambda>component_issues.
          Inr (concat field_issues @ concat component_issues @ concat (map fst references),
            \<lparr>cv_dataset = ds_name d, cv_model = name, cv_status = coverage_status available (length requested),
              cv_requested_fields = length requested, cv_available_fields = available\<rparr> # map snd references)))))"

definition validate_plan_metadata :: "dataset_spec list \<Rightarrow> metadata_snapshot \<Rightarrow> (issue list \<times> coverage_row list) outcome" where
  "validate_plan_metadata plan s =
     bindo (mapo (validate_dataset_metadata plan s) plan) (\<lambda>parts. Inr
       ((if ms_complete s then [] else
           [mk_issue ''TARGET_SNAPSHOT_INCOMPLETE'' ''metadata snapshot is incomplete'' Error_Severity None None None 1])
         @ concat (map fst parts), concat (map snd parts)))"


section \<open>Selection choices\<close>

datatype binding_source = Scalar_Binding | Identity_Binding nat | Scope_Binding nat

definition tuple_item :: "pvalue list \<Rightarrow> nat \<Rightarrow> pvalue outcome" where
  "tuple_item vs i = (if i < length vs then Inr (vs ! i) else Inl (LookupError, ''tuple index out of range''))"

fun binding_value :: "string \<times> binding_source \<Rightarrow> prepared_record \<Rightarrow> pvalue outcome" where
  "binding_value (f, Scalar_Binding) r = Inr (dict_get (pr_scalar_values r) f PNone)"
| "binding_value (f, Identity_Binding i) r = tuple_item (pr_target_identity r) i"
| "binding_value (f, Scope_Binding i) r = tuple_item (pr_target_scope r) i"

text \<open>The flattened positions of the fields of scalar components.\<close>

fun component_positions :: "nat \<Rightarrow> identity_component list \<Rightarrow> (string \<times> nat) list" where
  "component_positions n [] = []"
| "component_positions n (c # cs) = (if ic_resolve c = None
     then map (\<lambda>(i, f). (f, i)) (List.enumerate n (ic_target_fields c)) @ component_positions (n + length (ic_target_fields c)) cs
     else component_positions (Suc n) cs)"

definition set_default :: "(string \<times> 'v) list \<Rightarrow> string \<Rightarrow> 'v \<Rightarrow> (string \<times> 'v) list" where
  "set_default d k v = (if map_of d k = None then d @ [(k, v)] else d)"

definition value_bindings :: "dataset_spec \<Rightarrow> (string \<times> binding_source) list" where
  "value_bindings d =
    (let scalars = map (\<lambda>(f, _). (f, Scalar_Binding)) (ds_fields d);
         identity = fold (\<lambda>(f, i) b. set_default b f (Identity_Binding i))
           (component_positions 0 (ti_components (ds_target_identity d))) scalars;
         scope = fold (\<lambda>(f, i) b. set_default b f (Scope_Binding i))
           (component_positions 0 (ti_scope (ds_target_identity d))) identity in
     sort_key fst scope)"

definition choice_codes :: "field_metadata \<Rightarrow> string list" where
  "choice_codes m = map fst (fm_selection m)"

definition live_fields :: "metadata_snapshot \<Rightarrow> dataset_spec \<Rightarrow> ((string \<times> binding_source) \<times> field_metadata) list" where
  "live_fields s d = (case map_of (ms_models s) (ts_model (ds_target d)) of
     None \<Rightarrow> []
   | Some model \<Rightarrow> List.map_filter (\<lambda>b. map_option (\<lambda>m. (b, m)) (map_of (mm_fields model) (fst b))) (value_bindings d))"

definition live_domains :: "dataset_spec list \<Rightarrow> metadata_snapshot
    \<Rightarrow> (string \<times> ((string \<times> binding_source) \<times> string list) list) list" where
  "live_domains plan s = dict_of ds_name (\<lambda>d. map (\<lambda>(b, m). (b, choice_codes m))
       (filter (\<lambda>(b, m). fm_type m = ''selection'') (live_fields s d)))
     (filter (\<lambda>d. map_of (ms_models s) (ts_model (ds_target d)) \<noteq> None) plan)"

definition unavailable_choice :: "prepared_record \<Rightarrow> (string \<times> binding_source) \<times> string list \<Rightarrow> issue list outcome" where
  "unavailable_choice r domain = (case domain of (b, codes) \<Rightarrow>
     bindo (binding_value b r) (\<lambda>v. Inr
       (if v = PNone \<or> python_str v \<in> set codes then []
        else [mk_issue ''TARGET_SELECTION_VALUE_UNAVAILABLE'' (python_repr v @ '' is not available for ''
          @ pr_target_model r @ ''.'' @ fst b @ '' in the current Odoo choices'') Error_Severity (Some (pr_dataset r))
          (Some (pr_source_row r)) (Some (fst b)) 1])))"

definition apply_live_selection_domains :: "dataset_spec list \<Rightarrow> prepared_record list \<Rightarrow> metadata_snapshot
    \<Rightarrow> prepared_record list outcome" where
  "apply_live_selection_domains plan rs s =
    (let domains = live_domains plan s in
     mapo (\<lambda>r. bindo (mapo (unavailable_choice r) (dict_get domains (pr_dataset r) [])) (\<lambda>found.
       Inr (r\<lparr>pr_issues := pr_issues r @ concat found\<rparr>))) rs)"

definition live_selection_metadata_issues :: "dataset_spec list \<Rightarrow> metadata_snapshot \<Rightarrow> issue list" where
  "live_selection_metadata_issues plan s = concat (map (\<lambda>d. map (\<lambda>(b, m).
       dataset_issue ''TARGET_SELECTION_METADATA_INVALID''
         (ts_model (ds_target d) @ ''.'' @ fst b @ '' returned duplicate Odoo choice codes'') d (Some (fst b)))
     (filter (\<lambda>(b, m). fm_type m = ''selection'' \<and> \<not> distinct (choice_codes m)) (live_fields s d))) plan)"

text \<open>The captured schema.\<close>

record schema_field =
  sf_name :: string
  sf_label :: string
  sf_type :: string
  sf_required :: bool
  sf_readonly :: bool
  sf_relation :: "string option"
  sf_relation_field :: "string option"
  sf_selection :: "(string \<times> string) list"
  sf_stored :: "bool option"
  sf_computed :: "bool option"
  sf_has_inverse :: "bool option"
  sf_related :: "bool option"
  sf_translated :: "bool option"
  sf_company_dependent :: "bool option"
  sf_searchable :: "bool option"
  sf_sortable :: "bool option"
  sf_exportable :: "bool option"
  sf_digits :: "(int \<times> int) option"
  sf_currency_field :: "string option"
  sf_create_default_present :: bool
  sf_create_default_value :: pvalue

record schema_model =
  sm_name :: string
  sm_label :: string
  sm_fields :: "schema_field list"
  sm_unique_constraints :: "(string \<times> string) list"

definition captured_fields :: "schema_model list \<Rightarrow> string \<Rightarrow> (string \<times> schema_field) list" where
  "captured_fields schema name = dict_get (dict_of sm_name (\<lambda>m. dict_of sf_name (\<lambda>f. f) (sm_fields m)) schema) name []"

definition selection_drift :: "dataset_spec \<Rightarrow> string \<Rightarrow> schema_field \<Rightarrow> field_metadata \<Rightarrow> issue list" where
  "selection_drift d f before live =
    (let was = (sf_type before = ''selection''); now = (fm_type live = ''selection'');
         old = remdups (map fst (sf_selection before)); codes = remdups (choice_codes live) in
     if was \<noteq> now then
       [dataset_issue ''TARGET_SELECTION_FIELD_DRIFT'' (ts_model (ds_target d) @ ''.'' @ f @ '' changed from '' @ sf_type before
         @ '' to '' @ fm_type live @ ''; recapture the Odoo fields and review the mapping'') d (Some f)]
     else if \<not> was \<or> set old = set codes then []
     else [mk_issue ''TARGET_SELECTION_CHOICES_CHANGED''
       (''Current Odoo choices for '' @ ts_model (ds_target d) @ ''.'' @ f @ '' changed since mapping (''
         @ decimal (length (filter (\<lambda>c. c \<notin> set codes) old)) @ '' removed, ''
         @ decimal (length (filter (\<lambda>c. c \<notin> set old) codes)) @ '' added)'')
       Warning_Severity (Some (ds_name d)) None (Some f) 1])"

definition validate_selection_metadata_drift :: "dataset_spec list \<Rightarrow> metadata_snapshot \<Rightarrow> schema_model list option \<Rightarrow> issue list" where
  "validate_selection_metadata_drift plan s schema = (case schema of
     None \<Rightarrow> []
   | Some models \<Rightarrow> concat (map (\<lambda>d. concat (map (\<lambda>(b, live).
       case map_of (captured_fields models (ts_model (ds_target d))) (fst b) of
         None \<Rightarrow> [] | Some old \<Rightarrow> selection_drift d (fst b) old live) (live_fields s d))) plan))"


section \<open>Company references\<close>

definition company_index :: "company_check list \<Rightarrow> ((string \<times> string) \<times> (string \<times> int list)) list" where
  "company_index checks = dict_of (\<lambda>c. (cc_parent_model c, cc_field c)) (\<lambda>c. (cc_relation_model c, cc_incompatible_ids c)) checks"

definition company_mismatch :: "catalog \<Rightarrow> (string \<times> int list) option \<Rightarrow> relation_spec option \<Rightarrow> pvalue \<Rightarrow> bool" where
  "company_mismatch cat evidence rule v = (case (evidence, rule) of
     (Some (model, incompatible), Some rel) \<Rightarrow>
       \<not> rl_validate_only rel \<and> is_logical v \<and> lg_origin v \<in> {''target'', ''target_then_incoming''}
       \<and> lg_model v = Some model \<and> incompatible \<noteq> []
       \<and> (case find_by_fields cat model (lg_target_fields v @ lg_target_scope_fields v) (reference_key v) of
            [m] \<Rightarrow> tr_odoo_id m \<in> set incompatible | _ \<Rightarrow> False)
   | _ \<Rightarrow> False)"

definition check_company_record :: "dataset_spec list \<Rightarrow> catalog \<Rightarrow> company_check list \<Rightarrow> prepared_record \<Rightarrow> prepared_record outcome" where
  "check_company_record plan cat checks r =
     bindo (mapo (\<lambda>(name, v). bindo (lookup_dataset plan (pr_dataset r)) (\<lambda>d. Inr
       (if company_mismatch cat (map_of (company_index checks) (pr_target_model r, name)) (map_of (ds_relations d) name) v
        then [mk_issue ''REFERENCE_COMPANY_MISMATCH''
          (''Odoo does not allow this linked record for the company used for this import. ''
            @ ''Review the company and linked value, then compare again.'')
          Error_Severity (Some (pr_dataset r)) (Some (pr_source_row r)) (Some name) 1] else []))) (pr_references r)) (\<lambda>found.
     Inr (r\<lparr>pr_issues := pr_issues r @ concat found\<rparr>))"

definition check_company_references :: "prepared_record list \<Rightarrow> dataset_spec list \<Rightarrow> catalog \<Rightarrow> company_check list
    \<Rightarrow> prepared_record list outcome" where
  "check_company_references rs plan cat checks =
    (if checks = [] then Inr rs else mapo (check_company_record plan cat checks) rs)"

end
