(* ===== verification/Reference_Resolution.thy ===== *)
theory Reference_Resolution
imports Metadata_Checks
begin

text \<open>
  The resolution of logical references (\<open>_resolve_records\<close> of \<open>domain/preparation/preflight.py\<close>): the outcomes of
  hybrid references, the recursive resolution of a row with its cache, the rows whose identity is being resolved
  and the evidence, in the order of the code.  The depth of the recursion is bounded by fuel, which runs out like
  Python's recursion limit with a \<open>RuntimeError\<close>; as many calls as there are rows are enough.
\<close>


section \<open>Threading state through a loop\<close>

type_synonym ('s, 'a) step = "'s \<Rightarrow> ('a \<times> 's) outcome"

fun each_step :: "('b \<Rightarrow> ('s, 'a) step) \<Rightarrow> 'b list \<Rightarrow> ('s, 'a list) step" where
  "each_step f [] s = Inr ([], s)"
| "each_step f (x # xs) s = bindo (f x s) (\<lambda>(y, s1). bindo (each_step f xs s1) (\<lambda>(ys, s2). Inr (y # ys, s2)))"


section \<open>Evidence and state\<close>

record reference_resolution =
  rf_dataset :: string
  rf_field :: string
  rf_reference :: pvalue
  rf_status :: string
  rf_match_count :: nat
  rf_target_binding_hash :: string
  rf_affected_count :: nat
  rf_resolved_target :: "pvalue option"

type_synonym row_id = "string \<times> int"

type_synonym identity_key = "string \<times> pvalue list"

record resolve_env =
  re_plan :: "dataset_spec list"
  re_catalog :: catalog
  re_records :: "prepared_record list"
  re_winners :: "(identity_key \<times> target_record) list"
  re_case_conflicts :: "identity_key list"
  re_winner_conflicts :: "identity_key list"
  re_digest :: "string \<Rightarrow> string"

record resolve_state =
  rv_cache :: "(row_id \<times> prepared_record) list"
  rv_resolving :: "row_id list"
  rv_cycles :: "(row_id \<times> issue) list"
  rv_evidence :: "reference_resolution list"

definition row_key :: "prepared_record \<Rightarrow> row_id" where
  "row_key r = (pr_dataset r, pr_source_row r)"

text \<open>Keys of dictionaries over identities: equal tuples are the same key.\<close>

definition incoming_identity :: "string \<Rightarrow> pvalue list \<Rightarrow> identity_key" where
  "incoming_identity name key = (name, map python_form key)"

definition incoming_candidates :: "resolve_env \<Rightarrow> string \<Rightarrow> pvalue list \<Rightarrow> prepared_record list" where
  "incoming_candidates env name key = filter (\<lambda>r. incoming_identity (pr_dataset r) (pr_source_identity r)
     = incoming_identity name key) (re_records env)"

definition row_issue :: "string \<Rightarrow> string \<Rightarrow> severity \<Rightarrow> prepared_record \<Rightarrow> issue" where
  "row_issue code message sev r = mk_issue code message sev (Some (pr_dataset r)) (Some (pr_source_row r)) None 1"

definition field_issue :: "string \<Rightarrow> string \<Rightarrow> severity \<Rightarrow> prepared_record \<Rightarrow> string \<Rightarrow> nat \<Rightarrow> issue" where
  "field_issue code message sev r field n =
     mk_issue code message sev (Some (pr_dataset r)) (Some (pr_source_row r)) (Some field) (int n)"


section \<open>Outcomes of hybrid references\<close>

text \<open>The winners and conflicts, with the stack of values the loop takes from its end.\<close>

definition pvalue_weight :: "pvalue list \<Rightarrow> nat" where
  "pvalue_weight vs = sum_list (map (\<lambda>v. Suc (size v)) vs)"

fun hybrid_reference :: "pvalue \<Rightarrow> bool" where
  "hybrid_reference (PLogical origin _ dataset model fs _ _ ik) =
     (origin = ''target_then_incoming'' \<and> dataset \<noteq> None \<and> model \<noteq> None \<and> fs \<noteq> [] \<and> ik \<noteq> None)"
| "hybrid_reference _ = False"

record hybrid_outcomes =
  ho_winners :: "(identity_key \<times> target_record) list"
  ho_case_conflicts :: "identity_key list"
  ho_winner_conflicts :: "identity_key list"

definition hybrid_outcome :: "catalog \<Rightarrow> pvalue \<Rightarrow> hybrid_outcomes \<Rightarrow> hybrid_outcomes" where
  "hybrid_outcome cat v s =
    (if \<not> hybrid_reference v then s
     else (let k = incoming_identity (the (lg_dataset v)) (the (lg_incoming_key v)); model = the (lg_model v);
               paths = lg_target_fields v @ lg_target_scope_fields v; key = reference_key v in
       case find_target_first_matches cat model paths key of
         [m] \<Rightarrow> (case map_of (ho_winners s) k of
             None \<Rightarrow> s\<lparr>ho_winners := dict_set (ho_winners s) k m\<rparr>
           | Some previous \<Rightarrow> if tr_odoo_id previous \<noteq> tr_odoo_id m
               then s\<lparr>ho_winner_conflicts := List.insert k (ho_winner_conflicts s)\<rparr> else s)
       | _ \<Rightarrow> if find_by_fields cat model paths key = [] \<and> find_casefold_by_fields cat model paths key \<noteq> []
           then s\<lparr>ho_case_conflicts := List.insert k (ho_case_conflicts s)\<rparr> else s))"

lemma pvalue_weight_append [simp]: "pvalue_weight (vs @ ws) = pvalue_weight vs + pvalue_weight ws"
  by (simp add: pvalue_weight_def)

lemma pending_less:
  assumes "pending \<noteq> []"
  shows "last pending = PTuple vs \<Longrightarrow> pvalue_weight (butlast pending @ vs) < pvalue_weight pending"
    "pvalue_weight (butlast pending) < pvalue_weight pending"
proof -
  have weight: "pvalue_weight pending = pvalue_weight (butlast pending) + Suc (size (last pending))"
    using assms pvalue_weight_append[of "butlast pending" "[last pending]"] by (simp add: pvalue_weight_def)
  have "pvalue_weight vs < Suc (size (PTuple vs))" by (induction vs) (auto simp: pvalue_weight_def)
  then show "last pending = PTuple vs \<Longrightarrow> pvalue_weight (butlast pending @ vs) < pvalue_weight pending"
    using weight by simp
  show "pvalue_weight (butlast pending) < pvalue_weight pending" using weight by simp
qed

function pending_outcomes :: "catalog \<Rightarrow> pvalue list \<Rightarrow> hybrid_outcomes \<Rightarrow> hybrid_outcomes" where
  "pending_outcomes cat pending s =
    (if pending = [] then s
     else case last pending of
       PTuple vs \<Rightarrow> pending_outcomes cat (butlast pending @ vs) s
     | v \<Rightarrow> pending_outcomes cat (butlast pending) (hybrid_outcome cat v s))"
  by pat_completeness auto

termination
  by (relation "measure (\<lambda>(cat, pending, s). pvalue_weight pending)") (auto intro: pending_less simp del: pvalue_weight_append)

declare pending_outcomes.simps [simp del]

definition hybrid_incoming_outcomes :: "prepared_record list \<Rightarrow> catalog \<Rightarrow> hybrid_outcomes" where
  "hybrid_incoming_outcomes rs cat = fold (\<lambda>r. pending_outcomes cat
       (pr_target_identity r @ pr_target_scope r @ map snd (pr_references r))) rs
     \<lparr>ho_winners = [], ho_case_conflicts = [], ho_winner_conflicts = []\<rparr>"


section \<open>Resolution of one value\<close>

definition add_evidence :: "prepared_record \<Rightarrow> string \<Rightarrow> pvalue \<Rightarrow> string \<Rightarrow> nat \<Rightarrow> string \<Rightarrow> pvalue option
    \<Rightarrow> resolve_state \<Rightarrow> resolve_state" where
  "add_evidence owner field v status n hash resolved st = st\<lparr>rv_evidence := rv_evidence st @
     [\<lparr>rf_dataset = pr_dataset owner, rf_field = field, rf_reference = v, rf_status = status, rf_match_count = n,
       rf_target_binding_hash = hash, rf_affected_count = 1, rf_resolved_target = resolved\<rparr>]\<rparr>"

definition key_text :: "pvalue list \<Rightarrow> string" where
  "key_text key = python_repr (PTuple key)"

definition shown_key :: "pvalue \<Rightarrow> pvalue list" where
  "shown_key v = (case lg_incoming_key v of Some (k # ks) \<Rightarrow> k # ks | _ \<Rightarrow> lg_key v)"

definition optional_name :: "string option \<Rightarrow> string" where
  "optional_name s = (case s of None \<Rightarrow> ''None'' | Some t \<Rightarrow> t)"

definition reference_paths :: "pvalue \<Rightarrow> string list" where
  "reference_paths v = lg_target_fields v @ lg_target_scope_fields v"

text \<open>\<open>_resolved_business_components\<close> and \<open>_incoming_reference_shape\<close>.\<close>

definition resolved_business_components :: "pvalue list \<Rightarrow> pvalue list outcome" where
  "resolved_business_components vs = (if list_ex is_logical vs
     then Inl (TypeError, ''A resolved dependency still contains a symbolic identity'') else Inr vs)"

definition business_reference_of :: "dataset_spec list \<Rightarrow> prepared_record \<Rightarrow> pvalue outcome" where
  "business_reference_of plan r =
     bindo (resolved_business_components (pr_target_identity r)) (\<lambda>key.
     bindo (resolved_business_components (pr_target_scope r)) (\<lambda>scope.
     bindo (lookup_dataset plan (pr_dataset r)) (\<lambda>d.
     Inr (PBusiness (pr_target_model r) key scope (component_paths (ti_components (ds_target_identity d)))
       (component_paths (ti_scope (ds_target_identity d)))))))"

type_synonym recursion = "prepared_record \<Rightarrow> (resolve_state, prepared_record) step"

text \<open>What the lookup of one value yields: the value to use, its status, the number of matches, the binding of a
  target record, the reference of a target that won, and an issue.\<close>

type_synonym lookup = "pvalue \<times> string \<times> nat \<times> string \<times> pvalue option \<times> issue list"

text \<open>A unique incoming row: it is resolved first, and blocks its owner when it is blocked.\<close>

definition resolve_incoming :: "resolve_env \<Rightarrow> recursion \<Rightarrow> string \<Rightarrow> prepared_record \<Rightarrow> prepared_record \<Rightarrow> string \<Rightarrow> pvalue
    \<Rightarrow> (resolve_state, lookup) step" where
  "resolve_incoming env rec success match owner field v st = bindo (rec match st) (\<lambda>(target, st1).
     if record_blocked target then
       Inr ((v, ''BLOCKED_BY_DEPENDENCY'', 1, [], None,
         [field_issue ''REFERENCE_BLOCKED_BY_DEPENDENCY''
           (field @ '' depends on blocked '' @ pr_dataset target @ '' '' @ key_text (pr_source_identity target))
           Error_Severity owner field 1]), st1)
     else bindo (business_reference_of (re_plan env) target) (\<lambda>b. Inr ((b, success, 1, [], None, []), st1)))"

definition lookup_hybrid :: "resolve_env \<Rightarrow> recursion \<Rightarrow> pvalue \<Rightarrow> prepared_record \<Rightarrow> string \<Rightarrow> severity \<Rightarrow> severity
    \<Rightarrow> (resolve_state, lookup) step" where
  "lookup_hybrid env rec v owner field missing ambiguous st =
    (let model = optional_name (lg_model v); paths = reference_paths v; key = reference_key v; cat = re_catalog env in
     case find_target_first_matches cat model paths key of
       [m] \<Rightarrow>
         bindo (target_record_binding_hash (re_digest env) (tr_model m) (tr_odoo_id m)) (\<lambda>hash.
         bindo (reference_from_id cat (tr_model m) (PInt (tr_odoo_id m)) (lg_target_fields v) (lg_target_scope_fields v)) (\<lambda>b.
         Inr ((b, ''RESOLVED_TARGET'', 1, hash,
           if b = PNone \<or> python_eq b (PBusiness model (lg_key v) (lg_scope v) [] []) then None else Some b, []), st)))
     | m # m2 # ms \<Rightarrow> (let n = length (m # m2 # ms) in
         Inr ((v, ''AMBIGUOUS'', n, [], None,
           [field_issue ''REFERENCE_AMBIGUOUS'' (field @ '' reference '' @ key_text (lg_key v) @ '' matched ''
             @ decimal n @ '' Odoo records'') ambiguous owner field n]), st))
     | [] \<Rightarrow>
         (let cases = find_casefold_by_fields cat model paths key in
          if cases \<noteq> [] then
            Inr ((v, ''CASE_MISMATCH'', length cases, [], None,
              [field_issue ''REFERENCE_CASE_MISMATCH_REVIEW_REQUIRED'' (field @ '' reference '' @ key_text (lg_key v)
                @ '' has an Odoo candidate that differs only by letter case'') Error_Severity owner field (length cases)]), st)
          else (case incoming_candidates env (optional_name (lg_dataset v)) (shown_key v) of
              [] \<Rightarrow> Inr ((v, ''NOT_FOUND'', 0, [], None,
                [field_issue ''REFERENCE_NOT_FOUND'' (field @ '' reference '' @ key_text (shown_key v)
                  @ '' was not found in Odoo or the incoming table'') missing owner field 1]), st)
            | [c] \<Rightarrow> resolve_incoming env rec ''RESOLVED_INCOMING'' c owner field v st
            | cs \<Rightarrow> Inr ((v, ''AMBIGUOUS'', length cs, [], None,
                [field_issue ''REFERENCE_AMBIGUOUS'' (field @ '' incoming reference '' @ key_text (shown_key v)
                  @ '' matched '' @ decimal (length cs) @ '' records'') ambiguous owner field (length cs)]), st))))"

definition lookup_single :: "resolve_env \<Rightarrow> recursion \<Rightarrow> pvalue \<Rightarrow> prepared_record \<Rightarrow> string \<Rightarrow> severity \<Rightarrow> severity
    \<Rightarrow> (resolve_state, lookup) step" where
  "lookup_single env rec v owner field missing ambiguous st =
    (let incoming = (lg_origin v = ''incoming'');
         rows = incoming_candidates env (optional_name (lg_dataset v)) (lg_key v);
         targets = find_by_fields (re_catalog env) (optional_name (lg_model v)) (reference_paths v) (reference_key v);
         n = (if incoming then length rows else length targets) in
     if n = 0 then
       Inr ((v, ''NOT_FOUND'', 0, [], None,
         [field_issue ''REFERENCE_NOT_FOUND'' (field @ '' reference '' @ key_text (lg_key v) @ '' was not found'')
           missing owner field 1]), st)
     else if 1 < n then
       Inr ((v, ''AMBIGUOUS'', n, [], None,
         [field_issue ''REFERENCE_AMBIGUOUS'' (field @ '' reference '' @ key_text (lg_key v) @ '' matched ''
           @ decimal n @ '' records'') ambiguous owner field n]), st)
     else if incoming then resolve_incoming env rec ''RESOLVED'' (hd rows) owner field v st
     else bindo (target_record_binding_hash (re_digest env) (tr_model (hd targets)) (tr_odoo_id (hd targets))) (\<lambda>hash.
       Inr ((PBusiness (optional_name (lg_model v)) (lg_key v) (lg_scope v) [] [], ''RESOLVED'', 1, hash, None, []), st)))"

text \<open>\<open>resolve_value\<close>, with the issues of the owner as part of the state.\<close>

definition resolve_value :: "resolve_env \<Rightarrow> recursion \<Rightarrow> prepared_record \<Rightarrow> string \<Rightarrow> severity \<Rightarrow> severity \<Rightarrow> pvalue
    \<Rightarrow> (issue list \<times> resolve_state, pvalue) step" where
  "resolve_value env rec owner field missing ambiguous v = (\<lambda>(issues, st).
     if \<not> is_logical v then Inr (v, issues, st)
     else bindo ((if lg_origin v = ''target_then_incoming'' then lookup_hybrid else lookup_single)
           env rec v owner field missing ambiguous st)
         (\<lambda>((result, status, n, hash, resolved, new), st1).
           Inr (result, issues @ new, add_evidence owner field v status n hash resolved st1)))"


section \<open>Resolution of one row\<close>

text \<open>\<open>_expanded_component\<close>.\<close>

fun expanded_component :: "identity_component list \<Rightarrow> nat \<Rightarrow> identity_component outcome" where
  "expanded_component [] i = Inl (LookupError, [])"
| "expanded_component (c # cs) i =
    (let width = (if ic_resolve c \<noteq> None then 1 else length (ic_target_fields c)) in
     if i < width then Inr c else expanded_component cs (i - width))"

definition resolve_identity :: "resolve_env \<Rightarrow> recursion \<Rightarrow> prepared_record \<Rightarrow> string \<Rightarrow> identity_component list \<Rightarrow> pvalue list
    \<Rightarrow> (issue list \<times> resolve_state, pvalue list) step" where
  "resolve_identity env rec owner label cs vs = each_step (\<lambda>(i, v) s. bindo (expanded_component cs i) (\<lambda>c.
     resolve_value env rec owner (label @ hd (ic_target_fields c)) Error_Severity Error_Severity v s)) (List.enumerate 0 vs)"

fun policy_severity :: "missing_policy \<Rightarrow> severity" where
  "policy_severity Error_On = Error_Severity"
| "policy_severity Warning_On = Warning_Severity"

definition resolve_relation :: "resolve_env \<Rightarrow> recursion \<Rightarrow> dataset_spec \<Rightarrow> prepared_record \<Rightarrow> string \<times> pvalue
    \<Rightarrow> (issue list \<times> resolve_state, string \<times> pvalue) step" where
  "resolve_relation env rec d owner fv s = (case map_of (ds_relations d) (fst fv) of
     None \<Rightarrow> Inl (key_error (fst fv))
   | Some rel \<Rightarrow>
       (let resolve = resolve_value env rec owner (fst fv) (policy_severity (rl_on_missing rel))
              (policy_severity (rl_on_ambiguous rel)) in
        case snd fv of
          PTuple vs \<Rightarrow> bindo (each_step resolve vs s) (\<lambda>(ws, s1). Inr ((fst fv, PTuple ws), s1))
        | PNone \<Rightarrow> Inr (fv, s)
        | v \<Rightarrow> bindo (resolve v s) (\<lambda>(w, s1). Inr ((fst fv, w), s1))))"

text \<open>The precedence of a matching Odoo record over an incoming row, as the row and its new issues.\<close>

definition caught :: "fault \<Rightarrow> bool" where
  "caught e = (fst e \<in> {LookupError, ValueError})"

definition apply_precedence :: "resolve_env \<Rightarrow> dataset_spec \<Rightarrow> prepared_record \<Rightarrow> (prepared_record \<times> issue list) outcome" where
  "apply_precedence env d r =
    (let k = incoming_identity (pr_dataset r) (pr_source_identity r) in
     if k \<in> set (re_winner_conflicts env) then
       Inr (r, [row_issue ''REFERENCE_TARGET_PRECEDENCE_CONFLICT''
         ''different reviewed Odoo matches claim this incoming record; choose one explicit relationship match''
         Error_Severity r])
     else if k \<in> set (re_case_conflicts env) then
       Inr (r, [row_issue ''REFERENCE_CASE_MISMATCH_REVIEW_REQUIRED''
         (''an Odoo record differs from this incoming key only by letter case; ''
           @ ''explicitly reuse it or keep a separate record'') Error_Severity r])
     else (case map_of (re_winners env) k of
       None \<Rightarrow> Inr (r, [])
     | Some target \<Rightarrow>
         (case bindo (target_identity (re_plan env) (re_catalog env) [] (ti_components (ds_target_identity d)) target) (\<lambda>key.
               bindo (target_identity (re_plan env) (re_catalog env) [] (ti_scope (ds_target_identity d)) target) (\<lambda>scope.
               Inr (key, scope))) of
            Inl e \<Rightarrow> if caught e then Inr (r, [row_issue ''REFERENCE_TARGET_PRECEDENCE_CONFLICT''
                (''the winning Odoo record cannot be represented by the incoming dataset identity: '' @ snd e)
                Error_Severity r]) else Inl e
          | Inr (key, scope) \<Rightarrow> Inr (r\<lparr>pr_target_identity := key, pr_target_scope := scope\<rparr>,
              [row_issue ''REFERENCE_TARGET_PRECEDENCE_REUSE''
                ''a matching Odoo record wins; this incoming row is reused without updating Odoo'' Warning_Severity r]))))"

definition cycle_issue :: "prepared_record \<Rightarrow> issue" where
  "cycle_issue r = row_issue ''REFERENCE_IDENTITY_CYCLE''
     ''The incoming identity depends on itself through parent records.'' Error_Severity r"

text \<open>The identity and scope of a row, which enters the cache before its relations are resolved.\<close>

definition resolve_row_identity :: "resolve_env \<Rightarrow> recursion \<Rightarrow> dataset_spec \<Rightarrow> prepared_record
    \<Rightarrow> (resolve_state, prepared_record) step" where
  "resolve_row_identity env rec d r st =
    (let k = row_key r in
     bindo (apply_precedence env d r) (\<lambda>(r1, precedence).
     bindo (resolve_identity env rec r1 ''target_identity:'' (ti_components (ds_target_identity d)) (pr_target_identity r1)
       (pr_issues r @ precedence, st\<lparr>rv_resolving := List.insert k (rv_resolving st)\<rparr>)) (\<lambda>(key, s1).
     bindo (resolve_identity env rec r1 ''scope:'' (ti_scope (ds_target_identity d)) (pr_target_scope r1) s1)
       (\<lambda>(scope, issues, st1).
        let all = issues @ (case map_of (rv_cycles st1) k of None \<Rightarrow> [] | Some i \<Rightarrow> [i]);
            r2 = r1\<lparr>pr_target_identity := key, pr_target_scope := scope, pr_issues := all\<rparr> in
        Inr (r2, st1\<lparr>rv_resolving := removeAll k (rv_resolving st1), rv_cache := dict_set (rv_cache st1) k r2\<rparr>)))))"

definition resolve_row :: "resolve_env \<Rightarrow> recursion \<Rightarrow> recursion" where
  "resolve_row env rec r st =
    (let k = row_key r in
     case map_of (rv_cache st) k of
       Some resolved \<Rightarrow> Inr (resolved, st)
     | None \<Rightarrow>
       if k \<in> set (rv_resolving st) then
         Inr (r\<lparr>pr_issues := pr_issues r @ [cycle_issue r]\<rparr>, st\<lparr>rv_cycles := dict_set (rv_cycles st) k (cycle_issue r)\<rparr>)
       else
         bindo (lookup_dataset (re_plan env) (pr_dataset r)) (\<lambda>d.
         bindo (resolve_row_identity env rec d r st) (\<lambda>(r1, st1).
         bindo (each_step (resolve_relation env rec d r1) (pr_references r1) (pr_issues r1, st1)) (\<lambda>(refs, issues, st2).
           let r2 = r1\<lparr>pr_references := refs, pr_issues := issues\<rparr> in
           Inr (r2, st2\<lparr>rv_cache := dict_set (rv_cache st2) k r2\<rparr>)))))"

primrec resolve_record :: "nat \<Rightarrow> resolve_env \<Rightarrow> recursion" where
  "resolve_record 0 env = (\<lambda>r st. Inl (RuntimeError, ''maximum recursion depth exceeded''))"
| "resolve_record (Suc n) env = resolve_row env (resolve_record n env)"

definition resolve_records :: "(string \<Rightarrow> string) \<Rightarrow> dataset_spec list \<Rightarrow> prepared_record list \<Rightarrow> catalog
    \<Rightarrow> (prepared_record list \<times> reference_resolution list) outcome" where
  "resolve_records digest plan rs cat =
    (let outcomes = hybrid_incoming_outcomes rs cat;
         env = \<lparr>re_plan = plan, re_catalog = cat, re_records = rs, re_winners = ho_winners outcomes,
           re_case_conflicts = ho_case_conflicts outcomes, re_winner_conflicts = ho_winner_conflicts outcomes,
           re_digest = digest\<rparr> in
     bindo (each_step (resolve_record (Suc (length rs)) env) rs
         \<lparr>rv_cache = [], rv_resolving = [], rv_cycles = [], rv_evidence = []\<rparr>) (\<lambda>(resolved, st).
     Inr (resolved, rv_evidence st)))"

end
