(* ===== verification/Resolution_Properties.thy ===== *)
theory Resolution_Properties
imports Reference_Resolution
begin

text \<open>
  The resolution of references returns for every input the earlier stages let through, within the fuel that is
  given; a row that is not blocked has an identity without symbolic references, and a relation that is still
  symbolic has an issue.
\<close>


section \<open>Results that may only overflow\<close>

definition ok_result :: "('a \<Rightarrow> 's \<Rightarrow> bool) \<Rightarrow> ('a \<times> 's) outcome \<Rightarrow> bool" where
  "ok_result Q m \<longleftrightarrow> (case m of Inl e \<Rightarrow> fst e = ArithmeticError | Inr (x, s) \<Rightarrow> Q x s)"

lemma ok_result_Inr [simp]: "ok_result Q (Inr (x, s)) \<longleftrightarrow> Q x s"
  by (simp add: ok_result_def)

lemma ok_result_bind:
  assumes "ok_result Q m" "\<And>x s. Q x s \<Longrightarrow> ok_result R (f (x, s))"
  shows "ok_result R (bindo m f)"
proof (cases m)
  case (Inl e)
  then show ?thesis using assms(1) by (simp add: ok_result_def)
next
  case (Inr p)
  then show ?thesis using assms by (cases p) simp
qed

lemma ok_result_mono: "ok_result Q m \<Longrightarrow> (\<And>x s. Q x s \<Longrightarrow> R x s) \<Longrightarrow> ok_result R m"
  by (auto simp: ok_result_def split: sum.splits)

text \<open>A loop whose steps relate the state before to the state after, and each item to its result.\<close>

lemma ok_each_step:
  assumes step: "\<And>x s. x \<in> set xs \<Longrightarrow> I s \<Longrightarrow> ok_result (\<lambda>y s'. I s' \<and> T s s' \<and> P x y s') (f x s)"
    and refl: "\<And>s. I s \<Longrightarrow> T s s" and trans: "\<And>s s' s''. T s s' \<Longrightarrow> T s' s'' \<Longrightarrow> T s s''"
    and later: "\<And>x y s s'. P x y s \<Longrightarrow> T s s' \<Longrightarrow> P x y s'"
    and start: "I s"
  shows "ok_result (\<lambda>ys s'. I s' \<and> T s s' \<and> list_all2 (\<lambda>x y. P x y s') xs ys) (each_step f xs s)"
  using step start
proof (induction xs arbitrary: s)
  case Nil
  then show ?case using refl by simp
next
  case (Cons x xs)
  have "ok_result (\<lambda>y s'. I s' \<and> T s s' \<and> P x y s') (f x s)" using Cons.prems by simp
  then show ?case unfolding each_step.simps
  proof (rule ok_result_bind)
    fix y s1
    assume y: "I s1 \<and> T s s1 \<and> P x y s1"
    have "ok_result (\<lambda>ys s'. I s' \<and> T s1 s' \<and> list_all2 (\<lambda>x y. P x y s') xs ys) (each_step f xs s1)"
      using Cons.IH[of s1] Cons.prems(1) y by simp
    then show "ok_result (\<lambda>ys s'. I s' \<and> T s s' \<and> list_all2 (\<lambda>x y. P x y s') (x # xs) ys)
        (case (y, s1) of (y, s1) \<Rightarrow> bindo (each_step f xs s1) (\<lambda>(ys, s2). Inr (y # ys, s2)))"
      unfolding prod.case by (rule ok_result_bind) (use y trans later in auto)
  qed
qed


section \<open>Inputs and states\<close>

definition identity_width :: "identity_component list \<Rightarrow> nat" where
  "identity_width cs = sum_list (map (\<lambda>c. if ic_resolve c \<noteq> None then 1 else length (ic_target_fields c)) cs)"

definition row_ready :: "dataset_spec list \<Rightarrow> prepared_record \<Rightarrow> bool" where
  "row_ready plan r \<longleftrightarrow> (\<exists>d. find_dataset plan (pr_dataset r) = Inr d
     \<and> length (pr_target_identity r) \<le> identity_width (ti_components (ds_target_identity d))
     \<and> length (pr_target_scope r) \<le> identity_width (ti_scope (ds_target_identity d))
     \<and> fst ` set (pr_references r) \<subseteq> fst ` set (ds_relations d))"

definition catalog_ready :: "catalog \<Rightarrow> bool" where
  "catalog_ready cat \<longleftrightarrow> (\<forall>(m, rs) \<in> set cat. \<forall>r \<in> set rs. tr_model r = m \<and> m \<noteq> [] \<and> 0 < tr_odoo_id r)"

definition env_ready :: "resolve_env \<Rightarrow> bool" where
  "env_ready env \<longleftrightarrow> (\<forall>r \<in> set (re_records env). row_ready (re_plan env) r) \<and> catalog_ready (re_catalog env)"

text \<open>A row that is not blocked has no symbolic identity, and symbolic relations have an issue.\<close>

definition clean :: "prepared_record \<Rightarrow> bool" where
  "clean r \<longleftrightarrow> record_blocked r \<or> \<not> list_ex is_logical (pr_target_identity r @ pr_target_scope r)"

fun symbolic :: "pvalue \<Rightarrow> bool" where
  "symbolic (PTuple vs) = list_ex is_logical vs"
| "symbolic v = is_logical v"

lemma logical_symbolic: "is_logical v \<Longrightarrow> symbolic v"
  by (cases v) auto

text \<open>The issues of an unresolved relation block its row unless the profile asks for warnings.\<close>

definition strict_relation :: "dataset_spec \<Rightarrow> string \<Rightarrow> bool" where
  "strict_relation d f \<longleftrightarrow> (\<forall>rel. map_of (ds_relations d) f = Some rel \<longrightarrow> rl_on_missing rel = Error_On \<and> rl_on_ambiguous rel = Error_On)"

definition explained :: "dataset_spec list \<Rightarrow> prepared_record \<Rightarrow> bool" where
  "explained plan r \<longleftrightarrow> (\<forall>d. find_dataset plan (pr_dataset r) = Inr d \<longrightarrow> (\<forall>(f, v) \<in> set (pr_references r). symbolic v \<longrightarrow>
     (\<exists>i \<in> set (pr_issues r). is_field i = Some f \<and> (strict_relation d f \<longrightarrow> issue_blocking i))))"

definition row_keys :: "resolve_env \<Rightarrow> row_id set" where
  "row_keys env = row_key ` set (re_records env)"

definition entered :: "resolve_state \<Rightarrow> row_id set" where
  "entered st = fst ` set (rv_cache st) \<union> set (rv_resolving st)"

text \<open>\<open>A\<close> holds the rows whose relations are being resolved.\<close>

definition state_ready :: "resolve_env \<Rightarrow> row_id set \<Rightarrow> resolve_state \<Rightarrow> bool" where
  "state_ready env A st \<longleftrightarrow> (\<forall>k r. map_of (rv_cache st) k = Some r \<longrightarrow> row_key r = k \<and> clean r \<and> (k \<in> A \<or> explained (re_plan env) r))"

definition kept :: "resolve_env \<Rightarrow> row_id set \<Rightarrow> resolve_state \<Rightarrow> resolve_state \<Rightarrow> bool" where
  "kept env A st st' \<longleftrightarrow> state_ready env A st' \<and> entered st \<subseteq> entered st' \<and> set (rv_resolving st') = set (rv_resolving st)"

definition resolves :: "resolve_env \<Rightarrow> nat \<Rightarrow> recursion \<Rightarrow> bool" where
  "resolves env n rec \<longleftrightarrow> (\<forall>A r st. state_ready env A st \<longrightarrow> r \<in> set (re_records env) \<longrightarrow>
     card (row_keys env - entered st) < n \<longrightarrow>
     ok_result (\<lambda>r' st'. kept env A st st' \<and> row_key r' = row_key r \<and> clean r'
       \<and> (row_key r \<in> A \<union> set (rv_resolving st) \<or> explained (re_plan env) r')) (rec r st))"

lemma kept_refl: "state_ready env A st \<Longrightarrow> kept env A st st"
  by (simp add: kept_def)

lemma kept_trans: "kept env A st st1 \<Longrightarrow> kept env A st1 st2 \<Longrightarrow> kept env A st st2"
  by (auto simp: kept_def)

lemma kept_fuel:
  assumes "kept env A st st'" "card (row_keys env - entered st) < n"
  shows "card (row_keys env - entered st') < n"
proof -
  have "row_keys env - entered st' \<subseteq> row_keys env - entered st" using assms(1) by (auto simp: kept_def)
  then have "card (row_keys env - entered st') \<le> card (row_keys env - entered st)"
    by (intro card_mono) (simp_all add: row_keys_def)
  then show ?thesis using assms(2) by simp
qed

lemma kept_evidence [simp]:
  "state_ready env A (add_evidence owner field v status n hash resolved st) \<longleftrightarrow> state_ready env A st"
  "kept env A st0 (add_evidence owner field v status n hash resolved st) \<longleftrightarrow> kept env A st0 st"
  "entered (add_evidence owner field v status n hash resolved st) = entered st"
  by (simp_all add: add_evidence_def state_ready_def kept_def entered_def)


section \<open>Lookups\<close>

definition looked_up :: "resolve_env \<Rightarrow> row_id set \<Rightarrow> resolve_state \<Rightarrow> string \<Rightarrow> bool \<Rightarrow> lookup \<Rightarrow> resolve_state \<Rightarrow> bool" where
  "looked_up env A st field hard l st' \<longleftrightarrow> kept env A st st' \<and> (case l of (v, status, n, hash, resolved, new) \<Rightarrow>
     symbolic v \<longrightarrow> (\<exists>i \<in> set new. is_field i = Some field \<and> (hard \<longrightarrow> issue_blocking i)))"

lemma field_issue_simps [simp]:
  "is_field (field_issue code message sev r field n) = Some field"
  "issue_blocking (field_issue code message sev r field n) \<longleftrightarrow> sev = Error_Severity"
  by (simp_all add: field_issue_def mk_issue_def issue_blocking_def)

lemma incoming_candidates_records: "set (incoming_candidates env name key) \<subseteq> set (re_records env)"
  by (auto simp: incoming_candidates_def)

lemma catalog_found:
  assumes "catalog_ready cat" "m \<in> set (catalog_records cat model)"
  shows "tr_model m = model" "tr_model m \<noteq> []" "0 < tr_odoo_id m"
proof -
  obtain rs where rs: "map_of cat model = Some rs" "m \<in> set rs"
    using assms(2) by (cases "map_of cat model") (auto simp: catalog_records_def dict_get_def)
  have "(model, rs) \<in> set cat" using map_of_SomeD[OF rs(1)] .
  then have "tr_model m = model \<and> model \<noteq> [] \<and> 0 < tr_odoo_id m"
    using assms(1) rs(2) unfolding catalog_ready_def by fastforce
  then show "tr_model m = model" "tr_model m \<noteq> []" "0 < tr_odoo_id m" by simp_all
qed

lemma binding_hash_defined: "m \<noteq> [] \<Longrightarrow> 0 < i \<Longrightarrow> \<exists>h. target_record_binding_hash digest m i = Inr h"
  by (simp add: target_record_binding_hash_def)

lemma reference_defined:
  assumes "catalog_ready cat" "m \<in> set (catalog_records cat model)"
  shows "\<exists>key scope. reference_from_id cat (tr_model m) (PInt (tr_odoo_id m)) ks ss = Inr (PBusiness (tr_model m) key scope [] [])"
proof -
  have "record_by_id cat (tr_model m) (tr_odoo_id m) \<noteq> None"
    using captured_by_id assms(2) catalog_found(1)[OF assms] by simp
  then show ?thesis
    using int_relation[OF catalog_found(3)[OF assms]] by (auto simp: reference_from_id_def)
qed

text \<open>A state in which a row may still be entered.\<close>

definition callable :: "resolve_env \<Rightarrow> nat \<Rightarrow> recursion \<Rightarrow> row_id set \<Rightarrow> resolve_state \<Rightarrow> bool" where
  "callable env n rec A st \<longleftrightarrow> env_ready env \<and> resolves env n rec \<and> state_ready env A st \<and> card (row_keys env - entered st) < n"

lemma callable_kept: "callable env n rec A st \<Longrightarrow> kept env A st st' \<Longrightarrow> callable env n rec A st'"
  using kept_fuel by (auto simp: callable_def kept_def)

lemma resolve_incoming_ok:
  assumes "callable env n rec A st" "c \<in> set (re_records env)"
  shows "ok_result (looked_up env A st field hard) (resolve_incoming env rec success c owner field v st)"
  unfolding resolve_incoming_def
proof (rule ok_result_bind)
  show "ok_result (\<lambda>r' st'. kept env A st st' \<and> row_key r' = row_key c \<and> clean r') (rec c st)"
    using assms unfolding callable_def resolves_def by (blast intro: ok_result_mono)
next
  fix r st'
  assume r: "kept env A st st' \<and> row_key r = row_key c \<and> clean r"
  show "ok_result (looked_up env A st field hard) (case (r, st') of (target, st1) \<Rightarrow>
     if record_blocked target then
       Inr ((v, ''BLOCKED_BY_DEPENDENCY'', 1, [], None,
         [field_issue ''REFERENCE_BLOCKED_BY_DEPENDENCY''
           (field @ '' depends on blocked '' @ pr_dataset target @ '' '' @ key_text (pr_source_identity target))
           Error_Severity owner field 1]), st1)
     else bindo (business_reference_of (re_plan env) target) (\<lambda>b. Inr ((b, success, 1, [], None, []), st1)))"
  proof (cases "record_blocked r")
    case True
    then show ?thesis using r by (simp add: looked_up_def)
  next
    case False
    have "row_ready (re_plan env) c" using assms by (simp add: callable_def env_ready_def)
    then obtain d where d: "find_dataset (re_plan env) (pr_dataset r) = Inr d"
      using r by (auto simp: row_ready_def row_key_def)
    have "\<not> list_ex is_logical (pr_target_identity r @ pr_target_scope r)" using r False by (simp add: clean_def)
    then have "\<exists>b. business_reference_of (re_plan env) r = Inr b \<and> \<not> symbolic b"
      using d by (simp add: business_reference_of_def resolved_business_components_def lookup_dataset_def)
    then show ?thesis using False r by (auto simp: looked_up_def)
  qed
qed

lemma lookup_single_ok:
  assumes "callable env n rec A st"
    and "hard \<longrightarrow> missing = Error_Severity \<and> ambiguous = Error_Severity"
  shows "ok_result (looked_up env A st field hard) (lookup_single env rec v owner field missing ambiguous st)"
proof -
  let ?rows = "incoming_candidates env (optional_name (lg_dataset v)) (lg_key v)"
  let ?targets = "find_by_fields (re_catalog env) (optional_name (lg_model v)) (reference_paths v) (reference_key v)"
  let ?n = "if lg_origin v = ''incoming'' then length ?rows else length ?targets"
  have refl: "kept env A st st" using assms(1) kept_refl by (simp add: callable_def)
  consider (none) "?n = 0" | (many) "1 < ?n" | (row) "lg_origin v = ''incoming''" "?n = 1"
    | (target) "lg_origin v \<noteq> ''incoming''" "?n = 1" by linarith
  then show ?thesis
  proof cases
    case none
    then show ?thesis using refl assms(2) by (simp add: lookup_single_def looked_up_def Let_def)
  next
    case many
    then show ?thesis using refl assms(2) by (auto simp: lookup_single_def looked_up_def Let_def)
  next
    case row
    then have "hd ?rows \<in> set (re_records env)"
      using incoming_candidates_records[of env "optional_name (lg_dataset v)" "lg_key v"] by (cases ?rows) auto
    then show ?thesis using row resolve_incoming_ok[OF assms(1)] by (simp add: lookup_single_def Let_def)
  next
    case target
    then have m: "hd ?targets \<in> set (catalog_records (re_catalog env) (optional_name (lg_model v)))"
      by (cases ?targets) (auto simp: find_by_fields_filter filter_eq_Cons_iff)
    obtain h where "target_record_binding_hash (re_digest env) (tr_model (hd ?targets)) (tr_odoo_id (hd ?targets)) = Inr h"
      using binding_hash_defined catalog_found(2,3)[OF _ m] assms(1) unfolding callable_def env_ready_def by blast
    then show ?thesis using target refl by (simp add: lookup_single_def looked_up_def Let_def)
  qed
qed

lemma lookup_hybrid_ok:
  assumes "callable env n rec A st"
    and "hard \<longrightarrow> missing = Error_Severity \<and> ambiguous = Error_Severity"
  shows "ok_result (looked_up env A st field hard) (lookup_hybrid env rec v owner field missing ambiguous st)"
proof -
  let ?model = "optional_name (lg_model v)"
  let ?matches = "find_target_first_matches (re_catalog env) ?model (reference_paths v) (reference_key v)"
  let ?cases = "find_casefold_by_fields (re_catalog env) ?model (reference_paths v) (reference_key v)"
  let ?rows = "incoming_candidates env (optional_name (lg_dataset v)) (shown_key v)"
  have refl: "kept env A st st" using assms(1) kept_refl by (simp add: callable_def)
  consider (one) m where "?matches = [m]" | (many) m m2 ms where "?matches = m # m2 # ms"
    | (cases) "?matches = []" "?cases \<noteq> []" | (none) "?matches = []" "?cases = []" "?rows = []"
    | (row) c where "?matches = []" "?cases = []" "?rows = [c]"
    | (rows) c c2 cs where "?matches = []" "?cases = []" "?rows = c # c2 # cs"
    by (metis list.exhaust)
  then show ?thesis
  proof cases
    case one
    have m: "m \<in> set (catalog_records (re_catalog env) ?model)" using target_first_records one by (metis list.set_intros(1) subsetD)
    have cat: "catalog_ready (re_catalog env)" using assms(1) by (simp add: callable_def env_ready_def)
    obtain h where h: "target_record_binding_hash (re_digest env) (tr_model m) (tr_odoo_id m) = Inr h"
      using binding_hash_defined catalog_found(2,3)[OF cat m] by blast
    obtain key scope where "reference_from_id (re_catalog env) (tr_model m) (PInt (tr_odoo_id m)) (lg_target_fields v)
        (lg_target_scope_fields v) = Inr (PBusiness (tr_model m) key scope [] [])"
      using reference_defined[OF cat m] by blast
    then show ?thesis using one h refl by (simp add: lookup_hybrid_def looked_up_def Let_def)
  next
    case many
    then show ?thesis using refl assms(2) by (simp add: lookup_hybrid_def looked_up_def Let_def)
  next
    case cases
    then show ?thesis using refl by (simp add: lookup_hybrid_def looked_up_def Let_def)
  next
    case none
    then show ?thesis using refl assms(2) by (simp add: lookup_hybrid_def looked_up_def Let_def)
  next
    case row
    then have "c \<in> set (re_records env)" using incoming_candidates_records by (metis list.set_intros(1) subsetD)
    then show ?thesis using row resolve_incoming_ok[OF assms(1)] by (simp add: lookup_hybrid_def Let_def)
  next
    case rows
    then show ?thesis using refl assms(2) by (simp add: lookup_hybrid_def looked_up_def Let_def)
  qed
qed

text \<open>One value, with the issues of its owner.\<close>

definition issued :: "resolve_env \<Rightarrow> row_id set \<Rightarrow> issue list \<times> resolve_state \<Rightarrow> issue list \<times> resolve_state \<Rightarrow> bool" where
  "issued env A s s' \<longleftrightarrow> kept env A (snd s) (snd s') \<and> set (fst s) \<subseteq> set (fst s')"

definition accounted :: "string \<Rightarrow> bool \<Rightarrow> pvalue \<Rightarrow> issue list \<times> resolve_state \<Rightarrow> bool" where
  "accounted field hard v s \<longleftrightarrow>
     (symbolic v \<longrightarrow> (\<exists>i \<in> set (fst s). is_field i = Some field \<and> (hard \<longrightarrow> issue_blocking i)))"

lemma issued_refl: "callable env n rec A (snd s) \<Longrightarrow> issued env A s s"
  by (simp add: issued_def callable_def kept_refl)

lemma issued_trans: "issued env A s s1 \<Longrightarrow> issued env A s1 s2 \<Longrightarrow> issued env A s s2"
  by (auto simp: issued_def intro: kept_trans)

lemma issued_callable: "callable env n rec A (snd s) \<Longrightarrow> issued env A s s' \<Longrightarrow> callable env n rec A (snd s')"
  by (auto simp: issued_def intro: callable_kept)

lemma accounted_later: "accounted field hard v s \<Longrightarrow> issued env A s s' \<Longrightarrow> accounted field hard v s'"
  by (auto simp: accounted_def issued_def)

lemma resolve_value_ok:
  assumes "callable env n rec A (snd s)" "hard \<longrightarrow> missing = Error_Severity \<and> ambiguous = Error_Severity"
  shows "ok_result (\<lambda>v' s'. issued env A s s' \<and> (if is_logical v then accounted field hard v' s' else v' = v))
    (resolve_value env rec owner field missing ambiguous v s)"
proof -
  obtain issues st where s: "s = (issues, st)" by (cases s)
  show ?thesis
  proof (cases "is_logical v")
    case False
    then show ?thesis using issued_refl[OF assms(1)] by (simp add: resolve_value_def s)
  next
    case True
    let ?lookup = "(if lg_origin v = ''target_then_incoming'' then lookup_hybrid else lookup_single)
      env rec v owner field missing ambiguous st"
    have found: "ok_result (looked_up env A st field hard) ?lookup"
      using lookup_hybrid_ok lookup_single_ok assms by (simp add: s)
    have unfolded: "resolve_value env rec owner field missing ambiguous v s = bindo ?lookup
        (\<lambda>((result, status, n, hash, resolved, new), st1).
           Inr (result, issues @ new, add_evidence owner field v status n hash resolved st1))"
      using True by (simp only: resolve_value_def s prod.case not_True_eq_False if_False)
    show ?thesis unfolding unfolded
      by (rule ok_result_bind[OF found]) (auto simp: True looked_up_def issued_def accounted_def s)
  qed
qed

lemma expanded_component_defined: "i < identity_width cs \<Longrightarrow> \<exists>c. expanded_component cs i = Inr c"
  by (induction cs arbitrary: i) (auto simp: identity_width_def Let_def)

lemma resolve_identity_ok:
  assumes "callable env n rec A (snd s)" "length vs \<le> identity_width cs"
  shows "ok_result (\<lambda>ws s'. issued env A s s' \<and> (list_ex is_logical ws \<longrightarrow> (\<exists>i \<in> set (fst s'). issue_blocking i)))
    (resolve_identity env rec owner label cs vs s)"
proof -
  have "ok_result (\<lambda>ws s'. callable env n rec A (snd s') \<and> issued env A s s'
      \<and> list_all2 (\<lambda>_ w. is_logical w \<longrightarrow> (\<exists>i \<in> set (fst s'). issue_blocking i)) (List.enumerate 0 vs) ws)
      (resolve_identity env rec owner label cs vs s)"
    unfolding resolve_identity_def
  proof (rule ok_each_step[where T = "issued env A" and I = "\<lambda>s. callable env n rec A (snd s)"
        and P = "\<lambda>_ w s. is_logical w \<longrightarrow> (\<exists>i \<in> set (fst s). issue_blocking i)"])
    fix x and t :: "issue list \<times> resolve_state"
    assume x: "x \<in> set (List.enumerate 0 vs)" and t: "callable env n rec A (snd t)"
    obtain i v where iv: "x = (i, v)" by (cases x)
    have "i < length vs" using x unfolding iv in_set_enumerate_eq by simp
    then obtain c where c: "expanded_component cs i = Inr c" using expanded_component_defined assms(2) by fastforce
    have "ok_result (\<lambda>w t'. issued env A t t'
          \<and> (if is_logical v then accounted (label @ hd (ic_target_fields c)) True w t' else w = v))
        (resolve_value env rec owner (label @ hd (ic_target_fields c)) Error_Severity Error_Severity v t)"
      using resolve_value_ok[OF t, of True Error_Severity Error_Severity] by simp
    then show "ok_result (\<lambda>w t'. callable env n rec A (snd t') \<and> issued env A t t'
        \<and> (is_logical w \<longrightarrow> (\<exists>i \<in> set (fst t'). issue_blocking i)))
        ((case x of (i, v) \<Rightarrow> \<lambda>s. bindo (expanded_component cs i) (\<lambda>c.
           resolve_value env rec owner (label @ hd (ic_target_fields c)) Error_Severity Error_Severity v s)) t)"
      using issued_callable[OF t] logical_symbolic
      by (auto simp: iv c accounted_def elim!: ok_result_mono split: if_splits)
  next
    show "issued env A t t" if "callable env n rec A (snd t)" for t :: "issue list \<times> resolve_state" using that by (rule issued_refl)
  next
    show "issued env A t t2" if "issued env A t t1" "issued env A t1 t2" for t t1 t2 using that by (rule issued_trans)
  next
    show "is_logical w \<longrightarrow> (\<exists>i \<in> set (fst t1). issue_blocking i)"
      if "is_logical w \<longrightarrow> (\<exists>i \<in> set (fst t). issue_blocking i)" "issued env A t t1" for w t t1
      using that unfolding issued_def by blast
  qed (rule assms(1))
  then show ?thesis by (rule ok_result_mono) (auto simp: list_ex_iff list_all2_conv_all_nth in_set_conv_nth)
qed


section \<open>Identities of target records\<close>

text \<open>A conversion that raises only exceptions its callers handle, or overflows.\<close>

definition yields :: "('a \<Rightarrow> bool) \<Rightarrow> 'a outcome \<Rightarrow> bool" where
  "yields P m \<longleftrightarrow> (case m of Inl e \<Rightarrow> fst e \<in> {ValueError, LookupError, ArithmeticError} | Inr x \<Rightarrow> P x)"

lemma yields_simps [simp]: "yields P (Inr x) \<longleftrightarrow> P x" "yields P (Inl e) \<longleftrightarrow> fst e \<in> {ValueError, LookupError, ArithmeticError}"
  by (simp_all add: yields_def)

lemma yields_bind:
  assumes "yields P m" "\<And>x. P x \<Longrightarrow> m = Inr x \<Longrightarrow> yields Q (f x)"
  shows "yields Q (bindo m f)"
  using assms by (cases m) auto

lemma yields_mono: "yields P m \<Longrightarrow> (\<And>x. P x \<Longrightarrow> Q x) \<Longrightarrow> yields Q m"
  by (cases m) auto

lemma yields_mapo:
  assumes "\<And>x. x \<in> set xs \<Longrightarrow> yields P (f x)"
  shows "yields (\<lambda>ys. length ys = length xs \<and> list_all P ys) (mapo f xs)"
  using assms by (induction xs) (auto intro!: yields_bind[where P = P] elim!: yields_bind)

lemma yields_parse_value: "yields (\<lambda>_. True) (parse_value raw ty p required)"
proof -
  have "yields (\<lambda>_. True) (parse_moment zone v)" for zone v
    by (auto simp: parse_moment_def Let_def split: option.splits)
  then have "yields (\<lambda>_. True) (parse_typed ty p v)" for v
    by (cases ty) (simp_all add: parse_typed_def)
  then show ?thesis
    by (auto simp: parse_value_def Let_def intro!: yields_bind split: option.splits)
qed

lemma yields_relation_id: "yields (\<lambda>_. True) (relation_id v)"
  by (auto simp: relation_id_def split: pvalue.splits option.splits list.splits)

lemma yields_reference: "yields (\<lambda>_. True) (reference_from_id cat model raw ks ss)"
  unfolding reference_from_id_def
  by (rule yields_bind[OF yields_relation_id]) (auto simp: key_error_def split: option.splits)

lemma yields_lookup: "yields (\<lambda>_. True) (lookup_dataset plan name)"
  by (simp add: lookup_dataset_def key_error_def split: sum.split)

lemma yields_shape: "yields (\<lambda>_. True) (resolve_target_shape plan rs)"
  by (auto simp: resolve_target_shape_def intro!: yields_bind[OF yields_lookup] split: option.split)

lemma yields_scalar: "yields (\<lambda>vs. length vs = length (ic_target_fields c)) (scalar_identity c r)"
  unfolding scalar_identity_def
  by (rule yields_mono[OF yields_mapo[of _ "\<lambda>_. True"]]) (simp_all add: yields_parse_value)

lemma yields_target_identity:
  "yields (\<lambda>vs. length vs = identity_width cs) (target_identity plan cat visiting cs r)"
  "yields (\<lambda>_. True) (target_reference plan cat visiting rs raw)"
proof (induction plan cat visiting cs r and plan cat visiting rs raw rule: target_identity_target_reference.induct)
  case (2 plan cat visiting c cs r)
  let ?width = "if ic_resolve c \<noteq> None then 1 else length (ic_target_fields c)"
  have head: "yields (\<lambda>vs. length vs = ?width) (case ic_resolve c of None \<Rightarrow> scalar_identity c r
    | Some rs \<Rightarrow> bindo (target_reference plan cat visiting rs (target_value r (hd (ic_target_fields c)))) (\<lambda>v. Inr [v]))"
    using 2 by (cases "ic_resolve c") (auto intro: yields_scalar elim!: yields_bind)
  show ?case unfolding target_identity.simps(2)
  proof (rule yields_bind[OF head])
    fix vs
    assume vs: "length vs = ?width" "(case ic_resolve c of None \<Rightarrow> scalar_identity c r
      | Some rs \<Rightarrow> bindo (target_reference plan cat visiting rs (target_value r (hd (ic_target_fields c)))) (\<lambda>v. Inr [v])) = Inr vs"
    have "yields (\<lambda>ws. length ws = identity_width cs) (target_identity plan cat visiting cs r)" by (rule 2(2)[OF vs(2)])
    then show "yields (\<lambda>ws. length ws = identity_width (c # cs))
        (bindo (target_identity plan cat visiting cs r) (\<lambda>rest. Inr (vs @ rest)))"
      by (rule yields_bind) (simp add: identity_width_def vs(1))
  qed
next
  case (3 plan cat visiting rs raw)
  note parts = yields_bind[OF 3(1)[OF _ refl refl _ _ refl] yields_bind[OF 3(2)[OF _ refl refl _ _ refl]]]
  show ?case unfolding target_reference.simps
    by (auto intro!: yields_bind[OF yields_shape] yields_bind[OF yields_relation_id] yields_bind[OF yields_lookup]
        yields_reference parts split: option.splits simp: key_error_def) (rule refl)+
qed (simp add: identity_width_def)



section \<open>Rows\<close>

lemma yields_precedence:
  "yields (\<lambda>(r', new). row_key r' = row_key r \<and> pr_references r' = pr_references r
      \<and> length (pr_target_identity r') \<le> max (length (pr_target_identity r)) (identity_width (ti_components (ds_target_identity d)))
      \<and> length (pr_target_scope r') \<le> max (length (pr_target_scope r)) (identity_width (ti_scope (ds_target_identity d))))
    (apply_precedence env d r) \<and> (\<forall>e. apply_precedence env d r = Inl e \<longrightarrow> fst e = ArithmeticError)"
proof (cases "map_of (re_winners env) (incoming_identity (pr_dataset r) (pr_source_identity r))")
  case None
  then show ?thesis by (simp add: apply_precedence_def Let_def)
next
  case (Some target)
  let ?m = "bindo (target_identity (re_plan env) (re_catalog env) [] (ti_components (ds_target_identity d)) target) (\<lambda>key.
    bindo (target_identity (re_plan env) (re_catalog env) [] (ti_scope (ds_target_identity d)) target) (\<lambda>scope. Inr (key, scope)))"
  have "yields (\<lambda>(key, scope). length key = identity_width (ti_components (ds_target_identity d))
      \<and> length scope = identity_width (ti_scope (ds_target_identity d))) ?m"
    by (rule yields_bind[OF yields_target_identity(1)], rule yields_bind[OF yields_target_identity(1)]) simp
  then show ?thesis using Some
    by (cases ?m) (auto simp: apply_precedence_def Let_def row_key_def caught_def)
qed

lemma ok_precedence:
  assumes "row_ready (re_plan env) r" "find_dataset (re_plan env) (pr_dataset r) = Inr d"
  obtains (late) e where "apply_precedence env d r = Inl e" "fst e = ArithmeticError"
  | (row) r' new where "apply_precedence env d r = Inr (r', new)" "row_key r' = row_key r" "pr_references r' = pr_references r"
      "length (pr_target_identity r') \<le> identity_width (ti_components (ds_target_identity d))"
      "length (pr_target_scope r') \<le> identity_width (ti_scope (ds_target_identity d))"
proof (cases "apply_precedence env d r")
  case (Inl e)
  then show ?thesis using yields_precedence[of r d env] late by blast
next
  case (Inr p)
  obtain r' new where "p = (r', new)" by (cases p)
  then show ?thesis using yields_precedence[of r d env] Inr assms row by (auto simp: row_ready_def max_def split: if_splits)
qed

text \<open>Leaving the resolution of an identity, the row enters the cache.\<close>

lemma kept_leave:
  assumes "kept env A (st\<lparr>rv_resolving := List.insert k (rv_resolving st)\<rparr>) st1" "state_ready env A st" "k \<notin> set (rv_resolving st)"
    and "row_key r = k" "clean r"
  shows "kept env (insert k A) st (st1\<lparr>rv_resolving := removeAll k (rv_resolving st1), rv_cache := dict_set (rv_cache st1) k r\<rparr>)"
  using assms by (auto simp: kept_def state_ready_def entered_def keys_dict_set map_of_dict_set split: if_splits)

lemma kept_cached:
  assumes "kept env (insert k A) st st1" "row_key r = k" "clean r" "explained (re_plan env) r"
  shows "kept env A st (st1\<lparr>rv_cache := dict_set (rv_cache st1) k r\<rparr>)"
  using assms by (auto simp: kept_def state_ready_def entered_def keys_dict_set map_of_dict_set split: if_splits)

lemma resolve_row_identity_ok:
  assumes env: "env_ready env" "resolves env n rec" and st: "state_ready env A st" and r: "r \<in> set (re_records env)"
    and d: "find_dataset (re_plan env) (pr_dataset r) = Inr d"
    and fresh: "row_key r \<notin> entered st" and fuel: "card (row_keys env - entered st) < Suc n"
  shows "ok_result (\<lambda>r1 st1. kept env (insert (row_key r) A) st st1 \<and> row_key r \<in> entered st1 \<and> row_key r1 = row_key r
      \<and> clean r1 \<and> pr_references r1 = pr_references r) (resolve_row_identity env rec d r st)"
proof -
  let ?k = "row_key r" and ?st = "st\<lparr>rv_resolving := List.insert (row_key r) (rv_resolving st)\<rparr>"
  have "row_keys env - entered ?st = (row_keys env - entered st) - {?k}" by (auto simp: entered_def)
  moreover have "?k \<in> row_keys env - entered st" using r fresh by (simp add: row_keys_def)
  moreover have "finite (row_keys env - entered st)" by (simp add: row_keys_def)
  ultimately have "card (row_keys env - entered ?st) < n" using fuel card_Diff1_less by fastforce
  then have call: "callable env n rec A ?st" using env st by (simp add: callable_def state_ready_def)
  have ready: "row_ready (re_plan env) r" using env r by (simp add: env_ready_def)
  show ?thesis
  proof (rule ok_precedence[OF ready d])
    fix e
    assume "apply_precedence env d r = Inl e" "fst e = ArithmeticError"
    then show ?thesis by (simp add: resolve_row_identity_def ok_result_def)
  next
    fix r' new
    assume r': "apply_precedence env d r = Inr (r', new)" "row_key r' = row_key r" "pr_references r' = pr_references r"
      "length (pr_target_identity r') \<le> identity_width (ti_components (ds_target_identity d))"
      "length (pr_target_scope r') \<le> identity_width (ti_scope (ds_target_identity d))"
    have call': "callable env n rec A (snd (pr_issues r @ new, ?st))" using call by simp
    show ?thesis unfolding resolve_row_identity_def Let_def r'(1) bindo_simps prod.case
    proof (rule ok_result_bind[OF resolve_identity_ok[OF call' r'(4)]], unfold prod.case)
      fix key s1
      assume s1: "issued env A (pr_issues r @ new, ?st) s1 \<and> (list_ex is_logical key \<longrightarrow> (\<exists>i \<in> set (fst s1). issue_blocking i))"
      have call1: "callable env n rec A (snd s1)" using issued_callable[OF call'] s1 by blast
      show "ok_result (\<lambda>r1 st1. kept env (insert ?k A) st st1 \<and> ?k \<in> entered st1 \<and> row_key r1 = ?k
          \<and> clean r1 \<and> pr_references r1 = pr_references r)
        (bindo (resolve_identity env rec r' ''scope:'' (ti_scope (ds_target_identity d)) (pr_target_scope r') s1)
          (\<lambda>(scope, issues, st1). Inr (r'\<lparr>pr_target_identity := key, pr_target_scope := scope,
              pr_issues := issues @ (case map_of (rv_cycles st1) ?k of None \<Rightarrow> [] | Some i \<Rightarrow> [i])\<rparr>,
            st1\<lparr>rv_resolving := removeAll ?k (rv_resolving st1), rv_cache := dict_set (rv_cache st1) ?k
              (r'\<lparr>pr_target_identity := key, pr_target_scope := scope,
              pr_issues := issues @ (case map_of (rv_cycles st1) ?k of None \<Rightarrow> [] | Some i \<Rightarrow> [i])\<rparr>)\<rparr>)))"
      proof (rule ok_result_bind[OF resolve_identity_ok[OF call1 r'(5)]])
        fix scope s2
        assume s2: "issued env A s1 s2 \<and> (list_ex is_logical scope \<longrightarrow> (\<exists>i \<in> set (fst s2). issue_blocking i))"
        obtain issues st1 where split: "s2 = (issues, st1)" by (cases s2)
        let ?r = "r'\<lparr>pr_target_identity := key, pr_target_scope := scope,
          pr_issues := issues @ (case map_of (rv_cycles st1) ?k of None \<Rightarrow> [] | Some i \<Rightarrow> [i])\<rparr>"
        have "issued env A (pr_issues r @ new, ?st) s2" using s1 s2 issued_trans by blast
        then have kept: "kept env A ?st st1" by (simp add: issued_def split)
        have "set (fst s1) \<subseteq> set issues" using s2 by (simp add: issued_def split)
        then have "clean ?r" using s1 s2 by (auto simp: clean_def record_blocked_def list_ex_iff split)
        moreover have "row_key ?r = ?k" using r'(2) by (simp add: row_key_def)
        ultimately show "ok_result (\<lambda>r1 st1. kept env (insert ?k A) st st1 \<and> ?k \<in> entered st1 \<and> row_key r1 = ?k
            \<and> clean r1 \<and> pr_references r1 = pr_references r)
          (case (scope, s2) of (scope, issues, st1) \<Rightarrow> Inr (r'\<lparr>pr_target_identity := key, pr_target_scope := scope,
              pr_issues := issues @ (case map_of (rv_cycles st1) ?k of None \<Rightarrow> [] | Some i \<Rightarrow> [i])\<rparr>,
            st1\<lparr>rv_resolving := removeAll ?k (rv_resolving st1), rv_cache := dict_set (rv_cache st1) ?k
              (r'\<lparr>pr_target_identity := key, pr_target_scope := scope,
              pr_issues := issues @ (case map_of (rv_cycles st1) ?k of None \<Rightarrow> [] | Some i \<Rightarrow> [i])\<rparr>)\<rparr>))"
          using kept_leave[OF kept st, of ?r] fresh r'(3) by (simp add: split entered_def keys_dict_set)
      qed
    qed
  qed
qed

definition relation_done :: "dataset_spec \<Rightarrow> string \<times> pvalue \<Rightarrow> string \<times> pvalue \<Rightarrow> issue list \<times> resolve_state \<Rightarrow> bool" where
  "relation_done d fv fw s \<longleftrightarrow> fst fw = fst fv \<and> (symbolic (snd fw) \<longrightarrow>
     (\<exists>i \<in> set (fst s). is_field i = Some (fst fv) \<and> (strict_relation d (fst fv) \<longrightarrow> issue_blocking i)))"

lemma resolve_relation_ok:
  assumes call: "callable env n rec A (snd s)" and known: "fst fv \<in> fst ` set (ds_relations d)"
  shows "ok_result (\<lambda>fw s'. callable env n rec A (snd s') \<and> issued env A s s' \<and> relation_done d fv fw s')
    (resolve_relation env rec d owner fv s)"
proof -
  obtain f v where fv: "fv = (f, v)" by (cases fv)
  obtain rel where rel: "map_of (ds_relations d) f = Some rel"
    using known by (cases "map_of (ds_relations d) f") (auto simp: fv map_of_eq_None_iff)
  let ?resolve = "resolve_value env rec owner f (policy_severity (rl_on_missing rel)) (policy_severity (rl_on_ambiguous rel))"
  let ?hard = "strict_relation d f"
  have hard: "?hard \<longrightarrow> policy_severity (rl_on_missing rel) = Error_Severity \<and> policy_severity (rl_on_ambiguous rel) = Error_Severity"
    using rel by (simp add: strict_relation_def)
  have item: "ok_result (\<lambda>w t'. callable env n rec A (snd t') \<and> issued env A t t'
      \<and> (if is_logical x then accounted f ?hard w t' else w = x)) (?resolve x t)"
    if "callable env n rec A (snd t)" for x t
    by (rule ok_result_mono[OF resolve_value_ok[OF that hard]]) (auto dest: issued_callable[OF that])
  show ?thesis
  proof (cases v)
    case (PTuple vs)
    have "ok_result (\<lambda>ws s'. callable env n rec A (snd s') \<and> issued env A s s'
        \<and> list_all2 (\<lambda>_ w. is_logical w \<longrightarrow> (\<exists>i \<in> set (fst s'). is_field i = Some f \<and> (?hard \<longrightarrow> issue_blocking i))) vs ws) (each_step ?resolve vs s)"
    proof (rule ok_each_step[where T = "issued env A" and I = "\<lambda>s. callable env n rec A (snd s)"
          and P = "\<lambda>_ w s. is_logical w \<longrightarrow> (\<exists>i \<in> set (fst s). is_field i = Some f \<and> (?hard \<longrightarrow> issue_blocking i))"])
      fix x and t :: "issue list \<times> resolve_state"
      assume "callable env n rec A (snd t)"
      then show "ok_result (\<lambda>w t'. callable env n rec A (snd t') \<and> issued env A t t'
          \<and> (is_logical w \<longrightarrow> (\<exists>i \<in> set (fst t'). is_field i = Some f \<and> (?hard \<longrightarrow> issue_blocking i)))) (?resolve x t)"
        using item[of t x] logical_symbolic by (auto simp: accounted_def elim!: ok_result_mono split: if_splits)
    next
      show "issued env A t t" if "callable env n rec A (snd t)" for t :: "issue list \<times> resolve_state"
        using that by (rule issued_refl)
    next
      show "issued env A t t2" if "issued env A t t1" "issued env A t1 t2" for t t1 t2 using that by (rule issued_trans)
    next
      show "is_logical w \<longrightarrow> (\<exists>i \<in> set (fst t1). is_field i = Some f \<and> (?hard \<longrightarrow> issue_blocking i))"
        if "is_logical w \<longrightarrow> (\<exists>i \<in> set (fst t). is_field i = Some f \<and> (?hard \<longrightarrow> issue_blocking i))" "issued env A t t1" for w t t1
        using that unfolding issued_def by blast
    qed (rule call)
    then show ?thesis
      by (auto simp: resolve_relation_def fv rel PTuple relation_done_def list_ex_iff list_all2_conv_all_nth in_set_conv_nth
          elim!: ok_result_bind)
  qed (use item[OF call, of v] issued_refl[OF call] call in
      \<open>auto simp: resolve_relation_def fv rel relation_done_def accounted_def elim!: ok_result_bind split: if_splits\<close>)
qed

lemma relations_ok:
  assumes call: "callable env n rec A (snd s)" and known: "fst ` set fvs \<subseteq> fst ` set (ds_relations d)"
  shows "ok_result (\<lambda>refs s'. callable env n rec A (snd s') \<and> issued env A s s' \<and> list_all2 (\<lambda>fv fw. relation_done d fv fw s') fvs refs)
    (each_step (resolve_relation env rec d owner) fvs s)"
proof (rule ok_each_step[where T = "issued env A" and P = "relation_done d"])
  fix fv and t :: "issue list \<times> resolve_state"
  assume fv: "fv \<in> set fvs" and t: "callable env n rec A (snd t)"
  have "fst fv \<in> fst ` set (ds_relations d)" using fv known by blast
  then show "ok_result (\<lambda>fw t'. callable env n rec A (snd t') \<and> issued env A t t' \<and> relation_done d fv fw t')
      (resolve_relation env rec d owner fv t)" by (rule resolve_relation_ok[OF t])
next
  show "issued env A t t" if "callable env n rec A (snd t)" for t :: "issue list \<times> resolve_state" using that by (rule issued_refl)
next
  show "issued env A t t2" if "issued env A t t1" "issued env A t1 t2" for t t1 t2 using that by (rule issued_trans)
next
  show "relation_done d fv fw t1" if "relation_done d fv fw t" "issued env A t t1" for fv fw t t1
    using that unfolding relation_done_def issued_def by blast
qed (rule call)

lemma explained_relations:
  assumes "find_dataset plan (pr_dataset r) = Inr d" "pr_issues r = fst s"
    and "list_all2 (\<lambda>fv fw. relation_done d fv fw s) fvs (pr_references r)"
  shows "explained plan r"
  unfolding explained_def
proof (intro allI impI ballI, clarify)
  fix d' f v
  assume d': "find_dataset plan (pr_dataset r) = Inr d'" and fv: "(f, v) \<in> set (pr_references r)" "symbolic v"
  obtain i where i: "i < length (pr_references r)" "pr_references r ! i = (f, v)" using fv(1) by (auto simp: in_set_conv_nth)
  have "relation_done d (fvs ! i) (f, v) s" using list_all2_nthD2[OF assms(3) i(1)] i(2) by simp
  then show "\<exists>i \<in> set (pr_issues r). is_field i = Some f \<and> (strict_relation d' f \<longrightarrow> issue_blocking i)"
    using assms(1,2) d' fv(2) by (auto simp: relation_done_def)
qed

lemma resolve_row_ok:
  assumes env: "env_ready env" and rec: "resolves env n rec"
  shows "resolves env (Suc n) (resolve_row env rec)"
  unfolding resolves_def
proof (intro allI impI)
  fix A r st
  assume st: "state_ready env A st" and r: "r \<in> set (re_records env)" and fuel: "card (row_keys env - entered st) < Suc n"
  let ?k = "row_key r"
  let ?goal = "\<lambda>r' st'. kept env A st st' \<and> row_key r' = ?k \<and> clean r' \<and> (?k \<in> A \<union> set (rv_resolving st) \<or> explained (re_plan env) r')"
  obtain d where d: "find_dataset (re_plan env) (pr_dataset r) = Inr d" "fst ` set (pr_references r) \<subseteq> fst ` set (ds_relations d)"
    using env r by (auto simp: env_ready_def row_ready_def)
  consider (cached) r1 where "map_of (rv_cache st) ?k = Some r1"
    | (cycle) "map_of (rv_cache st) ?k = None" "?k \<in> set (rv_resolving st)" | (fresh) "?k \<notin> entered st"
    by (cases "map_of (rv_cache st) ?k") (auto simp: entered_def map_of_eq_None_iff)
  then show "ok_result ?goal (resolve_row env rec r st)"
  proof cases
    case cached
    then show ?thesis using st kept_refl[OF st] by (simp add: resolve_row_def state_ready_def) blast
  next
    case cycle
    then show ?thesis using st
      by (simp add: resolve_row_def kept_def state_ready_def entered_def row_key_def clean_def record_blocked_def
          cycle_issue_def row_issue_def mk_issue_def issue_blocking_def)
  next
    case fresh
    then have new: "map_of (rv_cache st) ?k = None" "?k \<notin> set (rv_resolving st)" by (auto simp: entered_def map_of_eq_None_iff)
    have "ok_result ?goal (bindo (resolve_row_identity env rec d r st) (\<lambda>(r1, st1).
        bindo (each_step (resolve_relation env rec d r1) (pr_references r1) (pr_issues r1, st1)) (\<lambda>(refs, issues, st2).
          Inr (r1\<lparr>pr_references := refs, pr_issues := issues\<rparr>,
            st2\<lparr>rv_cache := dict_set (rv_cache st2) ?k (r1\<lparr>pr_references := refs, pr_issues := issues\<rparr>)\<rparr>))))"
    proof (rule ok_result_bind[OF resolve_row_identity_ok[OF env rec st r d(1) fresh fuel]], unfold prod.case)
      fix r1 st1
      assume r1: "kept env (insert ?k A) st st1 \<and> ?k \<in> entered st1 \<and> row_key r1 = ?k \<and> clean r1 \<and> pr_references r1 = pr_references r"
      have "row_keys env - entered st1 \<subset> row_keys env - entered st"
        using r1 fresh r by (auto simp: kept_def row_keys_def)
      then have "card (row_keys env - entered st1) < card (row_keys env - entered st)"
        by (intro psubset_card_mono) (simp_all add: row_keys_def)
      then have call: "callable env n rec (insert ?k A) (snd (pr_issues r1, st1))"
        using env rec r1 fuel by (simp add: callable_def kept_def)
      have relations: "ok_result (\<lambda>refs s'. callable env n rec (insert ?k A) (snd s') \<and> issued env (insert ?k A) (pr_issues r1, st1) s'
          \<and> list_all2 (\<lambda>fv fw. relation_done d fv fw s') (pr_references r1) refs)
        (each_step (resolve_relation env rec d r1) (pr_references r1) (pr_issues r1, st1))"
        using relations_ok[OF call, of "pr_references r1" d] r1 d(2) by simp
      show "ok_result ?goal (bindo (each_step (resolve_relation env rec d r1) (pr_references r1) (pr_issues r1, st1))
          (\<lambda>(refs, issues, st2). Inr (r1\<lparr>pr_references := refs, pr_issues := issues\<rparr>,
            st2\<lparr>rv_cache := dict_set (rv_cache st2) ?k (r1\<lparr>pr_references := refs, pr_issues := issues\<rparr>)\<rparr>)))"
      proof (rule ok_result_bind[OF relations])
        fix refs s2
        assume s2: "callable env n rec (insert ?k A) (snd s2) \<and> issued env (insert ?k A) (pr_issues r1, st1) s2
          \<and> list_all2 (\<lambda>fv fw. relation_done d fv fw s2) (pr_references r1) refs"
        obtain issues st2 where split: "s2 = (issues, st2)" by (cases s2)
        let ?r = "r1\<lparr>pr_references := refs, pr_issues := issues\<rparr>"
        have "set (pr_issues r1) \<subseteq> set issues" and st2: "kept env (insert ?k A) st1 st2" using s2 by (simp_all add: issued_def split)
        then have "clean ?r" using r1 by (auto simp: clean_def record_blocked_def list_ex_iff)
        moreover have "explained (re_plan env) ?r"
          by (rule explained_relations[where d = d and s = s2 and fvs = "pr_references r1"]) (use r1 d(1) s2 in \<open>auto simp: row_key_def split\<close>)
        moreover have "row_key ?r = ?k" using r1 by (simp add: row_key_def)
        moreover have "kept env (insert ?k A) st st2" using r1 st2 kept_trans by blast
        ultimately show "ok_result ?goal (case (refs, s2) of (refs, issues, st2) \<Rightarrow> Inr (r1\<lparr>pr_references := refs, pr_issues := issues\<rparr>,
            st2\<lparr>rv_cache := dict_set (rv_cache st2) ?k (r1\<lparr>pr_references := refs, pr_issues := issues\<rparr>)\<rparr>))"
          by (auto simp: split intro: kept_cached)
      qed
    qed
    then show ?thesis using new d(1) by (simp add: resolve_row_def lookup_dataset_def Let_def)
  qed
qed

lemma resolve_record_ok: "env_ready env \<Longrightarrow> resolves env n (resolve_record n env)"
  by (induction n) (simp_all add: resolve_row_ok, simp add: resolves_def)

lemma resolve_all_ok:
  assumes env: "env_ready env"
  shows "ok_result (\<lambda>rs' _. list_all2 (\<lambda>r r'. row_key r' = row_key r \<and> clean r' \<and> explained (re_plan env) r') (re_records env) rs')
    (each_step (resolve_record (Suc (length (re_records env))) env) (re_records env)
      \<lparr>rv_cache = [], rv_resolving = [], rv_cycles = [], rv_evidence = []\<rparr>)"
proof (rule ok_result_mono[OF ok_each_step[where T = "\<lambda>_ _. True" and I = "\<lambda>st. state_ready env {} st \<and> rv_resolving st = []"
      and P = "\<lambda>r r' _. row_key r' = row_key r \<and> clean r' \<and> explained (re_plan env) r'"]])
  fix r st
  assume r: "r \<in> set (re_records env)" and st: "state_ready env {} st \<and> rv_resolving st = []"
  have "card (row_keys env - entered st) \<le> card (row_keys env)" by (rule card_mono) (auto simp: row_keys_def)
  moreover have "card (row_keys env) \<le> length (re_records env)"
    unfolding row_keys_def by (metis card_length list.set_map length_map)
  ultimately have "card (row_keys env - entered st) < Suc (length (re_records env))" by simp
  then have "ok_result (\<lambda>r' st'. kept env {} st st' \<and> row_key r' = row_key r \<and> clean r'
      \<and> (row_key r \<in> {} \<union> set (rv_resolving st) \<or> explained (re_plan env) r')) (resolve_record (Suc (length (re_records env))) env r st)"
    using resolve_record_ok[OF env, of "Suc (length (re_records env))"] r st unfolding resolves_def by blast
  then show "ok_result (\<lambda>r' st'. (state_ready env {} st' \<and> rv_resolving st' = []) \<and> True
      \<and> row_key r' = row_key r \<and> clean r' \<and> explained (re_plan env) r') (resolve_record (Suc (length (re_records env))) env r st)"
    by (rule ok_result_mono) (use st in \<open>auto simp: kept_def\<close>)
qed (simp_all add: state_ready_def)

lemma resolution_settles:
  assumes rows: "\<And>r. r \<in> set rs \<Longrightarrow> row_ready plan r" and cat: "catalog_ready cat"
  shows "case resolve_records digest plan rs cat of
      Inl e \<Rightarrow> fst e = ArithmeticError
    | Inr (rs', evidence) \<Rightarrow> list_all2 (\<lambda>r r'. row_key r' = row_key r \<and> clean r' \<and> explained plan r') rs rs'"
proof -
  let ?out = "hybrid_incoming_outcomes rs cat"
  let ?env = "\<lparr>re_plan = plan, re_catalog = cat, re_records = rs, re_winners = ho_winners ?out,
    re_case_conflicts = ho_case_conflicts ?out, re_winner_conflicts = ho_winner_conflicts ?out, re_digest = digest\<rparr>"
  have "env_ready ?env" using rows cat by (simp add: env_ready_def)
  from resolve_all_ok[OF this] show ?thesis
    by (auto simp: resolve_records_def Let_def ok_result_def bindo_def split: sum.splits prod.splits)
qed

lemma resolution_rows:
  assumes "\<And>r. r \<in> set rs \<Longrightarrow> row_ready plan r" "catalog_ready cat"
    and "resolve_records digest plan rs cat = Inr (rs', evidence)"
  shows "list_all2 (\<lambda>r r'. row_key r' = row_key r \<and> clean r' \<and> explained plan r') rs rs'"
  using resolution_settles[where rs = rs and plan = plan and cat = cat and digest = digest] assms by simp

text \<open>C35: Resolving the references of prepared records returns for every input of the earlier stages (each row has a
  dataset of the plan, no more identity values than components and relations the dataset declares; captured
  records have a positive identifier), however the references of the rows form cycles: it never raises a key, index or type error
  and never exhausts the recursion, only a moment of a captured record outside the calendar overflows.  Each
  resulting row has the key of its input; if it is not blocked, its identity and scope hold no symbolic reference;
  and a relation that is still symbolic is named by an
  issue of the row, which blocks the row unless the profile asks for a warning.\<close>

theorem resolution_settles_every_row:
  assumes rows: "\<And>r. r \<in> set rs \<Longrightarrow> row_ready plan r" and cat: "catalog_ready cat"
  shows "case resolve_records digest plan rs cat of
      Inl e \<Rightarrow> fst e = ArithmeticError
    | Inr (rs', evidence) \<Rightarrow> list_all2 (\<lambda>r r'. row_key r' = row_key r \<and> clean r' \<and> explained plan r') rs rs'"
  using assms by (rule resolution_settles)

definition sample_parent :: relation_spec where
  "sample_parent = sample_country\<lparr>rl_resolve := (rl_resolve sample_country)\<lparr>rs_dataset := Some ''partners'',
     rs_target_model := None, rs_target_fields := []\<rparr>\<rparr>"

definition sample_tree :: dataset_spec where
  "sample_tree = sample_partners\<lparr>ds_relations := [(''parent_id'', sample_parent), (''country_id'', sample_country)]\<rparr>"

definition sample_child :: "int \<Rightarrow> string \<Rightarrow> string \<Rightarrow> string list \<Rightarrow> prepared_record" where
  "sample_child row ref parent countries = \<lparr>pr_dataset = ''partners'', pr_source_row = row, pr_target_model = ''res.partner'',
     pr_source_identity = [PText ref], pr_target_identity = [PText ref], pr_target_scope = [], pr_scalar_values = [],
     pr_references = (''parent_id'', PLogical ''incoming'' [PText parent] (Some ''partners'') None [] [] [] None)
       # map (\<lambda>c. (''country_id'', PLogical ''target'' [PText c] None (Some ''res.country'') [''code''] [] [] None)) countries,
     pr_source_trace_id = [], pr_issues = []\<rparr>"

definition sample_countries :: catalog where
  "sample_countries = mk_catalog [(''res.country'', [\<lparr>tr_model = ''res.country'', tr_odoo_id = 7,
     tr_values = [(''code'', PText ''CH'')]\<rparr>])]"

definition blocked_rows_in :: "(prepared_record list \<times> reference_resolution list) outcome \<Rightarrow> (int \<times> bool) list option" where
  "blocked_rows_in m = (case m of Inl _ \<Rightarrow> None | Inr (rs, _) \<Rightarrow> Some (map (\<lambda>r. (pr_source_row r, record_blocked r)) rs))"

lemma sample_tree_resolved:
  "blocked_rows_in (resolve_records (\<lambda>_. ''0'') [sample_tree] [sample_child 1 ''A'' ''B'' [''CH''], sample_child 2 ''B'' ''A'' []]
     sample_countries) = Some [(1, False), (2, False)]"
  by code_simp

theorem resolution_settles_every_row_witness:
  "\<exists>a b evidence. resolve_records (\<lambda>_. ''0'') [sample_tree] [sample_child 1 ''A'' ''B'' [''CH''], sample_child 2 ''B'' ''A'' []]
      sample_countries = Inr ([a, b], evidence)
    \<and> \<not> record_blocked a \<and> \<not> record_blocked b \<and> row_key a = (''partners'', 1) \<and> clean a \<and> explained [sample_tree] a"
proof -
  let ?rs = "[sample_child 1 ''A'' ''B'' [''CH''], sample_child 2 ''B'' ''A'' []]"
  have ready: "row_ready [sample_tree] r" if "r \<in> set ?rs" for r
    using that by (auto simp: row_ready_def sample_child_def sample_tree_def sample_partners_def find_dataset_def identity_width_def)
  have cat: "catalog_ready sample_countries" by (simp add: catalog_ready_def sample_countries_def mk_catalog_def)
  show ?thesis
    using resolution_settles_every_row[of ?rs "[sample_tree]" sample_countries "\<lambda>_. ''0''", OF ready cat] sample_tree_resolved
    by (auto simp: blocked_rows_in_def row_key_def sample_child_def list_all2_Cons1 split: sum.splits)
qed

text \<open>When optional relations form a cycle, whether a row is blocked by a blocked dependency depends on the
  order of the rows: of two partners that name each other as parent, one of which has an unknown country, the other
  one is blocked if it comes first and stays usable, with a reference to the blocked row, if it comes second.\<close>

lemma cyclic_blocking_depends_on_order:
  "blocked_rows_in (resolve_records (\<lambda>_. ''0'') [sample_tree]
     [sample_child 1 ''A'' ''B'' [''XX''], sample_child 2 ''B'' ''A'' []] sample_countries) = Some [(1, True), (2, False)]
   \<and> blocked_rows_in (resolve_records (\<lambda>_. ''0'') [sample_tree]
     [sample_child 2 ''B'' ''A'' [], sample_child 1 ''A'' ''B'' [''XX'']] sample_countries) = Some [(2, True), (1, True)]"
  by (rule conjI) code_simp+

end
