(* ===== verification/Snapshot_Properties.thy ===== *)
theory Snapshot_Properties
imports Target_Metadata Canonical_Text
begin

text \<open>
  What the snapshots promise: the streamed text of a record snapshot is the canonical text of its payload, merged
  metadata holds exactly the models of both parts, and a snapshot is bound to one hash.
\<close>


section \<open>Streaming\<close>

lemma streamed_tail: "0 < n \<Longrightarrow> xs \<noteq> [] \<Longrightarrow>
    concat (map (\<lambda>(i, x). (if i \<noteq> 0 then '','' else []) @ item x) (List.enumerate n xs)) = '','' @ commas (map item xs)"
proof (induction xs arbitrary: n)
  case (Cons x xs)
  then show ?case by (cases xs) simp_all
qed simp

lemma streamed_commas: "streamed item xs = commas (map item xs)"
proof (cases xs)
  case (Cons x xs')
  then show ?thesis using streamed_tail[of 1 xs' item] by (cases xs') (simp_all add: streamed_def)
qed (simp add: streamed_def)

lemma object_of_sorted: "canonical_json_text (JObject (map (\<lambda>p. (fst p, g p)) (sort_key fst d)))
    = ''{'' @ commas (map (\<lambda>p. quoted (fst p) @ '':'' @ canonical_json_text (g p)) (sort_key fst d)) @ ''}''"
proof -
  have "map (\<lambda>(k, j). (k, canonical_json_text j)) (map (\<lambda>p. (fst p, g p)) (sort_key fst d))
      = map (\<lambda>p. (fst p, canonical_json_text (g p))) (sort_key fst d)" by simp
  moreover have "sort_key fst (map (\<lambda>p. (fst p, canonical_json_text (g p))) (sort_key fst d))
      = map (\<lambda>p. (fst p, canonical_json_text (g p))) (sort_key fst d)"
    unfolding sort_key_map fst_conv by (simp add: sort_key_id_if_sorted)
  ultimately show ?thesis unfolding canonical_json_text.simps by (simp add: o_def)
qed

text \<open>C36: The text of a record snapshot that is streamed record by record, without building its payload, is the canonical
  text of the payload, the text whose hash binds the snapshot.\<close>

theorem streamed_snapshot_is_canonical:
  "record_snapshot_json s = canonical_json_text (record_snapshot_payload s)"
proof -
  let ?models = "JObject (map (\<lambda>p. (fst p, JArray (map target_record_json (sort_key tr_odoo_id (snd p))))) (sort_key fst (sn_records s)))"
  let ?requested = "requested_fields_json (sn_requested_fields s)"
  have models: "canonical_json_text ?models = ''{'' @ streamed (\<lambda>(model, rs). canonical_json_text (JText model) @ '':[''
      @ streamed (\<lambda>r. canonical_json_text (target_record_json r)) (sort_key tr_odoo_id rs) @ '']'') (sort_key fst (sn_records s)) @ ''}''"
    unfolding object_of_sorted streamed_commas by (simp add: case_prod_unfold o_def)
  have "canonical_json_text (JObject [(''fingerprint'', a), (''complete'', b), (''requested_fields'', c), (''models'', d)])
      = ''{'' @ quoted ''complete'' @ '':'' @ canonical_json_text b @ '','' @ quoted ''fingerprint'' @ '':'' @ canonical_json_text a
        @ '','' @ quoted ''models'' @ '':'' @ canonical_json_text d
        @ '','' @ quoted ''requested_fields'' @ '':'' @ canonical_json_text c @ ''}''" for a b c d
    by simp
  then show ?thesis
    using models by (simp add: record_snapshot_payload_def record_snapshot_json_def case_prod_unfold
      del: canonical_json_text.simps)
qed


section \<open>Merging\<close>

lemma dict_union_get: "distinct (map fst e) \<Longrightarrow> map_of (dict_union d e) = map_of d ++ map_of e"
proof (induction e arbitrary: d)
  case (Cons kv e)
  obtain k v where kv: "kv = (k, v)" by (cases kv)
  have "map_of (dict_union d (kv # e)) = map_of (dict_set d k v) ++ map_of e"
    using Cons by (simp add: dict_union_def kv)
  moreover have "map_of e k = None" using Cons.prems by (simp add: kv map_of_eq_None_iff)
  ultimately show ?case by (auto simp: map_of_dict_set kv map_add_def split: option.splits)
qed (simp add: dict_union_def)

definition mergeable :: "metadata_snapshot \<Rightarrow> metadata_snapshot \<Rightarrow> bool" where
  "mergeable a b \<longleftrightarrow> ms_complete a \<and> ms_complete b \<and> same_fingerprint (ms_fingerprint a) (ms_fingerprint b)
     \<and> set (map fst (ms_models a)) \<inter> set (map fst (ms_models b)) = {}
     \<and> set (map fst (ms_create_defaults a)) \<subseteq> set (map fst (ms_models a))
     \<and> set (map fst (ms_create_defaults b)) \<subseteq> set (map fst (ms_models b))"

lemma merge_defined: "(\<exists>m. merge_disjoint_metadata_snapshots a b = Inr m) \<longleftrightarrow> mergeable a b"
  by (auto simp: mergeable_def merge_disjoint_metadata_snapshots_def res_simps list_ex_iff list_all_iff)

lemma mergeable_disjoint:
  assumes "mergeable a b"
  shows "map_of (ms_models a) k = None \<or> map_of (ms_models b) k = None"
    "map_of (ms_create_defaults a) k = None \<or> map_of (ms_create_defaults b) k = None"
  using assms unfolding mergeable_def map_of_eq_None_iff set_map by blast+

text \<open>Two metadata captures merge exactly when both are complete, come from one target, cover different models
  and give defaults only for their own models.  The merged capture is complete, unbound, answers every model and
  default as the part that has it, and keeps all company checks and reference evidence.\<close>

theorem merged_metadata_answers_as_parts:
  assumes "distinct (map fst (ms_models b))" "distinct (map fst (ms_create_defaults b))"
  shows "((\<exists>m. merge_disjoint_metadata_snapshots a b = Inr m) \<longleftrightarrow> mergeable a b)
    \<and> (\<forall>m. merge_disjoint_metadata_snapshots a b = Inr m \<longrightarrow> ms_complete m \<and> ms_content_hash m = None
      \<and> (\<forall>k. map_of (ms_models m) k = (case map_of (ms_models a) k of Some x \<Rightarrow> Some x | None \<Rightarrow> map_of (ms_models b) k))
      \<and> (\<forall>k. map_of (ms_create_defaults m) k
          = (case map_of (ms_create_defaults a) k of Some x \<Rightarrow> Some x | None \<Rightarrow> map_of (ms_create_defaults b) k))
      \<and> set (ms_reference_evidence m) = set (ms_reference_evidence a) \<union> set (ms_reference_evidence b)
      \<and> set (ms_company_checks m) = set (ms_company_checks a) \<union> set (ms_company_checks b))"
proof (intro conjI merge_defined allI impI)
  fix m
  assume m: "merge_disjoint_metadata_snapshots a b = Inr m"
  then have "mergeable a b" using merge_defined by blast
  note parts = mergeable_disjoint[OF this] and result = m[unfolded merge_disjoint_metadata_snapshots_def res_simps]
  show "ms_complete m" "ms_content_hash m = None"
    and "set (ms_reference_evidence m) = set (ms_reference_evidence a) \<union> set (ms_reference_evidence b)"
    and "set (ms_company_checks m) = set (ms_company_checks a) \<union> set (ms_company_checks b)"
    using result by (auto simp: sorted_evidence_def)
  have dicts: "ms_models m = dict_union (ms_models a) (ms_models b)"
      "ms_create_defaults m = dict_union (ms_create_defaults a) (ms_create_defaults b)" using result by auto
  show "map_of (ms_models m) k = (case map_of (ms_models a) k of Some x \<Rightarrow> Some x | None \<Rightarrow> map_of (ms_models b) k)" for k
    using parts(1)[of k] by (auto simp: dicts dict_union_get[OF assms(1)] map_add_def split: option.split)
  show "map_of (ms_create_defaults m) k
      = (case map_of (ms_create_defaults a) k of Some x \<Rightarrow> Some x | None \<Rightarrow> map_of (ms_create_defaults b) k)" for k
    using parts(2)[of k] by (auto simp: dicts dict_union_get[OF assms(2)] map_add_def split: option.split)
qed

definition sample_metadata :: "string \<Rightarrow> metadata_snapshot" where
  "sample_metadata model = \<lparr>ms_fingerprint = \<lparr>tf_target_hash = ''t'', tf_connection_mode = ''live'', tf_database = ''db'',
       tf_odoo_version = ''19.0'', tf_snapshot_timestamp = ''2026-01-01'', tf_module_versions = []\<rparr>,
     ms_models = [(model, \<lparr>mm_description = None, mm_fields = [], mm_unique_constraints = []\<rparr>)],
     ms_create_defaults = [(model, [])], ms_complete = True, ms_limitations = [], ms_reference_evidence = [],
     ms_content_hash = None, ms_company_checks = []\<rparr>"

theorem merged_metadata_answers_as_parts_witness:
  "\<exists>m. merge_disjoint_metadata_snapshots (sample_metadata ''res.partner'') (sample_metadata ''res.country'') = Inr m
    \<and> map_of (ms_models m) ''res.country'' \<noteq> None \<and> map_of (ms_models m) ''res.partner'' \<noteq> None"
proof -
  have "mergeable (sample_metadata ''res.partner'') (sample_metadata ''res.country'')"
    by (simp add: mergeable_def sample_metadata_def same_fingerprint_def)
  then show ?thesis
    using merged_metadata_answers_as_parts[of "sample_metadata ''res.country''" "sample_metadata ''res.partner''"]
    by (auto simp: sample_metadata_def)
qed

end
