(* ===== verification/Preflight.thy ===== *)
theory Preflight
imports Reference_Resolution
begin

text \<open>
  The preflight engine (\<open>domain/preparation/preflight.py\<close>): the index of target records over identities, the comparison
  of a row with its target record, the classification of every row and the grouped evidence of a run; and the result
  with its portable rendering (\<open>domain/shared/models.py\<close>).  The order of items with the same canonical text in a
  Python set is the one in which they came.
\<close>


section \<open>Decisions and results\<close>

datatype classification = CREATE | UPDATE | UNCHANGED | AMBIGUOUS | BLOCKED

fun classification_text :: "classification \<Rightarrow> string" where
  "classification_text CREATE = ''CREATE''"
| "classification_text UPDATE = ''UPDATE''"
| "classification_text UNCHANGED = ''UNCHANGED''"
| "classification_text AMBIGUOUS = ''AMBIGUOUS''"
| "classification_text BLOCKED = ''BLOCKED''"

definition classifications :: "classification list" where
  "classifications = [CREATE, UPDATE, UNCHANGED, AMBIGUOUS, BLOCKED]"

record field_difference =
  fd_dataset :: string
  fd_business_identity :: "pvalue list"
  fd_business_scope :: "pvalue list"
  fd_field :: string
  fd_existing :: pvalue
  fd_proposed :: pvalue
  fd_comparison_rule :: string
  fd_material :: bool

record decision =
  dc_dataset :: string
  dc_source_row :: int
  dc_business_identity :: "pvalue list"
  dc_business_scope :: "pvalue list"
  dc_classification :: classification
  dc_target_match_count :: nat
  dc_target_binding_hash :: string
  dc_source_trace_id :: string
  dc_differences :: "field_difference list"
  dc_issues :: "issue list"

record prepared_bundle =
  pb_records :: "prepared_record list"
  pb_issues :: "issue list"
  pb_source_hashes :: "(string \<times> string) list"

record preflight_result =
  pf_profile_id :: string
  pf_source_hashes :: "(string \<times> string) list"
  pf_fingerprint :: target_fingerprint
  pf_metadata_snapshot_hash :: "string option"
  pf_record_snapshot_hash :: "string option"
  pf_decisions :: "decision list"
  pf_reference_resolutions :: "reference_resolution list"
  pf_issues :: "issue list"
  pf_metadata_coverage :: "coverage_row list"


section \<open>Grouped evidence\<close>

fun severity_text :: "severity \<Rightarrow> string" where
  "severity_text Warning_Severity = ''warning''"
| "severity_text Error_Severity = ''error''"

type_synonym issue_group = "string \<times> string \<times> severity \<times> string option \<times> string option"

definition issue_key :: "issue \<Rightarrow> issue_group" where
  "issue_key i = (is_code i, is_message i, is_severity i, is_dataset i, is_field i)"

definition or_empty :: "string option \<Rightarrow> string" where
  "or_empty s = (case s of None \<Rightarrow> [] | Some t \<Rightarrow> t)"

definition issue_order :: "issue \<Rightarrow> string \<times> string \<times> string \<times> string \<times> string" where
  "issue_order i = (severity_text (is_severity i), is_code i, or_empty (is_dataset i), or_empty (is_field i), is_message i)"

definition grouped_issue :: "issue_group \<times> issue list \<Rightarrow> issue" where
  "grouped_issue g = (case g of ((code, message, sev, dataset, field), members) \<Rightarrow>
     (let rows = List.map_filter is_row members; distinct_rows = remdups rows in
      mk_issue code message sev dataset (if length distinct_rows = 1 then Some (hd distinct_rows) else None) field
        (if rows \<noteq> [] then int (length distinct_rows) else Max (set (map is_affected_count members)))))"

definition group_issues :: "issue list \<Rightarrow> issue list" where
  "group_issues issues = sort_key issue_order (map grouped_issue (fold (\<lambda>i d. dict_append d (issue_key i) i) issues []))"

definition optional_value :: "pvalue option \<Rightarrow> pvalue" where
  "optional_value v = (case v of None \<Rightarrow> PNone | Some w \<Rightarrow> w)"

type_synonym resolution_group = "string \<times> string \<times> string \<times> string \<times> nat \<times> string \<times> string"

definition resolution_key :: "reference_resolution \<Rightarrow> resolution_group" where
  "resolution_key r = (rf_dataset r, rf_field r, canonical_key (rf_reference r), rf_status r, rf_match_count r,
     rf_target_binding_hash r, canonical_key (optional_value (rf_resolved_target r)))"

definition resolution_order :: "reference_resolution \<Rightarrow> string \<times> string \<times> string \<times> string" where
  "resolution_order r = (rf_dataset r, rf_field r, rf_status r, canonical_key (rf_reference r))"

definition group_resolutions :: "reference_resolution list \<Rightarrow> reference_resolution list" where
  "group_resolutions evidence = sort_key resolution_order (map (\<lambda>(_, members). (hd members)\<lparr>rf_affected_count := length members\<rparr>)
     (fold (\<lambda>r d. dict_append d (resolution_key r) r) evidence []))"

definition apply_dataset_issues :: "prepared_record list \<Rightarrow> issue list \<Rightarrow> prepared_record list" where
  "apply_dataset_issues rs issues =
    (let by_dataset = fold (\<lambda>i d. dict_append d (is_dataset i) i) issues [] in
     map (\<lambda>r. r\<lparr>pr_issues := pr_issues r @ dict_get by_dataset None [] @ dict_get by_dataset (Some (pr_dataset r)) []\<rparr>) rs)"


section \<open>The index of target records\<close>

type_synonym identity_key = "pvalue list \<times> pvalue list"

definition target_key :: "pvalue list \<Rightarrow> pvalue list \<Rightarrow> identity_key" where
  "target_key identity scope = (map python_form identity, map python_form scope)"

definition canonical_identity :: "dataset_spec list \<Rightarrow> catalog \<Rightarrow> dataset_spec \<Rightarrow> target_record \<Rightarrow> identity_key outcome" where
  "canonical_identity plan cat d r =
     bindo (target_identity plan cat [] (ti_components (ds_target_identity d)) r) (\<lambda>identity.
     bindo (target_identity plan cat [] (ti_scope (ds_target_identity d)) r) (\<lambda>scope. Inr (identity, scope)))"

fun index_targets :: "dataset_spec list \<Rightarrow> catalog \<Rightarrow> dataset_spec \<Rightarrow> target_record list
    \<Rightarrow> (identity_key \<times> target_record list) list \<times> issue list \<Rightarrow> ((identity_key \<times> target_record list) list \<times> issue list) outcome" where
  "index_targets plan cat d [] s = Inr s"
| "index_targets plan cat d (r # rs) (buckets, issues) = (case canonical_identity plan cat d r of
     Inl e \<Rightarrow> if caught e then index_targets plan cat d rs (buckets, issues
         @ [dataset_issue ''TARGET_REFERENCE_UNRESOLVED'' (''cannot canonicalize target identity: '' @ snd e) d None])
       else Inl e
   | Inr (identity, scope) \<Rightarrow> index_targets plan cat d rs (dict_append buckets (target_key identity scope) r, issues))"

definition build_target_index :: "dataset_spec list \<Rightarrow> dataset_spec \<Rightarrow> catalog
    \<Rightarrow> ((identity_key \<times> target_record list) list \<times> issue list) outcome" where
  "build_target_index plan d cat =
     bindo (index_targets plan cat d (catalog_records cat (ts_model (ds_target d))) ([], [])) (\<lambda>(buckets, issues).
     Inr (buckets, group_issues issues))"


section \<open>Comparison\<close>

fun null_policy_text :: "null_policy \<Rightarrow> string" where
  "null_policy_text Distinct_Nulls = ''distinct''"
| "null_policy_text Equivalent_Nulls = ''equivalent''"
| "null_policy_text Ignore_Source_Null = ''ignore_source_null''"

fun operation_text :: "relation_operation \<Rightarrow> string" where
  "operation_text Replace_Links = ''replace''"
| "operation_text Add_Links = ''add''"
| "operation_text Remove_Links = ''remove''"

definition field_rule :: "field_spec \<Rightarrow> string" where
  "field_rule spec =
    (let n = fs_normalize spec;
         active = (if ns_trim n then [''trim''] else []) @ (if ns_collapse_whitespace n then [''collapse_whitespace''] else [])
           @ (if ns_casefold n then [''casefold''] else []) @ (if ns_empty_as_null n then [''empty_as_null''] else [])
           @ (case ns_decimal_places n of None \<Rightarrow> [] | Some p \<Rightarrow> [''decimal_places='' @ int_text p]) in
     scalar_type_text (fs_type spec) @ '';normalize='' @ (if active = [] then ''none'' else commas active)
       @ '';null='' @ null_policy_text (fs_null_policy spec))"

definition relation_rule :: "relation_spec \<Rightarrow> string" where
  "relation_rule rel = relation_kind_name (rl_kind rel) @ '':'' @ operation_text (rl_operation rel)
     @ '':null='' @ null_policy_text (rl_null_policy rel)"

text \<open>\<open>set(value or ())\<close>, in the order the items came.\<close>

definition value_set :: "pvalue \<Rightarrow> pvalue list outcome" where
  "value_set v = (if \<not> python_true v then Inr []
     else case v of PTuple vs \<Rightarrow> Inr (keep_first python_form vs) | PList vs \<Rightarrow> Inr (keep_first python_form vs)
     | _ \<Rightarrow> Inl (TypeError, ''object is not iterable''))"

definition set_member :: "pvalue \<Rightarrow> pvalue list \<Rightarrow> bool" where
  "set_member v vs = list_ex (python_eq v) vs"

definition set_union :: "pvalue list \<Rightarrow> pvalue list \<Rightarrow> pvalue list" where
  "set_union vs ws = vs @ filter (\<lambda>w. \<not> set_member w vs) ws"

definition set_difference :: "pvalue list \<Rightarrow> pvalue list \<Rightarrow> pvalue list" where
  "set_difference vs ws = filter (\<lambda>v. \<not> set_member v ws) vs"

definition same_set :: "pvalue list \<Rightarrow> pvalue list \<Rightarrow> bool" where
  "same_set vs ws = (list_all (\<lambda>v. set_member v ws) vs \<and> list_all (\<lambda>w. set_member w vs) ws)"

definition existing_relation :: "dataset_spec list \<Rightarrow> relation_spec \<Rightarrow> pvalue \<Rightarrow> catalog \<Rightarrow> pvalue outcome" where
  "existing_relation plan rel raw cat =
    (if rl_kind rel = Many2one then target_reference plan cat [] (rl_resolve rel) raw
     else bindo (relation_ids raw) (\<lambda>ids.
       bindo (mapo (\<lambda>i. target_reference plan cat [] (rl_resolve rel) (PInt i)) ids) (\<lambda>vs.
       Inr (PTuple (sort_key canonical_key vs)))))"

definition relation_difference :: "relation_spec \<Rightarrow> pvalue \<Rightarrow> pvalue \<Rightarrow> (bool \<times> pvalue) outcome" where
  "relation_difference rel existing proposed =
    (if rl_kind rel = Many2one then
       (if rl_null_policy rel = Ignore_Source_Null \<and> proposed = PNone then Inr (False, existing)
        else if rl_null_policy rel = Equivalent_Nulls \<and> \<not> python_true proposed \<and> \<not> python_true existing then Inr (False, existing)
        else Inr (\<not> python_eq existing proposed, proposed))
     else
       bindo (value_set existing) (\<lambda>old.
       bindo (value_set proposed) (\<lambda>new.
       let final = (case rl_operation rel of Replace_Links \<Rightarrow> new | Add_Links \<Rightarrow> set_union old new
             | Remove_Links \<Rightarrow> set_difference old new) in
       Inr (\<not> same_set final old, PTuple (sort_key canonical_key final)))))"

definition compare_field :: "prepared_record \<Rightarrow> target_record \<Rightarrow> string \<times> field_spec
    \<Rightarrow> (field_difference list \<times> issue list) outcome" where
  "compare_field r t fs = (case fs of (f, spec) \<Rightarrow>
     (let compare_only = (fs_compare_only spec = Some True); proposed = dict_get (pr_scalar_values r) f PNone in
      if \<not> (fs_compare spec \<or> compare_only) then Inr ([], [])
      else case parse_value (odoo_null (fs_type spec) (target_value t f)) (fs_type spec) (fs_normalize spec) False of
        Inl e \<Rightarrow> if fst e = ValueError then Inr ([], [mk_issue ''COMPARISON_UNSUPPORTED''
            (''cannot normalize target '' @ f @ '': '' @ snd e) Error_Severity (Some (pr_dataset r)) (Some (pr_source_row r)) (Some f) 1])
          else Inl e
      | Inr existing \<Rightarrow> if values_equal proposed existing (fs_null_policy spec) then Inr ([], [])
          else Inr ([\<lparr>fd_dataset = pr_dataset r, fd_business_identity = pr_target_identity r,
              fd_business_scope = pr_target_scope r, fd_field = f, fd_existing = existing, fd_proposed = proposed,
              fd_comparison_rule = field_rule spec, fd_material = (\<not> compare_only)\<rparr>],
            if compare_only then [mk_issue ''COMPARE_ONLY_FIELD_DIFFERS'' (''The source and Odoo values differ for '' @ f @ ''.'')
              Warning_Severity (Some (pr_dataset r)) (Some (pr_source_row r)) (Some f) 1] else [])))"

definition compare_relation :: "dataset_spec list \<Rightarrow> catalog \<Rightarrow> prepared_record \<Rightarrow> target_record \<Rightarrow> string \<times> relation_spec
    \<Rightarrow> (field_difference list \<times> issue list) outcome" where
  "compare_relation plan cat r t fr = (case fr of (f, rel) \<Rightarrow>
     (let proposed = dict_get (pr_references r) f PNone in
      if \<not> rl_compare rel \<or> rl_validate_only rel \<or> proposed = PNone \<and> rl_blank_create_values rel \<noteq> None then Inr ([], [])
      else case existing_relation plan rel (target_value t f) cat of
        Inl e \<Rightarrow> if caught e then Inr ([], [mk_issue ''TARGET_REFERENCE_UNRESOLVED''
            (''cannot canonicalize target '' @ f @ '': '' @ snd e) Error_Severity (Some (pr_dataset r)) (Some (pr_source_row r)) (Some f) 1])
          else Inl e
      | Inr existing \<Rightarrow> bindo (relation_difference rel existing proposed) (\<lambda>(material, final).
          Inr (if material then [\<lparr>fd_dataset = pr_dataset r, fd_business_identity = pr_target_identity r,
              fd_business_scope = pr_target_scope r, fd_field = f, fd_existing = existing, fd_proposed = final,
              fd_comparison_rule = relation_rule rel, fd_material = True\<rparr>] else [], []))))"

definition compare_record :: "dataset_spec list \<Rightarrow> dataset_spec \<Rightarrow> prepared_record \<Rightarrow> target_record \<Rightarrow> catalog
    \<Rightarrow> (field_difference list \<times> issue list) outcome" where
  "compare_record plan d r t cat =
     bindo (mapo (compare_field r t) (ds_fields d)) (\<lambda>fields.
     bindo (mapo (compare_relation plan cat r t) (ds_relations d)) (\<lambda>relations.
     Inr (concat (map fst (fields @ relations)), concat (map snd (fields @ relations)))))"


section \<open>Classification\<close>

definition required_issue :: "prepared_record \<Rightarrow> string \<Rightarrow> issue" where
  "required_issue r f = mk_issue ''REQUIRED_ON_CREATE_MISSING'' (f @ '' is required when creating'') Error_Severity
     (Some (pr_dataset r)) (Some (pr_source_row r)) (Some f) 1"

definition create_issue :: "string \<Rightarrow> string \<Rightarrow> prepared_record \<Rightarrow> string \<Rightarrow> issue" where
  "create_issue code message r f = mk_issue code message Error_Severity (Some (pr_dataset r)) (Some (pr_source_row r)) (Some f) 1"

definition verified_default :: "metadata_snapshot \<Rightarrow> (string \<times> int) list option \<Rightarrow> string \<Rightarrow> string \<Rightarrow> bool" where
  "verified_default s expected model f = (case dict_get (dict_get (ms_create_defaults s) model []) f PNone of
     PInt i \<Rightarrow> 0 < i \<and> (case expected of None \<Rightarrow> True | Some defaults \<Rightarrow> map_of defaults f = Some i)
   | _ \<Rightarrow> False)"

text \<open>One relation of a row to create, as its issues and the evidence of a fallback record.\<close>

definition blank_relation :: "(string \<Rightarrow> string) \<Rightarrow> dataset_spec list \<Rightarrow> prepared_record \<Rightarrow> catalog \<Rightarrow> metadata_snapshot
    \<Rightarrow> (string \<times> int) list option \<Rightarrow> string \<Rightarrow> relation_spec \<Rightarrow> (issue list \<times> reference_resolution list) outcome" where
  "blank_relation digest plan r cat s expected f rel = (case blank_create_reference rel of
     None \<Rightarrow> Inr (if verified_default s expected (pr_target_model r) f then []
       else [create_issue ''BLANK_CREATE_DEFAULT_UNVERIFIED''
         ''Odoo's checked default changed or is unavailable. Review the blank value in Match data.'' r f], [])
   | Some v \<Rightarrow> (case find_by_fields cat (optional_name (lg_model v)) (reference_paths v) (reference_key v) of
       [m] \<Rightarrow>
         bindo (if ms_company_checks s = [] then Inr []
             else check_company_references [r\<lparr>pr_references := [(f, v)], pr_issues := []\<rparr>] plan cat (ms_company_checks s)) (\<lambda>checked.
         if concat (map pr_issues checked) \<noteq> [] then Inr (concat (map pr_issues checked), [])
         else bindo (target_record_binding_hash digest (tr_model m) (tr_odoo_id m)) (\<lambda>hash.
           Inr ([], [\<lparr>rf_dataset = pr_dataset r, rf_field = f, rf_reference = v, rf_status = ''RESOLVED'', rf_match_count = 1,
             rf_target_binding_hash = hash, rf_affected_count = 1, rf_resolved_target = None\<rparr>])))
     | _ \<Rightarrow> Inr ([create_issue ''BLANK_CREATE_RECORD_UNRESOLVED''
         ''The Odoo record chosen for blank values no longer matches uniquely. Review it in Match data.'' r f], [])))"

definition create_relation :: "(string \<Rightarrow> string) \<Rightarrow> dataset_spec list \<Rightarrow> prepared_record \<Rightarrow> catalog \<Rightarrow> metadata_snapshot
    \<Rightarrow> (string \<times> int) list option \<Rightarrow> string \<times> relation_spec \<Rightarrow> (issue list \<times> reference_resolution list) outcome" where
  "create_relation digest plan r cat s expected fr = (case fr of (f, rel) \<Rightarrow>
     (let v = dict_get (pr_references r) f PNone in
      if rl_blank_create_values rel \<noteq> None \<and> v = PNone then blank_relation digest plan r cat s expected f rel
      else Inr (if rl_required_on_create rel \<and> \<not> python_true v then [required_issue r f] else [], [])))"

definition required_on_create_issues :: "(string \<Rightarrow> string) \<Rightarrow> dataset_spec list \<Rightarrow> dataset_spec \<Rightarrow> prepared_record \<Rightarrow> catalog
    \<Rightarrow> metadata_snapshot \<Rightarrow> (string \<times> int) list option \<Rightarrow> (issue list \<times> reference_resolution list) outcome" where
  "required_on_create_issues digest plan d r cat s expected =
    (let scalars = map (\<lambda>(f, _). required_issue r f)
           (filter (\<lambda>(f, spec). fs_required_on_create spec \<and> dict_get (pr_scalar_values r) f PNone = PNone) (ds_fields d)) in
     bindo (mapo (create_relation digest plan r cat s expected) (ds_relations d)) (\<lambda>parts.
     Inr (scalars @ concat (map fst parts), concat (map snd parts))))"

definition mk_decision :: "prepared_record \<Rightarrow> classification \<Rightarrow> nat \<Rightarrow> string \<Rightarrow> field_difference list \<Rightarrow> issue list \<Rightarrow> decision" where
  "mk_decision r c n hash differences issues = \<lparr>dc_dataset = pr_dataset r, dc_source_row = pr_source_row r,
     dc_business_identity = pr_target_identity r, dc_business_scope = pr_target_scope r, dc_classification = c,
     dc_target_match_count = n, dc_target_binding_hash = hash, dc_source_trace_id = pr_source_trace_id r,
     dc_differences = differences, dc_issues = issues\<rparr>"

definition classify_match :: "(string \<Rightarrow> string) \<Rightarrow> dataset_spec list \<Rightarrow> dataset_spec \<Rightarrow> prepared_record \<Rightarrow> target_record
    \<Rightarrow> catalog \<Rightarrow> decision outcome" where
  "classify_match digest plan d r m cat =
    (if list_ex (\<lambda>i. is_code i = ''REFERENCE_TARGET_PRECEDENCE_REUSE'') (pr_issues r) then
       bindo (target_record_binding_hash digest (tr_model m) (tr_odoo_id m)) (\<lambda>hash.
       Inr (mk_decision r UNCHANGED 1 hash [] (pr_issues r)))
     else if ts_mode (ds_target d) = Create_Only then
       bindo (target_record_binding_hash digest (tr_model m) (tr_odoo_id m)) (\<lambda>hash.
       Inr (if ts_on_existing (ds_target d) = Some Block_Existing then
              mk_decision r BLOCKED 1 hash [] [row_issue ''CREATE_IDENTITY_EXISTS'' ''create-only dataset identity already exists''
                Error_Severity r]
            else mk_decision r UNCHANGED 1 hash [] []))
     else bindo (compare_record plan d r m cat) (\<lambda>(differences, found).
       bindo (target_record_binding_hash digest (tr_model m) (tr_odoo_id m)) (\<lambda>hash.
       let issues = pr_issues r @ found in
       Inr (if list_ex issue_blocking issues then mk_decision r BLOCKED 1 hash [] issues
            else mk_decision r (if list_ex fd_material differences then UPDATE else UNCHANGED) 1 hash differences issues))))"

definition classify_record :: "(string \<Rightarrow> string) \<Rightarrow> dataset_spec list \<Rightarrow> dataset_spec \<Rightarrow> prepared_record
    \<Rightarrow> (identity_key \<times> target_record list) list \<Rightarrow> catalog \<Rightarrow> metadata_snapshot \<Rightarrow> (string \<times> int) list option
    \<Rightarrow> (decision \<times> reference_resolution list) outcome" where
  "classify_record digest plan d r index cat s expected =
    (let matches = dict_get index (target_key (pr_target_identity r) (pr_target_scope r)) []; n = length matches in
     if record_blocked r then Inr (mk_decision r BLOCKED n [] [] (pr_issues r), [])
     else case matches of
       [] \<Rightarrow> bindo (required_on_create_issues digest plan d r cat s expected) (\<lambda>(found, evidence).
         let issues = pr_issues r @ found in
         Inr (mk_decision r (if list_ex issue_blocking issues then BLOCKED else CREATE) 0 [] [] issues, evidence))
     | [m] \<Rightarrow> bindo (classify_match digest plan d r m cat) (\<lambda>decision. Inr (decision, []))
     | _ \<Rightarrow> Inr (mk_decision r AMBIGUOUS n [] []
         [mk_issue ''TARGET_IDENTITY_AMBIGUOUS'' (''target identity matched '' @ decimal n @ '' records'') Error_Severity
           (Some (pr_dataset r)) (Some (pr_source_row r)) None (int n)], []))"


section \<open>A run\<close>

definition expected_defaults :: "schema_model list option \<Rightarrow> string \<Rightarrow> (string \<times> int) list option" where
  "expected_defaults captured_schema model = (case captured_schema of None \<Rightarrow> None
     | Some models \<Rightarrow> map_option (\<lambda>m. dict_of fst snd (List.map_filter (\<lambda>f.
         if sf_create_default_present f then (case sf_create_default_value f of PInt i \<Rightarrow> Some (sf_name f, i) | _ \<Rightarrow> None) else None)
         (sm_fields m))) (map_of (dict_of sm_name (\<lambda>m. m) models) model))"

text \<open>One dataset: its runtime issues, its decisions and the evidence of fallback records.\<close>

definition decide_dataset :: "(string \<Rightarrow> string) \<Rightarrow> dataset_spec list \<Rightarrow> prepared_record list \<Rightarrow> catalog \<Rightarrow> metadata_snapshot
    \<Rightarrow> schema_model list option \<Rightarrow> dataset_spec \<Rightarrow> (issue list \<times> (decision \<times> reference_resolution list) list) outcome" where
  "decide_dataset digest plan resolved cat s captured_schema d =
    (if ts_mode (ds_target d) = Reference_Only then Inr ([], [])
     else bindo (build_target_index plan d cat) (\<lambda>(index, found).
       bindo (mapo (\<lambda>r. classify_record digest plan d r index cat s (expected_defaults captured_schema (ts_model (ds_target d))))
         (map (\<lambda>r. r\<lparr>pr_issues := pr_issues r @ found\<rparr>) (filter (\<lambda>r. pr_dataset r = ds_name d) resolved))) (\<lambda>decided.
       Inr (found, decided))))"

definition dataset_order :: "dataset_spec list \<Rightarrow> (string \<times> nat) list" where
  "dataset_order plan = dict_of (\<lambda>(i, d). ds_name d) fst (List.enumerate 0 plan)"

definition decision_order :: "dataset_spec list \<Rightarrow> decision \<Rightarrow> nat \<times> string \<times> int" where
  "decision_order plan c = (dict_get (dataset_order plan) (dc_dataset c) 0,
     canonical_key (PTuple (dc_business_identity c)), dc_source_row c)"

definition run_preflight :: "(string \<Rightarrow> string) \<Rightarrow> string \<Rightarrow> dataset_spec list \<Rightarrow> prepared_bundle \<Rightarrow> metadata_snapshot
    \<Rightarrow> record_snapshot \<Rightarrow> schema_model list option \<Rightarrow> preflight_result outcome" where
  "run_preflight digest plan_id plan prepared ms sn captured_schema =
    (if \<not> same_fingerprint (ms_fingerprint ms) (sn_fingerprint sn) then
       Inl (ValueError, ''metadata and record snapshots have different fingerprints'')
     else if \<not> sn_complete sn then Inl (ValueError, ''record snapshot is incomplete'')
     else
       bindo (validate_plan_metadata plan ms) (\<lambda>(checked, coverage).
       let metadata_issues = checked @ live_selection_metadata_issues plan ms
             @ validate_selection_metadata_drift plan ms captured_schema;
           cat = mk_catalog (sn_records sn) in
       bindo (check_company_references (pb_records prepared) plan cat (ms_company_checks ms)) (\<lambda>company_checked.
       bindo (apply_live_selection_domains plan (apply_dataset_issues company_checked metadata_issues) ms) (\<lambda>selected.
       bindo (resolve_records digest plan selected cat) (\<lambda>(resolved, evidence).
       bindo (mapo (decide_dataset digest plan resolved cat ms captured_schema) plan) (\<lambda>parts.
       Inr \<lparr>pf_profile_id = plan_id, pf_source_hashes = pb_source_hashes prepared, pf_fingerprint = sn_fingerprint sn,
         pf_metadata_snapshot_hash = ms_content_hash ms, pf_record_snapshot_hash = sn_content_hash sn,
         pf_decisions = sort_key (decision_order plan) (map fst (concat (map snd parts))),
         pf_reference_resolutions = group_resolutions (evidence @ concat (map snd (concat (map snd parts)))),
         pf_issues = group_issues (pb_issues prepared @ metadata_issues @ concat (map fst parts)
           @ concat (map pr_issues resolved)),
         pf_metadata_coverage = coverage\<rparr>))))))"


section \<open>The portable result\<close>

definition classification_counts :: "preflight_result \<Rightarrow> (string \<times> int) list" where
  "classification_counts p = map (\<lambda>c. (classification_text c,
     int (length (filter (\<lambda>x. dc_classification x = c) (pf_decisions p))))) classifications"

definition optional_int :: "int option \<Rightarrow> json" where
  "optional_int i = (case i of None \<Rightarrow> JNull | Some j \<Rightarrow> JInt j)"

definition portable_issue :: "issue \<Rightarrow> json" where
  "portable_issue i = JObject [(''code'', JText (is_code i)), (''message'', JText (is_message i)),
     (''severity'', JText (severity_text (is_severity i))), (''dataset'', optional_text (is_dataset i)),
     (''row'', optional_int (is_row i)), (''field'', optional_text (is_field i)),
     (''affected_count'', JInt (is_affected_count i))]"

definition portable_difference :: "field_difference \<Rightarrow> json" where
  "portable_difference f = JObject [(''dataset'', JText (fd_dataset f)),
     (''business_identity'', portable_value (PTuple (fd_business_identity f))),
     (''business_scope'', portable_value (PTuple (fd_business_scope f))), (''field'', JText (fd_field f)),
     (''existing'', portable_value (fd_existing f)), (''proposed'', portable_value (fd_proposed f)),
     (''comparison_rule'', JText (fd_comparison_rule f)), (''material'', JBool (fd_material f))]"

definition portable_decision :: "decision \<Rightarrow> json" where
  "portable_decision c = JObject [(''dataset'', JText (dc_dataset c)), (''source_row'', JInt (dc_source_row c)),
     (''source_trace_id'', JText (dc_source_trace_id c)),
     (''business_identity'', portable_value (PTuple (dc_business_identity c))),
     (''business_scope'', portable_value (PTuple (dc_business_scope c))),
     (''classification'', JText (classification_text (dc_classification c))),
     (''target_match_count'', JInt (int (dc_target_match_count c))), (''target_binding_hash'', JText (dc_target_binding_hash c)),
     (''differences'', JArray (map portable_difference (dc_differences c))),
     (''issues'', JArray (map portable_issue (dc_issues c)))]"

definition portable_resolution :: "reference_resolution \<Rightarrow> json" where
  "portable_resolution r = JObject ([(''dataset'', JText (rf_dataset r)), (''field'', JText (rf_field r)),
     (''reference'', portable_value (rf_reference r)), (''status'', JText (rf_status r)),
     (''match_count'', JInt (int (rf_match_count r))), (''target_binding_hash'', JText (rf_target_binding_hash r)),
     (''affected_count'', JInt (int (rf_affected_count r)))]
     @ optional_entry ''resolved_target'' (map_option portable_value (rf_resolved_target r)))"

definition portable_coverage :: "coverage_row \<Rightarrow> json" where
  "portable_coverage c = JObject [(''dataset'', JText (cv_dataset c)), (''model'', JText (cv_model c)),
     (''status'', JText (cv_status c)), (''requested_fields'', JInt (int (cv_requested_fields c))),
     (''available_fields'', JInt (int (cv_available_fields c)))]"

definition result_payload :: "preflight_result \<Rightarrow> (string \<times> json) list" where
  "result_payload p = [(''engine'', JObject [(''name'', JText ''impodo'')]),
     (''profile'', JObject [(''id'', JText (pf_profile_id p))]),
     (''source_hashes'', JObject (map (\<lambda>(k, v). (k, JText v)) (sort_key fst (pf_source_hashes p)))),
     (''snapshot_hashes'', JObject [(''metadata'', optional_text (pf_metadata_snapshot_hash p)),
        (''records'', optional_text (pf_record_snapshot_hash p))]),
     (''target'', fingerprint_json (pf_fingerprint p)),
     (''summary'', JObject (map (\<lambda>(c, n). (c, JInt n)) (classification_counts p))),
     (''decisions'', JArray (map portable_decision (pf_decisions p))),
     (''reference_resolutions'', JArray (map portable_resolution (pf_reference_resolutions p))),
     (''source_issues'', JArray (map portable_issue (pf_issues p))),
     (''metadata_coverage'', JArray (map portable_coverage (pf_metadata_coverage p)))]"

definition guarded :: "json \<Rightarrow> json res" where
  "guarded j = bindr (assert_no_numeric_odoo_ids j) (\<lambda>_. Inr j)"

definition semantic_hash :: "(string \<Rightarrow> string) \<Rightarrow> preflight_result \<Rightarrow> string res" where
  "semantic_hash digest p = bindr (guarded (JObject (result_payload p))) (\<lambda>j. Inr (payload_hash digest j))"

definition to_portable_dict :: "(string \<Rightarrow> string) \<Rightarrow> bool \<Rightarrow> preflight_result \<Rightarrow> json res" where
  "to_portable_dict digest include_hash p =
    (if \<not> include_hash then guarded (JObject (result_payload p))
     else bindr (semantic_hash digest p) (\<lambda>h. guarded (JObject (result_payload p @ [(''semantic_hash'', JText h)]))))"

end
