(* ===== verification/Preflight_Properties.thy ===== *)
theory Preflight_Properties
imports Preflight Resolution_Properties Snapshot_Properties
begin

text \<open>
  What a preflight concludes: every prepared row of a dataset that is written gets exactly one decision, a decision
  agrees with the captured records that have the identity of the row, and nothing unresolved is proposed.
\<close>


section \<open>Grouped issues\<close>

lemma set_dict_append_keys: "fst ` set (dict_append d k x) = insert k (fst ` set d)"
  by (simp add: dict_append_def keys_dict_set)

lemma distinct_dict_append: "distinct (map fst d) \<Longrightarrow> distinct (map fst (dict_append d k x))"
  by (simp add: dict_append_def distinct_dict_set)

lemma fold_append_keys: "fst ` set (fold (\<lambda>e d. dict_append d (f e) e) es d) = fst ` set d \<union> f ` set es"
  by (induction es arbitrary: d) (auto simp: set_dict_append_keys)

lemma distinct_fold_append: "distinct (map fst d) \<Longrightarrow> distinct (map fst (fold (\<lambda>e d. dict_append d (f e) e) es d))"
  by (induction es arbitrary: d) (simp_all add: distinct_dict_append)

text \<open>The groups of a list by a key, each with its members in order.\<close>

lemma set_groups: "set (fold (\<lambda>e d. dict_append d (f e) e) es []) = (\<lambda>e. (f e, filter (\<lambda>x. f x = f e) es)) ` set es"
proof -
  let ?d = "fold (\<lambda>e d. dict_append d (f e) e) es []"
  have members: "dict_get ?d k [] = filter (\<lambda>x. f x = k) es" for k
    using dict_get_fold_append[of f "\<lambda>e. e" es "[]" k] by simp
  have "(k, v) \<in> set ?d \<longleftrightarrow> k \<in> f ` set es \<and> v = filter (\<lambda>x. f x = k) es" for k v
  proof -
    have "(k, v) \<in> set ?d \<longleftrightarrow> map_of ?d k = Some v"
      using map_of_eq_Some_iff[OF distinct_fold_append[of "[]" f es]] by simp
    also have "\<dots> \<longleftrightarrow> k \<in> fst ` set ?d \<and> v = dict_get ?d k []"
      using map_of_eq_None_iff[of ?d k] by (cases "map_of ?d k") (auto simp: dict_get_def)
    finally show ?thesis unfolding members fold_append_keys by simp
  qed
  then show ?thesis by (auto simp: image_iff)
qed

lemma grouped_issue_simps [simp]:
  "is_code (grouped_issue (issue_key i, members)) = is_code i" "is_message (grouped_issue (issue_key i, members)) = is_message i"
  "is_severity (grouped_issue (issue_key i, members)) = is_severity i"
  "is_dataset (grouped_issue (issue_key i, members)) = is_dataset i" "is_field (grouped_issue (issue_key i, members)) = is_field i"
  by (simp_all add: grouped_issue_def issue_key_def mk_issue_def Let_def)

lemma issue_key_grouped: "issue_key (grouped_issue (issue_key i, members)) = issue_key i"
  by (simp add: issue_key_def[of "grouped_issue _"]) (simp add: issue_key_def)

lemma set_group_issues: "set (group_issues issues)
    = (\<lambda>i. grouped_issue (issue_key i, filter (\<lambda>j. issue_key j = issue_key i) issues)) ` set issues"
  by (simp add: group_issues_def set_groups image_image)

lemma group_issues_blocking: "(\<exists>i \<in> set (group_issues issues). issue_blocking i) \<longleftrightarrow> (\<exists>i \<in> set issues. issue_blocking i)"
  by (auto simp: set_group_issues issue_blocking_def)



section \<open>The target index\<close>

text \<open>The captured records with the identity of a key.\<close>

definition has_key :: "dataset_spec list \<Rightarrow> catalog \<Rightarrow> dataset_spec \<Rightarrow> identity_key \<Rightarrow> target_record \<Rightarrow> bool" where
  "has_key plan cat d k t = (case canonical_identity plan cat d t of Inl _ \<Rightarrow> False
     | Inr (identity, scope) \<Rightarrow> target_key identity scope = k)"

definition records_with_key :: "dataset_spec list \<Rightarrow> catalog \<Rightarrow> dataset_spec \<Rightarrow> identity_key \<Rightarrow> target_record list" where
  "records_with_key plan cat d k = filter (has_key plan cat d k) (catalog_records cat (ts_model (ds_target d)))"

lemma index_targets_result:
  assumes "index_targets plan cat d rs (buckets, issues) = Inr (buckets', issues')"
  shows "dict_get buckets' k [] = dict_get buckets k [] @ filter (has_key plan cat d k) rs
    \<and> set issues \<subseteq> set issues' \<and> (\<forall>i \<in> set issues' - set issues. issue_blocking i)
    \<and> (issues' = [] \<longrightarrow> (\<forall>t \<in> set rs. \<exists>key. canonical_identity plan cat d t = Inr key))"
  using assms
proof (induction rs arbitrary: buckets issues)
  case (Cons r rs)
  show ?case
  proof (cases "canonical_identity plan cat d r")
    case (Inl e)
    let ?i = "dataset_issue ''TARGET_REFERENCE_UNRESOLVED'' (''cannot canonicalize target identity: '' @ snd e) d None"
    have "issue_blocking ?i" by (simp add: dataset_issue_def mk_issue_def issue_blocking_def)
    moreover have "caught e" "index_targets plan cat d rs (buckets, issues @ [?i]) = Inr (buckets', issues')"
      using Cons.prems Inl by (simp_all split: if_splits)
    ultimately show ?thesis using Cons.IH[of buckets "issues @ [?i]"] Inl by (auto simp: has_key_def)
  next
    case (Inr key)
    then obtain identity scope where key: "key = (identity, scope)" "canonical_identity plan cat d r = Inr (identity, scope)"
      by (cases key) simp
    then have "index_targets plan cat d rs (dict_append buckets (target_key identity scope) r, issues) = Inr (buckets', issues')"
      using Cons.prems by simp
    from Cons.IH[OF this] show ?thesis using key by (auto simp: has_key_def dict_get_append)
  qed
qed simp

lemma target_index:
  assumes "build_target_index plan d cat = Inr (index, found)"
  shows "dict_get index k [] = records_with_key plan cat d k"
    and "\<And>i. i \<in> set found \<Longrightarrow> issue_blocking i"
    and "found = [] \<Longrightarrow> t \<in> set (catalog_records cat (ts_model (ds_target d))) \<Longrightarrow> \<exists>key. canonical_identity plan cat d t = Inr key"
proof -
  obtain issues where run: "index_targets plan cat d (catalog_records cat (ts_model (ds_target d))) ([], []) = Inr (index, issues)"
      and found: "found = group_issues issues"
    using assms by (auto simp: build_target_index_def res_simps)
  note result = index_targets_result[OF run]
  show "dict_get index k [] = records_with_key plan cat d k" using result by (simp add: records_with_key_def)
  show "issue_blocking i" if "i \<in> set found" for i
    using that result by (auto simp: found set_group_issues issue_blocking_def)
  show "\<exists>key. canonical_identity plan cat d t = Inr key" if "found = []" "t \<in> set (catalog_records cat (ts_model (ds_target d)))"
  proof -
    have "set (group_issues issues) = {}" using that(1) found by simp
    then have "issues = []" unfolding set_group_issues by simp
    then show ?thesis using result that(2) by blast
  qed
qed



section \<open>Decisions\<close>

definition bound_match :: "(string \<Rightarrow> string) \<Rightarrow> target_record list \<Rightarrow> decision \<Rightarrow> bool" where
  "bound_match digest matches c \<longleftrightarrow> (\<exists>m. matches = [m]
     \<and> target_record_binding_hash digest (tr_model m) (tr_odoo_id m) = Inr (dc_target_binding_hash c))"

text \<open>What a decision says of its row, which carries the issues of its dataset's target index.  A blocking
  issue of the row is tested first, then several matches, then the one match or its absence.\<close>

definition ambiguous_issue :: "prepared_record \<Rightarrow> nat \<Rightarrow> issue" where
  "ambiguous_issue r n = mk_issue ''TARGET_IDENTITY_AMBIGUOUS'' (''target identity matched '' @ decimal n @ '' records'')
     Error_Severity (Some (pr_dataset r)) (Some (pr_source_row r)) None (int n)"

definition decision_holds :: "(string \<Rightarrow> string) \<Rightarrow> dataset_spec list \<Rightarrow> catalog \<Rightarrow> dataset_spec \<Rightarrow> prepared_record
    \<Rightarrow> decision \<Rightarrow> bool" where
  "decision_holds digest plan cat d r c \<longleftrightarrow>
    (let matches = records_with_key plan cat d (target_key (pr_target_identity r) (pr_target_scope r));
         usable = (\<not> list_ex issue_blocking (dc_issues c)) in
     dc_dataset c = pr_dataset r \<and> dc_source_row c = pr_source_row r
     \<and> dc_business_identity c = pr_target_identity r \<and> dc_business_scope c = pr_target_scope r
     \<and> dc_target_match_count c = length matches
     \<and> (if record_blocked r then
          dc_classification c = BLOCKED \<and> dc_differences c = [] \<and> dc_issues c = pr_issues r
        else if 2 \<le> length matches then
          dc_classification c = AMBIGUOUS \<and> dc_differences c = [] \<and> dc_issues c = [ambiguous_issue r (length matches)]
        else (case dc_classification c of
          BLOCKED \<Rightarrow> \<not> usable \<and> dc_differences c = []
        | AMBIGUOUS \<Rightarrow> False
        | CREATE \<Rightarrow> usable \<and> matches = [] \<and> dc_differences c = []
            \<and> (\<forall>t \<in> set (catalog_records cat (ts_model (ds_target d))). \<exists>key. canonical_identity plan cat d t = Inr key)
        | UPDATE \<Rightarrow> usable \<and> bound_match digest matches c \<and> list_ex fd_material (dc_differences c)
        | UNCHANGED \<Rightarrow> usable \<and> bound_match digest matches c \<and> \<not> list_ex fd_material (dc_differences c))))"

lemma mk_decision_simps [simp]:
  "dc_dataset (mk_decision r c n h ds is) = pr_dataset r" "dc_source_row (mk_decision r c n h ds is) = pr_source_row r"
  "dc_business_identity (mk_decision r c n h ds is) = pr_target_identity r"
  "dc_business_scope (mk_decision r c n h ds is) = pr_target_scope r"
  "dc_classification (mk_decision r c n h ds is) = c" "dc_target_match_count (mk_decision r c n h ds is) = n"
  "dc_target_binding_hash (mk_decision r c n h ds is) = h" "dc_differences (mk_decision r c n h ds is) = ds"
  "dc_issues (mk_decision r c n h ds is) = is"
  by (simp_all add: mk_decision_def)

lemma mk_decision_eq [simp]: "mk_decision r c n h ds is = mk_decision r c' n' h' ds' is'
    \<longleftrightarrow> c = c' \<and> n = n' \<and> h = h' \<and> ds = ds' \<and> is = is'"
  by (auto simp: mk_decision_def)

lemma row_issue_blocking [simp]: "issue_blocking (row_issue code message sev r) \<longleftrightarrow> sev = Error_Severity"
  by (simp add: row_issue_def mk_issue_def issue_blocking_def)

lemma classify_match_holds:
  assumes "classify_match digest plan d r m cat = Inr c" "\<not> record_blocked r"
    and "records_with_key plan cat d (target_key (pr_target_identity r) (pr_target_scope r)) = [m]"
  shows "decision_holds digest plan cat d r c"
  using assms
proof -
  let ?hash = "target_record_binding_hash digest (tr_model m) (tr_odoo_id m)"
  note holds = decision_holds_def bound_match_def Let_def assms(2,3)
  consider (reuse) "list_ex (\<lambda>i. is_code i = ''REFERENCE_TARGET_PRECEDENCE_REUSE'') (pr_issues r)"
    | (create) "\<not> list_ex (\<lambda>i. is_code i = ''REFERENCE_TARGET_PRECEDENCE_REUSE'') (pr_issues r)" "ts_mode (ds_target d) = Create_Only"
    | (compare) "\<not> list_ex (\<lambda>i. is_code i = ''REFERENCE_TARGET_PRECEDENCE_REUSE'') (pr_issues r)" "ts_mode (ds_target d) \<noteq> Create_Only"
    by blast
  then show ?thesis
  proof cases
    case reuse
    then obtain h where "?hash = Inr h" "c = mk_decision r UNCHANGED 1 h [] (pr_issues r)"
      using assms(1) by (auto simp: classify_match_def bindo_Inr)
    then show ?thesis using assms(2) by (simp add: holds record_blocked_def)
  next
    case create
    then obtain h where "?hash = Inr h" "c = mk_decision r BLOCKED 1 h [] [row_issue ''CREATE_IDENTITY_EXISTS''
          ''create-only dataset identity already exists'' Error_Severity r] \<or> c = mk_decision r UNCHANGED 1 h [] []"
      using assms(1) by (auto simp: classify_match_def bindo_Inr split: if_splits)
    then show ?thesis by (auto simp: holds)
  next
    case compare
    then obtain ds found h where "?hash = Inr h"
      "c = (if list_ex issue_blocking (pr_issues r @ found) then mk_decision r BLOCKED 1 h [] (pr_issues r @ found)
         else mk_decision r (if list_ex fd_material ds then UPDATE else UNCHANGED) 1 h ds (pr_issues r @ found))"
      using assms(1) by (auto simp: classify_match_def bindo_Inr Let_def simp del: list_ex_append)
    then show ?thesis by (simp add: holds)
  qed
qed

lemma classify_record_holds:
  assumes index: "build_target_index plan d cat = Inr (index, found)"
    and r: "r = r0\<lparr>pr_issues := pr_issues r0 @ found\<rparr>"
    and run: "classify_record digest plan d r index cat s expected = Inr (c, evidence)"
  shows "decision_holds digest plan cat d r c"
proof -
  let ?k = "target_key (pr_target_identity r) (pr_target_scope r)"
  note matches = target_index(1)[OF index, of ?k]
  show ?thesis
  proof (cases "record_blocked r")
    case True
    then show ?thesis using run matches
      by (simp add: classify_record_def Let_def decision_holds_def) auto
  next
    case False
    then have "found = []" using target_index(2)[OF index] by (cases found) (auto simp: r record_blocked_def)
    note captured = target_index(3)[OF index this]
    consider "records_with_key plan cat d ?k = []" | m where "records_with_key plan cat d ?k = [m]"
      | m m2 ms where "records_with_key plan cat d ?k = m # m2 # ms" by (metis list.exhaust)
    then show ?thesis
    proof cases
      case 1
      then show ?thesis using run matches False captured
        by (auto simp: classify_record_def Let_def bindo_Inr decision_holds_def)
    next
      case 2
      then show ?thesis using run matches False classify_match_holds
        by (auto simp: classify_record_def Let_def res_simps)
    next
      case 3
      then show ?thesis using run matches False
        by (auto simp: classify_record_def Let_def decision_holds_def ambiguous_issue_def)
    qed
  qed
qed



section \<open>Runs\<close>

definition extends :: "prepared_record \<Rightarrow> prepared_record \<Rightarrow> bool" where
  "extends r r' \<longleftrightarrow> (\<exists>more. r' = r\<lparr>pr_issues := pr_issues r @ more\<rparr>)"

lemma extends_refl: "extends r r"
  by (simp add: extends_def exI[of _ "[]"])

lemma extends_trans: "extends r r1 \<Longrightarrow> extends r1 r2 \<Longrightarrow> extends r r2"
  by (auto simp: extends_def)

lemma extends_simps:
  assumes "extends r r'"
  shows "row_key r' = row_key r" "pr_dataset r' = pr_dataset r" "row_ready plan r' \<longleftrightarrow> row_ready plan r"
  using assms by (auto simp: extends_def row_key_def row_ready_def)

lemma company_extends:
  assumes "check_company_references rs plan cat checks = Inr rs'"
  shows "list_all2 extends rs rs'"
proof (cases "checks = []")
  case True
  then show ?thesis using assms by (simp add: check_company_references_def list.rel_refl extends_refl)
next
  case False
  then have "list_all2 (\<lambda>r r'. check_company_record plan cat checks r = Inr r') rs rs'"
    using assms by (simp add: check_company_references_def mapo_Inr)
  then show ?thesis by (rule list.rel_mono_strong) (auto simp: check_company_record_def bindo_Inr extends_def)
qed

lemma metadata_extends: "list_all2 extends rs (apply_dataset_issues rs issues)"
  by (auto simp: apply_dataset_issues_def Let_def list_all2_conv_all_nth extends_def)

lemma selection_extends:
  assumes "apply_live_selection_domains plan rs s = Inr rs'"
  shows "list_all2 extends rs rs'"
proof -
  have "list_all2 (\<lambda>r r'. bindo (mapo (unavailable_choice r) (dict_get (live_domains plan s) (pr_dataset r) [])) (\<lambda>found.
      Inr (r\<lparr>pr_issues := pr_issues r @ concat found\<rparr>)) = Inr r') rs rs'"
    using assms by (simp add: apply_live_selection_domains_def Let_def mapo_Inr)
  then show ?thesis by (rule list.rel_mono_strong) (auto simp: bindo_Inr extends_def)
qed

lemma extends_list_trans: "list_all2 extends rs rs1 \<Longrightarrow> list_all2 extends rs1 rs2 \<Longrightarrow> list_all2 extends rs rs2"
  by (rule list_all2_trans[OF extends_trans])

text \<open>The rows of a run as it resolves them, before the datasets are decided.\<close>

definition resolved_rows :: "(string \<Rightarrow> string) \<Rightarrow> dataset_spec list \<Rightarrow> prepared_bundle \<Rightarrow> metadata_snapshot
    \<Rightarrow> record_snapshot \<Rightarrow> schema_model list option \<Rightarrow> prepared_record list outcome" where
  "resolved_rows digest plan prepared ms sn schema =
     bindo (validate_plan_metadata plan ms) (\<lambda>(checked, coverage).
     bindo (check_company_references (pb_records prepared) plan (mk_catalog (sn_records sn)) (ms_company_checks ms)) (\<lambda>company.
     bindo (apply_live_selection_domains plan (apply_dataset_issues company (checked @ live_selection_metadata_issues plan ms
         @ validate_selection_metadata_drift plan ms schema)) ms) (\<lambda>selected.
     bindo (resolve_records digest plan selected (mk_catalog (sn_records sn))) (\<lambda>(resolved, evidence). Inr resolved))))"

text \<open>The parts of a run.\<close>

definition dataset_decisions :: "(string \<Rightarrow> string) \<Rightarrow> dataset_spec list \<Rightarrow> prepared_record list \<Rightarrow> catalog \<Rightarrow> metadata_snapshot
    \<Rightarrow> schema_model list option \<Rightarrow> decision list \<Rightarrow> bool" where
  "dataset_decisions digest plan resolved cat ms schema cs \<longleftrightarrow> (\<exists>parts. mapo (decide_dataset digest plan resolved cat ms schema) plan = Inr parts
     \<and> mset cs = mset (map fst (concat (map snd parts))))"

lemma bindoE: "bindo m f = Inr y \<Longrightarrow> (\<And>x. m = Inr x \<Longrightarrow> f x = Inr y \<Longrightarrow> P) \<Longrightarrow> P"
  by (auto simp: bindo_Inr)

lemma mapo_member: "mapo f xs = Inr ys \<Longrightarrow> y \<in> set ys \<Longrightarrow> \<exists>x \<in> set xs. f x = Inr y"
  unfolding mapo_Inr list_all2_conv_all_nth in_set_conv_nth by fastforce

lemma run_parts:
  assumes "run_preflight digest plan_id plan prepared ms sn schema = Inr p"
  obtains selected resolved evidence where "list_all2 extends (pb_records prepared) selected"
    "resolve_records digest plan selected (mk_catalog (sn_records sn)) = Inr (resolved, evidence)"
    "dataset_decisions digest plan resolved (mk_catalog (sn_records sn)) ms schema (pf_decisions p)"
    "resolved_rows digest plan prepared ms sn schema = Inr resolved"
proof -
  let ?cat = "mk_catalog (sn_records sn)"
  have snapshots: "same_fingerprint (ms_fingerprint ms) (sn_fingerprint sn)" "sn_complete sn"
    using assms by (auto simp: run_preflight_def split: if_split_asm)
  show thesis
    using assms[unfolded run_preflight_def, simplified snapshots simp_thms if_False]
  proof (rule bindoE, goal_cases)
    case (1 vc)
    obtain checked coverage where vc: "vc = (checked, coverage)" by (cases vc)
    note validated = 1(1)[unfolded vc]
    show ?case using 1(2)[unfolded vc prod.case Let_def]
    proof (rule bindoE, goal_cases)
      case (1 company)
      note company = 1(1)
      show ?case using 1(2)
      proof (rule bindoE, goal_cases)
        case (1 selected)
        note selected = 1(1)
        show ?case using 1(2)
        proof (rule bindoE, goal_cases)
          case (1 re)
          obtain resolved evidence where re: "re = (resolved, evidence)" by (cases re)
          note resolved = 1(1)[unfolded re]
          show ?case using 1(2)[unfolded re prod.case]
          proof (rule bindoE, goal_cases)
            case (1 parts)
            have "pf_decisions p = sort_key (decision_order plan) (map fst (concat (map snd parts)))" using 1(2) by auto
            then have "dataset_decisions digest plan resolved ?cat ms schema (pf_decisions p)"
              using 1(1) by (simp add: dataset_decisions_def)
            moreover have "list_all2 extends (pb_records prepared) selected"
              using company_extends[OF company] metadata_extends selection_extends[OF selected] extends_list_trans by blast
            moreover have "resolved_rows digest plan prepared ms sn schema = Inr resolved"
              using validated company selected resolved by (simp add: resolved_rows_def)
            ultimately show ?case using that resolved by blast
          qed
        qed
      qed
    qed
  qed
qed

text \<open>Where a decision comes from.\<close>

definition decided :: "(string \<Rightarrow> string) \<Rightarrow> dataset_spec list \<Rightarrow> prepared_record list \<Rightarrow> catalog \<Rightarrow> metadata_snapshot
    \<Rightarrow> schema_model list option \<Rightarrow> dataset_spec \<Rightarrow> prepared_record \<Rightarrow> decision \<Rightarrow> bool" where
  "decided digest plan resolved cat ms schema d r0 c \<longleftrightarrow> d \<in> set plan \<and> ts_mode (ds_target d) \<noteq> Reference_Only \<and> r0 \<in> set resolved
     \<and> pr_dataset r0 = ds_name d \<and> (\<exists>index found evidence expected. build_target_index plan d cat = Inr (index, found)
       \<and> classify_record digest plan d (r0\<lparr>pr_issues := pr_issues r0 @ found\<rparr>) index cat ms expected = Inr (c, evidence))"

lemma decision_decided:
  assumes "dataset_decisions digest plan resolved cat ms schema cs" "c \<in> set cs"
  obtains d r0 where "decided digest plan resolved cat ms schema d r0 c"
proof -
  obtain parts where parts: "mapo (decide_dataset digest plan resolved cat ms schema) plan = Inr parts"
      "mset cs = mset (map fst (concat (map snd parts)))"
    using assms(1) by (auto simp: dataset_decisions_def)
  have "set cs = set (map fst (concat (map snd parts)))" using parts(2) by (rule mset_eq_setD)
  then obtain part x where x: "part \<in> set parts" "x \<in> set (snd part)" "c = fst x" using assms(2) by auto
  then obtain d where d: "d \<in> set plan" "decide_dataset digest plan resolved cat ms schema d = Inr part"
    using mapo_member[OF parts(1)] by blast
  have mode: "ts_mode (ds_target d) \<noteq> Reference_Only" using d(2) x(2) by (auto simp: decide_dataset_def)
  then obtain index found where index: "build_target_index plan d cat = Inr (index, found)"
      and rows: "mapo (\<lambda>r. classify_record digest plan d r index cat ms (expected_defaults schema (ts_model (ds_target d))))
        (map (\<lambda>r. r\<lparr>pr_issues := pr_issues r @ found\<rparr>) (filter (\<lambda>r. pr_dataset r = ds_name d) resolved)) = Inr (snd part)"
    using d(2) by (auto simp: decide_dataset_def elim!: bindoE)
  obtain r0 where "r0 \<in> set resolved" "pr_dataset r0 = ds_name d"
      "classify_record digest plan d (r0\<lparr>pr_issues := pr_issues r0 @ found\<rparr>) index cat ms
        (expected_defaults schema (ts_model (ds_target d))) = Inr x"
    using mapo_member[OF rows x(2)] by auto
  then have "decided digest plan resolved cat ms schema d r0 c"
    using d(1) mode index x(3) unfolding decided_def by (cases x) auto
  then show thesis by (rule that)
qed

lemma decided_holds:
  assumes "decided digest plan resolved cat ms schema d r0 c"
  shows "\<exists>index found. build_target_index plan d cat = Inr (index, found)
    \<and> decision_holds digest plan cat d (r0\<lparr>pr_issues := pr_issues r0 @ found\<rparr>) c"
  using assms classify_record_holds[OF _ refl] unfolding decided_def by blast

text \<open>C32: Every decision of a run agrees with its row and the captured records.  The row is one of the
  resolved rows of the run, with the issues of its dataset's target index added.  The match count of the decision is
  the number of captured records of the model whose canonical identity and scope are those of the row.  A row with a
  blocking issue is BLOCKED with exactly its own issues, however many records match.  Of the other rows, a row with
  several matches is AMBIGUOUS, with that one error; a row with at most one match is CREATE only if there is none and
  the identity of every captured record of the model is known, so no unreadable record can hide a duplicate; UPDATE or
  UNCHANGED only if there is exactly one, to whose binding the decision is pinned, with or without a material
  difference; or BLOCKED, because the decision found a blocking issue.  No CREATE, UPDATE or UNCHANGED carries a
  blocking issue, and no BLOCKED, AMBIGUOUS or CREATE a difference.\<close>

theorem decisions_match_captured_records:
  assumes "run_preflight digest plan_id plan prepared ms sn schema = Inr p" "c \<in> set (pf_decisions p)"
  shows "\<exists>d resolved r0 index found. d \<in> set plan \<and> ds_name d = dc_dataset c \<and> ts_mode (ds_target d) \<noteq> Reference_Only
    \<and> resolved_rows digest plan prepared ms sn schema = Inr resolved \<and> r0 \<in> set resolved
    \<and> build_target_index plan d (mk_catalog (sn_records sn)) = Inr (index, found)
    \<and> decision_holds digest plan (mk_catalog (sn_records sn)) d (r0\<lparr>pr_issues := pr_issues r0 @ found\<rparr>) c"
proof -
  obtain selected resolved evidence where
    parts: "dataset_decisions digest plan resolved (mk_catalog (sn_records sn)) ms schema (pf_decisions p)"
      and rows: "resolved_rows digest plan prepared ms sn schema = Inr resolved"
    using run_parts[OF assms(1)] by blast
  obtain d r0 where d: "decided digest plan resolved (mk_catalog (sn_records sn)) ms schema d r0 c"
    using decision_decided[OF parts assms(2)] by blast
  then have "d \<in> set plan" "ts_mode (ds_target d) \<noteq> Reference_Only" "r0 \<in> set resolved" and name: "pr_dataset r0 = ds_name d"
    by (simp_all add: decided_def)
  moreover obtain index found where holds: "build_target_index plan d (mk_catalog (sn_records sn)) = Inr (index, found)"
    "decision_holds digest plan (mk_catalog (sn_records sn)) d (r0\<lparr>pr_issues := pr_issues r0 @ found\<rparr>) c"
    using decided_holds[OF d] by blast
  moreover have "ds_name d = dc_dataset c" using holds(2) name by (simp add: decision_holds_def Let_def)
  ultimately show ?thesis using rows by blast
qed

text \<open>The rows of the datasets that are written.\<close>

definition written :: "dataset_spec list \<Rightarrow> prepared_record \<Rightarrow> bool" where
  "written plan r \<longleftrightarrow> (\<exists>d \<in> set plan. ds_name d = pr_dataset r \<and> ts_mode (ds_target d) \<noteq> Reference_Only)"

definition decision_key :: "decision \<Rightarrow> row_id" where
  "decision_key c = (dc_dataset c, dc_source_row c)"

lemma mset_by_name:
  assumes "distinct (map ds_name ds)"
  shows "mset (concat (map (\<lambda>d. if P d then [] else map f (filter (\<lambda>r. pr_dataset r = ds_name d) rs)) ds))
    = mset (map f (filter (\<lambda>r. \<exists>d \<in> set ds. ds_name d = pr_dataset r \<and> \<not> P d) rs))"
  using assms
proof (induction ds)
  case (Cons d ds)
  let ?old = "\<lambda>r. \<exists>e \<in> set ds. ds_name e = pr_dataset r \<and> \<not> P e" and ?new = "\<lambda>r. pr_dataset r = ds_name d \<and> \<not> P d"
  have disjoint: "\<not> (?old r \<and> ?new r)" for r using Cons.prems by (auto simp: image_iff)
  have "filter (\<lambda>r. \<exists>e \<in> set (d # ds). ds_name e = pr_dataset r \<and> \<not> P e) rs = filter (\<lambda>r. ?new r \<or> ?old r) rs"
    by (rule filter_cong) auto
  moreover have "mset (filter (\<lambda>r. ?new r \<or> ?old r) rs) = mset (filter ?new rs) + mset (filter ?old rs)"
    using disjoint by (induction rs) auto
  moreover have "mset (concat (map (\<lambda>d. if P d then [] else map f (filter (\<lambda>r. pr_dataset r = ds_name d) rs)) ds))
      = mset (map f (filter ?old rs))" using Cons by simp
  ultimately show ?case by (cases "P d") simp_all
qed simp

lemma decisions_of_resolved:
  assumes "dataset_decisions digest plan resolved cat ms schema cs" "distinct (map ds_name plan)"
  shows "mset (map decision_key cs) = mset (map row_key (filter (written plan) resolved))"
proof -
  obtain parts where parts: "mapo (decide_dataset digest plan resolved cat ms schema) plan = Inr parts"
      "mset cs = mset (map fst (concat (map snd parts)))"
    using assms(1) by (auto simp: dataset_decisions_def)
  have part: "map (\<lambda>x. decision_key (fst x)) (snd part) = (if ts_mode (ds_target d) = Reference_Only then []
      else map row_key (filter (\<lambda>r. pr_dataset r = ds_name d) resolved))"
    if part: "decide_dataset digest plan resolved cat ms schema d = Inr part" for d part
  proof (cases "ts_mode (ds_target d) = Reference_Only")
    case False
    then obtain index found where index: "build_target_index plan d cat = Inr (index, found)"
        and rows: "mapo (\<lambda>r. classify_record digest plan d r index cat ms (expected_defaults schema (ts_model (ds_target d))))
          (map (\<lambda>r. r\<lparr>pr_issues := pr_issues r @ found\<rparr>) (filter (\<lambda>r. pr_dataset r = ds_name d) resolved)) = Inr (snd part)"
      using part by (auto simp: decide_dataset_def elim!: bindoE)
    have "list_all2 (\<lambda>r x. decision_key (fst x) = row_key r) (filter (\<lambda>r. pr_dataset r = ds_name d) resolved) (snd part)"
      using rows unfolding mapo_Inr list.rel_map
    proof (rule list.rel_mono_strong)
      fix r and x :: "decision \<times> reference_resolution list"
      assume r: "classify_record digest plan d (r\<lparr>pr_issues := pr_issues r @ found\<rparr>) index cat ms
        (expected_defaults schema (ts_model (ds_target d))) = Inr x"
      obtain c evidence where x: "x = (c, evidence)" by (cases x)
      show "decision_key (fst x) = row_key r"
        using classify_record_holds[OF index refl r[unfolded x]] by (simp add: x decision_key_def row_key_def decision_holds_def Let_def)
    qed
    then show ?thesis using False by (auto simp: list_all2_conv_all_nth intro!: nth_equalityI)
  qed (use part in \<open>auto simp: decide_dataset_def\<close>)
  have "list_all2 (\<lambda>d part. decide_dataset digest plan resolved cat ms schema d = Inr part) plan parts"
    using parts(1) by (simp add: mapo_Inr)
  then have "concat (map (\<lambda>part. map (\<lambda>x. decision_key (fst x)) (snd part)) parts)
      = concat (map (\<lambda>d. if ts_mode (ds_target d) = Reference_Only then []
          else map row_key (filter (\<lambda>r. pr_dataset r = ds_name d) resolved)) plan)"
    by (induction rule: list_all2_induct) (use part in simp_all)
  moreover have concat_keys: "map decision_key (map fst (concat (map snd parts)))
      = concat (map (\<lambda>part. map (\<lambda>x. decision_key (fst x)) (snd part)) parts)"
    by (induction parts) simp_all
  have "mset (map decision_key cs) = image_mset decision_key (mset cs)" by simp
  then have "mset (map decision_key cs) = mset (map decision_key (map fst (concat (map snd parts))))"
    using parts(2) by (metis mset_map)
  then have "mset (map decision_key cs) = mset (concat (map (\<lambda>part. map (\<lambda>x. decision_key (fst x)) (snd part)) parts))"
    unfolding concat_keys .
  ultimately show ?thesis using mset_by_name[OF assms(2), of "\<lambda>d. ts_mode (ds_target d) = Reference_Only" row_key resolved]
    by (simp add: written_def[abs_def])
qed

text \<open>The rows behind the decisions.\<close>

lemma selected_ready:
  assumes "list_all2 extends rs selected" "\<And>r. r \<in> set rs \<Longrightarrow> row_ready plan r" "r \<in> set selected"
  shows "row_ready plan r"
proof -
  obtain i where "i < length selected" "selected ! i = r" using \<open>r \<in> set selected\<close> by (auto simp: in_set_conv_nth)
  then have "rs ! i \<in> set rs" "extends (rs ! i) r" using assms(1) by (auto simp: list_all2_conv_all_nth)
  then show ?thesis using assms(2) extends_simps(3) by blast
qed

text \<open>C33: Every prepared row of a dataset that is written gets exactly one decision, and no other row does: the
  decisions of a run, as a multiset, are for exactly the rows of the datasets that are not reference data.\<close>

theorem every_row_is_decided_once:
  assumes "run_preflight digest plan_id plan prepared ms sn schema = Inr p"
    and "distinct (map ds_name plan)" "catalog_ready (mk_catalog (sn_records sn))"
    and "\<And>r. r \<in> set (pb_records prepared) \<Longrightarrow> row_ready plan r"
  shows "mset (map decision_key (pf_decisions p)) = mset (map row_key (filter (written plan) (pb_records prepared)))"
proof -
  obtain selected resolved evidence where selected: "list_all2 extends (pb_records prepared) selected"
      and resolved: "resolve_records digest plan selected (mk_catalog (sn_records sn)) = Inr (resolved, evidence)"
      and parts: "dataset_decisions digest plan resolved (mk_catalog (sn_records sn)) ms schema (pf_decisions p)"
    using run_parts[OF assms(1)] by blast
  have "map row_key resolved = map row_key selected"
    using resolution_rows[OF selected_ready[OF selected assms(4)] assms(3) resolved] by (auto simp: list_all2_conv_all_nth intro!: nth_equalityI)
  then have keys: "map row_key resolved = map row_key (pb_records prepared)"
    using selected extends_simps(1) by (auto simp: list_all2_conv_all_nth intro!: nth_equalityI)
  have "filter (written plan) = filter ((\<lambda>k. \<exists>d \<in> set plan. ds_name d = fst k \<and> ts_mode (ds_target d) \<noteq> Reference_Only) \<circ> row_key)"
    by (simp add: written_def[abs_def] row_key_def o_def)
  then have "map row_key (filter (written plan) rs) = filter (\<lambda>k. \<exists>d \<in> set plan. ds_name d = fst k
      \<and> ts_mode (ds_target d) \<noteq> Reference_Only) (map row_key rs)" for rs
    by (simp add: filter_map)
  then show ?thesis using decisions_of_resolved[OF parts assms(2)] keys by simp
qed

lemma usable_decision:
  assumes "decided digest plan resolved cat ms schema d r0 c" "dc_classification c \<noteq> BLOCKED"
  shows "\<not> record_blocked r0" "dc_business_identity c = pr_target_identity r0" "dc_business_scope c = pr_target_scope r0"
proof -
  obtain index found expected evidence where
    run: "classify_record digest plan d (r0\<lparr>pr_issues := pr_issues r0 @ found\<rparr>) index cat ms expected = Inr (c, evidence)"
    using assms(1) by (auto simp: decided_def)
  show "\<not> record_blocked r0"
    using run assms(2) by (auto simp: classify_record_def Let_def record_blocked_def split: if_splits)
  have "\<exists>k n h ds is. c = mk_decision (r0\<lparr>pr_issues := pr_issues r0 @ found\<rparr>) k n h ds is"
    using run by (auto simp: classify_record_def classify_match_def Let_def bindo_Inr split: if_splits list.splits)
  then show "dc_business_identity c = pr_target_identity r0" "dc_business_scope c = pr_target_scope r0"
    by auto
qed

lemma list_all2_member: "list_all2 P xs ys \<Longrightarrow> y \<in> set ys \<Longrightarrow> \<exists>x \<in> set xs. P x y"
  by (metis in_set_conv_nth list_all2_conv_all_nth nth_mem)

text \<open>C34: A row whose identity could not be resolved is never matched against the target: every decision of a run
  other than BLOCKED has an identity and scope without symbolic references.\<close>

theorem decided_identities_are_resolved:
  assumes "run_preflight digest plan_id plan prepared ms sn schema = Inr p"
    and "catalog_ready (mk_catalog (sn_records sn))"
    and "\<And>r. r \<in> set (pb_records prepared) \<Longrightarrow> row_ready plan r"
    and "c \<in> set (pf_decisions p)" "dc_classification c \<noteq> BLOCKED"
  shows "\<not> list_ex is_logical (dc_business_identity c @ dc_business_scope c)"
proof -
  obtain selected resolved evidence where selected: "list_all2 extends (pb_records prepared) selected"
      and resolved: "resolve_records digest plan selected (mk_catalog (sn_records sn)) = Inr (resolved, evidence)"
      and parts: "dataset_decisions digest plan resolved (mk_catalog (sn_records sn)) ms schema (pf_decisions p)"
    using run_parts[OF assms(1)] by blast
  obtain d r0 where d: "decided digest plan resolved (mk_catalog (sn_records sn)) ms schema d r0 c"
    using decision_decided[OF parts assms(4)] by blast
  then have "r0 \<in> set resolved" by (simp add: decided_def)
  then have "clean r0"
    using list_all2_member[OF resolution_rows[OF selected_ready[OF selected assms(3)] assms(2) resolved]] by blast
  then show ?thesis using usable_decision[OF d assms(5)] by (simp add: clean_def)
qed

text \<open>A run over three partners: one is known with another country, one is new, one names an unknown country.\<close>

definition sample_field :: "string \<Rightarrow> string option \<Rightarrow> field_metadata" where
  "sample_field kind relation = \<lparr>fm_type = kind, fm_label = [], fm_required = False, fm_readonly = False,
     fm_relation = relation, fm_relation_field = None, fm_selection = [], fm_stored = Some True, fm_computed = None,
     fm_has_inverse = None, fm_related = None, fm_translated = None, fm_company_dependent = None, fm_searchable = None,
     fm_sortable = None, fm_exportable = None, fm_digits = None, fm_currency_field = None\<rparr>"

definition sample_capture :: metadata_snapshot where
  "sample_capture = (sample_metadata ''res.partner'')\<lparr>ms_models :=
     [(''res.partner'', \<lparr>mm_description = None,
         mm_fields = [(''ref'', sample_field ''char'' None), (''country_id'', sample_field ''many2one'' (Some ''res.country''))],
         mm_unique_constraints = []\<rparr>),
      (''res.country'', \<lparr>mm_description = None, mm_fields = [(''code'', sample_field ''char'' None)],
         mm_unique_constraints = []\<rparr>)]\<rparr>"

definition sample_records :: record_snapshot where
  "sample_records = \<lparr>sn_fingerprint = ms_fingerprint sample_capture,
     sn_records = [(''res.partner'', [\<lparr>tr_model = ''res.partner'', tr_odoo_id = 3,
         tr_values = [(''ref'', PText ''A''), (''country_id'', PInt 8)]\<rparr>]),
       (''res.country'', [\<lparr>tr_model = ''res.country'', tr_odoo_id = 7, tr_values = [(''code'', PText ''CH'')]\<rparr>,
         \<lparr>tr_model = ''res.country'', tr_odoo_id = 8, tr_values = [(''code'', PText ''DE'')]\<rparr>])],
     sn_requested_fields = [], sn_complete = True, sn_content_hash = None\<rparr>"

definition sample_row :: "int \<Rightarrow> string \<Rightarrow> string \<Rightarrow> prepared_record" where
  "sample_row row ref country = \<lparr>pr_dataset = ''partners'', pr_source_row = row, pr_target_model = ''res.partner'',
     pr_source_identity = [PText ref], pr_target_identity = [PText ref], pr_target_scope = [], pr_scalar_values = [],
     pr_references = [(''country_id'', PLogical ''target'' [PText country] None (Some ''res.country'') [''code''] [] [] None)],
     pr_source_trace_id = [], pr_issues = []\<rparr>"

definition sample_prepared :: prepared_bundle where
  "sample_prepared = \<lparr>pb_records = [sample_row 1 ''A'' ''CH'', sample_row 2 ''B'' ''CH'', sample_row 3 ''C'' ''XX''],
     pb_issues = [], pb_source_hashes = []\<rparr>"

definition decided_rows :: "preflight_result outcome \<Rightarrow> (int \<times> classification \<times> nat) list option" where
  "decided_rows m = (case m of Inl _ \<Rightarrow> None
     | Inr p \<Rightarrow> Some (map (\<lambda>c. (dc_source_row c, dc_classification c, dc_target_match_count c)) (pf_decisions p)))"

definition sample_run :: "preflight_result outcome" where
  "sample_run = run_preflight (\<lambda>_. ''0'') ''p'' [sample_partners] sample_prepared sample_capture sample_records None"

lemma sample_run_decides: "decided_rows sample_run = Some [(1, UPDATE, 1), (2, CREATE, 0), (3, BLOCKED, 0)]"
  by code_simp

lemma sample_run_result:
  obtains p where "sample_run = Inr p"
    "map (\<lambda>c. (dc_source_row c, dc_classification c, dc_target_match_count c)) (pf_decisions p)
      = [(1, UPDATE, 1), (2, CREATE, 0), (3, BLOCKED, 0)]"
  using sample_run_decides by (auto simp: decided_rows_def split: sum.splits)

lemma sample_ready:
  "r \<in> set (pb_records sample_prepared) \<Longrightarrow> row_ready [sample_partners] r"
  "catalog_ready (mk_catalog (sn_records sample_records))"
  by (auto simp: row_ready_def sample_prepared_def sample_row_def sample_partners_def find_dataset_def identity_width_def
      catalog_ready_def sample_records_def mk_catalog_def)

theorem decisions_match_captured_records_witness:
  "\<exists>p. sample_run = Inr p \<and> (\<exists>c \<in> set (pf_decisions p). dc_classification c = CREATE \<and> dc_source_row c = 2
     \<and> (\<exists>r. \<not> record_blocked r \<and> decision_holds (\<lambda>_. ''0'') [sample_partners] (mk_catalog (sn_records sample_records))
          sample_partners r c))"
proof -
  obtain p where p: "sample_run = Inr p"
      "map (\<lambda>c. (dc_source_row c, dc_classification c, dc_target_match_count c)) (pf_decisions p)
        = [(1, UPDATE, 1), (2, CREATE, 0), (3, BLOCKED, 0)]" by (rule sample_run_result)
  have "(2, CREATE, 0) \<in> set (map (\<lambda>c. (dc_source_row c, dc_classification c, dc_target_match_count c)) (pf_decisions p))"
    unfolding p(2) by simp
  then obtain c where c: "c \<in> set (pf_decisions p)" "dc_source_row c = 2" "dc_classification c = CREATE" by auto
  obtain r where r: "decision_holds (\<lambda>_. ''0'') [sample_partners] (mk_catalog (sn_records sample_records)) sample_partners r c"
    using decisions_match_captured_records[OF p(1)[unfolded sample_run_def] c(1)] by auto
  then have "\<not> record_blocked r" using c(3) by (auto simp: decision_holds_def Let_def split: if_splits)
  then show ?thesis using p(1) c r by blast
qed

theorem every_row_is_decided_once_witness:
  "\<exists>p. sample_run = Inr p \<and> mset (map decision_key (pf_decisions p)) = {#(''partners'', 1), (''partners'', 2), (''partners'', 3)#}"
proof -
  obtain p where p: "sample_run = Inr p" by (rule sample_run_result)
  have "mset (map decision_key (pf_decisions p)) = mset (map row_key (filter (written [sample_partners]) (pb_records sample_prepared)))"
    by (rule every_row_is_decided_once[OF p[unfolded sample_run_def] _ sample_ready(2,1)]) simp_all
  moreover have "mset (map row_key (filter (written [sample_partners]) (pb_records sample_prepared)))
      = {#(''partners'', 1), (''partners'', 2), (''partners'', 3)#}"
    by (simp add: sample_prepared_def sample_row_def row_key_def written_def sample_partners_def)
  ultimately show ?thesis using p by metis
qed

theorem decided_identities_are_resolved_witness:
  "\<exists>p. sample_run = Inr p \<and> (\<exists>c \<in> set (pf_decisions p). dc_source_row c = 1
     \<and> \<not> list_ex is_logical (dc_business_identity c @ dc_business_scope c))"
proof -
  obtain p where p: "sample_run = Inr p"
      "map (\<lambda>c. (dc_source_row c, dc_classification c, dc_target_match_count c)) (pf_decisions p)
        = [(1, UPDATE, 1), (2, CREATE, 0), (3, BLOCKED, 0)]" by (rule sample_run_result)
  have "(1, UPDATE, 1) \<in> set (map (\<lambda>c. (dc_source_row c, dc_classification c, dc_target_match_count c)) (pf_decisions p))"
    unfolding p(2) by simp
  then obtain c where c: "c \<in> set (pf_decisions p)" "dc_source_row c = 1" "dc_classification c = UPDATE" by auto
  have "\<not> list_ex is_logical (dc_business_identity c @ dc_business_scope c)"
    by (rule decided_identities_are_resolved[OF p(1)[unfolded sample_run_def] sample_ready(2) sample_ready(1) c(1)]) (simp_all add: c)
  then show ?thesis using p(1) c by blast
qed

end
