(* ===== verification/Matching_Order.thy ===== *)
theory Matching_Order
imports Components Graph_Order Domain_Chunks
begin

text \<open>
  The order in which datasets are matched (\<open>domain/matching_order.py\<close>): strongly connected groups of datasets by the
  two passes of \<open>Components\<close>, Kahn's loop of \<open>Graph_Order\<close> over the groups, and the recommendations built from local
  facts and from the results of a live check.
\<close>


section \<open>Values\<close>

record order_edge =
  oe_owner :: string
  oe_dependency :: string

record component_order =
  co_ordered_ids :: "string list"
  co_components :: "string list list"

datatype order_confidence = Confirmed | Preliminary

fun confidence_text :: "order_confidence \<Rightarrow> string" where
  "confidence_text Confirmed = ''confirmed''"
| "confidence_text Preliminary = ''preliminary''"

datatype order_source = Saved_Mapping | Related_Table | Derived_Table | Odoo_Schema

fun order_source_text :: "order_source \<Rightarrow> string" where
  "order_source_text Saved_Mapping = ''saved_mapping''"
| "order_source_text Related_Table = ''related_table''"
| "order_source_text Derived_Table = ''derived_table''"
| "order_source_text Odoo_Schema = ''odoo_schema''"

record order_fact =
  of_owner :: string
  of_dependency :: string
  of_source :: order_source
  of_confidence :: order_confidence
  of_target_field :: string

definition fact_edge :: "order_fact \<Rightarrow> order_edge" where
  "fact_edge f = \<lparr>oe_owner = of_owner f, oe_dependency = of_dependency f\<rparr>"

record order_recommendation =
  or_ordered_ids :: "string list"
  or_components :: "string list list"
  or_facts :: "order_fact list"

definition recommendation_preliminary :: "order_recommendation \<Rightarrow> bool" where
  "recommendation_preliminary r = list_ex (\<lambda>f. of_confidence f = Preliminary) (or_facts r)"


section \<open>Ordering\<close>

definition ranked_datasets :: "string list \<Rightarrow> string list option \<Rightarrow> string list res" where
  "ranked_datasets ids tie = (case tie of
     None \<Rightarrow> Inr ids
   | Some preferred \<Rightarrow>
       bindr (checkr (distinct preferred) ValueError) (\<lambda>_.
       bindr (checkr (list_all (\<lambda>d. d \<in> set ids) preferred) ValueError) (\<lambda>_.
       Inr (preferred @ filter (\<lambda>d. d \<notin> set preferred) ids))))"

definition dataset_rank :: "string list \<Rightarrow> string \<Rightarrow> int" where
  "dataset_rank ranked d = int (dict_get (map (\<lambda>(i, x). (x, i)) (List.enumerate 0 ranked)) d 0)"

text \<open>The distinct edges between known datasets, as pairs of dependency and owner.\<close>

definition known_pairs :: "(string \<Rightarrow> int) \<Rightarrow> string list \<Rightarrow> order_edge list \<Rightarrow> (string \<times> string) list" where
  "known_pairs rank ids edges = sort_key (\<lambda>(dependency, owner). (rank dependency, rank owner))
     (keep_first (\<lambda>p. p) (map (\<lambda>e. (oe_dependency e, oe_owner e))
       (filter (\<lambda>e. oe_owner e \<in> set ids \<and> oe_dependency e \<in> set ids) edges)))"

definition dataset_components :: "(string \<Rightarrow> int) \<Rightarrow> string list \<Rightarrow> (string \<times> string) list \<Rightarrow> string list list" where
  "dataset_components rank ranked pairs = map (sort_key rank)
     (kosaraju rank ranked (following_within rank ranked (\<lambda>d. map snd (filter (\<lambda>p. fst p = d) pairs))))"

definition component_index :: "string list list \<Rightarrow> string \<Rightarrow> nat" where
  "component_index comps d = dict_get (concat (map (\<lambda>(i, c). map (\<lambda>x. (x, i)) c) (List.enumerate 0 comps))) d 0"

definition component_pairs :: "string list list \<Rightarrow> (string \<times> string) list \<Rightarrow> (nat \<times> nat) list" where
  "component_pairs comps pairs = keep_first (\<lambda>p. p) (filter (\<lambda>(a, b). a \<noteq> b)
     (map (\<lambda>(dependency, owner). (component_index comps dependency, component_index comps owner)) pairs))"

definition component_rank :: "(string \<Rightarrow> int) \<Rightarrow> string list list \<Rightarrow> nat \<Rightarrow> int" where
  "component_rank rank comps i = Min (rank ` set (comps ! i))"

definition order_components :: "(string \<Rightarrow> int) \<Rightarrow> string list list \<Rightarrow> (string \<times> string) list \<Rightarrow> string list list" where
  "order_components rank comps pairs =
    (let nodes = [0..<length comps]; es = component_pairs comps pairs; crank = component_rank rank comps;
         s = kahn_loop True crank (\<lambda>_ p. p) (\<lambda>_ _ p. p) (following_of nodes es) (kahn_start crank nodes es ()) in
     map (\<lambda>i. comps ! i) (ks_done s))"

definition order_dataset_dependency_components :: "string list \<Rightarrow> order_edge list \<Rightarrow> string list option \<Rightarrow> component_order res" where
  "order_dataset_dependency_components ids edges tie =
     bindr (checkr (distinct ids) ValueError) (\<lambda>_.
     if ids = [] then Inr \<lparr>co_ordered_ids = [], co_components = []\<rparr>
     else bindr (ranked_datasets ids tie) (\<lambda>ranked.
       let rank = dataset_rank ranked; pairs = known_pairs rank ids edges;
           ordered = order_components rank (dataset_components rank ranked pairs) pairs in
       bindr (checkr (length (concat ordered) = length ids) ValueError) (\<lambda>_.
       Inr \<lparr>co_ordered_ids = concat ordered, co_components = ordered\<rparr>)))"


section \<open>Recommendations\<close>

definition fact_key :: "order_fact \<Rightarrow> string \<times> string \<times> string \<times> string \<times> string" where
  "fact_key f = (of_owner f, of_dependency f, confidence_text (of_confidence f), order_source_text (of_source f),
     of_target_field f)"

definition applicable_facts :: "string list \<Rightarrow> order_fact list \<Rightarrow> order_fact list" where
  "applicable_facts ids facts = sort_key fact_key (remdups (filter (\<lambda>f. of_owner f \<in> set ids
     \<and> of_dependency f \<in> set ids \<and> of_owner f \<noteq> of_dependency f) facts))"

definition recommend_dataset_matching_order :: "string list \<Rightarrow> order_fact list \<Rightarrow> string list option
    \<Rightarrow> order_recommendation res" where
  "recommend_dataset_matching_order ids facts tie =
    (let applicable = applicable_facts ids facts in
     bindr (order_dataset_dependency_components ids (map fact_edge applicable) tie) (\<lambda>order.
     Inr \<lparr>or_ordered_ids = co_ordered_ids order, or_components = co_components order, or_facts = applicable\<rparr>))"

datatype relationship_outcome = Target_Outcome | Incoming_Outcome | Mixed_Outcome | Missing_Outcome | Ambiguous_Outcome
  | Unchecked_Outcome

record relationship_result =
  rr_owner_dataset_id :: string
  rr_dependency_dataset_id :: string
  rr_target_field :: string
  rr_outcome :: relationship_outcome
  rr_target_count :: int
  rr_incoming_count :: int
  rr_missing_count :: int
  rr_ambiguous_count :: int

definition target_satisfied :: "relationship_result \<Rightarrow> bool" where
  "target_satisfied r \<longleftrightarrow> rr_target_count r > 0 \<and> rr_incoming_count r = 0 \<and> rr_missing_count r = 0 \<and> rr_ambiguous_count r = 0"

definition satisfied_edges :: "relationship_result list \<Rightarrow> (string \<times> string \<times> string) list" where
  "satisfied_edges results = map (\<lambda>r. (rr_owner_dataset_id r, rr_dependency_dataset_id r, rr_target_field r))
     (filter target_satisfied results)"

text \<open>\<open>tie_break_order or local.ordered_dataset_ids\<close>.\<close>

definition live_matching_order_recommendation :: "order_recommendation \<Rightarrow> relationship_result list \<Rightarrow> string list option
    \<Rightarrow> order_recommendation res" where
  "live_matching_order_recommendation local_order results tie =
    recommend_dataset_matching_order (or_ordered_ids local_order)
      (filter (\<lambda>f. (of_owner f, of_dependency f, of_target_field f) \<notin> set (satisfied_edges results)) (or_facts local_order))
      (Some (case tie of Some (d # ds) \<Rightarrow> d # ds | _ \<Rightarrow> or_ordered_ids local_order))"

end
