(* ===== verification/Matching_Order_Properties.thy ===== *)
theory Matching_Order_Properties
imports Matching_Order
begin

text \<open>
  The order of datasets is total, groups exactly the datasets that depend on each other, and puts every dependency in
  an earlier group than its owner; a live check only removes edges.
\<close>


section \<open>The edges and their components\<close>

definition order_edges :: "string list \<Rightarrow> order_edge list \<Rightarrow> (string \<times> string) set" where
  "order_edges ids edges = {(u, v). u \<in> set ids \<and> v \<in> set ids \<and> \<lparr>oe_owner = v, oe_dependency = u\<rparr> \<in> set edges}"

lemma set_keep_first_id: "set (keep_first (\<lambda>x. x) xs) = set xs"
  using keep_first_subset[of "\<lambda>x. x" xs] keep_first_covers[of _ xs "\<lambda>x. x"] by blast

lemma order_edge_eq: "e = \<lparr>oe_owner = v, oe_dependency = u\<rparr> \<longleftrightarrow> oe_owner e = v \<and> oe_dependency e = u"
  by (cases e) auto

lemma set_known_pairs: "set (known_pairs rank ids edges) = order_edges ids edges"
proof -
  have "\<lparr>oe_owner = v, oe_dependency = u\<rparr> \<in> set edges \<longleftrightarrow> (\<exists>e \<in> set edges. oe_owner e = v \<and> oe_dependency e = u)" for u v
    unfolding order_edge_eq[symmetric] by blast
  then have "(\<lambda>e. (oe_dependency e, oe_owner e)) ` {e \<in> set edges. oe_owner e \<in> set ids \<and> oe_dependency e \<in> set ids}
      = order_edges ids edges" unfolding order_edges_def by auto
  then show ?thesis by (simp add: known_pairs_def set_keep_first_id)
qed

lemma known_pairs_cong: "set ids = set ids' \<Longrightarrow> known_pairs rank ids edges = known_pairs rank ids' edges"
  by (simp add: known_pairs_def)

lemma known_square: "set (known_pairs rank ids edges) \<subseteq> set ids \<times> set ids"
  by (auto simp: set_known_pairs order_edges_def)

lemma following_pairs:
  assumes "set pairs \<subseteq> set ranked \<times> set ranked"
  shows "dict_rel (following_within rank ranked (\<lambda>d. map snd (filter (\<lambda>p. fst p = d) pairs))) = set pairs"
  using assms by (force simp: dict_rel_within)

lemma dataset_components:
  fixes rank ranked pairs
  assumes "set pairs \<subseteq> set ranked \<times> set ranked"
  defines "comps \<equiv> dataset_components rank ranked pairs"
  shows "distinct (concat comps)" "set (concat comps) = set ranked"
    and "c \<in> set comps \<Longrightarrow> c \<noteq> []"
    and "c \<in> set comps \<Longrightarrow> x \<in> set c \<Longrightarrow> set c = component_of (set pairs) x"
    and "c \<in> set comps \<Longrightarrow> sorted (map rank c)"
proof -
  let ?owners = "\<lambda>d. map snd (filter (\<lambda>p. fst p = d) pairs)"
  let ?found = "kosaraju rank ranked (following_within rank ranked ?owners)"
  note found = kosaraju_components[where rank = rank and nodes = ranked and owners = ?owners, unfolded following_pairs[OF assms(1)]]
  have comps: "comps = map (sort_key rank) ?found" by (simp add: comps_def dataset_components_def)
  have "mset (concat (map (sort_key rank) xss)) = mset (concat xss)" for xss by (induction xss) simp_all
  then have same: "mset (concat comps) = mset (concat ?found)" by (simp add: comps)
  show "distinct (concat comps)" using found(1) mset_eq_imp_distinct_iff[OF same] by blast
  show "set (concat comps) = set ranked" using found(2) mset_eq_setD[OF same] by simp
  show "c \<in> set comps \<Longrightarrow> c \<noteq> []" using found(3) unfolding comps by (metis (no_types, lifting) imageE list.set_map set_empty set_sort)
  show "c \<in> set comps \<Longrightarrow> x \<in> set c \<Longrightarrow> set c = component_of (set pairs) x" using found(4) by (auto simp: comps)
  show "c \<in> set comps \<Longrightarrow> sorted (map rank c)" by (auto simp: comps)
qed

lemma component_entries:
  "map fst (concat (map (\<lambda>(i, c). map (\<lambda>x. (x, i)) c) (List.enumerate n comps))) = concat comps"
  by (induction comps arbitrary: n) (simp_all add: o_def)

lemma component_index:
  assumes "distinct (concat comps)" "i < length comps" "x \<in> set (comps ! i)"
  shows "component_index comps x = i"
proof -
  have "(i, comps ! i) \<in> set (List.enumerate 0 comps)"
    using assms(2) by (auto simp: in_set_enumerate_eq)
  then have "(x, i) \<in> set (concat (map (\<lambda>(i, c). map (\<lambda>x. (x, i)) c) (List.enumerate 0 comps)))"
    using assms(3) by force
  then show ?thesis
    unfolding component_index_def dict_get_def
    by (subst map_of_is_SomeI) (use assms(1) in \<open>simp_all only: component_entries option.case\<close>)
qed

lemma in_component:
  assumes "x \<in> set (concat comps)"
  obtains i where "i < length comps" "x \<in> set (comps ! i)"
proof -
  obtain c where "c \<in> set comps" "x \<in> set c" using assms by auto
  then show thesis using that by (metis in_set_conv_nth)
qed


text \<open>Every group comes after the groups of its dependencies.\<close>

definition groups_ordered :: "(string \<times> string) set \<Rightarrow> string list list \<Rightarrow> bool" where
  "groups_ordered E comps \<longleftrightarrow> (\<forall>(u, v) \<in> E. \<forall>i < length comps. \<forall>j < length comps.
     u \<in> set (comps ! i) \<longrightarrow> v \<in> set (comps ! j) \<longrightarrow> i \<le> j)"


section \<open>The graph of components is acyclic\<close>

locale components =
  fixes E :: "(string \<times> string) set" and comps :: "string list list" and pairs :: "(string \<times> string) list"
  assumes edges: "set pairs = E" "E \<subseteq> set (concat comps) \<times> set (concat comps)"
    and parts: "distinct (concat comps)" "\<And>c x. c \<in> set comps \<Longrightarrow> x \<in> set c \<Longrightarrow> set c = component_of E x"
begin

lemma pair_index:
  assumes "(u, v) \<in> E"
  shows "component_index comps u < length comps" "component_index comps v < length comps"
    and "u \<in> set (comps ! component_index comps u)" "v \<in> set (comps ! component_index comps v)"
proof -
  have ends: "u \<in> set (concat comps)" "v \<in> set (concat comps)" using assms edges(2) by auto
  obtain i where "i < length comps" "u \<in> set (comps ! i)" using in_component[OF ends(1)] by blast
  then show "component_index comps u < length comps" "u \<in> set (comps ! component_index comps u)"
    using component_index[OF parts(1)] by metis+
  obtain j where "j < length comps" "v \<in> set (comps ! j)" using in_component[OF ends(2)] by blast
  then show "component_index comps v < length comps" "v \<in> set (comps ! component_index comps v)"
    using component_index[OF parts(1)] by metis+
qed

lemma component_edge: "(a, b) \<in> set (component_pairs comps pairs) \<longleftrightarrow>
    a \<noteq> b \<and> (\<exists>(u, v) \<in> E. a = component_index comps u \<and> b = component_index comps v)"
  by (auto simp: component_pairs_def set_keep_first_id edges(1))

lemma component_square: "set (component_pairs comps pairs) \<subseteq> set [0..<length comps] \<times> set [0..<length comps]"
  using pair_index component_edge by fastforce

lemma component_paths:
  assumes "(a, b) \<in> (set (component_pairs comps pairs))\<^sup>+" "x \<in> set (comps ! a)" "y \<in> set (comps ! b)"
  shows "(x, y) \<in> E\<^sup>*"
proof -
  have inside: "(p, q) \<in> E\<^sup>*" if "i < length comps" "p \<in> set (comps ! i)" "q \<in> set (comps ! i)" for p q i
    using that parts(2)[of "comps ! i" p] by (simp add: component_of_def mutual_def)
  show ?thesis using assms(1,3)
  proof (induction arbitrary: y rule: trancl_induct)
    case (base b)
    then obtain u v where "(u, v) \<in> E" "a = component_index comps u" "b = component_index comps v"
      by (auto simp: component_edge)
    then show ?case using pair_index inside assms(2) base(2) by (meson r_into_rtrancl rtrancl_trans)
  next
    case (step b c)
    then obtain u v where uv: "(u, v) \<in> E" "b = component_index comps u" "c = component_index comps v"
      by (auto simp: component_edge)
    then have "(x, u) \<in> E\<^sup>*" "(v, y) \<in> E\<^sup>*" using step pair_index inside by metis+
    then show ?case using uv(1) by (meson r_into_rtrancl rtrancl_trans)
  qed
qed

lemma component_acyclic: "acyclic (set (component_pairs comps pairs))"
proof (rule acyclicI, rule allI, rule notI)
  fix a
  assume "(a, a) \<in> (set (component_pairs comps pairs))\<^sup>+"
  then obtain b where b: "(a, b) \<in> set (component_pairs comps pairs)" "(b, a) \<in> (set (component_pairs comps pairs))\<^sup>*"
    by (meson tranclD)
  then obtain u v where uv: "(u, v) \<in> E" "a = component_index comps u" "b = component_index comps v" "a \<noteq> b"
    by (auto simp: component_edge)
  note at = pair_index[OF uv(1)]
  have "(v, u) \<in> E\<^sup>*"
    using b(2) uv component_paths[of b a v u] at by (auto simp: rtrancl_eq_or_trancl)
  then have "mutual E u v" using uv(1) by (auto simp: mutual_def)
  then have "v \<in> set (comps ! a)" using parts(2)[of "comps ! a" u] at uv(2) by (simp add: component_of_def)
  then show False using component_index[OF parts(1), of a v] at uv by simp
qed

lemma order_components:
  assumes ordered: "ordered = order_components rank comps pairs"
  shows "mset ordered = mset comps" "groups_ordered E ordered"
proof -
  let ?nodes = "[0..<length comps]" and ?crank = "component_rank rank comps" and ?es = "component_pairs comps pairs"
  define s where "s = kahn_loop True ?crank (\<lambda>_ p. p) (\<lambda>_ _ p. p) (following_of ?nodes ?es) (kahn_start ?crank ?nodes ?es ())"
  have "distinct ?nodes" by simp
  note res = kahn_result[OF this component_square s_def]
  note all = kahn_acyclic[OF \<open>distinct ?nodes\<close> component_square component_acyclic s_def]
  have map: "ordered = map (\<lambda>i. comps ! i) (ks_done s)" by (simp add: ordered order_components_def s_def Let_def)
  have "mset (ks_done s) = mset ?nodes" using all res(1) by (metis \<open>distinct ?nodes\<close> set_eq_iff_mset_eq_distinct)
  then show same: "mset ordered = mset comps" unfolding map by (metis map_nth mset_map)
  have index: "component_index comps x = ks_done s ! k" if "k < length ordered" "x \<in> set (ordered ! k)" for x k
  proof -
    have "ks_done s ! k < length comps" using that(1) all nth_mem[of k "ks_done s"] by (simp add: map)
    then show ?thesis using that component_index[OF parts(1)] by (simp add: map)
  qed
  show "groups_ordered E ordered"
    unfolding groups_ordered_def
  proof (intro ballI allI impI, clarify)
    fix u v i j
    assume uv: "(u, v) \<in> E" and i: "i < length ordered" "u \<in> set (ordered ! i)" and j: "j < length ordered" "v \<in> set (ordered ! j)"
    note at = index[OF i] index[OF j]
    show "i \<le> j"
    proof (cases "ks_done s ! i = ks_done s ! j")
      case True
      then show ?thesis using res(1) i j by (simp add: map nth_eq_iff_index_eq)
    next
      case False
      then have "(ks_done s ! i, ks_done s ! j) \<in> set ?es" using uv at unfolding component_edge by (metis (mono_tags) case_prodI)
      then have "ks_done s ! i \<in> set (take j (ks_done s))" using res(3) j by (auto simp: precedes_def map)
      then obtain k where "k < j" "ks_done s ! k = ks_done s ! i" by (auto simp: in_set_conv_nth)
      then show ?thesis using res(1) i j by (auto simp: map nth_eq_iff_index_eq)
    qed
  qed
qed

end

interpretation groups: components "set (known_pairs rank ranked edges)"
    "dataset_components rank ranked (known_pairs rank ranked edges)" "known_pairs rank ranked edges" for rank ranked edges
  using dataset_components[OF known_square] known_square by unfold_locales auto


section \<open>The order\<close>

definition tie_usable :: "string list \<Rightarrow> string list option \<Rightarrow> bool" where
  "tie_usable ids tie \<longleftrightarrow> (case tie of None \<Rightarrow> True | Some preferred \<Rightarrow> distinct preferred \<and> set preferred \<subseteq> set ids)"

lemma ranked_datasets_Inr:
  "ranked_datasets ids tie = Inr ranked \<Longrightarrow> distinct ids \<Longrightarrow> distinct ranked \<and> set ranked = set ids"
  by (auto simp: ranked_datasets_def res_simps list_all_iff split: option.splits)

lemma ranked_datasets_defined: "(\<exists>ranked. ranked_datasets ids tie = Inr ranked) \<longleftrightarrow> tie_usable ids tie"
  by (auto simp: ranked_datasets_def tie_usable_def res_simps list_all_iff split: option.splits)

lemma ranked_datasets_Inl: "ranked_datasets ids tie = Inl e \<Longrightarrow> e = ValueError \<and> \<not> tie_usable ids tie"
  by (auto simp: ranked_datasets_def tie_usable_def res_simps list_all_iff checkr_def split: option.splits if_splits)

text \<open>What a returned order is.\<close>

definition order_holds :: "string list \<Rightarrow> order_edge list \<Rightarrow> string list \<Rightarrow> string list list \<Rightarrow> bool" where
  "order_holds ids edges ordered comps \<longleftrightarrow> ordered = concat comps \<and> mset ordered = mset ids
     \<and> (\<forall>c \<in> set comps. c \<noteq> [] \<and> (\<forall>x \<in> set c. set c = component_of (order_edges ids edges) x))
     \<and> groups_ordered (order_edges ids edges) comps"

lemma ordered_components_hold:
  assumes "distinct ids" "distinct ranked" "set ranked = set ids"
    and "comps = order_components rank (dataset_components rank ranked (known_pairs rank ids edges)) (known_pairs rank ids edges)"
  shows "order_holds ids edges (concat comps) comps"
proof -
  let ?pairs = "known_pairs rank ranked edges"
  let ?found = "dataset_components rank ranked ?pairs"
  have pairs: "known_pairs rank ids edges = ?pairs" using assms(3) by (intro known_pairs_cong) simp
  have E: "set ?pairs = order_edges ids edges" using set_known_pairs[of rank ids edges] by (simp add: pairs)
  note found = dataset_components[OF known_square[of rank ranked edges], where rank = rank, unfolded E]
  note ordered = groups.order_components[OF assms(4)[unfolded pairs], unfolded E]
  have same: "set comps = set ?found" using ordered(1) by (rule mset_eq_setD)
  have "mset (concat comps) = mset (concat ?found)"
    using arg_cong[OF ordered(1), of "\<lambda>m. \<Sum>\<^sub># (image_mset mset m)"] by (simp add: mset_concat sum_mset_sum_list flip: mset_map)
  also have "mset (concat ?found) = mset ids"
    using found(1,2) assms(1,3) by (metis set_eq_iff_mset_eq_distinct)
  finally have all: "mset (concat comps) = mset ids" .
  show ?thesis using found(3,4) ordered(2) same all unfolding order_holds_def by blast
qed

lemma order_Inr:
  assumes "order_dataset_dependency_components ids edges tie = Inr r"
  shows "distinct ids" "ids = [] \<or> tie_usable ids tie" "order_holds ids edges (co_ordered_ids r) (co_components r)"
proof -
  show ids: "distinct ids" using assms by (simp add: order_dataset_dependency_components_def res_simps)
  show "ids = [] \<or> tie_usable ids tie" using assms ranked_datasets_defined
    by (auto simp: order_dataset_dependency_components_def res_simps split: if_split_asm)
  show "order_holds ids edges (co_ordered_ids r) (co_components r)"
  proof (cases "ids = []")
    case True
    then have "r = \<lparr>co_ordered_ids = [], co_components = []\<rparr>" using assms
      by (simp add: order_dataset_dependency_components_def)
    then show ?thesis by (simp add: True order_holds_def groups_ordered_def)
  next
    case False
    then obtain ranked where ranked: "ranked_datasets ids tie = Inr ranked"
      using assms by (auto simp: order_dataset_dependency_components_def res_simps)
    then show ?thesis using assms False ids ordered_components_hold[OF ids _ _ refl] ranked_datasets_Inr[OF ranked ids]
      by (auto simp: order_dataset_dependency_components_def res_simps Let_def)
  qed
qed

lemma order_defined:
  assumes "distinct ids" "ids = [] \<or> tie_usable ids tie"
  shows "\<exists>r. order_dataset_dependency_components ids edges tie = Inr r"
proof (cases "ids = []")
  case False
  then obtain ranked where ranked: "ranked_datasets ids tie = Inr ranked" using assms(2) ranked_datasets_defined by blast
  let ?rank = "dataset_rank ranked"
  have "order_holds ids edges (concat comps) comps"
    if "comps = order_components ?rank (dataset_components ?rank ranked (known_pairs ?rank ids edges)) (known_pairs ?rank ids edges)" for comps
    using ordered_components_hold[OF assms(1) _ _ that] ranked_datasets_Inr[OF ranked assms(1)] by blast
  then have "length (concat (order_components ?rank (dataset_components ?rank ranked (known_pairs ?rank ids edges))
      (known_pairs ?rank ids edges))) = length ids"
    unfolding order_holds_def by (metis size_mset)
  then show ?thesis using False assms(1) ranked
    by (simp add: order_dataset_dependency_components_def Let_def del: length_concat)
qed (simp add: order_dataset_dependency_components_def)

lemma order_Inl:
  assumes "order_dataset_dependency_components ids edges tie = Inl e"
  shows "e = ValueError"
  using assms ranked_datasets_Inl
  by (auto simp: order_dataset_dependency_components_def res_simps Let_def checkr_def split: if_split_asm)

text \<open>C37: Ordering datasets raises exactly for repeated datasets and for a tie-break order that repeats or invents one:
  the check for an incomplete order never fails.  Otherwise every dataset is ordered once, the groups are exactly the
  datasets that depend on each other through known edges, and no group comes before one it depends on.\<close>

theorem dataset_groups_are_ordered:
  "case order_dataset_dependency_components ids edges tie of
     Inl e \<Rightarrow> e = ValueError \<and> \<not> (distinct ids \<and> (ids = [] \<or> tie_usable ids tie))
   | Inr r \<Rightarrow> distinct ids \<and> (ids = [] \<or> tie_usable ids tie)
       \<and> co_ordered_ids r = concat (co_components r) \<and> mset (co_ordered_ids r) = mset ids
       \<and> (\<forall>c \<in> set (co_components r). c \<noteq> [] \<and> (\<forall>x \<in> set c. set c = component_of (order_edges ids edges) x))
       \<and> groups_ordered (order_edges ids edges) (co_components r)"
proof (cases "order_dataset_dependency_components ids edges tie")
  case (Inl e)
  then show ?thesis using order_Inl[OF Inl] order_defined[of ids tie edges] by auto
next
  case (Inr r)
  from order_Inr[OF Inr] show ?thesis unfolding order_holds_def Inr sum.case by blast
qed

definition sample_edges :: "order_edge list" where
  "sample_edges = [\<lparr>oe_owner = ''o'', oe_dependency = ''p''\<rparr>, \<lparr>oe_owner = ''p'', oe_dependency = ''c''\<rparr>,
     \<lparr>oe_owner = ''c'', oe_dependency = ''p''\<rparr>]"

theorem dataset_groups_are_ordered_witness:
  "\<exists>r. order_dataset_dependency_components [''o'', ''p'', ''c''] sample_edges (Some [''c'']) = Inr r
     \<and> mset (co_ordered_ids r) = {#''o'', ''p'', ''c''#}
     \<and> groups_ordered (order_edges [''o'', ''p'', ''c''] sample_edges) (co_components r)"
  using dataset_groups_are_ordered[of "[''o'', ''p'', ''c'']" "Some [''c'']" sample_edges]
  by (auto simp: tie_usable_def split: sum.splits)


section \<open>Recommendations\<close>

lemma set_applicable: "set (applicable_facts ids facts) = {f \<in> set facts. of_owner f \<in> set ids \<and> of_dependency f \<in> set ids
    \<and> of_owner f \<noteq> of_dependency f}"
  by (simp add: applicable_facts_def)

lemma recommendation_Inr:
  assumes "recommend_dataset_matching_order ids facts tie = Inr r"
  shows "distinct ids" "mset (or_ordered_ids r) = mset ids" "or_facts r = applicable_facts ids facts"
    and "groups_ordered (order_edges ids (map fact_edge (or_facts r))) (or_components r)"
proof -
  obtain order where order: "order_dataset_dependency_components ids (map fact_edge (applicable_facts ids facts)) tie = Inr order"
      and r: "r = \<lparr>or_ordered_ids = co_ordered_ids order, or_components = co_components order, or_facts = applicable_facts ids facts\<rparr>"
    using assms by (auto simp: recommend_dataset_matching_order_def Let_def res_simps)
  note found = order_Inr[OF order, unfolded order_holds_def]
  show "distinct ids" by (rule found(1))
  show "or_facts r = applicable_facts ids facts" by (simp add: r)
  show "mset (or_ordered_ids r) = mset ids" using found(3) unfolding r order_recommendation.simps by blast
  show "groups_ordered (order_edges ids (map fact_edge (or_facts r))) (or_components r)"
    using found(3) unfolding r order_recommendation.simps by blast
qed

lemma order_edges_cong: "set ids = set ids' \<Longrightarrow> order_edges ids edges = order_edges ids' edges"
  by (simp add: order_edges_def)

lemma satisfied_edge_iff: "(owner, dependency, f) \<in> set (satisfied_edges results) \<longleftrightarrow> (\<exists>x \<in> set results. target_satisfied x
    \<and> rr_owner_dataset_id x = owner \<and> rr_dependency_dataset_id x = dependency \<and> rr_target_field x = f)"
  by (auto simp: satisfied_edges_def)

text \<open>C38: A live check refines a local recommendation.  It raises, a ValueError, exactly when there are
  datasets and the tie-break order it is given repeats one or names an unknown one.  Otherwise it keeps
  every dataset, drops exactly the facts whose relationship Odoo satisfies completely, and its groups
  follow every fact that is left, whichever tie-break order it is given, if any.\<close>

theorem live_order_follows_open_facts:
  assumes "recommend_dataset_matching_order ids facts tie = Inr local_order"
  shows "case live_matching_order_recommendation local_order results live_tie of
     Inl e \<Rightarrow> e = ValueError \<and> ids \<noteq> [] \<and> \<not> tie_usable ids live_tie
   | Inr r \<Rightarrow> (ids = [] \<or> tie_usable ids live_tie) \<and> mset (or_ordered_ids r) = mset ids
      \<and> set (or_facts r) = {f \<in> set (or_facts local_order). \<not> (\<exists>x \<in> set results. target_satisfied x
          \<and> rr_owner_dataset_id x = of_owner f \<and> rr_dependency_dataset_id x = of_dependency f
          \<and> rr_target_field x = of_target_field f)}
      \<and> groups_ordered (order_edges ids (map fact_edge (or_facts r))) (or_components r)"
proof -
  let ?ids = "or_ordered_ids local_order"
  let ?open = "filter (\<lambda>f. (of_owner f, of_dependency f, of_target_field f) \<notin> set (satisfied_edges results)) (or_facts local_order)"
  let ?tie = "Some (case live_tie of Some (d # ds) \<Rightarrow> d # ds | _ \<Rightarrow> ?ids)"
  note start = recommendation_Inr[OF assms]
  have ids: "distinct ?ids" "set ?ids = set ids"
    using start(1,2) mset_eq_imp_distinct_iff[OF start(2)] mset_eq_setD[OF start(2)] by simp_all
  have same: "tie_usable ?ids ?tie \<longleftrightarrow> tie_usable ids live_tie" "?ids = [] \<longleftrightarrow> ids = []"
    using ids start(2) by (auto simp: tie_usable_def split: option.splits list.splits)
  have live_def: "live_matching_order_recommendation local_order results live_tie
      = recommend_dataset_matching_order ?ids ?open ?tie"
    by (simp only: live_matching_order_recommendation_def)
  let ?order = "order_dataset_dependency_components ?ids (map fact_edge (applicable_facts ?ids ?open)) ?tie"
  show ?thesis
  proof (cases "recommend_dataset_matching_order ?ids ?open ?tie")
    case (Inl e)
    then have e: "?order = Inl e" by (cases ?order) (simp_all add: recommend_dataset_matching_order_def Let_def)
    then have "\<not> (?ids = [] \<or> tie_usable ?ids ?tie)"
      using order_defined[OF ids(1), of ?tie "map fact_edge (applicable_facts ?ids ?open)"] by fastforce
    then have "ids \<noteq> []" "\<not> tie_usable ids live_tie" unfolding same by blast+
    moreover have "e = ValueError" using order_Inl[OF e] by blast
    ultimately show ?thesis unfolding live_def Inl by simp
  next
    case (Inr r)
    note live = recommendation_Inr[OF Inr]
    obtain order where "?order = Inr order" using Inr by (auto simp: recommend_dataset_matching_order_def Let_def res_simps)
    from order_Inr(2)[OF this] have "ids = [] \<or> tie_usable ids live_tie" unfolding same .
    moreover have "set (or_facts r) = {f \<in> set (or_facts local_order). \<not> (\<exists>x \<in> set results. target_satisfied x
        \<and> rr_owner_dataset_id x = of_owner f \<and> rr_dependency_dataset_id x = of_dependency f
        \<and> rr_target_field x = of_target_field f)}"
      unfolding live(3) set_applicable start(3) ids(2) set_filter satisfied_edge_iff by blast
    moreover have "mset (or_ordered_ids r) = mset ids" using live(2) start(2) by simp
    moreover have "groups_ordered (order_edges ids (map fact_edge (or_facts r))) (or_components r)"
      using live(4) order_edges_cong[OF ids(2)] by simp
    ultimately show ?thesis unfolding live_def Inr by simp
  qed
qed

definition sample_fact :: "string \<Rightarrow> string \<Rightarrow> order_fact" where
  "sample_fact owner dependency = \<lparr>of_owner = owner, of_dependency = dependency, of_source = Saved_Mapping,
     of_confidence = Confirmed, of_target_field = ''ref''\<rparr>"

theorem live_order_follows_open_facts_witness:
  "\<exists>local_order r. recommend_dataset_matching_order [''o'', ''p''] [sample_fact ''o'' ''p''] None = Inr local_order
     \<and> live_matching_order_recommendation local_order [] (Some [''p'']) = Inr r
     \<and> set (or_facts r) = {sample_fact ''o'' ''p''}
     \<and> live_matching_order_recommendation local_order [] (Some [''x'']) = Inl ValueError"
proof -
  obtain order where "order_dataset_dependency_components [''o'', ''p'']
      (map fact_edge (applicable_facts [''o'', ''p''] [sample_fact ''o'' ''p''])) None = Inr order"
    using order_defined[of "[''o'', ''p'']" None] by (auto simp: tie_usable_def)
  then obtain local_order where start: "recommend_dataset_matching_order [''o'', ''p''] [sample_fact ''o'' ''p''] None = Inr local_order"
    by (auto simp: recommend_dataset_matching_order_def)
  have facts: "set (or_facts local_order) = {sample_fact ''o'' ''p''}"
    unfolding recommendation_Inr(3)[OF start] set_applicable by (auto simp: sample_fact_def)
  have usable: "tie_usable [''o'', ''p''] (Some [''p''])" "\<not> tie_usable [''o'', ''p''] (Some [''x''])"
    by (simp_all add: tie_usable_def)
  obtain r where "live_matching_order_recommendation local_order [] (Some [''p'']) = Inr r"
    "set (or_facts r) = {sample_fact ''o'' ''p''}"
    using live_order_follows_open_facts[OF start, where results = "[]" and live_tie = "Some [''p'']"] usable(1) facts by (auto split: sum.splits)
  moreover have "live_matching_order_recommendation local_order [] (Some [''x'']) = Inl ValueError"
    using live_order_follows_open_facts[OF start, where results = "[]" and live_tie = "Some [''x'']"] usable(2) by (auto split: sum.splits)
  ultimately show ?thesis using start by blast
qed

end
