(* ===== verification/Matching_Health.thy ===== *)
theory Matching_Health
imports Target_Catalog
begin

text \<open>
  What a live check counts: the identities of a dataset against Odoo (\<open>classify_matching_identity\<close> of
  \<open>domain/matching_order.py\<close>) and the choices of a relationship (\<open>domain/relationship_health.py\<close>).  A \<open>Counter\<close> is a
  dictionary of numbers.
\<close>


section \<open>Counting\<close>

definition count_add :: "('k \<times> int) list \<Rightarrow> 'k \<Rightarrow> int \<Rightarrow> ('k \<times> int) list" where
  "count_add d k n = dict_set d k (dict_get d k 0 + n)"

definition counter :: "'k list \<Rightarrow> ('k \<times> int) list" where
  "counter ks = fold (\<lambda>k d. count_add d k 1) ks []"

definition count_total :: "('k \<times> int) list \<Rightarrow> int" where
  "count_total d = sum_list (map snd d)"

text \<open>\<open>str(value).strip()\<close> of a value that is not \<open>None\<close>, \<open>False\<close> or blank.\<close>

definition present_text :: "pvalue \<Rightarrow> string option" where
  "present_text v = (if v = PNone \<or> v = PBool False \<or> strip (python_str v) = [] then None else Some (strip (python_str v)))"


section \<open>Identities\<close>

datatype mapping_target_mode = Upsert_Rows | Create_Rows | Reference_Rows | Pinned_Update_Rows

datatype check_status = Checked | Not_Checkable

datatype identity_reason = Mapping_Incomplete | Unconfirmed_Matching_Rule | Indirect_Identity | Relational_Identity_Unresolved
  | Unsupported_Target_Field | Source_Evidence_Unavailable | Odoo_Pinned_Selection | Odoo_Schema_Changed

record identity_result =
  mi_dataset_id :: string
  mi_target_model :: string
  mi_target_fields :: "string list"
  mi_status :: check_status
  mi_not_checkable_reason :: "identity_reason option"
  mi_source_row_count :: int
  mi_source_unique_row_count :: int
  mi_source_blank_row_count :: int
  mi_source_repeated_row_count :: int
  mi_source_repeated_group_count :: int
  mi_target_unique_key_count :: int
  mi_target_ambiguous_key_count :: int
  mi_expected_new_count :: int
  mi_expected_existing_count :: int
  mi_blocked_count :: int

definition identity_counts :: "identity_result \<Rightarrow> int list" where
  "identity_counts r = [mi_source_row_count r, mi_source_unique_row_count r, mi_source_blank_row_count r,
     mi_source_repeated_row_count r, mi_source_repeated_group_count r, mi_target_unique_key_count r,
     mi_target_ambiguous_key_count r, mi_expected_new_count r, mi_expected_existing_count r, mi_blocked_count r]"

definition mk_identity_result :: "identity_result \<Rightarrow> identity_result res" where
  "mk_identity_result r =
     bindr (checkr (mi_dataset_id r \<noteq> [] \<and> mi_target_model r \<noteq> []) WorkspaceError) (\<lambda>_.
     bindr (checkr (distinct (mi_target_fields r)) WorkspaceError) (\<lambda>_.
     bindr (checkr (list_all (\<lambda>n. 0 \<le> n) (identity_counts r)) WorkspaceError) (\<lambda>_.
     bindr (checkr (case mi_status r of
         Checked \<Rightarrow> mi_not_checkable_reason r = None \<and> mi_target_fields r \<noteq> []
           \<and> mi_source_unique_row_count r + mi_source_blank_row_count r + mi_source_repeated_row_count r = mi_source_row_count r
           \<and> mi_expected_new_count r + mi_expected_existing_count r + mi_blocked_count r = mi_source_row_count r
       | Not_Checkable \<Rightarrow> mi_not_checkable_reason r \<noteq> None \<and> list_all (\<lambda>n. n = 0) (identity_counts r)) WorkspaceError) (\<lambda>_.
     Inr r))))"

type_synonym identity_row = "string option list"

record identity_key_index =
  ik_target_fields :: "string list"
  ik_source_rows :: "identity_row list"
  ik_source_counts :: "(identity_row \<times> int) list"
  ik_target_counts :: "(identity_row \<times> int) list"

definition normalized_identity_key :: "pvalue list \<Rightarrow> identity_row" where
  "normalized_identity_key key = map present_text key"

definition complete_row :: "identity_row \<Rightarrow> bool" where
  "complete_row k = list_all (\<lambda>v. v \<noteq> None) k"

definition index_matching_identity_keys :: "string list \<Rightarrow> pvalue list list \<Rightarrow> pvalue list list \<Rightarrow> identity_key_index res" where
  "index_matching_identity_keys fs source_rows target_rows =
     bindr (checkr (fs \<noteq> [] \<and> list_all (\<lambda>f. f \<noteq> []) fs \<and> distinct fs) WorkspaceError) (\<lambda>_.
     bindr (checkr (list_all (\<lambda>k. length k = length fs) (source_rows @ target_rows)) WorkspaceError) (\<lambda>_.
     Inr \<lparr>ik_target_fields = fs, ik_source_rows = map normalized_identity_key source_rows,
       ik_source_counts = counter (filter complete_row (map normalized_identity_key source_rows)),
       ik_target_counts = counter (filter complete_row (map normalized_identity_key target_rows))\<rparr>))"

datatype key_outcome = Expected_New | Expected_Existing | Expected_Blocked

text \<open>The body of the loop over the unique source keys.\<close>

definition unique_key_outcome :: "mapping_target_mode \<Rightarrow> string option \<Rightarrow> int \<Rightarrow> key_outcome" where
  "unique_key_outcome mode on_existing match_count =
    (if match_count > 1 then Expected_Blocked
     else if match_count = 1 then
       (if mode = Create_Rows \<and> on_existing \<noteq> Some ''unchanged'' then Expected_Blocked else Expected_Existing)
     else if mode = Reference_Rows then Expected_Blocked else Expected_New)"

definition classify_indexed_matching_identity :: "identity_key_index \<Rightarrow> string \<Rightarrow> string \<Rightarrow> mapping_target_mode
    \<Rightarrow> string option \<Rightarrow> identity_result res" where
  "classify_indexed_matching_identity index dataset_id model mode on_existing =
    (let sources = ik_source_counts index; targets = ik_target_counts index;
         blank_rows = int (length (filter (\<lambda>k. \<not> complete_row k) (ik_source_rows index)));
         unique_keys = map fst (filter (\<lambda>(k, n). n = 1) sources);
         repeated = filter (\<lambda>(k, n). n > 1) sources;
         outcomes = map (\<lambda>k. unique_key_outcome mode on_existing (dict_get targets k 0)) unique_keys;
         reached = (\<lambda>x. int (length (filter (\<lambda>y. y = x) outcomes))) in
     mk_identity_result \<lparr>mi_dataset_id = dataset_id, mi_target_model = model, mi_target_fields = ik_target_fields index,
       mi_status = Checked, mi_not_checkable_reason = None,
       mi_source_row_count = int (length (ik_source_rows index)),
       mi_source_unique_row_count = int (length unique_keys),
       mi_source_blank_row_count = blank_rows,
       mi_source_repeated_row_count = count_total repeated,
       mi_source_repeated_group_count = int (length repeated),
       mi_target_unique_key_count = int (length (filter (\<lambda>(k, _). dict_get targets k 0 = 1) sources)),
       mi_target_ambiguous_key_count = int (length (filter (\<lambda>(k, _). dict_get targets k 0 > 1) sources)),
       mi_expected_new_count = reached Expected_New, mi_expected_existing_count = reached Expected_Existing,
       mi_blocked_count = blank_rows + count_total repeated + reached Expected_Blocked\<rparr>)"

definition classify_matching_identity :: "string \<Rightarrow> string \<Rightarrow> string list \<Rightarrow> pvalue list list \<Rightarrow> pvalue list list
    \<Rightarrow> mapping_target_mode \<Rightarrow> string option \<Rightarrow> identity_result res" where
  "classify_matching_identity dataset_id model fs source_keys target_keys mode on_existing =
     bindr (index_matching_identity_keys fs source_keys target_keys) (\<lambda>index.
     classify_indexed_matching_identity index dataset_id model mode on_existing)"


section \<open>Relationships\<close>

datatype resolver_origin = Dataset_Origin | Target_Catalog_Origin | Target_Then_Dataset_Origin

datatype health_reason = Health_Mapping_Incomplete | Health_Unconfirmed_Rule | Health_Unsupported_Relationship
  | Health_One2many_Inverse_Required | Health_Related_Dataset_Unavailable | Health_Related_Identity_Unavailable
  | Health_Source_Evidence_Unavailable | Health_Evidence_Limit_Exceeded | Health_Odoo_Schema_Changed

record health_result =
  rh_owner_dataset_id :: string
  rh_target_field :: string
  rh_relationship_kind :: string
  rh_resolver_origin :: resolver_origin
  rh_related_model :: string
  rh_dependency_dataset_id :: "string option"
  rh_required :: bool
  rh_status :: check_status
  rh_not_checkable_reason :: "health_reason option"
  rh_source_row_count :: int
  rh_populated_choice_count :: int
  rh_blank_row_count :: int
  rh_incomplete_row_count :: int
  rh_target_count :: int
  rh_incoming_count :: int
  rh_missing_count :: int
  rh_ambiguous_count :: int
  rh_case_mismatch_count :: int

definition health_counts :: "health_result \<Rightarrow> int list" where
  "health_counts r = [rh_source_row_count r, rh_populated_choice_count r, rh_blank_row_count r, rh_incomplete_row_count r,
     rh_target_count r, rh_incoming_count r, rh_missing_count r, rh_ambiguous_count r, rh_case_mismatch_count r]"

definition mk_health_result :: "health_result \<Rightarrow> health_result res" where
  "mk_health_result r =
     bindr (checkr (rh_owner_dataset_id r \<noteq> [] \<and> rh_target_field r \<noteq> [] \<and> rh_relationship_kind r \<noteq> []
       \<and> rh_related_model r \<noteq> []) WorkspaceError) (\<lambda>_.
     bindr (checkr (\<not> (rh_status r = Checked \<and> rh_resolver_origin r \<in> {Dataset_Origin, Target_Then_Dataset_Origin}
       \<and> rh_dependency_dataset_id r \<in> {None, Some []})) WorkspaceError) (\<lambda>_.
     bindr (checkr (list_all (\<lambda>n. 0 \<le> n) (health_counts r)) WorkspaceError) (\<lambda>_.
     bindr (checkr (case rh_status r of
         Checked \<Rightarrow> rh_not_checkable_reason r = None
           \<and> rh_blank_row_count r + rh_incomplete_row_count r \<le> rh_source_row_count r
           \<and> rh_target_count r + rh_incoming_count r + rh_missing_count r + rh_ambiguous_count r + rh_case_mismatch_count r
               = rh_populated_choice_count r
       | Not_Checkable \<Rightarrow> rh_not_checkable_reason r \<noteq> None \<and> list_all (\<lambda>n. n = 0) (health_counts r)) WorkspaceError) (\<lambda>_.
     Inr r))))"

definition health_blocked_count :: "health_result \<Rightarrow> int" where
  "health_blocked_count r = rh_missing_count r + rh_ambiguous_count r + rh_case_mismatch_count r + rh_incomplete_row_count r
     + (if rh_required r then rh_blank_row_count r else 0)"

definition health_ready :: "health_result \<Rightarrow> bool" where
  "health_ready r \<longleftrightarrow> rh_status r = Checked \<and> health_blocked_count r = 0"

datatype choice_cause = Missing_Choice | Ambiguous_Choice | Case_Only_Choice | Incomplete_Choice | Required_Blank_Choice

type_synonym choice_key = "string list"

record choice_resolution =
  cr_key :: choice_key
  cr_cause :: choice_cause
  cr_occurrence_count :: int
  cr_target_match_count :: int
  cr_incoming_match_count :: int
  cr_match_origin :: string

definition normalized_key :: "pvalue list \<Rightarrow> choice_key option" where
  "normalized_key raw = (if raw = [] \<or> list_ex (\<lambda>v. present_text v = None) raw then None
     else Some (map (\<lambda>v. the (present_text v)) raw))"

definition normalized_count_map :: "(pvalue list \<times> int) list \<Rightarrow> (choice_key \<times> int) list res" where
  "normalized_count_map entries = foldr_res (\<lambda>d (raw, n). case normalized_key raw of
       None \<Rightarrow> Inl WorkspaceError
     | Some key \<Rightarrow> if n < 1 then Inl WorkspaceError else Inr (count_add d key n)) [] entries"

definition folded_key :: "choice_key \<Rightarrow> choice_key" where
  "folded_key key = map casefold key"

definition folded_counts :: "(choice_key \<times> int) list \<Rightarrow> (choice_key \<times> int) list" where
  "folded_counts counts = fold (\<lambda>(key, n) d. count_add d (folded_key key) n) counts []"

datatype lookup_outcome = Lookup_Exact | Lookup_Case | Lookup_Ambiguous | Lookup_Missing

definition choice_lookup :: "choice_key \<Rightarrow> (choice_key \<times> int) list \<Rightarrow> (choice_key \<times> int) list \<Rightarrow> lookup_outcome" where
  "choice_lookup key exact folded =
    (let n = dict_get exact key 0; m = dict_get folded (folded_key key) 0 in
     if n = 1 then Lookup_Exact else if n > 1 then Lookup_Ambiguous
     else if m = 1 then Lookup_Case else if m > 1 then Lookup_Ambiguous else Lookup_Missing)"

definition lookup_count :: "choice_key \<Rightarrow> (choice_key \<times> int) list \<Rightarrow> (choice_key \<times> int) list \<Rightarrow> int" where
  "lookup_count key exact folded =
    (if dict_get exact key 0 \<noteq> 0 then dict_get exact key 0 else dict_get folded (folded_key key) 0)"

datatype choice_category = Target_Choice | Incoming_Choice | Unresolved_Choice choice_cause

text \<open>One key of the loop: its category and, where it is unresolved, its match counts and origin.\<close>

definition resolve_choice :: "resolver_origin \<Rightarrow> bool \<Rightarrow> (choice_key \<times> int) list \<times> (choice_key \<times> int) list
    \<Rightarrow> (choice_key \<times> int) list \<times> (choice_key \<times> int) list \<Rightarrow> choice_key \<Rightarrow> choice_category \<times> int \<times> int \<times> string" where
  "resolve_choice origin reuse targets incomings key =
    (let target = (if origin \<in> {Target_Catalog_Origin, Target_Then_Dataset_Origin}
           then choice_lookup key (fst targets) (snd targets) else Lookup_Missing);
         incoming = (if origin \<in> {Dataset_Origin, Target_Then_Dataset_Origin}
           then choice_lookup key (fst incomings) (snd incomings) else Lookup_Missing);
         found = lookup_count key (fst targets) (snd targets); arriving = lookup_count key (fst incomings) (snd incomings) in
     if target = Lookup_Exact \<or> reuse \<and> target = Lookup_Case then (Target_Choice, 0, 0, [])
     else if target = Lookup_Ambiguous then (Unresolved_Choice Ambiguous_Choice, found, 0, ''target'')
     else if target = Lookup_Case then (Unresolved_Choice Case_Only_Choice, found, 0, ''target'')
     else case incoming of
         Lookup_Exact \<Rightarrow> (Incoming_Choice, 0, 0, [])
       | Lookup_Ambiguous \<Rightarrow> (Unresolved_Choice Ambiguous_Choice, 0, arriving, ''incoming'')
       | Lookup_Case \<Rightarrow> (Unresolved_Choice Case_Only_Choice, 0, arriving, ''incoming'')
       | Lookup_Missing \<Rightarrow> (Unresolved_Choice Missing_Choice, 0, 0, if origin = Target_Catalog_Origin then ''target''
           else if origin = Dataset_Origin then ''incoming'' else ''both''))"

fun choice_outcome_text :: "choice_category \<Rightarrow> string" where
  "choice_outcome_text Target_Choice = ''target''"
| "choice_outcome_text Incoming_Choice = ''incoming''"
| "choice_outcome_text (Unresolved_Choice Ambiguous_Choice) = ''ambiguous''"
| "choice_outcome_text (Unresolved_Choice Case_Only_Choice) = ''case_only''"
| "choice_outcome_text (Unresolved_Choice _) = ''missing''"

definition unresolved_choice :: "choice_key \<times> int \<Rightarrow> choice_category \<times> int \<times> int \<times> string \<Rightarrow> choice_resolution list" where
  "unresolved_choice item found = (case found of
     (Unresolved_Choice cause, target_matches, incoming_matches, origin) \<Rightarrow>
       [\<lparr>cr_key = fst item, cr_cause = cause, cr_occurrence_count = snd item, cr_target_match_count = target_matches,
         cr_incoming_match_count = incoming_matches, cr_match_origin = origin\<rparr>]
   | _ \<Rightarrow> [])"

record health_input =
  hq_owner_dataset_id :: string
  hq_target_field :: string
  hq_relationship_kind :: string
  hq_resolver_origin :: resolver_origin
  hq_related_model :: string
  hq_dependency_dataset_id :: "string option"
  hq_required :: bool
  hq_source_row_count :: int
  hq_source_key_counts :: "(pvalue list \<times> int) list"
  hq_blank_row_count :: int
  hq_incomplete_row_count :: int
  hq_target_keys :: "pvalue list list"
  hq_incoming_key_counts :: "(pvalue list \<times> int) list"

text \<open>The result, the unresolved choices and the outcome of every key; a caller may drop the last two.\<close>

definition classify_relationship_health :: "health_input
    \<Rightarrow> (health_result \<times> choice_resolution list \<times> (choice_key \<times> string) list) res" where
  "classify_relationship_health q =
     bindr (normalized_count_map (hq_source_key_counts q)) (\<lambda>sources.
     bindr (normalized_count_map (hq_incoming_key_counts q)) (\<lambda>incomings.
     let targets = List.map_filter normalized_key (hq_target_keys q) in
     bindr (checkr (length (remdups (map length (map fst sources @ map fst incomings @ targets))) \<le> 1) WorkspaceError) (\<lambda>_.
     let target_counts = counter targets;
         reuse = (hq_resolver_origin q = Target_Then_Dataset_Origin
           \<and> allows_case_insensitive_payment_term_lookup (hq_related_model q));
         found = map (\<lambda>item. (item, resolve_choice (hq_resolver_origin q) reuse (target_counts, folded_counts target_counts)
           (incomings, folded_counts incomings) (fst item))) sources;
         summed = (\<lambda>c. sum_list (map (\<lambda>(item, r). if fst r = c then snd item else 0) found)) in
     bindr (mk_health_result \<lparr>rh_owner_dataset_id = hq_owner_dataset_id q, rh_target_field = hq_target_field q,
       rh_relationship_kind = hq_relationship_kind q, rh_resolver_origin = hq_resolver_origin q,
       rh_related_model = hq_related_model q, rh_dependency_dataset_id = hq_dependency_dataset_id q,
       rh_required = hq_required q, rh_status = Checked, rh_not_checkable_reason = None,
       rh_source_row_count = hq_source_row_count q, rh_populated_choice_count = count_total sources,
       rh_blank_row_count = hq_blank_row_count q, rh_incomplete_row_count = hq_incomplete_row_count q,
       rh_target_count = summed Target_Choice, rh_incoming_count = summed Incoming_Choice,
       rh_missing_count = summed (Unresolved_Choice Missing_Choice),
       rh_ambiguous_count = summed (Unresolved_Choice Ambiguous_Choice),
       rh_case_mismatch_count = summed (Unresolved_Choice Case_Only_Choice)\<rparr>) (\<lambda>r.
     Inr (r, concat (map (\<lambda>(item, found). unresolved_choice item found) found),
       map (\<lambda>(item, found). (fst item, choice_outcome_text (fst found))) found)))))"


section \<open>Portable results\<close>

text \<open>\<open>str(value)\<close> of a JSON value.\<close>

fun json_repr :: "json \<Rightarrow> string" where
  "json_repr JNull = ''None''"
| "json_repr (JBool b) = (if b then ''True'' else ''False'')"
| "json_repr (JInt i) = int_text i"
| "json_repr (JText s) = repr_text s"
| "json_repr (JArray js) = ''['' @ spaced (map json_repr js) @ '']''"
| "json_repr (JObject kvs) = ''{'' @ spaced (map (\<lambda>(k, j). repr_text k @ '': '' @ json_repr j) kvs) @ ''}''"

definition json_str :: "json \<Rightarrow> string" where
  "json_str j = (case j of JText s \<Rightarrow> s | _ \<Rightarrow> json_repr j)"

type_synonym payload = "(string \<times> json) list"

definition payload_text :: "payload \<Rightarrow> string \<Rightarrow> string res" where
  "payload_text p k = (case map_of p k of None \<Rightarrow> Inl LookupError | Some j \<Rightarrow> Inr (json_str j))"

definition payload_optional :: "payload \<Rightarrow> string \<Rightarrow> string option" where
  "payload_optional p k = (case map_of p k of None \<Rightarrow> None | Some j \<Rightarrow> if j = JNull then None else Some (json_str j))"

text \<open>\<open>_matching_count\<close> and \<open>_portable_count\<close>.\<close>

definition payload_count :: "payload \<Rightarrow> string \<Rightarrow> int res" where
  "payload_count p k = (case dict_get p k (JInt 0) of JInt i \<Rightarrow> Inr i | _ \<Rightarrow> Inl WorkspaceError)"

definition payload_flag :: "payload \<Rightarrow> string \<Rightarrow> bool res" where
  "payload_flag p k = (case dict_get p k JNull of JBool b \<Rightarrow> Inr b | _ \<Rightarrow> Inl WorkspaceError)"

fun status_text :: "check_status \<Rightarrow> string" where
  "status_text Checked = ''CHECKED''"
| "status_text Not_Checkable = ''NOT_CHECKABLE''"

fun identity_reason_text :: "identity_reason \<Rightarrow> string" where
  "identity_reason_text Mapping_Incomplete = ''MAPPING_INCOMPLETE''"
| "identity_reason_text Unconfirmed_Matching_Rule = ''UNCONFIRMED_MATCHING_RULE''"
| "identity_reason_text Indirect_Identity = ''INDIRECT_IDENTITY''"
| "identity_reason_text Relational_Identity_Unresolved = ''RELATIONAL_IDENTITY_UNRESOLVED''"
| "identity_reason_text Unsupported_Target_Field = ''UNSUPPORTED_TARGET_FIELD''"
| "identity_reason_text Source_Evidence_Unavailable = ''SOURCE_EVIDENCE_UNAVAILABLE''"
| "identity_reason_text Odoo_Pinned_Selection = ''ODOO_PINNED_SELECTION''"
| "identity_reason_text Odoo_Schema_Changed = ''ODOO_SCHEMA_CHANGED''"

fun health_reason_text :: "health_reason \<Rightarrow> string" where
  "health_reason_text Health_Mapping_Incomplete = ''MAPPING_INCOMPLETE''"
| "health_reason_text Health_Unconfirmed_Rule = ''UNCONFIRMED_MATCHING_RULE''"
| "health_reason_text Health_Unsupported_Relationship = ''UNSUPPORTED_RELATIONSHIP''"
| "health_reason_text Health_One2many_Inverse_Required = ''ONE2MANY_INVERSE_REQUIRED''"
| "health_reason_text Health_Related_Dataset_Unavailable = ''RELATED_DATASET_UNAVAILABLE''"
| "health_reason_text Health_Related_Identity_Unavailable = ''RELATED_IDENTITY_UNAVAILABLE''"
| "health_reason_text Health_Source_Evidence_Unavailable = ''SOURCE_EVIDENCE_UNAVAILABLE''"
| "health_reason_text Health_Evidence_Limit_Exceeded = ''EVIDENCE_LIMIT_EXCEEDED''"
| "health_reason_text Health_Odoo_Schema_Changed = ''ODOO_SCHEMA_CHANGED''"

fun resolver_origin_text :: "resolver_origin \<Rightarrow> string" where
  "resolver_origin_text Dataset_Origin = ''dataset''"
| "resolver_origin_text Target_Catalog_Origin = ''target_catalog''"
| "resolver_origin_text Target_Then_Dataset_Origin = ''target_then_dataset''"

text \<open>The member of an enumeration with a value: \<open>ValueError\<close> if there is none.\<close>

definition member_of :: "('a \<Rightarrow> string) \<Rightarrow> 'a list \<Rightarrow> string \<Rightarrow> 'a res" where
  "member_of name members s = (case List.find (\<lambda>m. name m = s) members of None \<Rightarrow> Inl ValueError | Some m \<Rightarrow> Inr m)"

definition statuses :: "check_status list" where
  "statuses = [Checked, Not_Checkable]"

definition identity_reasons :: "identity_reason list" where
  "identity_reasons = [Mapping_Incomplete, Unconfirmed_Matching_Rule, Indirect_Identity, Relational_Identity_Unresolved,
     Unsupported_Target_Field, Source_Evidence_Unavailable, Odoo_Pinned_Selection, Odoo_Schema_Changed]"

definition health_reasons :: "health_reason list" where
  "health_reasons = [Health_Mapping_Incomplete, Health_Unconfirmed_Rule, Health_Unsupported_Relationship,
     Health_One2many_Inverse_Required, Health_Related_Dataset_Unavailable, Health_Related_Identity_Unavailable,
     Health_Source_Evidence_Unavailable, Health_Evidence_Limit_Exceeded, Health_Odoo_Schema_Changed]"

definition resolver_origins :: "resolver_origin list" where
  "resolver_origins = [Dataset_Origin, Target_Catalog_Origin, Target_Then_Dataset_Origin]"

definition reason_json :: "('a \<Rightarrow> string) \<Rightarrow> 'a option \<Rightarrow> json" where
  "reason_json name r = (case r of None \<Rightarrow> JNull | Some x \<Rightarrow> JText (name x))"

definition optional_member :: "('a \<Rightarrow> string) \<Rightarrow> 'a list \<Rightarrow> string option \<Rightarrow> 'a option res" where
  "optional_member name members s = (case s of None \<Rightarrow> Inr None | Some t \<Rightarrow> bindr (member_of name members t) (\<lambda>m. Inr (Some m)))"

definition identity_result_dict :: "identity_result \<Rightarrow> payload" where
  "identity_result_dict r = [(''dataset_id'', JText (mi_dataset_id r)), (''target_model'', JText (mi_target_model r)),
     (''target_fields'', JArray (map JText (mi_target_fields r))), (''status'', JText (status_text (mi_status r))),
     (''not_checkable_reason'', reason_json identity_reason_text (mi_not_checkable_reason r)),
     (''source_row_count'', JInt (mi_source_row_count r)), (''source_unique_row_count'', JInt (mi_source_unique_row_count r)),
     (''source_blank_row_count'', JInt (mi_source_blank_row_count r)),
     (''source_repeated_row_count'', JInt (mi_source_repeated_row_count r)),
     (''source_repeated_group_count'', JInt (mi_source_repeated_group_count r)),
     (''target_unique_key_count'', JInt (mi_target_unique_key_count r)),
     (''target_ambiguous_key_count'', JInt (mi_target_ambiguous_key_count r)),
     (''expected_new_count'', JInt (mi_expected_new_count r)), (''expected_existing_count'', JInt (mi_expected_existing_count r)),
     (''blocked_count'', JInt (mi_blocked_count r))]"

fun json_texts :: "json list \<Rightarrow> string list res" where
  "json_texts [] = Inr []"
| "json_texts (JText s # js) = bindr (json_texts js) (\<lambda>ss. Inr (s # ss))"
| "json_texts _ = Inl WorkspaceError"

definition payload_texts :: "payload \<Rightarrow> string \<Rightarrow> string list res" where
  "payload_texts p k = (case dict_get p k (JArray []) of JArray js \<Rightarrow> json_texts js | _ \<Rightarrow> Inl WorkspaceError)"

definition identity_result_from_dict :: "payload \<Rightarrow> identity_result res" where
  "identity_result_from_dict p =
     bindr (payload_texts p ''target_fields'') (\<lambda>fs.
     bindr (payload_text p ''dataset_id'') (\<lambda>dataset_id.
     bindr (payload_text p ''target_model'') (\<lambda>model.
     bindr (payload_text p ''status'') (\<lambda>status_name.
     bindr (member_of status_text statuses status_name) (\<lambda>status.
     bindr (optional_member identity_reason_text identity_reasons (payload_optional p ''not_checkable_reason'')) (\<lambda>reason.
     bindr (payload_count p ''source_row_count'') (\<lambda>rows.
     bindr (payload_count p ''source_unique_row_count'') (\<lambda>unique_rows.
     bindr (payload_count p ''source_blank_row_count'') (\<lambda>blank_rows.
     bindr (payload_count p ''source_repeated_row_count'') (\<lambda>repeated_rows.
     bindr (payload_count p ''source_repeated_group_count'') (\<lambda>repeated_groups.
     bindr (payload_count p ''target_unique_key_count'') (\<lambda>unique_keys.
     bindr (payload_count p ''target_ambiguous_key_count'') (\<lambda>ambiguous_keys.
     bindr (payload_count p ''expected_new_count'') (\<lambda>expected_new.
     bindr (payload_count p ''expected_existing_count'') (\<lambda>expected_existing.
     bindr (payload_count p ''blocked_count'') (\<lambda>blocked.
     mk_identity_result \<lparr>mi_dataset_id = dataset_id, mi_target_model = model, mi_target_fields = fs, mi_status = status,
       mi_not_checkable_reason = reason, mi_source_row_count = rows, mi_source_unique_row_count = unique_rows,
       mi_source_blank_row_count = blank_rows, mi_source_repeated_row_count = repeated_rows,
       mi_source_repeated_group_count = repeated_groups, mi_target_unique_key_count = unique_keys,
       mi_target_ambiguous_key_count = ambiguous_keys, mi_expected_new_count = expected_new,
       mi_expected_existing_count = expected_existing, mi_blocked_count = blocked\<rparr>))))))))))))))))"

definition health_result_dict :: "health_result \<Rightarrow> payload" where
  "health_result_dict r = [(''owner_dataset_id'', JText (rh_owner_dataset_id r)), (''target_field'', JText (rh_target_field r)),
     (''relationship_kind'', JText (rh_relationship_kind r)),
     (''resolver_origin'', JText (resolver_origin_text (rh_resolver_origin r))), (''related_model'', JText (rh_related_model r)),
     (''dependency_dataset_id'', case rh_dependency_dataset_id r of None \<Rightarrow> JNull | Some d \<Rightarrow> JText d),
     (''required'', JBool (rh_required r)), (''status'', JText (status_text (rh_status r))),
     (''not_checkable_reason'', reason_json health_reason_text (rh_not_checkable_reason r)),
     (''source_row_count'', JInt (rh_source_row_count r)), (''populated_choice_count'', JInt (rh_populated_choice_count r)),
     (''blank_row_count'', JInt (rh_blank_row_count r)), (''incomplete_row_count'', JInt (rh_incomplete_row_count r)),
     (''target_count'', JInt (rh_target_count r)), (''incoming_count'', JInt (rh_incoming_count r)),
     (''missing_count'', JInt (rh_missing_count r)), (''ambiguous_count'', JInt (rh_ambiguous_count r)),
     (''case_mismatch_count'', JInt (rh_case_mismatch_count r))]"

definition health_result_from_dict :: "payload \<Rightarrow> health_result res" where
  "health_result_from_dict p =
     bindr (payload_text p ''owner_dataset_id'') (\<lambda>dataset_id.
     bindr (payload_text p ''target_field'') (\<lambda>target_field.
     bindr (payload_text p ''relationship_kind'') (\<lambda>kind.
     bindr (payload_text p ''resolver_origin'') (\<lambda>origin_name.
     bindr (member_of resolver_origin_text resolver_origins origin_name) (\<lambda>origin.
     bindr (payload_text p ''related_model'') (\<lambda>model.
     bindr (payload_flag p ''required'') (\<lambda>needed.
     bindr (payload_text p ''status'') (\<lambda>status_name.
     bindr (member_of status_text statuses status_name) (\<lambda>status.
     bindr (optional_member health_reason_text health_reasons (payload_optional p ''not_checkable_reason'')) (\<lambda>reason.
     bindr (payload_count p ''source_row_count'') (\<lambda>rows.
     bindr (payload_count p ''populated_choice_count'') (\<lambda>choices.
     bindr (payload_count p ''blank_row_count'') (\<lambda>blank_rows.
     bindr (payload_count p ''incomplete_row_count'') (\<lambda>incomplete_rows.
     bindr (payload_count p ''target_count'') (\<lambda>target.
     bindr (payload_count p ''incoming_count'') (\<lambda>incoming.
     bindr (payload_count p ''missing_count'') (\<lambda>missing.
     bindr (payload_count p ''ambiguous_count'') (\<lambda>ambiguous.
     bindr (payload_count p ''case_mismatch_count'') (\<lambda>case_mismatch.
     mk_health_result \<lparr>rh_owner_dataset_id = dataset_id, rh_target_field = target_field, rh_relationship_kind = kind,
       rh_resolver_origin = origin, rh_related_model = model,
       rh_dependency_dataset_id = payload_optional p ''dependency_dataset_id'', rh_required = needed, rh_status = status,
       rh_not_checkable_reason = reason, rh_source_row_count = rows, rh_populated_choice_count = choices,
       rh_blank_row_count = blank_rows, rh_incomplete_row_count = incomplete_rows, rh_target_count = target,
       rh_incoming_count = incoming, rh_missing_count = missing, rh_ambiguous_count = ambiguous,
       rh_case_mismatch_count = case_mismatch\<rparr>)))))))))))))))))))"

end
