(* ===== verification/Matching_Health_Properties.thy ===== *)
theory Matching_Health_Properties
imports Matching_Health
begin

text \<open>
  The counts of a live check: every source row of an identity is expected in exactly one way, a relationship is ready
  exactly when no choice is left to correct, and the aggregate results survive their portable form.
\<close>


section \<open>Counters\<close>

lemma get_count_add: "dict_get (count_add d k n) k' 0 = dict_get d k' 0 + (if k' = k then n else 0)"
  by (simp add: count_add_def dict_get_set)

lemma counter_fold:
  "dict_get (fold (\<lambda>k d. count_add d k 1) ks d) k 0 = dict_get d k 0 + int (count_list ks k)"
  by (induction ks arbitrary: d) (auto simp: get_count_add)

lemma get_counter: "dict_get (counter ks) k 0 = int (count_list ks k)"
  by (simp add: counter_def counter_fold)

lemma keys_count_add: "fst ` set (count_add d k n) = insert k (fst ` set d)"
  by (simp add: count_add_def keys_dict_set)

lemma distinct_count_add: "distinct (map fst d) \<Longrightarrow> distinct (map fst (count_add d k n))"
  by (simp add: count_add_def distinct_dict_set)

lemma counter_keys: "fst ` set (counter ks) = set ks" "distinct (map fst (counter ks))"
proof -
  have "fst ` set (fold (\<lambda>k d. count_add d k 1) ks d) = set ks \<union> fst ` set d
      \<and> (distinct (map fst d) \<longrightarrow> distinct (map fst (fold (\<lambda>k d. count_add d k 1) ks d)))" for d :: "('a \<times> int) list"
    by (induction ks arbitrary: d) (auto simp: keys_count_add distinct_count_add)
  from this[of "[]"] show "fst ` set (counter ks) = set ks" "distinct (map fst (counter ks))"
    by (simp_all add: counter_def)
qed

lemma counter_entry: "(k, n) \<in> set (counter ks) \<longleftrightarrow> k \<in> set ks \<and> n = int (count_list ks k)"
proof
  assume "(k, n) \<in> set (counter ks)"
  then show "k \<in> set ks \<and> n = int (count_list ks k)"
    using counter_keys[of ks] get_counter[of ks k] by (force simp: dict_get_def)
next
  assume k: "k \<in> set ks \<and> n = int (count_list ks k)"
  then obtain m where "(k, m) \<in> set (counter ks)" using counter_keys(1)[of ks] by force
  moreover from this have "m = n" using k counter_keys(2)[of ks] get_counter[of ks k] by (simp add: dict_get_def)
  ultimately show "(k, n) \<in> set (counter ks)" by simp
qed

lemma counter_selected:
  assumes "us = map fst (filter (\<lambda>(k, n). P n) (counter ks))"
  shows "distinct us" "set us = {k \<in> set ks. P (int (count_list ks k))}"
proof -
  show "distinct us" unfolding assms using counter_keys(2)[of ks] by (simp add: distinct_map_filter)
  show "set us = {k \<in> set ks. P (int (count_list ks k))}" unfolding assms by (force simp: counter_entry)
qed

lemma count_filter: "P k \<Longrightarrow> count_list (filter P ks) k = count_list ks k"
  by (induction ks) auto

lemma sum_counts:
  assumes "distinct us" "set us = {k \<in> set ks. P k}"
  shows "(\<Sum>k\<leftarrow>us. int (count_list ks k)) = int (length (filter P ks))"
proof -
  have "count_list ks k = count_list (filter P ks) k" if "k \<in> set us" for k
    using that assms(2) by (simp add: count_filter)
  then have "(\<Sum>k\<leftarrow>us. int (count_list ks k)) = (\<Sum>k\<in>set us. int (count_list (filter P ks) k))"
    using assms(1) by (simp add: sum_list_distinct_conv_sum_set cong: sum.cong)
  also have "\<dots> = int (length (filter P ks))"
    using sum_count_set[of "filter P ks" "set us"] assms(2) by (simp flip: of_nat_sum)
  finally show ?thesis .
qed

lemma single_rows:
  assumes "distinct us" "set us = {k \<in> set ks. count_list ks k = 1}"
  shows "length (filter Q us) = length (filter (\<lambda>k. count_list ks k = 1 \<and> Q k) ks)"
proof -
  have "(\<Sum>k\<leftarrow>filter Q us. int (count_list ks k)) = int (length (filter (\<lambda>k. count_list ks k = 1 \<and> Q k) ks))"
    by (rule sum_counts) (use assms in auto)
  moreover have "(\<Sum>k\<leftarrow>filter Q us. int (count_list ks k)) = (\<Sum>k\<leftarrow>filter Q us. 1)"
    by (rule arg_cong[of _ _ sum_list], rule map_cong) (use assms(2) in auto)
  ultimately show ?thesis by (simp add: sum_list_triv)
qed


section \<open>Identities\<close>

text \<open>What is expected of one source row.\<close>

definition expected_outcome :: "mapping_target_mode \<Rightarrow> string option \<Rightarrow> identity_row list \<Rightarrow> identity_row list \<Rightarrow> identity_row
    \<Rightarrow> key_outcome" where
  "expected_outcome mode on_existing sources targets row =
    (if \<not> complete_row row \<or> count_list sources row \<noteq> 1 then Expected_Blocked
     else unique_key_outcome mode on_existing (int (count_list targets row)))"

lemma unique_outcomes:
  assumes "us = map fst (filter (\<lambda>(k, n). n = 1) (counter (filter complete_row sources)))" "x \<noteq> Expected_Blocked"
  shows "length (filter (\<lambda>y. y = x) (map (\<lambda>k. unique_key_outcome mode on_existing
        (dict_get (counter (filter complete_row targets)) k 0)) us))
      = length (filter (\<lambda>row. expected_outcome mode on_existing sources targets row = x) sources)"
proof -
  let ?ks = "filter complete_row sources"
  have us: "distinct us" "set us = {k \<in> set ?ks. count_list ?ks k = 1}"
    using counter_selected[OF assms(1)] by auto
  have "length (filter (\<lambda>y. y = x) (map (\<lambda>k. unique_key_outcome mode on_existing
        (dict_get (counter (filter complete_row targets)) k 0)) us))
      = length (filter (\<lambda>k. unique_key_outcome mode on_existing (dict_get (counter (filter complete_row targets)) k 0) = x) us)"
    by (simp add: filter_map o_def)
  also have "\<dots> = length (filter (\<lambda>k. count_list ?ks k = 1
      \<and> unique_key_outcome mode on_existing (dict_get (counter (filter complete_row targets)) k 0) = x) ?ks)"
    by (rule single_rows[OF us])
  also have "filter (\<lambda>k. count_list ?ks k = 1
      \<and> unique_key_outcome mode on_existing (dict_get (counter (filter complete_row targets)) k 0) = x) ?ks
      = filter (\<lambda>row. expected_outcome mode on_existing sources targets row = x) sources"
    unfolding filter_filter by (rule filter_cong) (use assms(2) in \<open>auto simp: expected_outcome_def get_counter count_filter\<close>)
  finally show ?thesis .
qed

lemma outcomes_partition: "length os = length (filter (\<lambda>y. y = Expected_New) os) + length (filter (\<lambda>y. y = Expected_Existing) os)
    + length (filter (\<lambda>y. y = Expected_Blocked) os)"
  by (induction os) (auto, metis key_outcome.exhaust)

lemma index_counts:
  assumes "index_matching_identity_keys fs source_keys target_keys = Inr idx"
  shows "idx = \<lparr>ik_target_fields = fs, ik_source_rows = map normalized_identity_key source_keys,
      ik_source_counts = counter (filter complete_row (map normalized_identity_key source_keys)),
      ik_target_counts = counter (filter complete_row (map normalized_identity_key target_keys))\<rparr>"
    "fs \<noteq> []" "distinct fs"
  using assms by (simp_all add: index_matching_identity_keys_def res_simps)

text \<open>C39: Classifying the identities of a dataset never fails on keys of the right shape, and expects every source row
  in exactly one way: blocked if its key is incomplete or repeated in the source, otherwise by the number of Odoo
  records with its key.  The three expected counts are the numbers of rows of each kind.\<close>

theorem identity_rows_are_expected_once:
  assumes idx: "index_matching_identity_keys fs source_keys target_keys = Inr idx" and names: "dataset \<noteq> []" "model \<noteq> []"
    and rows: "sources = map normalized_identity_key source_keys" "targets = map normalized_identity_key target_keys"
  shows "\<exists>r. classify_matching_identity dataset model fs source_keys target_keys mode on_existing = Inr r
    \<and> mi_expected_new_count r = int (length (filter (\<lambda>k. expected_outcome mode on_existing sources targets k = Expected_New) sources))
    \<and> mi_expected_existing_count r
        = int (length (filter (\<lambda>k. expected_outcome mode on_existing sources targets k = Expected_Existing) sources))
    \<and> mi_blocked_count r
        = int (length (filter (\<lambda>k. expected_outcome mode on_existing sources targets k = Expected_Blocked) sources))
    \<and> mi_source_row_count r = int (length source_keys)"
proof -
  let ?ks = "filter complete_row sources" and ?ts = "filter complete_row targets"
  define us where "us = map fst (filter (\<lambda>(k, n). n = 1) (counter ?ks))"
  define os where "os = map (\<lambda>k. unique_key_outcome mode on_existing (dict_get (counter ?ts) k 0)) us"
  define again where "again = filter (\<lambda>(k, n). n > 1) (counter ?ks)"
  let ?blank = "length (filter (\<lambda>k. \<not> complete_row k) sources)"
  note index = index_counts[OF idx, folded rows]
  have new: "length (filter (\<lambda>y. y = Expected_New) os)
        = length (filter (\<lambda>k. expected_outcome mode on_existing sources targets k = Expected_New) sources)"
    and existing: "length (filter (\<lambda>y. y = Expected_Existing) os)
        = length (filter (\<lambda>k. expected_outcome mode on_existing sources targets k = Expected_Existing) sources)"
    unfolding os_def by (rule unique_outcomes[OF us_def]; simp)+
  have us: "distinct us" "set us = {k \<in> set ?ks. count_list ?ks k = 1}" using counter_selected[OF us_def] by auto
  have singles: "length us = length (filter (\<lambda>k. count_list ?ks k = 1) ?ks)"
    using single_rows[OF us, of "\<lambda>_. True"] by simp
  have "count_total again = (\<Sum>k\<leftarrow>map fst again. int (count_list ?ks k))"
    unfolding count_total_def again_def map_map by (rule arg_cong[of _ _ sum_list], rule map_cong) (auto simp: counter_entry)
  also have "\<dots> = int (length (filter (\<lambda>k. int (count_list ?ks k) > 1) ?ks))"
    by (rule sum_counts) (use counter_selected[of "map fst again" "\<lambda>n. n > 1" ?ks] in \<open>simp_all add: again_def\<close>)
  also have "filter (\<lambda>k. int (count_list ?ks k) > 1) ?ks = filter (\<lambda>k. \<not> count_list ?ks k = 1) ?ks"
  proof (rule filter_cong[OF refl])
    fix k
    assume "k \<in> set ?ks"
    then have "count_list ?ks k \<noteq> 0" by (simp only: count_list_0_iff not_not)
    then show "(int (count_list ?ks k) > 1) = (\<not> count_list ?ks k = 1)" by linarith
  qed
  finally have repeated: "count_total again = int (length (filter (\<lambda>k. \<not> count_list ?ks k = 1) ?ks))" .
  have complete: "length ?ks = length us + length (filter (\<lambda>k. \<not> count_list ?ks k = 1) ?ks)"
    unfolding singles by (rule sum_length_filter_compl[symmetric])
  have all: "length sources = length ?ks + ?blank"
    by (rule sum_length_filter_compl[symmetric])
  have outcomes: "length us = length (filter (\<lambda>y. y = Expected_New) os) + length (filter (\<lambda>y. y = Expected_Existing) os)
      + length (filter (\<lambda>y. y = Expected_Blocked) os)"
    using outcomes_partition[of os] by (simp add: os_def)
  have "length sources = length (filter (\<lambda>y. y = Expected_New) (map (expected_outcome mode on_existing sources targets) sources))
      + length (filter (\<lambda>y. y = Expected_Existing) (map (expected_outcome mode on_existing sources targets) sources))
      + length (filter (\<lambda>y. y = Expected_Blocked) (map (expected_outcome mode on_existing sources targets) sources))"
    using outcomes_partition[of "map (expected_outcome mode on_existing sources targets) sources"] by simp
  then have blocked: "int ?blank + count_total again + int (length (filter (\<lambda>y. y = Expected_Blocked) os))
      = int (length (filter (\<lambda>k. expected_outcome mode on_existing sources targets k = Expected_Blocked) sources))"
    using new existing repeated complete all outcomes by (simp add: filter_map o_def)
  have nonneg: "0 \<le> count_total again" by (simp add: repeated)
  have "mk_identity_result r = Inr r" if "mi_dataset_id r = dataset" "mi_target_model r = model" "mi_target_fields r = fs"
      "mi_status r = Checked" "mi_not_checkable_reason r = None" "list_all (\<lambda>n. 0 \<le> n) (identity_counts r)"
      "mi_source_unique_row_count r + mi_source_blank_row_count r + mi_source_repeated_row_count r = mi_source_row_count r"
      "mi_expected_new_count r + mi_expected_existing_count r + mi_blocked_count r = mi_source_row_count r" for r
    using that names index(2,3) by (simp add: mk_identity_result_def)
  then show ?thesis
    unfolding classify_matching_identity_def idx bindr_simps classify_indexed_matching_identity_def index(1)
      identity_key_index.simps Let_def us_def[symmetric] os_def[symmetric] again_def[symmetric]
    using new existing blocked nonneg all complete repeated outcomes rows(1) by (simp add: identity_counts_def)
qed

theorem identity_rows_are_expected_once_witness:
  "\<exists>r. classify_matching_identity ''partners'' ''res.partner'' [''ref''] [[PText ''A''], [PText '' A ''], [PText ''B''], [PNone]]
      [[PText ''B'']] Upsert_Rows None = Inr r
    \<and> mi_expected_new_count r = 0 \<and> mi_expected_existing_count r = 1 \<and> mi_blocked_count r = 3"
proof -
  let ?s = "[[PText ''A''], [PText '' A ''], [PText ''B''], [PNone]]" and ?t = "[[PText ''B'']]"
  have rows: "map normalized_identity_key ?s = [[Some ''A''], [Some ''A''], [Some ''B''], [None]]"
      "map normalized_identity_key ?t = [[Some ''B'']]"
    by code_simp+
  obtain idx where "index_matching_identity_keys [''ref''] ?s ?t = Inr idx"
    by (simp add: index_matching_identity_keys_def)
  from identity_rows_are_expected_once[OF this _ _ refl refl, of "''partners''" "''res.partner''" Upsert_Rows None]
  show ?thesis unfolding rows by (auto simp: expected_outcome_def complete_row_def unique_key_outcome_def)
qed


section \<open>Relationships\<close>

definition counts_positive :: "('k \<times> int) list \<Rightarrow> bool" where
  "counts_positive d \<longleftrightarrow> distinct (map fst d) \<and> (\<forall>(_, n) \<in> set d. 1 \<le> n)"

lemma positive_get:
  assumes "counts_positive d"
  shows "k \<in> fst ` set d \<Longrightarrow> 1 \<le> dict_get d k 0" "0 \<le> dict_get d k 0"
proof -
  have item: "1 \<le> n" if "map_of d k = Some n" for n
    using map_of_SomeD[OF that] assms unfolding counts_positive_def by fast
  show "0 \<le> dict_get d k 0" using item by (fastforce simp: dict_get_def split: option.split)
  assume "k \<in> fst ` set d"
  then obtain n where "map_of d k = Some n" by (metis map_of_eq_None_iff not_None_eq)
  then show "1 \<le> dict_get d k 0" using item by (simp add: dict_get_def)
qed

lemma count_add_positive:
  assumes "counts_positive d" "1 \<le> n"
  shows "counts_positive (count_add d k n)"
proof -
  have keys: "distinct (map fst (count_add d k n))" using assms(1) by (simp add: counts_positive_def distinct_count_add)
  have get: "1 \<le> dict_get (count_add d k n) k' 0" if "k' \<in> fst ` set (count_add d k n)" for k'
  proof (cases "k' = k")
    case True
    then show ?thesis using positive_get(2)[OF assms(1), of k] assms(2) by (simp add: get_count_add)
  next
    case False
    then show ?thesis using that positive_get(1)[OF assms(1), of k'] by (simp add: get_count_add keys_count_add)
  qed
  have "1 \<le> m" if "(k', m) \<in> set (count_add d k n)" for k' m
  proof -
    have "dict_get (count_add d k n) k' 0 = m" using that keys by (simp add: dict_get_def)
    moreover have "k' \<in> fst ` set (count_add d k n)" using that by force
    ultimately show ?thesis using get by metis
  qed
  then show ?thesis using keys unfolding counts_positive_def by fast
qed

lemma normalized_positive:
  assumes "normalized_count_map items = Inr d"
  shows "counts_positive d"
proof -
  have "counts_positive d" if "foldr_res (\<lambda>d (raw, n). case normalized_key raw of None \<Rightarrow> Inl WorkspaceError
      | Some key \<Rightarrow> if n < 1 then Inl WorkspaceError else Inr (count_add d key n)) d0 xs = Inr d" "counts_positive d0" for xs d0
    using that by (induction xs arbitrary: d0) (auto simp: res_simps count_add_positive split: option.splits if_splits)
  from this[OF assms[unfolded normalized_count_map_def]] show ?thesis by (simp add: counts_positive_def)
qed

definition cause_total :: "choice_cause \<Rightarrow> choice_resolution list \<Rightarrow> int" where
  "cause_total cause cs = sum_list (map (\<lambda>c. if cr_cause c = cause then cr_occurrence_count c else 0) cs)"

lemma cause_total_unresolved:
  "cause_total cause (concat (map (\<lambda>(item, found). unresolved_choice item found) fs))
    = sum_list (map (\<lambda>(item, r). if fst r = Unresolved_Choice cause then snd item else 0) fs)"
proof (induction fs)
  case (Cons f fs)
  obtain item category a b origin where f: "f = (item, category, a, b, origin)" by (metis surj_pair)
  show ?case using Cons by (cases category) (simp_all add: f cause_total_def unresolved_choice_def)
qed (simp add: cause_total_def)

lemma resolve_choice_cause:
  "fst (resolve_choice origin reuse ts is key) = Unresolved_Choice cause
    \<Longrightarrow> cause \<in> {Missing_Choice, Ambiguous_Choice, Case_Only_Choice}"
  by (auto simp: resolve_choice_def Let_def split: if_splits lookup_outcome.splits)

lemma no_unresolved:
  assumes "\<And>c. c \<in> set cs \<Longrightarrow> cr_cause c \<in> {Missing_Choice, Ambiguous_Choice, Case_Only_Choice} \<and> 1 \<le> cr_occurrence_count c"
  shows "cs = [] \<longleftrightarrow> cause_total Missing_Choice cs + cause_total Ambiguous_Choice cs + cause_total Case_Only_Choice cs = 0"
proof -
  have "int (length cs) \<le> cause_total Missing_Choice cs + cause_total Ambiguous_Choice cs + cause_total Case_Only_Choice cs"
    using assms
  proof (induction cs)
    case (Cons c cs)
    then have "int (length cs) \<le> cause_total Missing_Choice cs + cause_total Ambiguous_Choice cs + cause_total Case_Only_Choice cs"
      by simp
    then show ?case using Cons.prems[of c] by (auto simp: cause_total_def)
  qed (simp add: cause_total_def)
  then show ?thesis by (auto simp: cause_total_def)
qed

lemma mk_health_result_Inr: "mk_health_result r = Inr r' \<Longrightarrow> r' = r \<and> list_all (\<lambda>n. 0 \<le> n) (health_counts r)"
  by (auto simp: mk_health_result_def res_simps)

text \<open>C40: A checked relationship is ready exactly when none of its choices is unresolved, no row is incomplete and no
  required row is blank; and the aggregate counts are the occurrences of the unresolved choices by their cause.\<close>

theorem relationship_is_ready_when_choices_resolve:
  assumes "classify_relationship_health q = Inr (r, unresolved, outcomes)"
  shows "(health_ready r \<longleftrightarrow> unresolved = [] \<and> hq_incomplete_row_count q = 0
        \<and> (hq_required q \<longrightarrow> hq_blank_row_count q = 0))
    \<and> rh_missing_count r = cause_total Missing_Choice unresolved
    \<and> rh_ambiguous_count r = cause_total Ambiguous_Choice unresolved
    \<and> rh_case_mismatch_count r = cause_total Case_Only_Choice unresolved"
proof -
  obtain sources incomings found where sources: "normalized_count_map (hq_source_key_counts q) = Inr sources"
    and found: "found = map (\<lambda>item. (item, resolve_choice (hq_resolver_origin q) (hq_resolver_origin q = Target_Then_Dataset_Origin
           \<and> allows_case_insensitive_payment_term_lookup (hq_related_model q))
         (counter (List.map_filter normalized_key (hq_target_keys q)),
          folded_counts (counter (List.map_filter normalized_key (hq_target_keys q))))
         (incomings, folded_counts incomings) (fst item))) sources"
    and made: "mk_health_result \<lparr>rh_owner_dataset_id = hq_owner_dataset_id q, rh_target_field = hq_target_field q,
       rh_relationship_kind = hq_relationship_kind q, rh_resolver_origin = hq_resolver_origin q,
       rh_related_model = hq_related_model q, rh_dependency_dataset_id = hq_dependency_dataset_id q,
       rh_required = hq_required q, rh_status = Checked, rh_not_checkable_reason = None,
       rh_source_row_count = hq_source_row_count q, rh_populated_choice_count = count_total sources,
       rh_blank_row_count = hq_blank_row_count q, rh_incomplete_row_count = hq_incomplete_row_count q,
       rh_target_count = sum_list (map (\<lambda>(item, r). if fst r = Target_Choice then snd item else 0) found),
       rh_incoming_count = sum_list (map (\<lambda>(item, r). if fst r = Incoming_Choice then snd item else 0) found),
       rh_missing_count = sum_list (map (\<lambda>(item, r). if fst r = Unresolved_Choice Missing_Choice then snd item else 0) found),
       rh_ambiguous_count = sum_list (map (\<lambda>(item, r). if fst r = Unresolved_Choice Ambiguous_Choice then snd item else 0) found),
       rh_case_mismatch_count = sum_list (map (\<lambda>(item, r). if fst r = Unresolved_Choice Case_Only_Choice then snd item else 0) found)\<rparr>
      = Inr r"
    and unresolved: "unresolved = concat (map (\<lambda>(item, found). unresolved_choice item found) found)"
    using assms unfolding classify_relationship_health_def Let_def res_simps by auto
  note r = mk_health_result_Inr[OF made]
  have totals: "rh_missing_count r = cause_total Missing_Choice unresolved"
      "rh_ambiguous_count r = cause_total Ambiguous_Choice unresolved"
      "rh_case_mismatch_count r = cause_total Case_Only_Choice unresolved"
    using r by (simp_all add: unresolved cause_total_unresolved)
  have "cr_cause c \<in> {Missing_Choice, Ambiguous_Choice, Case_Only_Choice} \<and> 1 \<le> cr_occurrence_count c"
    if member: "c \<in> set unresolved" for c
  proof -
    obtain f where f: "f \<in> set found" "c \<in> set (case f of (item, found) \<Rightarrow> unresolved_choice item found)"
      using member unfolding unresolved set_concat set_map by blast
    define item res where "item = fst f" and "res = snd f"
    have ir: "(item, res) \<in> set found" "c \<in> set (unresolved_choice item res)"
      using f by (simp_all add: item_def res_def split_def)
    then have c: "fst res = Unresolved_Choice (cr_cause c)" "cr_occurrence_count c = snd item"
      by (auto simp: unresolved_choice_def split: prod.splits choice_category.splits)
    have "item \<in> set sources" using ir(1) by (auto simp: found)
    then have "1 \<le> snd item" using normalized_positive[OF sources] by (auto simp: counts_positive_def)
    then show ?thesis using c ir(1) resolve_choice_cause by (fastforce simp: found)
  qed
  then have none: "unresolved = [] \<longleftrightarrow> cause_total Missing_Choice unresolved + cause_total Ambiguous_Choice unresolved
      + cause_total Case_Only_Choice unresolved = 0"
    by (rule no_unresolved)
  have ready: "health_ready r \<longleftrightarrow> health_blocked_count r = 0" using r by (simp add: health_ready_def)
  have parts: "rh_incomplete_row_count r = hq_incomplete_row_count q" "rh_blank_row_count r = hq_blank_row_count q"
      "rh_required r = hq_required q" using r by simp_all
  have signs: "0 \<le> rh_missing_count r" "0 \<le> rh_ambiguous_count r" "0 \<le> rh_case_mismatch_count r"
      "0 \<le> hq_incomplete_row_count q" "0 \<le> hq_blank_row_count q"
    using r by (simp_all add: health_counts_def)
  have "health_blocked_count r = 0 \<longleftrightarrow> unresolved = [] \<and> hq_incomplete_row_count q = 0 \<and> (hq_required q \<longrightarrow> hq_blank_row_count q = 0)"
    unfolding none health_blocked_count_def parts totals[symmetric] using signs by auto
  then show ?thesis using ready totals by simp
qed

definition sample_health :: health_input where
  "sample_health = \<lparr>hq_owner_dataset_id = ''partners'', hq_target_field = ''country_id'', hq_relationship_kind = ''many2one'',
     hq_resolver_origin = Target_Catalog_Origin, hq_related_model = ''res.country'', hq_dependency_dataset_id = None,
     hq_required = True, hq_source_row_count = 3, hq_source_key_counts = [([PText ''CH''], 2), ([PText ''ch''], 1)],
     hq_blank_row_count = 0, hq_incomplete_row_count = 0, hq_target_keys = [[PText ''CH'']], hq_incoming_key_counts = []\<rparr>"

theorem relationship_is_ready_when_choices_resolve_witness:
  "\<exists>r unresolved outcomes. classify_relationship_health sample_health = Inr (r, unresolved, outcomes)
    \<and> rh_case_mismatch_count r = cause_total Case_Only_Choice unresolved \<and> unresolved \<noteq> [] \<and> \<not> health_ready r"
proof -
  have "(case classify_relationship_health sample_health of Inl _ \<Rightarrow> None | Inr (r, unresolved, outcomes) \<Rightarrow>
      Some (map cr_occurrence_count unresolved)) = Some [1]" by code_simp
  then obtain r unresolved outcomes where run: "classify_relationship_health sample_health = Inr (r, unresolved, outcomes)"
      "unresolved \<noteq> []" by (auto split: sum.splits)
  then show ?thesis using relationship_is_ready_when_choices_resolve[OF run(1)] by blast
qed


section \<open>Portable results\<close>

lemma status_name [simp]: "member_of status_text statuses (status_text s) = Inr s"
  by (cases s; simp add: member_of_def statuses_def)

lemma origin_name [simp]: "member_of resolver_origin_text resolver_origins (resolver_origin_text c) = Inr c"
  by (cases c; simp add: member_of_def resolver_origins_def)

lemma identity_reason_name [simp]: "member_of identity_reason_text identity_reasons (identity_reason_text i) = Inr i"
  by (cases i; simp add: member_of_def identity_reasons_def)

lemma health_reason_name [simp]: "member_of health_reason_text health_reasons (health_reason_text h) = Inr h"
  by (cases h; simp add: member_of_def health_reasons_def)

lemma json_texts_map [simp]: "json_texts (map JText ss) = Inr ss"
  by (induction ss) simp_all

lemma optional_reason [simp]:
  "optional_member identity_reason_text identity_reasons (case reason_json identity_reason_text r of JNull \<Rightarrow> None | j \<Rightarrow> Some (json_str j)) = Inr r"
  "optional_member health_reason_text health_reasons (case reason_json health_reason_text h of JNull \<Rightarrow> None | j \<Rightarrow> Some (json_str j)) = Inr h"
  by (simp_all add: optional_member_def reason_json_def json_str_def split: option.split)

lemma payload_entry:
  "map_of p k = Some (JText s) \<Longrightarrow> payload_text p k = Inr s"
  "map_of p k = Some (JInt i) \<Longrightarrow> payload_count p k = Inr i"
  "map_of p k = Some (JBool b) \<Longrightarrow> payload_flag p k = Inr b"
  "map_of p k = Some (JArray (map JText ss)) \<Longrightarrow> payload_texts p k = Inr ss"
  "map_of p k = Some (case d of None \<Rightarrow> JNull | Some x \<Rightarrow> JText x) \<Longrightarrow> payload_optional p k = d"
  "map_of p k = Some (reason_json identity_reason_text r)
    \<Longrightarrow> optional_member identity_reason_text identity_reasons (payload_optional p k) = Inr r"
  "map_of p k = Some (reason_json health_reason_text h)
    \<Longrightarrow> optional_member health_reason_text health_reasons (payload_optional p k) = Inr h"
  by (auto simp: payload_text_def payload_count_def payload_flag_def payload_texts_def payload_optional_def dict_get_def
      json_str_def optional_member_def reason_json_def split: option.split)

lemma identity_entries:
  "payload_text (identity_result_dict i) ''dataset_id'' = Inr (mi_dataset_id i)"
  "payload_text (identity_result_dict i) ''target_model'' = Inr (mi_target_model i)"
  "payload_texts (identity_result_dict i) ''target_fields'' = Inr (mi_target_fields i)"
  "payload_text (identity_result_dict i) ''status'' = Inr (status_text (mi_status i))"
  "optional_member identity_reason_text identity_reasons (payload_optional (identity_result_dict i) ''not_checkable_reason'') = Inr (mi_not_checkable_reason i)"
  "payload_count (identity_result_dict i) ''source_row_count'' = Inr (mi_source_row_count i)"
  "payload_count (identity_result_dict i) ''source_unique_row_count'' = Inr (mi_source_unique_row_count i)"
  "payload_count (identity_result_dict i) ''source_blank_row_count'' = Inr (mi_source_blank_row_count i)"
  "payload_count (identity_result_dict i) ''source_repeated_row_count'' = Inr (mi_source_repeated_row_count i)"
  "payload_count (identity_result_dict i) ''source_repeated_group_count'' = Inr (mi_source_repeated_group_count i)"
  "payload_count (identity_result_dict i) ''target_unique_key_count'' = Inr (mi_target_unique_key_count i)"
  "payload_count (identity_result_dict i) ''target_ambiguous_key_count'' = Inr (mi_target_ambiguous_key_count i)"
  "payload_count (identity_result_dict i) ''expected_new_count'' = Inr (mi_expected_new_count i)"
  "payload_count (identity_result_dict i) ''expected_existing_count'' = Inr (mi_expected_existing_count i)"
  "payload_count (identity_result_dict i) ''blocked_count'' = Inr (mi_blocked_count i)"
  by (rule payload_entry; simp add: identity_result_dict_def)+

lemma health_entries:
  "payload_text (health_result_dict h) ''owner_dataset_id'' = Inr (rh_owner_dataset_id h)"
  "payload_text (health_result_dict h) ''target_field'' = Inr (rh_target_field h)"
  "payload_text (health_result_dict h) ''relationship_kind'' = Inr (rh_relationship_kind h)"
  "payload_text (health_result_dict h) ''related_model'' = Inr (rh_related_model h)"
  "payload_text (health_result_dict h) ''resolver_origin'' = Inr (resolver_origin_text (rh_resolver_origin h))"
  "payload_optional (health_result_dict h) ''dependency_dataset_id'' = rh_dependency_dataset_id h"
  "payload_flag (health_result_dict h) ''required'' = Inr (rh_required h)"
  "payload_text (health_result_dict h) ''status'' = Inr (status_text (rh_status h))"
  "optional_member health_reason_text health_reasons (payload_optional (health_result_dict h) ''not_checkable_reason'') = Inr (rh_not_checkable_reason h)"
  "payload_count (health_result_dict h) ''source_row_count'' = Inr (rh_source_row_count h)"
  "payload_count (health_result_dict h) ''populated_choice_count'' = Inr (rh_populated_choice_count h)"
  "payload_count (health_result_dict h) ''blank_row_count'' = Inr (rh_blank_row_count h)"
  "payload_count (health_result_dict h) ''incomplete_row_count'' = Inr (rh_incomplete_row_count h)"
  "payload_count (health_result_dict h) ''target_count'' = Inr (rh_target_count h)"
  "payload_count (health_result_dict h) ''incoming_count'' = Inr (rh_incoming_count h)"
  "payload_count (health_result_dict h) ''missing_count'' = Inr (rh_missing_count h)"
  "payload_count (health_result_dict h) ''ambiguous_count'' = Inr (rh_ambiguous_count h)"
  "payload_count (health_result_dict h) ''case_mismatch_count'' = Inr (rh_case_mismatch_count h)"
  by (rule payload_entry; simp add: health_result_dict_def)+

text \<open>The aggregate results of a live check survive their portable form: reading back the portable form of a valid
  identity or relationship result gives the same result.\<close>

theorem check_results_round_trip:
  "(mk_identity_result i = Inr i \<longrightarrow> identity_result_from_dict (identity_result_dict i) = Inr i)
   \<and> (mk_health_result h = Inr h \<longrightarrow> health_result_from_dict (health_result_dict h) = Inr h)"
proof (intro conjI impI)
  assume "mk_identity_result i = Inr i"
  then show "identity_result_from_dict (identity_result_dict i) = Inr i"
    by (simp add: identity_result_from_dict_def identity_entries) (cases i; simp)
next
  assume "mk_health_result h = Inr h"
  then show "health_result_from_dict (health_result_dict h) = Inr h"
    by (simp add: health_result_from_dict_def health_entries) (cases h; simp)
qed

theorem check_results_round_trip_witness:
  "\<exists>r u c. classify_relationship_health sample_health = Inr (r, u, c) \<and> health_result_from_dict (health_result_dict r) = Inr r"
proof -
  have "(case classify_relationship_health sample_health of Inl _ \<Rightarrow> None | Inr (r, _, _) \<Rightarrow>
      Some (mk_health_result r = Inr r)) = Some True" by code_simp
  then obtain r u c where "classify_relationship_health sample_health = Inr (r, u, c)" "mk_health_result r = Inr r"
    by (auto split: sum.splits)
  then show ?thesis using check_results_round_trip[of undefined r] by blast
qed

end
