(* ===== verification/Spec2Isabelle.thy ===== *)
theory Spec2Isabelle
imports Load_Control Load_Transport Schedule_Correctness Reconciliation_Properties Job_Properties Portable_Properties
  Canonical_Text Read_Plan_Properties Resolution_Properties Snapshot_Properties Preflight_Properties
  Matching_Order_Properties Matching_Health_Properties
begin

text \<open>
  Verification of Impodo (\<open>src/src/impodo\<close>), the Python program that prepares data, compares it with an Odoo database
  and loads it there after review.

  \<^bold>\<open>The program.\<close>  A mapping profile describes datasets: their target model, identity, fields and relations.  It is
  compiled into a plan.  A read-only preflight plans which Odoo records it needs, reads them, resolves the symbolic
  references of the prepared records and classifies each record against the captured ones.  A reviewed result is loaded
  in groups that respect the dependencies between rows, under a durable policy that stops the load after failures.
  Commands that touch two stores are driven by a coordinator over an operation journal and leases in PostgreSQL;
  reconciliation finds and rebuilds projections that are missing.  Long work runs as jobs.

  \<^bold>\<open>Theories and code.\<close>
  \<^item> Prelude, Texts: results that may raise, Python dictionaries as association lists in insertion order, stable
    sorting by a key, slices, text predicates, decimal numerals.  Effects: programs over a state that may raise after
    they changed it.
  \<^item> Portable_Values, Canonical_Text, Portable_Properties (\<open>domain/shared/models.py\<close>): typed values, their portable
    rendering and restoration, canonical JSON text, the guard against numeric Odoo identifiers.
  \<^item> Profile, Dataset_Graph, Compiled_Plan (\<open>domain/recipe/profile.py\<close>, \<open>domain/relationship_dependencies.py\<close>,
    \<open>domain/compiler\<close>): the contracts of a profile, the dependency edges between datasets and the search for a required
    cycle, the compiled plan.
  \<^item> Odoo_Domain, Domain_Chunks, Read_Plan, Target_Keys, Read_Plan_Properties (\<open>domain/execution/planner.py\<close>,
    \<open>domain/odoo/contracts.py\<close>): search domains, bounded domains over keys, the requests of a preflight.
  \<^item> Prepared_Records, Python_Values, Canonical_Values, Target_Catalog, Reference_Resolution, Resolution_Properties
    (\<open>domain/preparation/canonical.py\<close>, \<open>domain/data_version/catalog.py\<close>, \<open>domain/preparation/preflight.py\<close>): parsing
    and comparison of values, the catalogue of captured records, the recursive resolution of references.
  \<^item> Target_Metadata, Snapshot_Properties (\<open>domain/odoo/contracts.py\<close>, \<open>domain/odoo/company.py\<close>): captured metadata and
    records, merging, payloads and the streamed text.  Metadata_Checks (\<open>domain/data_version/metadata.py\<close>,
    \<open>selection_domains.py\<close>, \<open>domain/preparation/company_references.py\<close>): checks before rows are decided.
  \<^item> Preflight, Preflight_Properties (\<open>domain/preparation/preflight.py\<close>, \<open>domain/shared/models.py\<close>): the index of captured
    records, comparison, classification, the run and its portable result; every row is decided once, a decision agrees
    with the captured records.
  \<^item> Matching_Order, Matching_Order_Properties (\<open>domain/matching_order.py\<close>): the order of dataset groups, which reuses
    Components and Graph_Order, and the recommendations before and after a live check.  Matching_Health,
    Matching_Health_Properties (\<open>domain/matching_order.py\<close>, \<open>domain/relationship_health.py\<close>): the aggregate counts of a
    live check, equal to counts of individual rows and choices.
  \<^item> Components, Graph_Order, Dependency_Scheduler, Schedule_Correctness (\<open>domain/execution/dependency_scheduler.py\<close>):
    the row scheduler.  Load_Control (\<open>domain/execution/load_control.py\<close>), Load_Transport
    (\<open>application/workspace/execution/load_transport.py\<close>): the stop policy and the bisecting transport.
  \<^item> Coordination, Access_Control (\<open>domain/shared/coordination.py\<close>, \<open>access.py\<close>, \<open>tenancy.py\<close>, \<open>retention.py\<close>):
    operation, lease, receipt and authorization values.  Lease_Store, Operation_Journal, Journal_Runs,
    Journal_Properties (\<open>adapters/postgresql/coordination.py\<close>): leases and the journal as tables.
    Cross_Store, Cross_Store_Laws, Cross_Store_World, Cross_Store_Properties
    (\<open>application/shared/cross_store_coordinator.py\<close>): the coordinator, its contract with its ports as a locale, and
    the world of the model in which the contract is discharged.
    Reconciliation, Reconciliation_Properties (\<open>projection_reconciliation.py\<close>), Jobs, Job_Properties
    (\<open>domain/shared/jobs.py\<close>, \<open>adapters/jobs/inline.py\<close>, \<open>application/shared/jobs.py\<close>).

  \<^bold>\<open>Conventions.\<close>  A Python object is a record, an enumeration or union a datatype, a dictionary an association list.
  The validation of a constructor is the function \<open>mk_...\<close>.  An exception is a value of the type \<open>exn\<close>, with its text
  where the code uses the text.  Code that is not in the repository (digests, the clock, an Odoo server, the commands of
  a data plane, an artifact store) is a parameter; a theorem that needs a property of it states it as a hypothesis.
  Texts hold characters below 256.  PostgreSQL statements are transitions of tables: a violated check is a
  \<open>StorageError\<close>, a violated uniqueness an \<open>IdempotencyConflict\<close>.  Timestamps are compared as instants.  The only zone
  that matters is that of a receipt's commit time, whose ISO text is hashed: a receipt keeps its offset, a
  \<open>timestamptz\<close> column keeps the instant only and is read in the zone of the sessions (\<open>j_zone\<close>, one function from
  instants to offsets for all sessions of a database), and a receipt whose digest does not survive that is a
  \<open>StorageError\<close>.  The theorems on the journal, the coordinator and reconciliation hold for every such zone;
  \<open>receipt_of_another_zone_is_stuck\<close> shows what becomes of an operation with such a receipt, and a projected
  operation never has one.

  \<^bold>\<open>Bounds.\<close>  Loops are recursive functions that terminate for every input, by the measures in the theories, except for
  two that carry fuel: the visit of a dataset graph (one more than the number of datasets) and the recursion over rows
  (one more than the number of rows).  Lemmas show that the fuel suffices, so it never decides a result.  CPython has a
  recursion limit of its own, which a long enough chain of references between rows exceeds
  (\<open>preflight.py\<close>, the nested resolution of rows): the \<open>RecursionError\<close> it raises there is not modelled, and the
  theorems on resolution and on preflight runs are for interpreters whose limit is not reached.

  \<^bold>\<open>Not modelled.\<close>  The web interface, the DuckDB, Polars, workbook and Odoo adapters (drivers of libraries and I/O), the
  authoring domain before a profile exists (source capture, the mapping language and its validation, quality, normalisation,
  derived entities), runs and cutover plans, identity and sessions; PROJECT.json lists them with reasons.  Idealised: the cursor of a reconciliation query is
  a decoded payload, so the checks of its text (strip, non-blank, 2000 characters) are left out; a float of a captured
  Odoo record is the decimal of its text, and values Python cannot hash do not occur in captured records;
  the Odoo operator \<open>=\<close> is assumed not to tell \<open>False\<close> from 0 or \<open>True\<close> from 1 (the hypothesis \<open>lawful\<close>).
\<close>

end
